(* ===== verification/Rust_Std.thy ===== *)
theory Rust_Std
  imports Prelude "HOL-Library.Multiset"
begin

text \<open>
  The parts of Rust's standard library the program uses: byte readers and their
  \<open>read\<close>/\<open>read_exact\<close>, UTF-8 validation as \<open>String::from_utf8\<close> does it, and a few string
  functions. Everything here is defined, nothing assumed.
\<close>

section \<open>Byte readers\<close>

text \<open>
  An \<open>io::Error\<close> as the program looks at it: its kind, or an operating-system code.
\<close>

datatype io_error = Io_UnexpectedEof | Io_InvalidInput | Io_WriteZero | Io_BrokenPipe | Io_Other u32

text \<open>
  A stream that implements \<open>Read\<close>: the bytes it will still deliver, and what happens after
  them: end of file (\<open>None\<close>) or a failing read.
\<close>

record reader =
  avail :: "u8 list"
  fault :: "io_error option"

text \<open>\<open>read\<close> with a one-byte buffer: \<open>Ok(0)\<close> is \<open>None\<close>, \<open>Ok(1)\<close> is the byte.\<close>

definition read_byte :: "reader \<Rightarrow> io_error + (u8 option \<times> reader)" where
  "read_byte r = (case avail r of
     b # bs \<Rightarrow> Inr (Some b, r\<lparr>avail := bs\<rparr>)
   | [] \<Rightarrow> (case fault r of None \<Rightarrow> Inr (None, r) | Some e \<Rightarrow> Inl e))"

text \<open>\<open>read_exact\<close> for a buffer of \<open>n\<close> bytes.\<close>

definition read_exact :: "nat \<Rightarrow> reader \<Rightarrow> io_error + (u8 list \<times> reader)" where
  "read_exact n r =
     (if n \<le> length (avail r) then Inr (take n (avail r), r\<lparr>avail := drop n (avail r)\<rparr>)
      else case fault r of None \<Rightarrow> Inl Io_UnexpectedEof | Some e \<Rightarrow> Inl e)"

abbreviation push_front :: "u8 list \<Rightarrow> reader \<Rightarrow> reader" where
  "push_front bs r \<equiv> r\<lparr>avail := bs @ avail r\<rparr>"

definition of_bytes :: "u8 list \<Rightarrow> reader" where
  "of_bytes bs = \<lparr>avail = bs, fault = None\<rparr>"

lemma of_bytes_simps [simp]: "avail (of_bytes bs) = bs" "fault (of_bytes bs) = None"
  by (simp_all add: of_bytes_def)

lemma push_front_push_front [simp]: "push_front xs (push_front ys r) = push_front (xs @ ys) r"
  by simp

lemma push_front_Nil [simp]: "push_front [] r = r"
  by simp

lemma of_bytes_append: "of_bytes (bs @ cs) = push_front bs (of_bytes cs)"
  by (simp add: of_bytes_def)

lemma read_byte_push [simp]: "read_byte (r\<lparr>avail := b # bs\<rparr>) = Inr (Some b, r\<lparr>avail := bs\<rparr>)"
  by (simp add: read_byte_def)

lemma read_exact_push:
  "length bs = n \<Longrightarrow> read_exact n (r\<lparr>avail := bs @ cs\<rparr>) = Inr (bs, r\<lparr>avail := cs\<rparr>)"
  by (simp add: read_exact_def)

lemma read_exact_0 [simp]: "read_exact 0 r = Inr ([], r)"
  by (simp add: read_exact_def)

lemma read_exact_short:
  "length (avail r) < n \<Longrightarrow> fault r = None \<Longrightarrow> read_exact n r = Inl Io_UnexpectedEof"
  by (simp add: read_exact_def)

lemma read_exact_Inr:
  "read_exact n r = Inr (bs, r') \<longleftrightarrow>
     n \<le> length (avail r) \<and> bs = take n (avail r) \<and> r' = r\<lparr>avail := drop n (avail r)\<rparr>"
  by (auto simp: read_exact_def split: option.splits if_splits)

section \<open>Strings\<close>

definition as_bytes :: "string \<Rightarrow> u8 list" where
  "as_bytes s = map (\<lambda>c. word_of_nat (of_char c)) s"

definition bytes_to_string :: "u8 list \<Rightarrow> string" where
  "bytes_to_string bs = map (\<lambda>b. char_of (unat b)) bs"

lemma length_as_bytes [simp]: "length (as_bytes s) = length s"
  by (simp add: as_bytes_def)

lemma length_bytes_to_string [simp]: "length (bytes_to_string bs) = length bs"
  by (simp add: bytes_to_string_def)

lemma bytes_to_string_as_bytes [simp]: "bytes_to_string (as_bytes s) = s"
proof -
  have "char_of (unat (word_of_nat (of_char c) :: u8)) = c" for c
  proof -
    have "of_char c < (256::nat)" by (rule nat_of_char_less_256)
    then show ?thesis by (simp add: unat_of_nat)
  qed
  then show ?thesis by (simp add: as_bytes_def bytes_to_string_def comp_def)
qed

lemma as_bytes_bytes_to_string [simp]: "as_bytes (bytes_to_string bs) = bs"
proof -
  have "(word_of_nat (of_char (char_of (unat b) :: char)) :: u8) = b" for b
  proof -
    have "unat b < 256" using unsigned_less [of b] by simp
    then show ?thesis by simp
  qed
  then show ?thesis by (simp add: as_bytes_def bytes_to_string_def comp_def)
qed

lemma as_bytes_inject [simp]: "as_bytes s = as_bytes t \<longleftrightarrow> s = t"
  by (metis bytes_to_string_as_bytes)

text \<open>UTF-8 validation, by the well-formed byte sequences \<open>core::str\<close> accepts.\<close>

abbreviation is_cont :: "u8 \<Rightarrow> bool" where
  "is_cont b \<equiv> 0x80 \<le> b \<and> b \<le> 0xBF"

fun utf8_valid :: "u8 list \<Rightarrow> bool" where
  "utf8_valid [] = True"
| "utf8_valid (a # bs) =
     (if a < 0x80 then utf8_valid bs
      else if 0xC2 \<le> a \<and> a \<le> 0xDF then
        (case bs of b # cs \<Rightarrow> is_cont b \<and> utf8_valid cs | _ \<Rightarrow> False)
      else if 0xE0 \<le> a \<and> a \<le> 0xEF then
        (case bs of b # c # ds \<Rightarrow>
           (if a = 0xE0 then 0xA0 \<le> b \<and> b \<le> 0xBF
            else if a = 0xED then 0x80 \<le> b \<and> b \<le> 0x9F else is_cont b)
           \<and> is_cont c \<and> utf8_valid ds
         | _ \<Rightarrow> False)
      else if 0xF0 \<le> a \<and> a \<le> 0xF4 then
        (case bs of b # c # d # es \<Rightarrow>
           (if a = 0xF0 then 0x90 \<le> b \<and> b \<le> 0xBF
            else if a = 0xF4 then 0x80 \<le> b \<and> b \<le> 0x8F else is_cont b)
           \<and> is_cont c \<and> is_cont d \<and> utf8_valid es
         | _ \<Rightarrow> False)
      else False)"

text \<open>A value of Rust's type \<open>String\<close>.\<close>

definition rust_string :: "string \<Rightarrow> bool" where
  "rust_string s \<longleftrightarrow> utf8_valid (as_bytes s)"

text \<open>\<open>String::from_utf8\<close>; the error's details are not looked at by the program.\<close>

definition from_utf8 :: "u8 list \<Rightarrow> unit + string" where
  "from_utf8 bs = (if utf8_valid bs then Inr (bytes_to_string bs) else Inl ())"

lemma from_utf8_as_bytes [simp]: "rust_string s \<Longrightarrow> from_utf8 (as_bytes s) = Inr s"
  by (simp add: from_utf8_def rust_string_def)

lemma from_utf8_Inr: "from_utf8 bs = Inr s \<longleftrightarrow> utf8_valid bs \<and> bs = as_bytes s"
  by (auto simp: from_utf8_def)

lemma rust_string_ascii: "list_all (\<lambda>c. of_char c < (128::nat)) s \<Longrightarrow> rust_string s"
proof (induction s)
  case (Cons c s)
  have "(word_of_nat (of_char c) :: u8) < 0x80" if "of_char c < (128::nat)"
    using that by (simp add: word_less_nat_alt unat_of_nat)
  with Cons show ?case by (simp add: rust_string_def as_bytes_def)
qed (simp add: rust_string_def as_bytes_def)

section \<open>Ordering\<close>

text \<open>\<open>str\<close> is ordered by its bytes.\<close>

fun str_less :: "string \<Rightarrow> string \<Rightarrow> bool" where
  "str_less _ [] = False"
| "str_less [] (_ # _) = True"
| "str_less (a # as) (b # bs) =
     (of_char a < (of_char b :: nat) \<or> a = b \<and> str_less as bs)"

lemma str_less_irrefl [simp]: "\<not> str_less s s"
  by (induction s) auto

lemma str_less_trans: "str_less s t \<Longrightarrow> str_less t u \<Longrightarrow> str_less s u"
proof (induction s t arbitrary: u rule: str_less.induct)
  case (3 a as b bs)
  then show ?case by (cases u) auto
next
  case (2 b bs)
  then show ?case by (cases u) auto
qed simp

lemma str_less_total: "s = t \<or> str_less s t \<or> str_less t s"
proof (induction s t rule: str_less.induct)
  case (1 s)
  then show ?case by (cases s) auto
next
  case (3 a as b bs)
  have "of_char a = (of_char b :: nat) \<Longrightarrow> a = b" by simp
  with 3 show ?case by (cases "of_char a < (of_char b :: nat)") force+
qed simp

text \<open>
  \<open>sort_by\<close>: a stable sort by a comparison, given here as the relation ``not greater''. For a
  total order every stable sort has the same result.
\<close>

primrec insert_by :: "('a \<Rightarrow> 'a \<Rightarrow> bool) \<Rightarrow> 'a \<Rightarrow> 'a list \<Rightarrow> 'a list" where
  "insert_by le x [] = [x]"
| "insert_by le x (y # ys) = (if le x y then x # y # ys else y # insert_by le x ys)"

definition sort_by :: "('a \<Rightarrow> 'a \<Rightarrow> bool) \<Rightarrow> 'a list \<Rightarrow> 'a list" where
  "sort_by le xs = foldr (insert_by le) xs []"

lemma set_insert_by [simp]: "set (insert_by le x ys) = insert x (set ys)"
  by (induction ys) auto

lemma mset_insert_by [simp]: "mset (insert_by le x ys) = add_mset x (mset ys)"
  by (induction ys) auto

lemma mset_sort_by [simp]: "mset (sort_by le xs) = mset xs"
  by (induction xs) (simp_all add: sort_by_def)

lemma set_sort_by [simp]: "set (sort_by le xs) = set xs"
  by (metis mset_sort_by set_mset_mset)

lemma length_sort_by [simp]: "length (sort_by le xs) = length xs"
  by (metis mset_sort_by size_mset)

lemma sorted_insert_by:
  assumes "\<And>x y. x \<in> A \<Longrightarrow> y \<in> A \<Longrightarrow> le x y \<or> le y x"
    and "\<And>x y z. x \<in> A \<Longrightarrow> y \<in> A \<Longrightarrow> z \<in> A \<Longrightarrow> le x y \<Longrightarrow> le y z \<Longrightarrow> le x z"
    and "sorted_wrt le ys" and "x \<in> A" and "set ys \<subseteq> A"
  shows "sorted_wrt le (insert_by le x ys)"
  using assms(3-5)
proof (induction ys)
  case (Cons y ys)
  then have yA: "y \<in> A" "set ys \<subseteq> A" by simp_all
  show ?case
  proof (cases "le x y")
    case True
    have "le x z" if "z \<in> set ys" for z
      using assms(2) [OF Cons.prems(2) yA(1) _ True, of z] that Cons.prems(1) yA(2) by auto
    with True Cons.prems show ?thesis by simp
  next
    case False
    then have "le y x" using assms(1) Cons.prems(2) yA by blast
    with False Cons yA show ?thesis by auto
  qed
qed simp

lemma sorted_sort_by:
  assumes "\<And>x y. x \<in> A \<Longrightarrow> y \<in> A \<Longrightarrow> le x y \<or> le y x"
    and "\<And>x y z. x \<in> A \<Longrightarrow> y \<in> A \<Longrightarrow> z \<in> A \<Longrightarrow> le x y \<Longrightarrow> le y z \<Longrightarrow> le x z"
    and "set xs \<subseteq> A"
  shows "sorted_wrt le (sort_by le xs)"
  using assms(3)
proof (induction xs)
  case (Cons x xs)
  then have "sorted_wrt le (sort_by le xs)" "set (sort_by le xs) \<subseteq> A" by simp_all
  then have "sorted_wrt le (insert_by le x (sort_by le xs))"
    using Cons.prems by (intro sorted_insert_by [OF assms(1,2)]) simp_all
  then show ?case by (simp add: sort_by_def)
qed (simp add: sort_by_def)

end
