(* ===== verification/Wide_Strings.thy ===== *)
theory Wide_Strings
  imports Rust_Std
begin

text \<open>
  Characters of a string, their UTF-16 form, white space and letter case, as \<open>str\<close> and
  \<open>OsStr\<close> have them, and the two conversions of \<^verbatim>\<open>crates/pigtree-ipc/src/validator.rs\<close> for
  the wide strings of Windows.
\<close>

section \<open>Characters\<close>

text \<open>The scalar values of valid UTF-8, and the encoding of one.\<close>

fun utf8_decode :: "u8 list \<Rightarrow> nat list" where
  "utf8_decode [] = []"
| "utf8_decode (a # bs) =
     (if a < 0x80 then unat a # utf8_decode bs
      else if a < 0xE0 then
        (case bs of b # cs \<Rightarrow> ((unat a - 0xC0) * 64 + (unat b - 0x80)) # utf8_decode cs | _ \<Rightarrow> [])
      else if a < 0xF0 then
        (case bs of b # c # ds \<Rightarrow>
           ((unat a - 0xE0) * 4096 + (unat b - 0x80) * 64 + (unat c - 0x80)) # utf8_decode ds
         | _ \<Rightarrow> [])
      else
        (case bs of b # c # d # es \<Rightarrow>
           ((unat a - 0xF0) * 262144 + (unat b - 0x80) * 4096 + (unat c - 0x80) * 64 + (unat d - 0x80))
             # utf8_decode es
         | _ \<Rightarrow> []))"

definition utf8_encode_char :: "nat \<Rightarrow> u8 list" where
  "utf8_encode_char n = map word_of_nat
     (if n < 0x80 then [n]
      else if n < 0x800 then [0xC0 + n div 64, 0x80 + n mod 64]
      else if n < 0x10000 then [0xE0 + n div 4096, 0x80 + n div 64 mod 64, 0x80 + n mod 64]
      else [0xF0 + n div 262144, 0x80 + n div 4096 mod 64, 0x80 + n div 64 mod 64, 0x80 + n mod 64])"

definition scalar_value :: "nat \<Rightarrow> bool" where
  "scalar_value n \<longleftrightarrow> n < 0xD800 \<or> 0xDFFF < n \<and> n < 0x110000"

section \<open>UTF-16\<close>

definition utf16_encode_char :: "nat \<Rightarrow> u16 list" where
  "utf16_encode_char n = map word_of_nat
     (if n < 0x10000 then [n] else [0xD800 + (n - 0x10000) div 1024, 0xDC00 + (n - 0x10000) mod 1024])"

definition encode_utf16 :: "string \<Rightarrow> u16 list" where
  "encode_utf16 s = concat (map utf16_encode_char (utf8_decode (as_bytes s)))"

text \<open>\<open>String::from_utf16_lossy\<close>: an unpaired surrogate becomes the replacement character.\<close>

fun utf16_decode_lossy :: "u16 list \<Rightarrow> nat list" where
  "utf16_decode_lossy [] = []"
| "utf16_decode_lossy (u # us) =
     (if u < 0xD800 \<or> 0xDFFF < u then unat u # utf16_decode_lossy us
      else if 0xDBFF < u then 0xFFFD # utf16_decode_lossy us
      else (case us of
        v # vs \<Rightarrow>
          if 0xDC00 \<le> v \<and> v \<le> 0xDFFF
          then (0x10000 + (unat u - 0xD800) * 1024 + (unat v - 0xDC00)) # utf16_decode_lossy vs
          else 0xFFFD # utf16_decode_lossy us
      | [] \<Rightarrow> [0xFFFD]))"

definition from_utf16_lossy :: "u16 list \<Rightarrow> string" where
  "from_utf16_lossy us = bytes_to_string (concat (map utf8_encode_char (utf16_decode_lossy us)))"

definition to_wide_null :: "string \<Rightarrow> u16 list" where
  "to_wide_null s = encode_utf16 s @ [0]"

definition wide_slice_to_string :: "u16 list \<Rightarrow> string" where
  "wide_slice_to_string wide = from_utf16_lossy (takeWhile (\<lambda>c. c \<noteq> 0) wide)"

section \<open>White space and letter case\<close>

text \<open>The length of the white-space character the string starts with, 0 if there is none.\<close>

definition code_at :: "string \<Rightarrow> nat \<Rightarrow> nat" where
  "code_at s i = (if i < length s then of_char (s ! i) else 0)"

definition white_space_len :: "string \<Rightarrow> nat" where
  "white_space_len s =
     (let a = code_at s 0; b = code_at s 1; c = code_at s 2 in
      if 9 \<le> a \<and> a \<le> 13 \<or> a = 32 then 1
      else if a = 0xC2 \<and> (b = 0x85 \<or> b = 0xA0) then 2
      else if a = 0xE1 \<and> b = 0x9A \<and> c = 0x80 then 3
      else if a = 0xE2 \<and> b = 0x80 \<and> (0x80 \<le> c \<and> c \<le> 0x8A \<or> c = 0xA8 \<or> c = 0xA9 \<or> c = 0xAF) then 3
      else if a = 0xE2 \<and> b = 0x81 \<and> c = 0x9F then 3
      else if a = 0xE3 \<and> b = 0x80 \<and> c = 0x80 then 3
      else 0)"

function trim_start :: "string \<Rightarrow> string" where
  "trim_start s = (if white_space_len s = 0 \<or> s = [] then s else trim_start (drop (white_space_len s) s))"
  by pat_completeness auto
termination by (relation "measure length") auto

text \<open>The same from the end: the white-space character a string ends with.\<close>

definition white_space_suffix :: "string \<Rightarrow> nat" where
  "white_space_suffix s =
     (if s \<noteq> [] \<and> white_space_len (drop (length s - 1) s) = 1 then 1
      else if 2 \<le> length s \<and> white_space_len (drop (length s - 2) s) = 2 then 2
      else if 3 \<le> length s \<and> white_space_len (drop (length s - 3) s) = 3 then 3
      else 0)"

function trim_end :: "string \<Rightarrow> string" where
  "trim_end s = (if white_space_suffix s = 0 \<or> s = [] then s else trim_end (take (length s - white_space_suffix s) s))"
  by pat_completeness auto
termination by (relation "measure length") auto

declare trim_start.simps [simp del] trim_end.simps [simp del]

definition trim :: "string \<Rightarrow> string" where
  "trim s = trim_end (trim_start s)"

definition ascii_lower :: "char \<Rightarrow> char" where
  "ascii_lower c = (if 65 \<le> (of_char c :: nat) \<and> (of_char c :: nat) \<le> 90 then char_of (of_char c + 32 :: nat) else c)"

definition eq_ignore_ascii_case :: "string \<Rightarrow> string \<Rightarrow> bool" where
  "eq_ignore_ascii_case s t \<longleftrightarrow> map ascii_lower s = map ascii_lower t"

definition is_ascii_alphabetic :: "char \<Rightarrow> bool" where
  "is_ascii_alphabetic c \<longleftrightarrow> (let n = of_char c :: nat in 65 \<le> n \<and> n \<le> 90 \<or> 97 \<le> n \<and> n \<le> 122)"

section \<open>Wide strings lose nothing\<close>

definition decodes :: "u8 list \<Rightarrow> bool" where
  "decodes bs \<longleftrightarrow> concat (map utf8_encode_char (utf8_decode bs)) = bs
     \<and> list_all scalar_value (utf8_decode bs) \<and> (0 \<in> set (utf8_decode bs) \<longrightarrow> 0 \<in> set bs)"

lemma unat_bounds:
  fixes a :: u8
  shows "numeral k \<le> a \<longleftrightarrow> unat (numeral k :: u8) \<le> unat a" "a \<le> numeral k \<longleftrightarrow> unat a \<le> unat (numeral k :: u8)"
    "a < numeral k \<longleftrightarrow> unat a < unat (numeral k :: u8)"
  by (simp_all add: word_le_nat_alt word_less_nat_alt)

lemma byte_offset: "unat (a :: u8) = numeral k + x \<Longrightarrow> numeral k + word_of_nat x = a"
proof -
  assume "unat a = numeral k + x"
  then have "word_of_nat (numeral k + x) = (word_of_nat (unat a) :: u8)" by simp
  then show ?thesis by (simp only: of_nat_add of_nat_numeral) simp
qed

lemma base_64: "z < 64 \<Longrightarrow> (m * 64 + z) div 64 = m" "z < 64 \<Longrightarrow> (m * 64 + z) mod 64 = (z :: nat)"
  by simp_all

lemma offset_of: "(numeral k :: nat) \<le> n \<Longrightarrow> \<exists>x. n = numeral k + x"
  by (rule le_Suc_ex)

lemma digits_64:
  assumes "z < 64" and "y < 64" and "n = x * 4096 + y * 64 + (z :: nat)"
  shows "n div 4096 = x" "n div 64 mod 64 = y" "n mod 64 = z" "n div 64 = x * 64 + y"
proof -
  have n: "n = (x * 64 + y) * 64 + z" using assms(3) by simp
  show q: "n div 64 = x * 64 + y" and "n mod 64 = z" by (simp_all only: n base_64 [OF assms(1)])
  show "n div 64 mod 64 = y" by (simp only: q base_64 [OF assms(2)])
  have "n div 4096 = n div 64 div 64" by (simp flip: div_mult2_eq)
  then show "n div 4096 = x" by (simp only: q base_64 [OF assms(2)])
qed

lemma decode_2:
  assumes "0xC2 \<le> unat a" "unat a \<le> 0xDF" "0x80 \<le> unat b" "unat b \<le> 0xBF"
  defines "n \<equiv> (unat a - 0xC0) * 64 + (unat b - 0x80)"
  shows "utf8_encode_char n = [a, b] \<and> scalar_value n \<and> 0 < n"
proof -
  obtain x where x: "unat a = 0xC0 + x" using assms(1) offset_of [of _ "unat a"] by (metis le_trans numeral_le_iff semiring_norm(68,69,71,72,73))
  obtain y where y: "unat b = 0x80 + y" using assms(3) offset_of by blast
  from assms x y have "2 \<le> x" "x < 32" "y < 64" by simp_all
  then show ?thesis
    using x y by (simp add: n_def utf8_encode_char_def scalar_value_def byte_offset)
qed

lemma decode_3:
  assumes "0xE0 \<le> unat a" "unat a \<le> 0xEF" "0x80 \<le> unat b" "unat b \<le> 0xBF" "0x80 \<le> unat c" "unat c \<le> 0xBF"
    and "unat a = 0xE0 \<Longrightarrow> 0xA0 \<le> unat b" and "unat a = 0xED \<Longrightarrow> unat b \<le> 0x9F"
  defines "n \<equiv> (unat a - 0xE0) * 4096 + (unat b - 0x80) * 64 + (unat c - 0x80)"
  shows "utf8_encode_char n = [a, b, c] \<and> scalar_value n \<and> 0 < n"
proof -
  obtain x where x: "unat a = 0xE0 + x" using assms(1) offset_of by blast
  obtain y where y: "unat b = 0x80 + y" using assms(3) offset_of by blast
  obtain z where z: "unat c = 0x80 + z" using assms(5) offset_of by blast
  from assms x y z have b: "x < 16" "y < 64" "z < 64" "x = 0 \<Longrightarrow> 32 \<le> y" "x = 13 \<Longrightarrow> y < 32" by simp_all
  have n: "n = x * 4096 + y * 64 + z" by (simp add: n_def x y z)
  have r: "0x800 \<le> n" "n < 0x10000" using b by (cases "x = 0"; simp add: n)+
  have q: "n div 4096 = x" "n div 64 mod 64 = y" "n mod 64 = z" by (fact digits_64 [OF b(3,2) n])+
  have "n < 0xD800 \<or> 0xDFFF < n" using b by (cases "x = 13"; simp add: n; arith?)
  with r q show ?thesis
    using x y z by (simp add: utf8_encode_char_def scalar_value_def byte_offset)
qed

lemma decode_4:
  assumes "0xF0 \<le> unat a" "unat a \<le> 0xF4" "0x80 \<le> unat b" "unat b \<le> 0xBF" "0x80 \<le> unat c" "unat c \<le> 0xBF"
    "0x80 \<le> unat d" "unat d \<le> 0xBF"
    and "unat a = 0xF0 \<Longrightarrow> 0x90 \<le> unat b" and "unat a = 0xF4 \<Longrightarrow> unat b \<le> 0x8F"
  defines "n \<equiv> (unat a - 0xF0) * 262144 + (unat b - 0x80) * 4096 + (unat c - 0x80) * 64 + (unat d - 0x80)"
  shows "utf8_encode_char n = [a, b, c, d] \<and> scalar_value n \<and> 0 < n"
proof -
  obtain x where x: "unat a = 0xF0 + x" using assms(1) offset_of by blast
  obtain y where y: "unat b = 0x80 + y" using assms(3) offset_of by blast
  obtain z where z: "unat c = 0x80 + z" using assms(5) offset_of by blast
  obtain w where w: "unat d = 0x80 + w" using assms(7) offset_of by blast
  from assms x y z w have b: "x \<le> 4" "y < 64" "z < 64" "w < 64" "x = 0 \<Longrightarrow> 16 \<le> y" "x = 4 \<Longrightarrow> y < 16"
    by simp_all
  have n: "n = x * 262144 + y * 4096 + z * 64 + w" by (simp add: n_def x y z w)
  have r: "0x10000 \<le> n" using b by (cases "x = 0"; simp add: n)
  have r': "n < 0x110000" using b by (cases "x = 4"; simp add: n)
  have q: "n div 262144 = x" "n div 4096 mod 64 = y" "n div 64 mod 64 = z" "n mod 64 = w"
    using digits_64 [OF b(4,3), of n "x * 64 + y"] digits_64 [OF b(3,2), of "n div 64" x] div_mult2_eq [of n 64 4096]
    by (simp_all add: n)
  from r r' q show ?thesis
    using x y z w by (simp add: utf8_encode_char_def scalar_value_def byte_offset)
qed


lemma utf8_valid_decodes: "utf8_valid bs \<Longrightarrow> decodes bs"
proof (induction bs rule: utf8_valid.induct)
  case (2 a bs)
  consider "a < 0x80" | "0xC2 \<le> a" "a \<le> 0xDF" | "0xE0 \<le> a" "a \<le> 0xEF" | "0xF0 \<le> a" "a \<le> 0xF4"
    using "2.prems" by (auto split: if_splits)
  then show ?case
  proof cases
    case 1
    then have "utf8_encode_char (unat a) = [a]" "scalar_value (unat a)" "unat a = 0 \<longleftrightarrow> a = 0"
      by (simp_all add: utf8_encode_char_def scalar_value_def word_less_nat_alt unat_eq_0)
    with 1 2 show ?thesis by (auto simp: decodes_def)
  next
    case 2
    with "2.prems" obtain b cs where "bs = b # cs" "is_cont b" "utf8_valid cs"
      by (auto simp: word_le_nat_alt word_less_nat_alt split: list.splits)
    with 2 "2.IH"(2) [of b cs] decode_2 [of a b] show ?thesis
      by (auto simp: decodes_def word_le_nat_alt word_less_nat_alt)
  next
    case 3
    with "2.prems" obtain b c ds where "bs = b # c # ds" "is_cont b" "is_cont c" "utf8_valid ds"
      "a = 0xE0 \<Longrightarrow> 0xA0 \<le> b" "a = 0xED \<Longrightarrow> b \<le> 0x9F"
      by (auto simp: word_le_nat_alt word_less_nat_alt split: list.splits if_splits)
    with 3 "2.IH"(3) [of b "c # ds" c ds] decode_3 [of a b c] show ?thesis
      by (auto simp: decodes_def word_le_nat_alt word_less_nat_alt word_unat_eq_iff)
  next
    case 4
    with "2.prems" obtain b c d es where "bs = b # c # d # es" "is_cont b" "is_cont c" "is_cont d" "utf8_valid es"
      "a = 0xF0 \<Longrightarrow> 0x90 \<le> b" "a = 0xF4 \<Longrightarrow> b \<le> 0x8F"
      by (auto simp: word_le_nat_alt word_less_nat_alt split: list.splits if_splits)
    with 4 "2.IH"(4) [of b "c # d # es" c "d # es" d es] decode_4 [of a b c d] show ?thesis
      by (auto simp: decodes_def word_le_nat_alt word_less_nat_alt word_unat_eq_iff)
  qed
qed (simp add: decodes_def)

lemma utf16_char_roundtrip:
  assumes "scalar_value n"
  shows "utf16_decode_lossy (utf16_encode_char n @ us) = n # utf16_decode_lossy us"
    and "0 \<in> set (utf16_encode_char n) \<Longrightarrow> n = 0"
proof -
  have "utf16_decode_lossy (utf16_encode_char n @ us) = n # utf16_decode_lossy us
      \<and> (0 \<in> set (utf16_encode_char n) \<longrightarrow> n = 0)"
  proof (cases "n < 0x10000")
    case True
    then have "unat (word_of_nat n :: u16) = n" by (simp add: unat_of_nat)
    with True assms show ?thesis
      by (auto simp: utf16_encode_char_def scalar_value_def word_less_nat_alt word_unat_eq_iff)
  next
    case False
    obtain m where n: "n = 0x10000 + m" using False offset_of [of _ n] by (metis not_less)
    have m: "m < 0x100000" using assms by (simp add: scalar_value_def n)
    define h l where "h = m div 1024" and "l = m mod 1024"
    then have hl: "m = h * 1024 + l" "l < 1024" "h < 1024" using m by simp_all
    have u: "unat (0xD800 + word_of_nat h :: u16) = 0xD800 + h" "unat (0xDC00 + word_of_nat l :: u16) = 0xDC00 + l"
      using hl(2,3) unat_of_nat [of "0xD800 + h", where 'a = 16] unat_of_nat [of "0xDC00 + l", where 'a = 16]
      by simp_all
    show ?thesis
      using False hl u by (simp add: utf16_encode_char_def word_le_nat_alt word_less_nat_alt n
          word_unat_eq_iff flip: h_def l_def)
  qed
  then show "utf16_decode_lossy (utf16_encode_char n @ us) = n # utf16_decode_lossy us"
    and "0 \<in> set (utf16_encode_char n) \<Longrightarrow> n = 0" by simp_all
qed

lemma utf16_roundtrip:
  "list_all scalar_value ns \<Longrightarrow> utf16_decode_lossy (concat (map utf16_encode_char ns)) = ns"
  by (induction ns) (simp_all add: utf16_char_roundtrip)

lemma takeWhile_stop: "c \<notin> set xs \<Longrightarrow> takeWhile (\<lambda>x. x \<noteq> c) (xs @ c # ys) = xs"
  by (induction xs) auto

lemma wide_roundtrip:
  assumes "rust_string s" and "CHR 0x00 \<notin> set s"
  shows "wide_slice_to_string (to_wide_null s @ junk) = s"
proof -
  have d: "decodes (as_bytes s)" using assms(1) by (simp add: rust_string_def utf8_valid_decodes)
  have "(0 :: u8) \<notin> set (as_bytes s)"
  proof
    assume "0 \<in> set (as_bytes s)"
    then have "char_of (unat (0 :: u8)) \<in> set (bytes_to_string (as_bytes s))"
      unfolding bytes_to_string_def by (metis imageI list.set_map)
    moreover have "char_of (0 :: nat) = CHR 0x00" by (simp add: char_of_def)
    ultimately show False using assms(2) by simp
  qed
  with d have "0 \<notin> set (utf8_decode (as_bytes s))" by (auto simp: decodes_def)
  with d have "0 \<notin> set (encode_utf16 s)"
    by (auto simp: encode_utf16_def decodes_def list_all_iff dest: utf16_char_roundtrip(2))
  then have "takeWhile (\<lambda>c. c \<noteq> 0) (to_wide_null s @ junk) = encode_utf16 s"
    by (simp add: to_wide_null_def takeWhile_stop)
  with d show ?thesis
    by (simp add: wide_slice_to_string_def from_utf16_lossy_def encode_utf16_def utf16_roundtrip decodes_def)
qed

section \<open>Trimming\<close>

lemma code_at_take: "code_at (take n s) i = (if i < n then code_at s i else 0)"
  by (simp add: code_at_def)

lemma white_space_len_take: "white_space_len s = 0 \<Longrightarrow> white_space_len (take n s) = 0"
  by (auto simp: white_space_len_def code_at_take Let_def split: if_splits)

lemma white_space_len_Nil [simp]: "white_space_len [] = 0"
  by (simp add: white_space_len_def code_at_def)

lemma white_space_len_trim_start: "white_space_len (trim_start s) = 0"
  by (induction s rule: trim_start.induct) (subst trim_start.simps, auto)

lemma trim_end_take: "\<exists>n. trim_end s = take n s"
proof (induction s rule: trim_end.induct)
  case (1 s)
  show ?case
  proof (cases "white_space_suffix s = 0 \<or> s = []")
    case True
    then show ?thesis by (subst trim_end.simps) (auto intro: exI [of _ "length s"])
  next
    case False
    with 1 obtain n where "trim_end (take (length s - white_space_suffix s) s)
        = take n (take (length s - white_space_suffix s) s)" by blast
    with False show ?thesis by (subst trim_end.simps) (auto simp: min_def)
  qed
qed

lemma white_space_suffix_trim_end: "white_space_suffix (trim_end s) = 0 \<or> trim_end s = []"
  by (induction s rule: trim_end.induct) (subst (1 2) trim_end.simps, auto)

lemma trim_idempotent [simp]: "trim (trim s) = trim s"
proof -
  let ?t = "trim_end (trim_start s)"
  have "white_space_len ?t = 0"
    using trim_end_take [of "trim_start s"] white_space_len_take [OF white_space_len_trim_start] by metis
  then have "trim_start ?t = ?t" by (simp add: trim_start.simps)
  moreover have "trim_end ?t = ?t"
    using white_space_suffix_trim_end [of "trim_start s"] by (subst trim_end.simps) auto
  ultimately show ?thesis by (simp add: trim_def)
qed

lemma trim_start_drop: "\<exists>n. trim_start s = drop n s"
proof (induction s rule: trim_start.induct)
  case (1 s)
  then show ?case by (subst trim_start.simps) (auto intro: exI [of _ 0])
qed

lemma set_trim: "set (trim s) \<subseteq> set s"
  using trim_end_take [of "trim_start s"] trim_start_drop [of s] set_take_subset set_drop_subset
  by (metis order_trans trim_def)

text \<open>A string that contains no NUL survives the way to a wide string of Windows and back,
  whatever follows the terminator in the buffer.\<close>

theorem wide_strings_roundtrip:
  assumes "rust_string s" and "CHR 0x00 \<notin> set s"
  shows "wide_slice_to_string (to_wide_null s @ junk) = s"
  using assms by (rule wide_roundtrip)

theorem wide_strings_roundtrip_witness:
  "wide_slice_to_string (to_wide_null [CHR 0xF0, CHR 0x9F, CHR 0x90, CHR 0xB7, CHR 0x43] @ [7])
    = [CHR 0xF0, CHR 0x9F, CHR 0x90, CHR 0xB7, CHR 0x43]"
proof (rule wide_strings_roundtrip)
  show "rust_string [CHR 0xF0, CHR 0x9F, CHR 0x90, CHR 0xB7, CHR 0x43]"
    by (simp add: rust_string_def as_bytes_def word_le_nat_alt word_less_nat_alt)
qed simp

end
