(* ===== verification/Observation.thy ===== *)
theory Observation
  imports Rust_Std
begin

text \<open>
  \<^verbatim>\<open>crates/pigtree-protocol/src/observation.rs\<close>, first part: the observation records a scan
  worker sends to the engine, the four-state value knowledge, and the external reference
  status derived from link counts.
\<close>

section \<open>Identities and knowledge\<close>

record object_identity =
  volume_guid :: "u8 list"
  file_id :: u128

text \<open>\<open>volume_guid\<close> is a \<open>[u8; 16]\<close>.\<close>

definition wf_identity :: "object_identity \<Rightarrow> bool" where
  "wf_identity oid \<longleftrightarrow> length (volume_guid oid) = 16"

datatype 'a value_knowledge = Known 'a | NotObserved | Unavailable | NotApplicable

definition is_known :: "'a value_knowledge \<Rightarrow> bool" where
  "is_known v = (case v of Known _ \<Rightarrow> True | _ \<Rightarrow> False)"

definition known_value :: "'a value_knowledge \<Rightarrow> 'a option" where
  "known_value v = (case v of Known x \<Rightarrow> Some x | _ \<Rightarrow> None)"

datatype external_reference_status =
    ConfirmedNone | ConfirmedExternal | Indeterminate | InconsistentEvidence | StatusNotApplicable

definition derive :: "u32 value_knowledge \<Rightarrow> u32 \<Rightarrow> external_reference_status" where
  "derive total_link_count observed_alias_count = (case total_link_count of
     NotApplicable \<Rightarrow> StatusNotApplicable
   | Known k \<Rightarrow>
       (if k < observed_alias_count then InconsistentEvidence
        else if k = observed_alias_count then ConfirmedNone
        else ConfirmedExternal)
   | NotObserved \<Rightarrow> Indeterminate
   | Unavailable \<Rightarrow> Indeterminate)"

section \<open>Decode errors and tags\<close>

datatype obs_decode_error =
    Obs_PrematureEof
  | Obs_InvalidMagic "u8 list"
  | Obs_UnsupportedVersion u16
  | InvalidRecordTag u8
  | InvalidUtf8
  | InvalidOutcome u8
  | InvalidValueKnowledgeTag u8
  | InvalidBooleanTag u8
  | InvalidExternalStatus u8
  | Obs_Io io_error

text \<open>\<open>impl From<io::Error>\<close>.\<close>

definition obs_from_io :: "io_error \<Rightarrow> obs_decode_error" where
  "obs_from_io e = (if e = Io_UnexpectedEof then Obs_PrematureEof else Obs_Io e)"

primrec status_u8 :: "external_reference_status \<Rightarrow> u8" where
  "status_u8 ConfirmedNone = 1"
| "status_u8 ConfirmedExternal = 2"
| "status_u8 Indeterminate = 3"
| "status_u8 InconsistentEvidence = 4"
| "status_u8 StatusNotApplicable = 5"

definition status_from_u8 :: "u8 \<Rightarrow> obs_decode_error + external_reference_status" where
  "status_from_u8 val =
     (if val = 1 then Inr ConfirmedNone
      else if val = 2 then Inr ConfirmedExternal
      else if val = 3 then Inr Indeterminate
      else if val = 4 then Inr InconsistentEvidence
      else if val = 5 then Inr StatusNotApplicable
      else Inl (InvalidExternalStatus val))"

primrec status_as_str :: "external_reference_status \<Rightarrow> string" where
  "status_as_str ConfirmedNone = ''confirmed_none''"
| "status_as_str ConfirmedExternal = ''confirmed_external''"
| "status_as_str Indeterminate = ''indeterminate''"
| "status_as_str InconsistentEvidence = ''inconsistent_evidence''"
| "status_as_str StatusNotApplicable = ''not_applicable''"

datatype record_tag =
    Tag_Directory | Tag_File | Tag_SpecialObject | Tag_CoverageGap | Tag_Terminal | Tag_ContentStream

primrec record_tag_u8 :: "record_tag \<Rightarrow> u8" where
  "record_tag_u8 Tag_Directory = 1"
| "record_tag_u8 Tag_File = 2"
| "record_tag_u8 Tag_SpecialObject = 3"
| "record_tag_u8 Tag_CoverageGap = 4"
| "record_tag_u8 Tag_Terminal = 5"
| "record_tag_u8 Tag_ContentStream = 6"

definition record_tag_from_u8 :: "u8 \<Rightarrow> obs_decode_error + record_tag" where
  "record_tag_from_u8 val =
     (if val = 1 then Inr Tag_Directory
      else if val = 2 then Inr Tag_File
      else if val = 3 then Inr Tag_SpecialObject
      else if val = 4 then Inr Tag_CoverageGap
      else if val = 5 then Inr Tag_Terminal
      else if val = 6 then Inr Tag_ContentStream
      else Inl (InvalidRecordTag val))"

datatype run_outcome = Finished | Cancelled | Failed

primrec run_outcome_u8 :: "run_outcome \<Rightarrow> u8" where
  "run_outcome_u8 Finished = 0"
| "run_outcome_u8 Cancelled = 1"
| "run_outcome_u8 Failed = 2"

definition run_outcome_from_u8 :: "u8 \<Rightarrow> obs_decode_error + run_outcome" where
  "run_outcome_from_u8 val =
     (if val = 0 then Inr Finished
      else if val = 1 then Inr Cancelled
      else if val = 2 then Inr Failed
      else Inl (InvalidOutcome val))"

primrec run_outcome_as_str :: "run_outcome \<Rightarrow> string" where
  "run_outcome_as_str Finished = ''finished''"
| "run_outcome_as_str Cancelled = ''cancelled''"
| "run_outcome_as_str Failed = ''failed''"

section \<open>Observation records\<close>

record directory_observation =
  d_entry_id :: u32
  d_parent_id :: u32
  d_name :: string
  d_file_attributes :: u32
  d_reparse_tag :: u32
  d_creation_time_utc_ms :: u64
  d_last_write_time_utc_ms :: u64
  d_last_access_time_utc_ms :: u64
  d_object_id :: "object_identity option"
  d_allocated_size :: "u64 option"
  d_total_link_count :: "u32 value_knowledge"

record file_observation =
  f_entry_id :: u32
  f_parent_id :: u32
  f_name :: string
  f_logical_size :: u64
  f_allocated_size :: "u64 option"
  f_file_attributes :: u32
  f_reparse_tag :: u32
  f_creation_time_utc_ms :: u64
  f_last_write_time_utc_ms :: u64
  f_last_access_time_utc_ms :: u64
  f_object_id :: "object_identity option"
  f_total_link_count :: "u32 value_knowledge"

record special_observation =
  s_entry_id :: u32
  s_parent_id :: u32
  s_name :: string
  s_file_attributes :: u32
  s_reparse_tag :: u32
  s_creation_time_utc_ms :: u64
  s_last_write_time_utc_ms :: u64
  s_last_access_time_utc_ms :: u64
  s_object_id :: "object_identity option"

record coverage_gap_observation =
  g_path :: string
  g_error_code :: u32
  g_error_message :: string

record stream_observation =
  st_parent_entry_id :: u32
  st_name :: string
  st_logical_size :: u64
  st_allocated_size :: "u64 option"

record terminal_observation =
  t_outcome :: run_outcome
  t_total_directories :: u64
  t_total_files :: u64
  t_total_logical_bytes :: u64
  t_total_allocated_bytes :: u64
  t_coverage_gap_count :: u32
  t_duration_ms :: u64

datatype observation_record =
    Obs_Directory directory_observation
  | Obs_File file_observation
  | Obs_Special special_observation
  | Obs_ContentStream stream_observation
  | Obs_CoverageGap coverage_gap_observation
  | Obs_Terminal terminal_observation

section \<open>Tag round trips\<close>

lemma record_tag_roundtrip [simp]: "record_tag_from_u8 (record_tag_u8 t) = Inr t"
  by (cases t) (simp_all add: record_tag_from_u8_def)

lemma run_outcome_roundtrip [simp]: "run_outcome_from_u8 (run_outcome_u8 t) = Inr t"
  by (cases t) (simp_all add: run_outcome_from_u8_def)

lemma status_roundtrip [simp]: "status_from_u8 (status_u8 t) = Inr t"
  by (cases t) (simp_all add: status_from_u8_def)

lemma status_from_u8_Inr: "status_from_u8 v = Inr t \<longleftrightarrow> v = status_u8 t"
proof
  show "status_from_u8 v = Inr t \<Longrightarrow> v = status_u8 t"
    by (auto simp: status_from_u8_def split: if_splits)
qed simp

lemma record_tag_from_u8_Inr: "record_tag_from_u8 v = Inr t \<longleftrightarrow> v = record_tag_u8 t"
proof
  show "record_tag_from_u8 v = Inr t \<Longrightarrow> v = record_tag_u8 t"
    by (auto simp: record_tag_from_u8_def split: if_splits)
qed simp

section \<open>What the derived status means\<close>

text \<open>
  The status orders the known link count against the aliases the scan observed; without a
  known count it is indeterminate, never a confirmation.
\<close>

lemma derive_cases:
  "derive v n = ConfirmedNone \<longleftrightarrow> v = Known n"
  "derive v n = ConfirmedExternal \<longleftrightarrow> (\<exists>k. v = Known k \<and> n < k)"
  "derive v n = InconsistentEvidence \<longleftrightarrow> (\<exists>k. v = Known k \<and> k < n)"
  "derive v n = Indeterminate \<longleftrightarrow> v = NotObserved \<or> v = Unavailable"
  "derive v n = StatusNotApplicable \<longleftrightarrow> v = NotApplicable"
  by (auto simp: derive_def not_less_iff_gr_or_eq split: value_knowledge.splits)

section \<open>Properties\<close>

text \<open>
  The derived external reference status orders the known link count against the aliases the
  scan observed: confirmed none exactly on equality, confirmed external exactly when the count
  is larger, inconsistent exactly when it is smaller, and indeterminate without a known count.
\<close>

theorem external_status_meaning:
  "(derive v n = ConfirmedNone \<longleftrightarrow> v = Known n)
   \<and> (derive v n = ConfirmedExternal \<longleftrightarrow> (\<exists>k. v = Known k \<and> n < k))
   \<and> (derive v n = InconsistentEvidence \<longleftrightarrow> (\<exists>k. v = Known k \<and> k < n))
   \<and> (derive v n = Indeterminate \<longleftrightarrow> v = NotObserved \<or> v = Unavailable)
   \<and> (derive v n = StatusNotApplicable \<longleftrightarrow> v = NotApplicable)"
  by (simp add: derive_cases)

end
