(* ===== verification/Observation_Codec.thy ===== *)
theory Observation_Codec
  imports Observation
begin

text \<open>
  \<^verbatim>\<open>crates/pigtree-protocol/src/observation.rs\<close>, second part: \<open>ObservationWriter\<close> and
  \<open>ObservationReader\<close>. A writer operation appends to the byte sink and may stop with an I/O
  error after part of a record is already written, exactly as the sequence of \<open>write_all\<close>
  calls does; a reader operation consumes a prefix of the byte source.
\<close>

section \<open>Writing\<close>

definition WORKER_MAGIC :: "u8 list" where
  "WORKER_MAGIC = [0x50, 0x54, 0x57, 0x4F]"

definition WORKER_STREAM_VERSION_V1 :: u16 where
  "WORKER_STREAM_VERSION_V1 = 1"

definition WORKER_STREAM_VERSION_V2 :: u16 where
  "WORKER_STREAM_VERSION_V2 = 2"

definition WORKER_STREAM_VERSION :: u16 where
  "WORKER_STREAM_VERSION = WORKER_STREAM_VERSION_V2"

lemmas stream_consts = WORKER_MAGIC_def WORKER_STREAM_VERSION_V1_def WORKER_STREAM_VERSION_V2_def
  WORKER_STREAM_VERSION_def

text \<open>The result of a write, and the sink after it.\<close>

type_synonym write_op = "u8 list \<Rightarrow> io_error option \<times> u8 list"

definition write_all :: "u8 list \<Rightarrow> write_op" where
  "write_all bs sink = (None, sink @ bs)"

text \<open>A sequence of writes, each followed by \<open>?\<close>.\<close>

primrec write_seq :: "write_op list \<Rightarrow> write_op" where
  "write_seq [] sink = (None, sink)"
| "write_seq (w # ws) sink = (case w sink of
     (None, sink') \<Rightarrow> write_seq ws sink'
   | (Some e, sink') \<Rightarrow> (Some e, sink'))"

definition write_u16_str :: "string \<Rightarrow> write_op" where
  "write_u16_str s =
     (let bytes = as_bytes s
      in if length bytes \<le> 65535
         then write_seq [write_all (to_le_bytes (word_of_nat (length bytes) :: u16)), write_all bytes]
         else (\<lambda>sink. (Some Io_InvalidInput, sink)))"

definition write_object_identity :: "object_identity option \<Rightarrow> write_op" where
  "write_object_identity oid = (case oid of
     Some i \<Rightarrow> write_seq [write_all [1], write_all (volume_guid i), write_all (to_le_bytes (file_id i))]
   | None \<Rightarrow> write_all [0])"

definition write_link_knowledge :: "u32 value_knowledge \<Rightarrow> write_op" where
  "write_link_knowledge knowledge = (case knowledge of
     NotObserved \<Rightarrow> write_seq [write_all [0], write_all (to_le_bytes (0 :: u32))]
   | Known links \<Rightarrow> write_seq [write_all [1], write_all (to_le_bytes links)]
   | Unavailable \<Rightarrow> write_seq [write_all [2], write_all (to_le_bytes (0 :: u32))]
   | NotApplicable \<Rightarrow> write_seq [write_all [3], write_all (to_le_bytes (0 :: u32))])"

text \<open>The allocated size of directory and file records: a flag and eight bytes in both cases.\<close>

definition write_alloc :: "u64 option \<Rightarrow> write_op" where
  "write_alloc alloc = (case alloc of
     Some a \<Rightarrow> write_seq [write_all [1], write_all (to_le_bytes a)]
   | None \<Rightarrow> write_seq [write_all [0], write_all (to_le_bytes (0 :: u64))])"

definition writer_new :: "string \<Rightarrow> write_op" where
  "writer_new target_path = write_seq
     [write_all WORKER_MAGIC, write_all (to_le_bytes WORKER_STREAM_VERSION), write_u16_str target_path]"

definition write_directory :: "directory_observation \<Rightarrow> write_op" where
  "write_directory dir = write_seq
     [write_all [record_tag_u8 Tag_Directory],
      write_all (to_le_bytes (d_entry_id dir)),
      write_all (to_le_bytes (d_parent_id dir)),
      write_all (to_le_bytes (d_file_attributes dir)),
      write_all (to_le_bytes (d_reparse_tag dir)),
      write_all (to_le_bytes (d_creation_time_utc_ms dir)),
      write_all (to_le_bytes (d_last_write_time_utc_ms dir)),
      write_all (to_le_bytes (d_last_access_time_utc_ms dir)),
      write_alloc (d_allocated_size dir),
      write_object_identity (d_object_id dir),
      write_link_knowledge (d_total_link_count dir),
      write_u16_str (d_name dir)]"

definition write_file :: "file_observation \<Rightarrow> write_op" where
  "write_file file = write_seq
     [write_all [record_tag_u8 Tag_File],
      write_all (to_le_bytes (f_entry_id file)),
      write_all (to_le_bytes (f_parent_id file)),
      write_all (to_le_bytes (f_logical_size file)),
      write_alloc (f_allocated_size file),
      write_all (to_le_bytes (f_file_attributes file)),
      write_all (to_le_bytes (f_reparse_tag file)),
      write_all (to_le_bytes (f_creation_time_utc_ms file)),
      write_all (to_le_bytes (f_last_write_time_utc_ms file)),
      write_all (to_le_bytes (f_last_access_time_utc_ms file)),
      write_object_identity (f_object_id file),
      write_link_knowledge (f_total_link_count file),
      write_u16_str (f_name file)]"

definition write_special :: "special_observation \<Rightarrow> write_op" where
  "write_special special = write_seq
     [write_all [record_tag_u8 Tag_SpecialObject],
      write_all (to_le_bytes (s_entry_id special)),
      write_all (to_le_bytes (s_parent_id special)),
      write_all (to_le_bytes (s_file_attributes special)),
      write_all (to_le_bytes (s_reparse_tag special)),
      write_all (to_le_bytes (s_creation_time_utc_ms special)),
      write_all (to_le_bytes (s_last_write_time_utc_ms special)),
      write_all (to_le_bytes (s_last_access_time_utc_ms special)),
      write_object_identity (s_object_id special),
      write_u16_str (s_name special)]"

definition write_stream :: "stream_observation \<Rightarrow> write_op" where
  "write_stream stream = write_seq
     [write_all [record_tag_u8 Tag_ContentStream],
      write_all (to_le_bytes (st_parent_entry_id stream)),
      write_all (to_le_bytes (st_logical_size stream)),
      (case st_allocated_size stream of
         Some alloc \<Rightarrow> write_seq [write_all [1], write_all (to_le_bytes alloc)]
       | None \<Rightarrow> write_all [0]),
      write_u16_str (st_name stream)]"

definition write_coverage_gap :: "coverage_gap_observation \<Rightarrow> write_op" where
  "write_coverage_gap gap = write_seq
     [write_all [record_tag_u8 Tag_CoverageGap],
      write_all (to_le_bytes (g_error_code gap)),
      write_u16_str (g_path gap),
      write_u16_str (g_error_message gap)]"

definition write_terminal :: "terminal_observation \<Rightarrow> write_op" where
  "write_terminal term = write_seq
     [write_all [record_tag_u8 Tag_Terminal],
      write_all [run_outcome_u8 (t_outcome term)],
      write_all (to_le_bytes (t_total_directories term)),
      write_all (to_le_bytes (t_total_files term)),
      write_all (to_le_bytes (t_total_logical_bytes term)),
      write_all (to_le_bytes (t_total_allocated_bytes term)),
      write_all (to_le_bytes (t_coverage_gap_count term)),
      write_all (to_le_bytes (t_duration_ms term))]"

primrec write_record :: "observation_record \<Rightarrow> write_op" where
  "write_record (Obs_Directory d) = write_directory d"
| "write_record (Obs_File f) = write_file f"
| "write_record (Obs_Special s) = write_special s"
| "write_record (Obs_ContentStream st) = write_stream st"
| "write_record (Obs_CoverageGap g) = write_coverage_gap g"
| "write_record (Obs_Terminal t) = write_terminal t"

section \<open>Reading\<close>

definition obs_read :: "nat \<Rightarrow> reader \<Rightarrow> obs_decode_error + (u8 list \<times> reader)" where
  "obs_read n r = map_err obs_from_io (read_exact n r)"

definition read_u16_str :: "reader \<Rightarrow> obs_decode_error + (string \<times> reader)" where
  "read_u16_str r =
     and_then (obs_read 2 r) (\<lambda>(len_buf, r).
     and_then (obs_read (unat (from_le_bytes len_buf :: u16)) r) (\<lambda>(buf, r).
     case from_utf8 buf of Inl _ \<Rightarrow> Inl InvalidUtf8 | Inr s \<Rightarrow> Inr (s, r)))"

definition read_object_identity :: "reader \<Rightarrow> obs_decode_error + (object_identity option \<times> reader)" where
  "read_object_identity r =
     and_then (obs_read 1 r) (\<lambda>(flag, r).
     if flag ! 0 = 0 then Inr (None, r)
     else if flag ! 0 = 1 then
       and_then (obs_read 16 r) (\<lambda>(guid, r).
       and_then (obs_read 16 r) (\<lambda>(file_id_buf, r).
       Inr (Some \<lparr>volume_guid = guid, file_id = from_le_bytes file_id_buf\<rparr>, r)))
     else Inl (InvalidBooleanTag (flag ! 0)))"

definition read_link_knowledge :: "reader \<Rightarrow> obs_decode_error + (u32 value_knowledge \<times> reader)" where
  "read_link_knowledge r =
     and_then (obs_read 1 r) (\<lambda>(tag_buf, r).
     and_then (obs_read 4 r) (\<lambda>(val_buf, r).
     if tag_buf ! 0 = 0 then Inr (NotObserved, r)
     else if tag_buf ! 0 = 1 then Inr (Known (from_le_bytes val_buf), r)
     else if tag_buf ! 0 = 2 then Inr (Unavailable, r)
     else if tag_buf ! 0 = 3 then Inr (NotApplicable, r)
     else Inl (InvalidValueKnowledgeTag (tag_buf ! 0))))"

record observation_reader =
  or_reader :: reader
  or_target_path :: string
  or_stream_version :: u16

definition reader_new :: "reader \<Rightarrow> obs_decode_error + observation_reader" where
  "reader_new r =
     and_then (obs_read 4 r) (\<lambda>(magic, r).
     if magic \<noteq> WORKER_MAGIC then Inl (Obs_InvalidMagic magic)
     else and_then (obs_read 2 r) (\<lambda>(ver_buf, r).
       let version = from_le_bytes ver_buf
       in if version \<noteq> WORKER_STREAM_VERSION_V1 \<and> version \<noteq> WORKER_STREAM_VERSION_V2
          then Inl (Obs_UnsupportedVersion version)
          else and_then (read_u16_str r) (\<lambda>(target_path, r).
            Inr \<lparr>or_reader = r, or_target_path = target_path, or_stream_version = version\<rparr>)))"

definition read_directory :: "u16 \<Rightarrow> reader \<Rightarrow> obs_decode_error + (observation_record \<times> reader)" where
  "read_directory version r =
     and_then (obs_read 40 r) (\<lambda>(fixed_buf, r).
     and_then
       (if version = WORKER_STREAM_VERSION_V1 then Inr ((None, None, NotObserved), r)
        else and_then (obs_read 1 r) (\<lambda>(alloc_flag, r).
          and_then (obs_read 8 r) (\<lambda>(raw_alloc, r).
          and_then
            (if alloc_flag ! 0 = 0 then Inr None
             else if alloc_flag ! 0 = 1 then Inr (Some (from_le_bytes raw_alloc))
             else Inl (InvalidBooleanTag (alloc_flag ! 0))) (\<lambda>alloc.
          and_then (read_object_identity r) (\<lambda>(oid, r).
          and_then (read_link_knowledge r) (\<lambda>(links, r).
          Inr ((alloc, oid, links), r))))))) (\<lambda>((allocated_size, object_id, total_link_count), r).
     and_then (read_u16_str r) (\<lambda>(name, r).
     Inr (Obs_Directory
       \<lparr>d_entry_id = from_le_bytes (slice 0 4 fixed_buf),
        d_parent_id = from_le_bytes (slice 4 8 fixed_buf),
        d_name = name,
        d_file_attributes = from_le_bytes (slice 8 12 fixed_buf),
        d_reparse_tag = from_le_bytes (slice 12 16 fixed_buf),
        d_creation_time_utc_ms = from_le_bytes (slice 16 24 fixed_buf),
        d_last_write_time_utc_ms = from_le_bytes (slice 24 32 fixed_buf),
        d_last_access_time_utc_ms = from_le_bytes (slice 32 40 fixed_buf),
        d_object_id = object_id,
        d_allocated_size = allocated_size,
        d_total_link_count = total_link_count\<rparr>, r))))"

definition read_file :: "u16 \<Rightarrow> reader \<Rightarrow> obs_decode_error + (observation_record \<times> reader)" where
  "read_file version r =
     and_then (obs_read 57 r) (\<lambda>(fixed_buf, r).
     let alloc_flag = fixed_buf ! 16;
         raw_alloc = from_le_bytes (slice 17 25 fixed_buf)
     in and_then
       (if alloc_flag = 0 then Inr None
        else if alloc_flag = 1 then Inr (Some raw_alloc)
        else Inl (InvalidBooleanTag alloc_flag)) (\<lambda>allocated_size.
     and_then
       (if version = WORKER_STREAM_VERSION_V1 then Inr ((None, NotObserved), r)
        else and_then (read_object_identity r) (\<lambda>(oid, r).
          and_then (read_link_knowledge r) (\<lambda>(links, r).
          Inr ((oid, links), r)))) (\<lambda>((object_id, total_link_count), r).
     and_then (read_u16_str r) (\<lambda>(name, r).
     Inr (Obs_File
       \<lparr>f_entry_id = from_le_bytes (slice 0 4 fixed_buf),
        f_parent_id = from_le_bytes (slice 4 8 fixed_buf),
        f_name = name,
        f_logical_size = from_le_bytes (slice 8 16 fixed_buf),
        f_allocated_size = allocated_size,
        f_file_attributes = from_le_bytes (slice 25 29 fixed_buf),
        f_reparse_tag = from_le_bytes (slice 29 33 fixed_buf),
        f_creation_time_utc_ms = from_le_bytes (slice 33 41 fixed_buf),
        f_last_write_time_utc_ms = from_le_bytes (slice 41 49 fixed_buf),
        f_last_access_time_utc_ms = from_le_bytes (slice 49 57 fixed_buf),
        f_object_id = object_id,
        f_total_link_count = total_link_count\<rparr>, r)))))"

definition read_special :: "u16 \<Rightarrow> reader \<Rightarrow> obs_decode_error + (observation_record \<times> reader)" where
  "read_special version r =
     and_then (obs_read 40 r) (\<lambda>(fixed_buf, r).
     and_then
       (if version = WORKER_STREAM_VERSION_V1 then Inr (None, r)
        else read_object_identity r) (\<lambda>(object_id, r).
     and_then (read_u16_str r) (\<lambda>(name, r).
     Inr (Obs_Special
       \<lparr>s_entry_id = from_le_bytes (slice 0 4 fixed_buf),
        s_parent_id = from_le_bytes (slice 4 8 fixed_buf),
        s_name = name,
        s_file_attributes = from_le_bytes (slice 8 12 fixed_buf),
        s_reparse_tag = from_le_bytes (slice 12 16 fixed_buf),
        s_creation_time_utc_ms = from_le_bytes (slice 16 24 fixed_buf),
        s_last_write_time_utc_ms = from_le_bytes (slice 24 32 fixed_buf),
        s_last_access_time_utc_ms = from_le_bytes (slice 32 40 fixed_buf),
        s_object_id = object_id\<rparr>, r))))"

definition read_coverage_gap :: "reader \<Rightarrow> obs_decode_error + (observation_record \<times> reader)" where
  "read_coverage_gap r =
     and_then (obs_read 4 r) (\<lambda>(err_buf, r).
     and_then (read_u16_str r) (\<lambda>(path, r).
     and_then (read_u16_str r) (\<lambda>(error_message, r).
     Inr (Obs_CoverageGap
       \<lparr>g_path = path, g_error_code = from_le_bytes err_buf, g_error_message = error_message\<rparr>, r))))"

definition read_content_stream :: "reader \<Rightarrow> obs_decode_error + (observation_record \<times> reader)" where
  "read_content_stream r =
     and_then (obs_read 13 r) (\<lambda>(fixed_buf, r).
     and_then
       (if fixed_buf ! 12 = 0 then Inr (None, r)
        else if fixed_buf ! 12 = 1 then
          and_then (obs_read 8 r) (\<lambda>(raw, r). Inr (Some (from_le_bytes raw), r))
        else Inl (InvalidBooleanTag (fixed_buf ! 12))) (\<lambda>(allocated_size, r).
     and_then (read_u16_str r) (\<lambda>(name, r).
     Inr (Obs_ContentStream
       \<lparr>st_parent_entry_id = from_le_bytes (slice 0 4 fixed_buf),
        st_name = name,
        st_logical_size = from_le_bytes (slice 4 12 fixed_buf),
        st_allocated_size = allocated_size\<rparr>, r))))"

definition read_terminal :: "reader \<Rightarrow> obs_decode_error + (observation_record \<times> reader)" where
  "read_terminal r =
     and_then (obs_read 45 r) (\<lambda>(fixed_buf, r).
     and_then (run_outcome_from_u8 (fixed_buf ! 0)) (\<lambda>outcome.
     Inr (Obs_Terminal
       \<lparr>t_outcome = outcome,
        t_total_directories = from_le_bytes (slice 1 9 fixed_buf),
        t_total_files = from_le_bytes (slice 9 17 fixed_buf),
        t_total_logical_bytes = from_le_bytes (slice 17 25 fixed_buf),
        t_total_allocated_bytes = from_le_bytes (slice 25 33 fixed_buf),
        t_coverage_gap_count = from_le_bytes (slice 33 37 fixed_buf),
        t_duration_ms = from_le_bytes (slice 37 45 fixed_buf)\<rparr>, r)))"

text \<open>The body of each tag's branch, and \<open>read_record\<close> itself.\<close>

definition read_body :: "u16 \<Rightarrow> record_tag \<Rightarrow> reader \<Rightarrow> obs_decode_error + (observation_record \<times> reader)" where
  "read_body version tag r = (case tag of
     Tag_Directory \<Rightarrow> read_directory version r
   | Tag_File \<Rightarrow> read_file version r
   | Tag_SpecialObject \<Rightarrow> read_special version r
   | Tag_CoverageGap \<Rightarrow> read_coverage_gap r
   | Tag_ContentStream \<Rightarrow> read_content_stream r
   | Tag_Terminal \<Rightarrow> read_terminal r)"

definition read_record :: "observation_reader
    \<Rightarrow> obs_decode_error + (observation_record option \<times> observation_reader)" where
  "read_record self =
     (case read_byte (or_reader self) of
        Inl e \<Rightarrow> (if e = Io_UnexpectedEof then Inr (None, self) else Inl (Obs_Io e))
      | Inr (None, r) \<Rightarrow> Inr (None, self\<lparr>or_reader := r\<rparr>)
      | Inr (Some tag_byte, r) \<Rightarrow>
          and_then (record_tag_from_u8 tag_byte) (\<lambda>tag.
          and_then (read_body (or_stream_version self) tag r) (\<lambda>(rec, r).
          Inr (Some rec, self\<lparr>or_reader := r\<rparr>))))"

section \<open>What is written\<close>

text \<open>
  A Rust string that fits the two-byte length field, the values whose parts all do, and the
  byte layout of every field and record.
\<close>

definition short_string :: "string \<Rightarrow> bool" where
  "short_string s \<longleftrightarrow> rust_string s \<and> length s \<le> 65535"

definition wf_oid :: "object_identity option \<Rightarrow> bool" where
  "wf_oid oid \<longleftrightarrow> (case oid of None \<Rightarrow> True | Some i \<Rightarrow> wf_identity i)"

primrec wf_record :: "observation_record \<Rightarrow> bool" where
  "wf_record (Obs_Directory d) \<longleftrightarrow> wf_oid (d_object_id d) \<and> short_string (d_name d)"
| "wf_record (Obs_File f) \<longleftrightarrow> wf_oid (f_object_id f) \<and> short_string (f_name f)"
| "wf_record (Obs_Special s) \<longleftrightarrow> wf_oid (s_object_id s) \<and> short_string (s_name s)"
| "wf_record (Obs_ContentStream st) \<longleftrightarrow> short_string (st_name st)"
| "wf_record (Obs_CoverageGap g) \<longleftrightarrow> short_string (g_path g) \<and> short_string (g_error_message g)"
| "wf_record (Obs_Terminal t) \<longleftrightarrow> True"

text \<open>
  The contract of a writer and a reader of one kind of value: on well-formed values the writer
  cannot fail on its own account, appends bytes that do not depend on the sink, and the reader
  takes exactly these bytes back into the value, whatever follows them.
\<close>

locale prefix_codec =
  fixes put :: "'a \<Rightarrow> write_op"
    and get :: "reader \<Rightarrow> 'e + ('a \<times> reader)"
    and wf :: "'a \<Rightarrow> bool"
  assumes put_appends: "wf x \<Longrightarrow> put x sink = (None, sink @ snd (put x []))"
    and get_put: "wf x \<Longrightarrow> get (r\<lparr>avail := snd (put x []) @ cs\<rparr>) = Inr (x, r\<lparr>avail := cs\<rparr>)"
begin

lemma get_put_Nil: "wf x \<Longrightarrow> get (r\<lparr>avail := snd (put x [])\<rparr>) = Inr (x, r\<lparr>avail := []\<rparr>)"
  using get_put [of x "[]" r] by simp

lemma put_seq:
  "list_all wf xs \<Longrightarrow>
     write_seq (map put xs) sink = (None, sink @ concat (map (\<lambda>x. snd (put x [])) xs))"
proof (induction xs arbitrary: sink)
  case (Cons x xs)
  then show ?case using put_appends [of x sink] by simp
qed simp

text \<open>No encoding is a proper prefix of another one, so a concatenation parses in one way only.\<close>

lemma put_prefix_free:
  assumes "wf x" and "wf y" and "snd (put x []) @ cs = snd (put y []) @ ds"
  shows "x = y \<and> cs = ds"
proof -
  have "get (of_bytes (snd (put x []) @ cs)) = Inr (x, of_bytes cs)"
    using get_put [OF assms(1), of cs "of_bytes []"] by (simp add: of_bytes_def)
  moreover have "get (of_bytes (snd (put y []) @ ds)) = Inr (y, of_bytes ds)"
    using get_put [OF assms(2), of ds "of_bytes []"] by (simp add: of_bytes_def)
  ultimately have "Inr (x, of_bytes cs) = (Inr (y, of_bytes ds) :: 'e + _)"
    unfolding assms(3) by (rule trans [OF sym])
  then show ?thesis by (simp add: of_bytes_def)
qed

text \<open>Two values with the same encoding are equal: no two records share their bytes.\<close>

lemma put_inject: "wf x \<Longrightarrow> wf y \<Longrightarrow> snd (put x []) = snd (put y []) \<Longrightarrow> x = y"
  using put_prefix_free [of x y "[]" "[]"] by simp

end

section \<open>Fields\<close>

lemma obs_read_push:
  "length bs = n \<Longrightarrow> obs_read n (r\<lparr>avail := bs @ cs\<rparr>) = Inr (bs, r\<lparr>avail := cs\<rparr>)"
  by (simp add: obs_read_def read_exact_push)

lemma obs_read_Cons:
  "obs_read 1 (r\<lparr>avail := b # cs\<rparr>) = Inr ([b], r\<lparr>avail := cs\<rparr>)"
  "obs_read (Suc 0) (r\<lparr>avail := b # cs\<rparr>) = Inr ([b], r\<lparr>avail := cs\<rparr>)"
  by (simp_all add: obs_read_def read_exact_def)

lemma obs_read_take:
  "n \<le> length bs \<Longrightarrow> obs_read n (r\<lparr>avail := bs\<rparr>) = Inr (take n bs, r\<lparr>avail := drop n bs\<rparr>)"
  by (simp add: obs_read_def read_exact_def)

lemmas write_simps = write_all_def write_u16_str_def write_object_identity_def
  write_link_knowledge_def write_alloc_def

lemma unat_len_u16: "length s \<le> 65535 \<Longrightarrow> unat (word_of_nat (length s) :: u16) = length s"
  by (simp add: unat_of_nat)

interpretation str_codec: prefix_codec write_u16_str read_u16_str short_string
proof
  fix s sink r cs
  assume "short_string s"
  then have s: "rust_string s" "length s \<le> 65535" by (simp_all add: short_string_def)
  show "write_u16_str s sink = (None, sink @ snd (write_u16_str s []))"
    using s by (simp add: write_simps)
  show "read_u16_str (r\<lparr>avail := snd (write_u16_str s []) @ cs\<rparr>) = Inr (s, r\<lparr>avail := cs\<rparr>)"
    using s by (simp add: write_simps read_u16_str_def obs_read_push unat_len_u16)
qed

interpretation oid_codec: prefix_codec write_object_identity read_object_identity wf_oid
proof
  fix oid sink r cs
  assume w: "wf_oid oid"
  show "write_object_identity oid sink = (None, sink @ snd (write_object_identity oid []))"
    by (simp add: write_simps split: option.split)
  show "read_object_identity (r\<lparr>avail := snd (write_object_identity oid []) @ cs\<rparr>)
          = Inr (oid, r\<lparr>avail := cs\<rparr>)"
    using w by (simp add: write_simps read_object_identity_def obs_read_push obs_read_Cons
      wf_oid_def wf_identity_def split: option.splits)
qed

interpretation links_codec: prefix_codec write_link_knowledge read_link_knowledge "\<lambda>_. True"
proof
  fix v sink r cs
  show "write_link_knowledge v sink = (None, sink @ snd (write_link_knowledge v []))"
    by (simp add: write_simps split: value_knowledge.split)
  show "read_link_knowledge (r\<lparr>avail := snd (write_link_knowledge v []) @ cs\<rparr>)
          = Inr (v, r\<lparr>avail := cs\<rparr>)"
    by (simp add: write_simps read_link_knowledge_def obs_read_push obs_read_Cons
        split: value_knowledge.split)
qed

lemma write_alloc_appends: "write_alloc a sink = (None, sink @ snd (write_alloc a []))"
  by (simp add: write_simps split: option.split)

lemma alloc_bytes: "snd (write_alloc a []) =
    (case a of Some x \<Rightarrow> 1 # to_le_bytes x | None \<Rightarrow> 0 # to_le_bytes (0 :: u64))"
  by (simp add: write_simps split: option.split)

section \<open>Records\<close>

lemma put_field:
  "short_string s \<Longrightarrow> write_u16_str s sink = (None, sink @ snd (write_u16_str s []))"
  "wf_oid oid \<Longrightarrow> write_object_identity oid sink = (None, sink @ snd (write_object_identity oid []))"
  "write_link_knowledge v sink = (None, sink @ snd (write_link_knowledge v []))"
  by (rule str_codec.put_appends oid_codec.put_appends links_codec.put_appends; simp)+

lemma directory_bytes:
  assumes "wf_record (Obs_Directory d)"
  shows "write_directory d sink = (None, sink @ [1]
     @ (to_le_bytes (d_entry_id d) @ to_le_bytes (d_parent_id d)
        @ to_le_bytes (d_file_attributes d) @ to_le_bytes (d_reparse_tag d)
        @ to_le_bytes (d_creation_time_utc_ms d) @ to_le_bytes (d_last_write_time_utc_ms d)
        @ to_le_bytes (d_last_access_time_utc_ms d))
     @ snd (write_alloc (d_allocated_size d) [])
     @ snd (write_object_identity (d_object_id d) [])
     @ snd (write_link_knowledge (d_total_link_count d) [])
     @ snd (write_u16_str (d_name d) []))"
  using assms
  by (simp add: write_directory_def write_all_def write_alloc_appends [of _ "_ @ _"]
      put_field [where sink = "_ @ _"])

lemma file_bytes:
  assumes "wf_record (Obs_File f)"
  shows "write_file f sink = (None, sink @ [2]
     @ (to_le_bytes (f_entry_id f) @ to_le_bytes (f_parent_id f)
        @ to_le_bytes (f_logical_size f)
        @ snd (write_alloc (f_allocated_size f) [])
        @ to_le_bytes (f_file_attributes f) @ to_le_bytes (f_reparse_tag f)
        @ to_le_bytes (f_creation_time_utc_ms f) @ to_le_bytes (f_last_write_time_utc_ms f)
        @ to_le_bytes (f_last_access_time_utc_ms f))
     @ snd (write_object_identity (f_object_id f) [])
     @ snd (write_link_knowledge (f_total_link_count f) [])
     @ snd (write_u16_str (f_name f) []))"
  using assms
  by (simp add: write_file_def write_all_def write_alloc_appends [of _ "_ @ _"]
      put_field [where sink = "_ @ _"])

lemma special_bytes:
  assumes "wf_record (Obs_Special s)"
  shows "write_special s sink = (None, sink @ [3]
     @ (to_le_bytes (s_entry_id s) @ to_le_bytes (s_parent_id s)
        @ to_le_bytes (s_file_attributes s) @ to_le_bytes (s_reparse_tag s)
        @ to_le_bytes (s_creation_time_utc_ms s) @ to_le_bytes (s_last_write_time_utc_ms s)
        @ to_le_bytes (s_last_access_time_utc_ms s))
     @ snd (write_object_identity (s_object_id s) [])
     @ snd (write_u16_str (s_name s) []))"
  using assms
  by (simp add: write_special_def write_all_def put_field [where sink = "_ @ _"])

lemma stream_bytes:
  assumes "wf_record (Obs_ContentStream st)"
  shows "write_stream st sink = (None, sink @ [6]
     @ (to_le_bytes (st_parent_entry_id st) @ to_le_bytes (st_logical_size st)
        @ [if st_allocated_size st = None then 0 else 1])
     @ (case st_allocated_size st of Some a \<Rightarrow> to_le_bytes a | None \<Rightarrow> [])
     @ snd (write_u16_str (st_name st) []))"
  using assms
  by (simp add: write_stream_def write_all_def put_field [where sink = "_ @ _"] split: option.split)

lemma coverage_gap_bytes:
  assumes "wf_record (Obs_CoverageGap g)"
  shows "write_coverage_gap g sink = (None, sink @ [4] @ to_le_bytes (g_error_code g)
     @ snd (write_u16_str (g_path g) []) @ snd (write_u16_str (g_error_message g) []))"
  using assms
  by (simp add: write_coverage_gap_def write_all_def put_field [where sink = "_ @ _"])

lemma terminal_bytes:
  "write_terminal t sink = (None, sink @ [5] @ (run_outcome_u8 (t_outcome t)
     # to_le_bytes (t_total_directories t) @ to_le_bytes (t_total_files t)
     @ to_le_bytes (t_total_logical_bytes t) @ to_le_bytes (t_total_allocated_bytes t)
     @ to_le_bytes (t_coverage_gap_count t) @ to_le_bytes (t_duration_ms t)))"
  by (simp add: write_terminal_def write_all_def)

lemma version_1_neq_2 [simp]: "WORKER_STREAM_VERSION_V2 \<noteq> WORKER_STREAM_VERSION_V1"
  by (simp add: stream_consts)

lemmas get_field = str_codec.get_put str_codec.get_put_Nil oid_codec.get_put links_codec.get_put
lemmas slice_append = slice_append_left slice_append_right slice_full slice_Cons

lemma read_directory_bytes:
  assumes "wf_oid (d_object_id d)" and "short_string (d_name d)"
  shows "read_directory WORKER_STREAM_VERSION_V2 (r\<lparr>avail :=
       (to_le_bytes (d_entry_id d) @ to_le_bytes (d_parent_id d)
        @ to_le_bytes (d_file_attributes d) @ to_le_bytes (d_reparse_tag d)
        @ to_le_bytes (d_creation_time_utc_ms d) @ to_le_bytes (d_last_write_time_utc_ms d)
        @ to_le_bytes (d_last_access_time_utc_ms d))
     @ snd (write_alloc (d_allocated_size d) [])
     @ snd (write_object_identity (d_object_id d) [])
     @ snd (write_link_knowledge (d_total_link_count d) [])
     @ snd (write_u16_str (d_name d) []) @ cs\<rparr>) = Inr (Obs_Directory d, r\<lparr>avail := cs\<rparr>)"
  unfolding read_directory_def alloc_bytes
  apply (subst obs_read_push)
   apply simp
  apply (cases "d_allocated_size d")
   apply (simp_all add: obs_read_Cons obs_read_push get_field assms slice_append)
  done

lemma read_file_bytes:
  assumes "wf_oid (f_object_id f)" and "short_string (f_name f)"
  shows "read_file WORKER_STREAM_VERSION_V2 (r\<lparr>avail :=
       (to_le_bytes (f_entry_id f) @ to_le_bytes (f_parent_id f)
        @ to_le_bytes (f_logical_size f)
        @ snd (write_alloc (f_allocated_size f) [])
        @ to_le_bytes (f_file_attributes f) @ to_le_bytes (f_reparse_tag f)
        @ to_le_bytes (f_creation_time_utc_ms f) @ to_le_bytes (f_last_write_time_utc_ms f)
        @ to_le_bytes (f_last_access_time_utc_ms f))
     @ snd (write_object_identity (f_object_id f) [])
     @ snd (write_link_knowledge (f_total_link_count f) [])
     @ snd (write_u16_str (f_name f) []) @ cs\<rparr>) = Inr (Obs_File f, r\<lparr>avail := cs\<rparr>)"
  unfolding read_file_def alloc_bytes
  apply (subst obs_read_push)
   apply (simp split: option.split)
  apply (cases "f_allocated_size f")
   apply (simp_all add: obs_read_Cons obs_read_push get_field assms slice_append nth_append Let_def)
  done

lemma read_special_bytes:
  assumes "wf_oid (s_object_id s)" and "short_string (s_name s)"
  shows "read_special WORKER_STREAM_VERSION_V2 (r\<lparr>avail :=
       (to_le_bytes (s_entry_id s) @ to_le_bytes (s_parent_id s)
        @ to_le_bytes (s_file_attributes s) @ to_le_bytes (s_reparse_tag s)
        @ to_le_bytes (s_creation_time_utc_ms s) @ to_le_bytes (s_last_write_time_utc_ms s)
        @ to_le_bytes (s_last_access_time_utc_ms s))
     @ snd (write_object_identity (s_object_id s) [])
     @ snd (write_u16_str (s_name s) []) @ cs\<rparr>) = Inr (Obs_Special s, r\<lparr>avail := cs\<rparr>)"
  unfolding read_special_def
  by (subst obs_read_push) (simp_all add: get_field assms slice_append)

lemma read_stream_bytes:
  assumes "short_string (st_name st)"
  shows "read_content_stream (r\<lparr>avail :=
       (to_le_bytes (st_parent_entry_id st) @ to_le_bytes (st_logical_size st)
        @ [if st_allocated_size st = None then 0 else 1])
     @ (case st_allocated_size st of Some a \<Rightarrow> to_le_bytes a | None \<Rightarrow> [])
     @ snd (write_u16_str (st_name st) []) @ cs\<rparr>) = Inr (Obs_ContentStream st, r\<lparr>avail := cs\<rparr>)"
  unfolding read_content_stream_def
  apply (subst obs_read_push)
   apply simp
  apply (cases "st_allocated_size st")
   apply (simp_all add: obs_read_push get_field assms slice_append nth_append)
  done

lemma read_coverage_gap_bytes:
  assumes "short_string (g_path g)" and "short_string (g_error_message g)"
  shows "read_coverage_gap (r\<lparr>avail := to_le_bytes (g_error_code g)
     @ snd (write_u16_str (g_path g) []) @ snd (write_u16_str (g_error_message g) []) @ cs\<rparr>)
     = Inr (Obs_CoverageGap g, r\<lparr>avail := cs\<rparr>)"
  by (simp add: read_coverage_gap_def obs_read_push get_field assms)

lemma read_terminal_bytes:
  "read_terminal (r\<lparr>avail := (run_outcome_u8 (t_outcome t)
     # to_le_bytes (t_total_directories t) @ to_le_bytes (t_total_files t)
     @ to_le_bytes (t_total_logical_bytes t) @ to_le_bytes (t_total_allocated_bytes t)
     @ to_le_bytes (t_coverage_gap_count t) @ to_le_bytes (t_duration_ms t)) @ cs\<rparr>)
     = Inr (Obs_Terminal t, r\<lparr>avail := cs\<rparr>)"
  unfolding read_terminal_def
  by (subst obs_read_push)
    (simp_all add: slice_append)

text \<open>
  The record reader at stream version 2: a record, end of input excluded. Its bytes on the wire
  are the tag followed by the body, for which the lemmas above do the work.
\<close>

definition expect_record :: "reader \<Rightarrow> obs_decode_error + (observation_record \<times> reader)" where
  "expect_record r =
     and_then (read_record \<lparr>or_reader = r, or_target_path = [], or_stream_version = WORKER_STREAM_VERSION_V2\<rparr>)
       (\<lambda>(rec, self). case rec of None \<Rightarrow> Inl Obs_PrematureEof | Some x \<Rightarrow> Inr (x, or_reader self))"

lemma read_record_tag:
  assumes "record_tag_u8 tag = b" and "or_stream_version self = v"
  shows "read_record (self\<lparr>or_reader := r\<lparr>avail := b # cs\<rparr>\<rparr>) =
     and_then (read_body v tag (r\<lparr>avail := cs\<rparr>)) (\<lambda>(rec, r'). Inr (Some rec, self\<lparr>or_reader := r'\<rparr>))"
  using assms by (auto simp: read_record_def and_then_def split: sum.split)

lemma read_written_record:
  assumes "wf_record x" and v: "or_stream_version self = WORKER_STREAM_VERSION_V2"
  shows "read_record (self\<lparr>or_reader := r\<lparr>avail := snd (write_record x []) @ cs\<rparr>\<rparr>)
           = Inr (Some x, self\<lparr>or_reader := r\<lparr>avail := cs\<rparr>\<rparr>)"
proof (cases x)
  case (Obs_Directory d)
  with assms(1) have "wf_oid (d_object_id d)" "short_string (d_name d)" by simp_all
  then show ?thesis using Obs_Directory assms(1)
    by (simp add: directory_bytes read_record_tag [of Tag_Directory, OF _ v] read_body_def
        read_directory_bytes [simplified])
next
  case (Obs_File f)
  with assms(1) have "wf_oid (f_object_id f)" "short_string (f_name f)" by simp_all
  then show ?thesis using Obs_File assms(1)
    by (simp add: file_bytes read_record_tag [of Tag_File, OF _ v] read_body_def
        read_file_bytes [simplified])
next
  case (Obs_Special s)
  with assms(1) have "wf_oid (s_object_id s)" "short_string (s_name s)" by simp_all
  then show ?thesis using Obs_Special assms(1)
    by (simp add: special_bytes read_record_tag [of Tag_SpecialObject, OF _ v] read_body_def
        read_special_bytes [simplified])
next
  case (Obs_ContentStream st)
  with assms(1) have "short_string (st_name st)" by simp
  then show ?thesis using Obs_ContentStream assms(1)
    using read_stream_bytes [of st cs r]
    by (simp add: stream_bytes read_record_tag [of Tag_ContentStream, OF _ v] read_body_def)
next
  case (Obs_CoverageGap g)
  then show ?thesis using assms(1)
    by (simp add: coverage_gap_bytes read_record_tag [of Tag_CoverageGap, OF _ v] read_body_def
        read_coverage_gap_bytes)
next
  case (Obs_Terminal t)
  then show ?thesis
    using read_terminal_bytes [of t cs r]
    by (simp add: terminal_bytes read_record_tag [of Tag_Terminal, OF _ v] read_body_def)
qed

lemma write_record_appends:
  "wf_record x \<Longrightarrow> write_record x sink = (None, sink @ snd (write_record x []))"
  by (cases x) (simp_all add: directory_bytes file_bytes special_bytes stream_bytes
      coverage_gap_bytes terminal_bytes del: wf_record.simps)

interpretation record_codec: prefix_codec write_record expect_record wf_record
proof
  fix x sink r cs
  assume wf: "wf_record x"
  show "write_record x sink = (None, sink @ snd (write_record x []))"
    using wf by (rule write_record_appends)
  show "expect_record (r\<lparr>avail := snd (write_record x []) @ cs\<rparr>) = Inr (x, r\<lparr>avail := cs\<rparr>)"
    using read_written_record [OF wf, of
        "\<lparr>or_reader = r, or_target_path = [], or_stream_version = WORKER_STREAM_VERSION_V2\<rparr>"]
    by (simp add: expect_record_def)
qed

section \<open>Whole streams\<close>

text \<open>The consumer's loop over \<open>read_record\<close>, with fuel for the number of records it may read.\<close>

fun read_records :: "nat \<Rightarrow> observation_reader \<Rightarrow> obs_decode_error + observation_record list" where
  "read_records 0 self = Inl Obs_PrematureEof"
| "read_records (Suc n) self = and_then (read_record self) (\<lambda>(rec, self).
     case rec of None \<Rightarrow> Inr []
     | Some x \<Rightarrow> and_then (read_records n self) (\<lambda>xs. Inr (x # xs)))"

definition write_observations :: "string \<Rightarrow> observation_record list \<Rightarrow> write_op" where
  "write_observations target_path xs = write_seq (writer_new target_path # map write_record xs)"

lemma writer_new_bytes:
  "short_string p \<Longrightarrow> writer_new p sink =
     (None, sink @ WORKER_MAGIC @ to_le_bytes WORKER_STREAM_VERSION @ snd (write_u16_str p []))"
  by (simp add: writer_new_def write_all_def put_field [where sink = "_ @ _"])

lemma length_WORKER_MAGIC [simp]: "length WORKER_MAGIC = 4"
  by (simp add: WORKER_MAGIC_def)

lemma reader_new_writer_new:
  assumes "short_string p"
  shows "reader_new (r\<lparr>avail := snd (writer_new p []) @ cs\<rparr>) =
    Inr \<lparr>or_reader = r\<lparr>avail := cs\<rparr>, or_target_path = p, or_stream_version = WORKER_STREAM_VERSION_V2\<rparr>"
  using assms
  by (simp add: reader_new_def writer_new_bytes obs_read_push str_codec.get_put
      WORKER_STREAM_VERSION_def Let_def)

lemma write_observations_bytes:
  assumes "short_string p" and "list_all wf_record xs"
  shows "write_observations p xs sink =
     (None, sink @ snd (writer_new p []) @ concat (map (\<lambda>x. snd (write_record x [])) xs))"
  using assms by (simp add: write_observations_def writer_new_bytes record_codec.put_seq)

lemma read_record_empty:
  "avail (or_reader self) = [] \<Longrightarrow> fault (or_reader self) = None \<Longrightarrow> read_record self = Inr (None, self)"
  by (simp add: read_record_def read_byte_def)

lemma read_written_records:
  assumes "list_all wf_record xs" and "or_stream_version self = WORKER_STREAM_VERSION_V2"
  shows "read_records (Suc (length xs))
     (self\<lparr>or_reader := of_bytes (concat (map (\<lambda>x. snd (write_record x [])) xs))\<rparr>) = Inr xs"
  using assms
proof (induction xs arbitrary: self)
  case Nil
  then show ?case by (simp add: read_record_empty)
next
  case (Cons x xs)
  then have "read_record (self\<lparr>or_reader := of_bytes (snd (write_record x []) @
        concat (map (\<lambda>x. snd (write_record x [])) xs))\<rparr>) =
      Inr (Some x, self\<lparr>or_reader := of_bytes (concat (map (\<lambda>x. snd (write_record x [])) xs))\<rparr>)"
    using read_written_record [of x self _ "of_bytes []"] by (simp add: of_bytes_def)
  with Cons show ?case by simp
qed

text \<open>
  A string too long for its length field stops the writer in the middle of the record: the tag
  and the fixed fields are already in the sink.
\<close>

lemma long_string_fails:
  "65535 < length s \<Longrightarrow> write_u16_str s sink = (Some Io_InvalidInput, sink)"
  by (simp add: write_u16_str_def)

text \<open>Version 1 records carry no identity, no link count and no directory allocation.\<close>

lemma read_directory_v1:
  "read_directory WORKER_STREAM_VERSION_V1 r = Inr (Obs_Directory d, r') \<Longrightarrow>
     d_object_id d = None \<and> d_allocated_size d = None \<and> d_total_link_count d = NotObserved"
  by (auto simp: read_directory_def and_then_eq_Inr)

lemma read_file_v1:
  "read_file WORKER_STREAM_VERSION_V1 r = Inr (Obs_File f, r') \<Longrightarrow>
     f_object_id f = None \<and> f_total_link_count f = NotObserved"
  by (auto simp: read_file_def and_then_eq_Inr Let_def)

section \<open>Properties\<close>

text \<open>
  C19: A stream the writer produced for a target path and a list of records (strings of at most
  65,535 bytes, 16-byte volume identifiers) is read back by the reader into the same path and
  the same records, in order, up to the end of the stream.
\<close>

theorem observation_stream_roundtrip:
  assumes "short_string p" and "list_all wf_record xs"
  shows "\<exists>bs self. write_observations p xs [] = (None, bs) \<and> reader_new (of_bytes bs) = Inr self
    \<and> or_target_path self = p \<and> read_records (Suc (length xs)) self = Inr xs"
proof -
  let ?body = "concat (map (\<lambda>x. snd (write_record x [])) xs)"
  let ?self = "\<lparr>or_reader = of_bytes ?body, or_target_path = p, or_stream_version = WORKER_STREAM_VERSION_V2\<rparr>"
  have "reader_new (of_bytes (snd (writer_new p []) @ ?body)) = Inr ?self"
    using reader_new_writer_new [OF assms(1), of _ "of_bytes []"] by (simp add: of_bytes_def)
  moreover have "read_records (Suc (length xs)) ?self = Inr xs"
    using read_written_records [OF assms(2), of ?self] by simp
  ultimately show ?thesis
    using write_observations_bytes [OF assms, of "[]"] by (intro exI [of _ ?self] exI conjI) simp_all
qed

theorem observation_stream_roundtrip_witness:
  "\<exists>bs self. write_observations ''C:'' [Obs_CoverageGap \<lparr>g_path = ''p'', g_error_code = 5, g_error_message = ''e''\<rparr>] []
      = (None, bs) \<and> reader_new (of_bytes bs) = Inr self \<and> or_target_path self = ''C:''
    \<and> read_records 2 self = Inr [Obs_CoverageGap \<lparr>g_path = ''p'', g_error_code = 5, g_error_message = ''e''\<rparr>]"
proof -
  have "short_string ''C:''" "short_string ''p''" "short_string ''e''"
    by (auto simp: short_string_def intro: rust_string_ascii)
  then show ?thesis
    using observation_stream_roundtrip [of "''C:''"
      "[Obs_CoverageGap \<lparr>g_path = ''p'', g_error_code = 5, g_error_message = ''e''\<rparr>]"]
    by (simp add: numeral_2_eq_2)
qed

text \<open>
  The record encoding is prefix free: when the bytes of two well-formed records, each
  followed by anything, agree, the records and what follows agree. A stream of records can be
  cut into records in one way only.
\<close>

theorem record_encoding_prefix_free:
  assumes "wf_record x" and "wf_record y"
    and "snd (write_record x []) @ cs = snd (write_record y []) @ ds"
  shows "x = y \<and> cs = ds"
  using assms by (rule record_codec.put_prefix_free)

theorem record_encoding_prefix_free_witness:
  "\<exists>x. wf_record x \<and> (\<forall>ds. snd (write_record x []) @ [1] = snd (write_record x []) @ ds \<longrightarrow> ds = [1])"
proof -
  let ?x = "Obs_Terminal \<lparr>t_outcome = Finished, t_total_directories = 1, t_total_files = 0,
    t_total_logical_bytes = 0, t_total_allocated_bytes = 0, t_coverage_gap_count = 0, t_duration_ms = 3\<rparr>"
  have "wf_record ?x" by simp
  then show ?thesis using record_encoding_prefix_free [of ?x ?x "[1]"] by blast
qed

text \<open>
  A name that does not fit the two-byte length field makes the file record fail with
  \<open>InvalidInput\<close> after the tag and all fixed fields are already in the sink: the record is
  left incomplete, not skipped.
\<close>

theorem oversized_name_leaves_partial_record:
  assumes "65535 < length (f_name file)" and "wf_oid (f_object_id file)"
  shows "\<exists>bs. 58 \<le> length bs \<and> hd bs = record_tag_u8 Tag_File
    \<and> write_file file sink = (Some Io_InvalidInput, sink @ bs)"
proof -
  let ?f = "f_object_id file" and ?l = "f_total_link_count file"
  have "write_file file sink = (Some Io_InvalidInput, sink @ ([2]
     @ to_le_bytes (f_entry_id file) @ to_le_bytes (f_parent_id file) @ to_le_bytes (f_logical_size file)
     @ snd (write_alloc (f_allocated_size file) [])
     @ to_le_bytes (f_file_attributes file) @ to_le_bytes (f_reparse_tag file)
     @ to_le_bytes (f_creation_time_utc_ms file) @ to_le_bytes (f_last_write_time_utc_ms file)
     @ to_le_bytes (f_last_access_time_utc_ms file)
     @ snd (write_object_identity ?f []) @ snd (write_link_knowledge ?l [])))"
    using assms by (simp add: write_file_def write_all_def write_alloc_appends [of _ "_ @ _"]
      put_field [where sink = "_ @ _"] long_string_fails)
  moreover have "length (snd (write_alloc (f_allocated_size file) [])) = 9"
    by (simp add: alloc_bytes split: option.split)
  ultimately show ?thesis by (intro exI conjI) auto
qed

theorem oversized_name_leaves_partial_record_witness:
  "\<exists>bs. 58 \<le> length bs \<and> hd bs = record_tag_u8 Tag_File \<and> write_file
     \<lparr>f_entry_id = 2, f_parent_id = 1, f_name = replicate 65536 CHR ''x'', f_logical_size = 0,
      f_allocated_size = None, f_file_attributes = 0, f_reparse_tag = 0, f_creation_time_utc_ms = 0,
      f_last_write_time_utc_ms = 0, f_last_access_time_utc_ms = 0, f_object_id = None,
      f_total_link_count = NotObserved\<rparr> [] = (Some Io_InvalidInput, bs)"
  using oversized_name_leaves_partial_record [of
     "\<lparr>f_entry_id = 2, f_parent_id = 1, f_name = replicate 65536 CHR ''x'', f_logical_size = 0,
      f_allocated_size = None, f_file_attributes = 0, f_reparse_tag = 0, f_creation_time_utc_ms = 0,
      f_last_write_time_utc_ms = 0, f_last_access_time_utc_ms = 0, f_object_id = None,
      f_total_link_count = NotObserved\<rparr>" "[]"]
  by (simp add: wf_oid_def)

end
