(* ===== verification/Protobuf.thy ===== *)
theory Protobuf
  imports Observation
begin

text \<open>
  The messages of \<^verbatim>\<open>pigtree.proto\<close> the engine fills in itself, as records, with the conversions
  of \<^verbatim>\<open>crates/pigtree-protocol/src/protobuf.rs\<close>. Enumerations are the \<open>i32\<close> numbers the message
  fields hold. The wire encoding is the work of a library and is not modelled here.
\<close>

section \<open>Enumerations\<close>

datatype link_count_knowledge_status = LinkUnspecified | LinkKnown | LinkNotObserved | LinkUnavailable | LinkNotApplicable

primrec link_status_i32 :: "link_count_knowledge_status \<Rightarrow> int" where
  "link_status_i32 LinkUnspecified = 0"
| "link_status_i32 LinkKnown = 1"
| "link_status_i32 LinkNotObserved = 2"
| "link_status_i32 LinkUnavailable = 3"
| "link_status_i32 LinkNotApplicable = 4"

datatype external_status_proto = ExternalUnspecified | ExternalConfirmedNone | ExternalConfirmedExternal
  | ExternalIndeterminate | ExternalInconsistentEvidence | ExternalNotApplicable

primrec external_status_i32 :: "external_status_proto \<Rightarrow> int" where
  "external_status_i32 ExternalUnspecified = 0"
| "external_status_i32 ExternalConfirmedNone = 1"
| "external_status_i32 ExternalConfirmedExternal = 2"
| "external_status_i32 ExternalIndeterminate = 3"
| "external_status_i32 ExternalInconsistentEvidence = 4"
| "external_status_i32 ExternalNotApplicable = 5"

section \<open>Messages\<close>

record link_count_proto =
  lp_status :: int
  lp_count :: u32

record content_stream_proto =
  sp_name :: string
  sp_logical_bytes :: u64
  sp_allocated_bytes :: u64
  sp_allocated_size_known :: bool

record directory_entry_node =
  n_id :: u32
  n_parent_id :: u32
  n_name :: string
  n_entry_kind :: u32
  n_logical_bytes :: u64
  n_referenced_allocated_bytes :: u64
  n_allocated_size_known :: bool
  n_child_count :: u32
  n_has_children :: bool
  n_unique_allocated_bytes :: u64
  n_observed_alias_count :: u32
  n_total_link_count :: "link_count_proto option"
  n_external_reference_status :: int
  n_known_subtotal_allocated_bytes :: u64
  n_content_streams :: "content_stream_proto list"

record ping_response =
  pr_timestamp_utc_ms :: u64
  pr_echo_timestamp_utc_ms :: u64

record health_response =
  hp_status :: string
  hp_uptime_ms :: u64
  hp_memory_private_bytes :: u64
  hp_handle_count :: u32

record status_response =
  st_state :: string
  st_active_runs :: u32
  st_total_observations :: u64
  st_session_id :: string

record version_response =
  vr_engine_version :: string
  vr_protocol_version :: u32
  vr_build_date :: string
  vr_commit_hash :: string
  vr_capabilities :: "string list"

record coverage_gap_report =
  gr_display_path :: string
  gr_status_code :: string
  gr_native_error :: u32
  gr_error_message :: string

record hard_link_report =
  hr_volume_guid :: "u8 list"
  hr_file_id_hi :: u64
  hr_file_id_lo :: u64
  hr_observed_alias_count :: u32
  hr_total_link_count :: "link_count_proto option"
  hr_external_reference_status :: int
  hr_entry_paths :: "string list"

record scan_progress =
  p_operation_id :: string
  p_sequence_number :: u64
  p_timestamp_iso :: string
  p_observed_directories :: u64
  p_observed_files :: u64
  p_observed_logical_bytes :: u64
  p_observed_referenced_allocated_bytes :: u64
  p_coverage_gaps :: u32
  p_current_phase :: string
  p_current_directory :: string

record scan_response =
  r_operation_id :: string
  r_target_path :: string
  r_run_outcome :: int
  r_observation_started_iso :: string
  r_observation_completed_iso :: string
  r_scope_coverage :: int
  r_directory_count :: u64
  r_file_count :: u64
  r_special_count :: u64
  r_logical_bytes :: u64
  r_allocated_bytes :: u64
  r_allocated_bytes_known :: bool
  r_coverage_gaps :: "coverage_gap_report list"
  r_duration_ms :: u64
  r_referenced_allocated_bytes :: u64
  r_unique_allocated_bytes :: u64
  r_known_subtotal_allocated_bytes :: u64
  r_indeterminate_external_reference_objects :: u64
  r_hard_links :: "hard_link_report list"

section \<open>Conversions\<close>

definition link_count_proto_from :: "u32 value_knowledge \<Rightarrow> link_count_proto" where
  "link_count_proto_from v = (case v of
     NotObserved \<Rightarrow> \<lparr>lp_status = link_status_i32 LinkNotObserved, lp_count = 0\<rparr>
   | Known c \<Rightarrow> \<lparr>lp_status = link_status_i32 LinkKnown, lp_count = c\<rparr>
   | Unavailable \<Rightarrow> \<lparr>lp_status = link_status_i32 LinkUnavailable, lp_count = 0\<rparr>
   | NotApplicable \<Rightarrow> \<lparr>lp_status = link_status_i32 LinkNotApplicable, lp_count = 0\<rparr>)"

definition external_status_from :: "external_reference_status \<Rightarrow> external_status_proto" where
  "external_status_from s = (case s of
     ConfirmedNone \<Rightarrow> ExternalConfirmedNone
   | ConfirmedExternal \<Rightarrow> ExternalConfirmedExternal
   | Indeterminate \<Rightarrow> ExternalIndeterminate
   | InconsistentEvidence \<Rightarrow> ExternalInconsistentEvidence
   | StatusNotApplicable \<Rightarrow> ExternalNotApplicable)"

text \<open>No evidence is lost on the way to the client.\<close>

lemma link_count_proto_inj: "link_count_proto_from v = link_count_proto_from w \<longleftrightarrow> v = w"
  by (cases v; cases w) (simp_all add: link_count_proto_from_def)

lemma external_status_inj:
  "external_status_i32 (external_status_from s) = external_status_i32 (external_status_from t) \<longleftrightarrow> s = t"
  by (cases s; cases t) (simp_all add: external_status_from_def)

end
