(* ===== verification/Graph_Types.thy ===== *)
theory Graph_Types
  imports Observation_Codec "HOL-Library.AList" "HOL-Library.Multiset"
begin

text \<open>
  The data of the engine's directory graph: the types of
  \<^verbatim>\<open>crates/pigtree-engine/src/graph.rs\<close> and the errors of
  \<^verbatim>\<open>crates/pigtree-engine/src/error.rs\<close>. Vectors of entries are lists, a hash map that is only
  looked up is a map, and a hash map whose contents are later iterated is an association list.
\<close>

section \<open>Entries and objects\<close>

definition NO_OBJECT :: u32 where
  "NO_OBJECT = u32_max"

datatype entry_kind = Directory | File | Special

record object_record =
  o_identity :: "object_identity option"
  o_observed_alias_count :: u32
  o_total_link_count :: "u32 value_knowledge"
  o_external_reference_status :: external_reference_status
  o_weight :: u64

record stream_breakdown =
  sb_name :: string
  sb_logical_bytes :: u64
  sb_allocated_bytes :: "u64 option"

record hard_link_summary =
  hl_identity :: object_identity
  hl_observed_alias_count :: u32
  hl_total_link_count :: "u32 value_knowledge"
  hl_external_reference_status :: external_reference_status
  hl_entry_paths :: "string list"

record compact_entry =
  c_id :: u32
  c_parent_id :: u32
  c_name :: string
  c_kind :: entry_kind
  c_allocated_size_known :: bool
  c_logical_size :: "u64 option"
  c_allocated_size :: "u64 option"
  c_referenced_allocated_bytes :: u64
  c_unique_allocated_bytes :: u64
  c_known_subtotal_allocated_bytes :: u64
  c_object_index :: u32
  c_file_attributes :: u32
  c_reparse_tag :: u32
  c_child_start :: u32
  c_child_count :: u32
  c_creation_time_utc_ms :: u64
  c_last_write_time_utc_ms :: u64
  c_last_access_time_utc_ms :: u64

datatype entry_storage =
    Dense "compact_entry list"
  | Sparse "compact_entry list" "u32 \<Rightarrow> u32 option"

primrec storage_entries :: "entry_storage \<Rightarrow> compact_entry list" where
  "storage_entries (Dense v) = v"
| "storage_entries (Sparse entries id_to_idx) = entries"

definition storage_len :: "entry_storage \<Rightarrow> nat" where
  "storage_len st = (case st of Dense v \<Rightarrow> length v | Sparse entries _ \<Rightarrow> length entries)"

text \<open>\<open>Vec::get\<close>.\<close>

definition vec_get :: "'a list \<Rightarrow> nat \<Rightarrow> 'a option" where
  "vec_get xs i = (if i < length xs then Some (xs ! i) else None)"

definition storage_get :: "entry_storage \<Rightarrow> u32 \<Rightarrow> compact_entry option" where
  "storage_get st eid =
     (if eid = 0 then None
      else case st of
        Dense v \<Rightarrow> vec_get v (unat eid - 1)
      | Sparse entries id_to_idx \<Rightarrow>
          (case id_to_idx eid of None \<Rightarrow> None | Some idx \<Rightarrow> vec_get entries (unat idx)))"

definition storage_get_by_index :: "entry_storage \<Rightarrow> nat \<Rightarrow> compact_entry option" where
  "storage_get_by_index st idx =
     (case st of Dense v \<Rightarrow> vec_get v idx | Sparse entries _ \<Rightarrow> vec_get entries idx)"

section \<open>The finished graph\<close>

record directory_graph =
  dg_root_target :: string
  dg_root_id :: u32
  dg_storage :: entry_storage
  dg_all_children :: "u32 list"
  dg_objects :: "object_record list"
  dg_object_streams :: "u32 \<Rightarrow> stream_breakdown list option"
  dg_gaps :: "coverage_gap_observation list"
  dg_terminal :: terminal_observation
  dg_allocated_bytes_known :: bool
  dg_indeterminate_external_reference_objects :: u64

section \<open>Errors\<close>

datatype graph_build_error =
    InvalidRoot u32 u32
  | DuplicateEntryId u32
  | MissingParent u32 u32
  | ParentNotDirectory u32 u32
  | SelfParent u32
  | UnknownStreamParent u32
  | RecordAfterTerminal
  | DuplicateTerminal
  | MissingTerminal
  | AggregateMismatch string u64 u64
  | Decode obs_decode_error

section \<open>Entry identifiers as an index\<close>

text \<open>
  What the users of an entry store rely on: looking up a (nonzero) identifier gives the one
  position that holds it. The builder's dense and sparse modes and the finished storage all
  keep this contract.
\<close>

locale id_index =
  fixes lookup :: "'s \<Rightarrow> u32 \<Rightarrow> nat option"
    and ids :: "'s \<Rightarrow> u32 list"
    and ok :: "'s \<Rightarrow> bool"
  assumes lookup_iff: "ok s \<Longrightarrow> eid \<noteq> 0 \<Longrightarrow> lookup s eid = Some i \<longleftrightarrow> i < length (ids s) \<and> ids s ! i = eid"
begin

lemma lookup_bound: "ok s \<Longrightarrow> eid \<noteq> 0 \<Longrightarrow> lookup s eid = Some i \<Longrightarrow> i < length (ids s)"
  by (simp add: lookup_iff)

lemma lookup_nth: "ok s \<Longrightarrow> i < length (ids s) \<Longrightarrow> ids s ! i \<noteq> 0 \<Longrightarrow> lookup s (ids s ! i) = Some i"
  by (simp add: lookup_iff)

lemma lookup_None: "ok s \<Longrightarrow> eid \<noteq> 0 \<Longrightarrow> lookup s eid = None \<longleftrightarrow> eid \<notin> set (ids s)"
  by (metis lookup_iff in_set_conv_nth not_None_eq)

lemma ids_inject:
  "ok s \<Longrightarrow> i < length (ids s) \<Longrightarrow> j < length (ids s) \<Longrightarrow> ids s ! i = ids s ! j \<Longrightarrow> ids s ! i \<noteq> 0 \<Longrightarrow> i = j"
  by (metis lookup_nth option.inject)

end

definition entry_ids :: "compact_entry list \<Rightarrow> u32 list" where
  "entry_ids es = map c_id es"

text \<open>The dense invariant: identifiers are 1, 2, 3, ... in order.\<close>

definition dense_ids :: "compact_entry list \<Rightarrow> bool" where
  "dense_ids es \<longleftrightarrow> length es < 2 ^ 32 \<and> (\<forall>i < length es. c_id (es ! i) = word_of_nat (i + 1))"

text \<open>The sparse invariant: the map holds exactly the identifiers, with their positions.\<close>

definition sparse_ids :: "compact_entry list \<Rightarrow> (u32 \<Rightarrow> u32 option) \<Rightarrow> bool" where
  "sparse_ids es m \<longleftrightarrow> length es < 2 ^ 32 \<and>
     (\<forall>eid w. m eid = Some w \<longleftrightarrow> unat w < length es \<and> c_id (es ! unat w) = eid)"

definition storage_ok :: "entry_storage \<Rightarrow> bool" where
  "storage_ok st \<longleftrightarrow> (case st of Dense v \<Rightarrow> dense_ids v | Sparse es m \<Rightarrow> sparse_ids es m)"

text \<open>The position an identifier resolves to, in each mode.\<close>

definition dense_idx :: "compact_entry list \<Rightarrow> u32 \<Rightarrow> nat option" where
  "dense_idx es eid = (if eid = 0 \<or> unat eid > length es then None else Some (unat eid - 1))"

definition sparse_idx :: "(u32 \<Rightarrow> u32 option) \<Rightarrow> u32 \<Rightarrow> nat option" where
  "sparse_idx m eid = map_option unat (m eid)"

lemma dense_idx_iff:
  assumes "dense_ids es"
  shows "dense_idx es eid = Some i \<longleftrightarrow> i < length es \<and> c_id (es ! i) = eid"
proof
  assume "dense_idx es eid = Some i"
  then have eid: "eid \<noteq> 0" "unat eid \<le> length es" and i: "i = unat eid - 1"
    by (auto simp: dense_idx_def split: if_splits)
  have pos: "0 < unat eid" using eid(1) by (simp add: unat_gt_0)
  then have "i < length es" and "i + 1 = unat eid" using i eid(2) by simp_all
  then show "i < length es \<and> c_id (es ! i) = eid"
    using assms by (simp add: dense_ids_def del: of_nat_Suc of_nat_add)
next
  assume i: "i < length es \<and> c_id (es ! i) = eid"
  then have "i + 1 < 2 ^ 32" and eid: "eid = word_of_nat (i + 1)" using assms by (auto simp: dense_ids_def)
  then have u: "unat eid = i + 1" by (simp add: unat_of_nat del: of_nat_Suc of_nat_add)
  then have "eid \<noteq> 0" by auto
  with u i show "dense_idx es eid = Some i" by (simp add: dense_idx_def)
qed

lemma sparse_idx_iff:
  assumes "sparse_ids es m"
  shows "sparse_idx m eid = Some i \<longleftrightarrow> i < length es \<and> c_id (es ! i) = eid"
proof
  assume "sparse_idx m eid = Some i"
  then show "i < length es \<and> c_id (es ! i) = eid"
    using assms by (auto simp: sparse_idx_def sparse_ids_def)
next
  assume i: "i < length es \<and> c_id (es ! i) = eid"
  then have "i < 2 ^ 32" using assms by (simp add: sparse_ids_def)
  then have "unat (word_of_nat i :: u32) = i" by (simp add: unat_of_nat)
  with i assms have "m eid = Some (word_of_nat i)" unfolding sparse_ids_def by simp
  with \<open>unat (word_of_nat i :: u32) = i\<close> show "sparse_idx m eid = Some i" by (simp add: sparse_idx_def)
qed

definition storage_idx :: "entry_storage \<Rightarrow> u32 \<Rightarrow> nat option" where
  "storage_idx st eid = (if eid = 0 then None
     else case st of Dense v \<Rightarrow> dense_idx v eid | Sparse es m \<Rightarrow> sparse_idx m eid)"

interpretation store: id_index storage_idx "\<lambda>st. entry_ids (storage_entries st)" storage_ok
proof
  fix s :: entry_storage and eid i
  assume "storage_ok s" and "(eid :: u32) \<noteq> 0"
  then show "storage_idx s eid = Some i \<longleftrightarrow>
      i < length (entry_ids (storage_entries s)) \<and> entry_ids (storage_entries s) ! i = eid"
    by (cases s) (auto simp: storage_idx_def storage_ok_def entry_ids_def dense_idx_iff sparse_idx_iff)
qed

lemma storage_get_eq:
  assumes "storage_ok st"
  shows "storage_get st eid = map_option (\<lambda>i. storage_entries st ! i) (storage_idx st eid)"
proof (cases st)
  case (Dense v)
  have "unat eid - 1 < length v \<longleftrightarrow> unat eid \<le> length v" if "eid \<noteq> 0"
    using that unat_gt_0 [of eid] by linarith
  with Dense show ?thesis
    by (auto simp: storage_get_def storage_idx_def dense_idx_def vec_get_def)
next
  case (Sparse es m)
  then have "unat w < length es" if "m eid = Some w" for w
    using assms that by (simp add: storage_ok_def sparse_ids_def)
  with Sparse show ?thesis
    by (cases "m eid") (simp_all add: storage_get_def storage_idx_def sparse_idx_def vec_get_def)
qed

end
