(* ===== verification/Builder.thy ===== *)
theory Builder
  imports Graph_Types
begin

text \<open>
  \<open>GraphBuilder\<close> of \<^verbatim>\<open>crates/pigtree-engine/src/builder.rs\<close>: the ingestion of observation
  records, one operation per method. A method of a \<open>&mut self\<close> builder returns its error, if
  any, and the builder after it; the builder is changed by failing calls too where the code
  changes it.
\<close>

section \<open>State\<close>

record graph_builder =
  b_root_target :: string
  b_entries :: "compact_entry list"
  b_is_dense :: bool
  b_id_to_idx :: "u32 \<Rightarrow> u32 option"
  b_first_child :: "u32 list"
  b_last_child :: "u32 list"
  b_next_sibling :: "u32 list"
  b_file_object_map :: "(object_identity \<times> u32 list) list"
  b_dir_object_ids :: "(u32 \<times> object_identity) list"
  b_file_link_counts :: "u32 \<Rightarrow> u32 value_knowledge option"
  b_dir_self_alloc :: "u64 list"
  b_pending_streams :: "(nat \<times> stream_breakdown) list"
  b_object_streams :: "u32 \<Rightarrow> stream_breakdown list option"
  b_gaps :: "coverage_gap_observation list"
  b_terminal :: "terminal_observation option"
  b_dir_count :: u64
  b_file_count :: u64
  b_special_count :: u64
  b_logical_bytes :: u64
  b_allocated_bytes :: u64
  b_allocated_bytes_known :: bool
  b_current_dir_id :: u32

definition builder_new :: "string \<Rightarrow> graph_builder" where
  "builder_new root_target =
     \<lparr>b_root_target = root_target, b_entries = [], b_is_dense = True, b_id_to_idx = Map.empty,
      b_first_child = [], b_last_child = [], b_next_sibling = [],
      b_file_object_map = [], b_dir_object_ids = [], b_file_link_counts = Map.empty,
      b_dir_self_alloc = [], b_pending_streams = [], b_object_streams = Map.empty,
      b_gaps = [], b_terminal = None, b_dir_count = 0, b_file_count = 0, b_special_count = 0,
      b_logical_bytes = 0, b_allocated_bytes = 0, b_allocated_bytes_known = True,
      b_current_dir_id = 0\<rparr>"

text \<open>\<open>map.entry(k).or_default().push(v)\<close> on a hash map of vectors.\<close>

fun push_at :: "'k \<Rightarrow> 'v \<Rightarrow> ('k \<times> 'v list) list \<Rightarrow> ('k \<times> 'v list) list" where
  "push_at k v [] = [(k, [v])]"
| "push_at k v ((k', vs) # m) = (if k = k' then (k', vs @ [v]) # m else (k', vs) # push_at k v m)"

type_synonym ingest = "graph_builder \<Rightarrow> graph_build_error option \<times> graph_builder"

text \<open>A call followed by \<open>?\<close> and the rest of the method.\<close>

definition and_do :: "ingest \<Rightarrow> (graph_builder \<Rightarrow> graph_builder) \<Rightarrow> ingest" where
  "and_do f g self = (case f self of (Some e, self) \<Rightarrow> (Some e, self) | (None, self) \<Rightarrow> (None, g self))"

section \<open>Inserting an entry\<close>

definition builder_get_idx :: "graph_builder \<Rightarrow> u32 \<Rightarrow> nat option" where
  "builder_get_idx self eid =
     (if b_is_dense self then dense_idx (b_entries self) eid else sparse_idx (b_id_to_idx self) eid)"

text \<open>Leave the dense mode when the identifiers stop being sequential.\<close>

definition switch_to_sparse :: "u32 \<Rightarrow> graph_builder \<Rightarrow> graph_builder" where
  "switch_to_sparse eid self =
     (let cur_idx = length (b_entries self);
          expected_seq_id = word_of_nat (cur_idx + 1)
      in if b_is_dense self \<and> eid \<noteq> expected_seq_id
         then self\<lparr>b_is_dense := False,
                b_id_to_idx := foldl (\<lambda>m i. m(c_id (b_entries self ! i) \<mapsto> word_of_nat i))
                  (b_id_to_idx self) [0..<cur_idx]\<rparr>
         else self)"

definition is_duplicate :: "u32 \<Rightarrow> graph_builder \<Rightarrow> bool" where
  "is_duplicate eid self =
     (if b_is_dense self then eid \<le> word_of_nat (length (b_entries self))
      else b_id_to_idx self eid \<noteq> None)"

definition parent_lookup :: "u32 \<Rightarrow> graph_builder \<Rightarrow> nat option" where
  "parent_lookup parent_id self =
     (if b_is_dense self
      then (if parent_id > word_of_nat (length (b_entries self)) then None else Some (unat (parent_id - 1)))
      else map_option unat (b_id_to_idx self parent_id))"

text \<open>Append the new entry's index to the parent's list of children.\<close>

definition link_child :: "nat \<Rightarrow> graph_builder \<Rightarrow> graph_builder" where
  "link_child parent_idx self =
     (let cur_idx = word_of_nat (length (b_entries self))
      in if b_first_child self ! parent_idx = u32_max
         then self\<lparr>b_first_child := (b_first_child self)[parent_idx := cur_idx],
                   b_last_child := (b_last_child self)[parent_idx := cur_idx]\<rparr>
         else let prev = unat (b_last_child self ! parent_idx)
              in self\<lparr>b_next_sibling := (b_next_sibling self)[prev := cur_idx],
                      b_last_child := (b_last_child self)[parent_idx := cur_idx]\<rparr>)"

definition push_entry :: "u32 \<Rightarrow> compact_entry \<Rightarrow> u64 \<Rightarrow> graph_builder \<Rightarrow> graph_builder" where
  "push_entry eid entry self_alloc self =
     (let self = (if \<not> b_is_dense self
                  then self\<lparr>b_id_to_idx := (b_id_to_idx self)(eid \<mapsto> word_of_nat (length (b_entries self)))\<rparr>
                  else self)
      in self\<lparr>b_entries := b_entries self @ [entry],
              b_dir_self_alloc := b_dir_self_alloc self @ [self_alloc],
              b_first_child := b_first_child self @ [u32_max],
              b_last_child := b_last_child self @ [u32_max],
              b_next_sibling := b_next_sibling self @ [u32_max]\<rparr>)"

definition validate_and_insert_entry :: "u32 \<Rightarrow> u32 \<Rightarrow> compact_entry \<Rightarrow> u64 \<Rightarrow> ingest" where
  "validate_and_insert_entry eid parent_id entry self_alloc self =
     (if eid = parent_id then (Some (SelfParent eid), self)
      else if b_entries self = [] then
        (if eid \<noteq> 1 \<or> parent_id \<noteq> 0 then (Some (InvalidRoot eid parent_id), self)
         else if c_kind entry \<noteq> Directory then (Some (InvalidRoot eid parent_id), self)
         else (None, push_entry eid entry self_alloc self))
      else if parent_id = 0 \<or> eid = 1 then (Some (InvalidRoot eid parent_id), self)
      else
        let self = switch_to_sparse eid self
        in if is_duplicate eid self then (Some (DuplicateEntryId eid), self)
           else case parent_lookup parent_id self of
               None \<Rightarrow> (Some (MissingParent eid parent_id), self)
             | Some parent_idx \<Rightarrow>
                 if c_kind (b_entries self ! parent_idx) \<noteq> Directory
                 then (Some (ParentNotDirectory eid parent_id), self)
                 else (None, push_entry eid entry self_alloc (link_child parent_idx self)))"

section \<open>Ingesting records\<close>

definition directory_entry :: "directory_observation \<Rightarrow> compact_entry" where
  "directory_entry dir =
     (let self_alloc = (case d_allocated_size dir of Some a \<Rightarrow> a | None \<Rightarrow> 0)
      in \<lparr>c_id = d_entry_id dir, c_parent_id = d_parent_id dir, c_name = d_name dir,
          c_kind = Directory, c_allocated_size_known = True,
          c_logical_size = None, c_allocated_size = d_allocated_size dir,
          c_referenced_allocated_bytes = self_alloc,
          c_unique_allocated_bytes = self_alloc,
          c_known_subtotal_allocated_bytes = self_alloc,
          c_object_index = NO_OBJECT,
          c_file_attributes = d_file_attributes dir, c_reparse_tag = d_reparse_tag dir,
          c_child_start = 0, c_child_count = 0,
          c_creation_time_utc_ms = d_creation_time_utc_ms dir,
          c_last_write_time_utc_ms = d_last_write_time_utc_ms dir,
          c_last_access_time_utc_ms = d_last_access_time_utc_ms dir\<rparr>)"

definition file_entry :: "file_observation \<Rightarrow> compact_entry" where
  "file_entry file =
     (let alloc_bytes = (case f_allocated_size file of Some a \<Rightarrow> a | None \<Rightarrow> 0)
      in \<lparr>c_id = f_entry_id file, c_parent_id = f_parent_id file, c_name = f_name file,
          c_kind = File, c_allocated_size_known = (f_allocated_size file \<noteq> None),
          c_logical_size = Some (f_logical_size file), c_allocated_size = f_allocated_size file,
          c_referenced_allocated_bytes = alloc_bytes,
          c_unique_allocated_bytes = alloc_bytes,
          c_known_subtotal_allocated_bytes = alloc_bytes,
          c_object_index = NO_OBJECT,
          c_file_attributes = f_file_attributes file, c_reparse_tag = f_reparse_tag file,
          c_child_start = 0, c_child_count = 0,
          c_creation_time_utc_ms = f_creation_time_utc_ms file,
          c_last_write_time_utc_ms = f_last_write_time_utc_ms file,
          c_last_access_time_utc_ms = f_last_access_time_utc_ms file\<rparr>)"

definition special_entry :: "special_observation \<Rightarrow> compact_entry" where
  "special_entry special =
     \<lparr>c_id = s_entry_id special, c_parent_id = s_parent_id special, c_name = s_name special,
      c_kind = Special, c_allocated_size_known = False,
      c_logical_size = None, c_allocated_size = None,
      c_referenced_allocated_bytes = 0,
      c_unique_allocated_bytes = 0,
      c_known_subtotal_allocated_bytes = 0,
      c_object_index = NO_OBJECT,
      c_file_attributes = s_file_attributes special, c_reparse_tag = s_reparse_tag special,
      c_child_start = 0, c_child_count = 0,
      c_creation_time_utc_ms = s_creation_time_utc_ms special,
      c_last_write_time_utc_ms = s_last_write_time_utc_ms special,
      c_last_access_time_utc_ms = s_last_access_time_utc_ms special\<rparr>"

definition ingest_directory :: "directory_observation \<Rightarrow> ingest" where
  "ingest_directory dir =
     (let self_alloc = (case d_allocated_size dir of Some a \<Rightarrow> a | None \<Rightarrow> 0)
      in and_do (validate_and_insert_entry (d_entry_id dir) (d_parent_id dir) (directory_entry dir) self_alloc)
         (\<lambda>self.
           let self = (case d_object_id dir of
                 None \<Rightarrow> self
               | Some oid \<Rightarrow> self\<lparr>b_dir_object_ids := AList.update (d_entry_id dir) oid (b_dir_object_ids self)\<rparr>);
               self = self\<lparr>b_dir_count := b_dir_count self + 1\<rparr>
           in case d_allocated_size dir of
               None \<Rightarrow> self
             | Some alloc \<Rightarrow> self\<lparr>b_allocated_bytes := saturating_add (b_allocated_bytes self) alloc\<rparr>))"

definition ingest_file :: "file_observation \<Rightarrow> ingest" where
  "ingest_file file =
     and_do (validate_and_insert_entry (f_entry_id file) (f_parent_id file) (file_entry file) 0)
       (\<lambda>self.
         let self = (case f_object_id file of
               None \<Rightarrow> self
             | Some oid \<Rightarrow> self\<lparr>b_file_object_map := push_at oid (f_entry_id file) (b_file_object_map self)\<rparr>);
             self = (if f_total_link_count file \<noteq> NotObserved
               then self\<lparr>b_file_link_counts := (b_file_link_counts self)(f_entry_id file \<mapsto> f_total_link_count file)\<rparr>
               else self);
             self = self\<lparr>b_file_count := b_file_count self + 1,
               b_logical_bytes := saturating_add (b_logical_bytes self) (f_logical_size file)\<rparr>
         in case f_allocated_size file of
             Some alloc \<Rightarrow> self\<lparr>b_allocated_bytes := saturating_add (b_allocated_bytes self) alloc\<rparr>
           | None \<Rightarrow> self\<lparr>b_allocated_bytes_known := False\<rparr>)"

definition ingest_special :: "special_observation \<Rightarrow> ingest" where
  "ingest_special special =
     and_do (validate_and_insert_entry (s_entry_id special) (s_parent_id special) (special_entry special) 0)
       (\<lambda>self. self\<lparr>b_special_count := b_special_count self + 1\<rparr>)"

definition ingest_stream :: "stream_observation \<Rightarrow> ingest" where
  "ingest_stream stream self =
     (case builder_get_idx self (st_parent_entry_id stream) of
        None \<Rightarrow> (Some (UnknownStreamParent (st_parent_entry_id stream)), self)
      | Some entry_idx \<Rightarrow>
          (None, self\<lparr>b_pending_streams := b_pending_streams self @
             [(entry_idx, \<lparr>sb_name = st_name stream, sb_logical_bytes = st_logical_size stream,
                           sb_allocated_bytes = st_allocated_size stream\<rparr>)]\<rparr>))"

definition ingest_terminal :: "terminal_observation \<Rightarrow> ingest" where
  "ingest_terminal term self =
     (if t_total_directories term \<noteq> b_dir_count self
      then (Some (AggregateMismatch ''total_directories'' (t_total_directories term) (b_dir_count self)), self)
      else if t_total_files term \<noteq> b_file_count self
      then (Some (AggregateMismatch ''total_files'' (t_total_files term) (b_file_count self)), self)
      else if t_total_logical_bytes term \<noteq> b_logical_bytes self
      then (Some (AggregateMismatch ''total_logical_bytes'' (t_total_logical_bytes term) (b_logical_bytes self)), self)
      else if t_total_allocated_bytes term \<noteq> b_allocated_bytes self
      then (Some (AggregateMismatch ''total_allocated_bytes'' (t_total_allocated_bytes term) (b_allocated_bytes self)), self)
      else if t_coverage_gap_count term \<noteq> word_of_nat (length (b_gaps self))
      then (Some (AggregateMismatch ''coverage_gap_count'' (ucast (t_coverage_gap_count term))
                   (word_of_nat (length (b_gaps self)))), self)
      else (None, self\<lparr>b_terminal := Some term\<rparr>))"

definition ingest_record :: "observation_record \<Rightarrow> ingest" where
  "ingest_record rec self =
     (if b_terminal self \<noteq> None then (Some RecordAfterTerminal, self)
      else case rec of
        Obs_Directory dir \<Rightarrow>
          ingest_directory dir (self\<lparr>b_current_dir_id :=
            (if d_parent_id dir = 0 then d_entry_id dir else d_parent_id dir)\<rparr>)
      | Obs_File file \<Rightarrow> ingest_file file (self\<lparr>b_current_dir_id := f_parent_id file\<rparr>)
      | Obs_Special special \<Rightarrow> ingest_special special (self\<lparr>b_current_dir_id := s_parent_id special\<rparr>)
      | Obs_ContentStream stream \<Rightarrow> ingest_stream stream self
      | Obs_CoverageGap gap \<Rightarrow> (None, self\<lparr>b_gaps := b_gaps self @ [gap]\<rparr>)
      | Obs_Terminal term \<Rightarrow> ingest_terminal term self)"

text \<open>A sequence of calls that stops at the first error, as the reading loop does.\<close>

primrec ingest_all :: "observation_record list \<Rightarrow> ingest" where
  "ingest_all [] self = (None, self)"
| "ingest_all (rec # recs) self = (case ingest_record rec self of
     (Some e, self) \<Rightarrow> (Some e, self)
   | (None, self) \<Rightarrow> ingest_all recs self)"

section \<open>Paths\<close>

text \<open>\<open>reconstruct_path\<close>: at most 10,000 steps towards the root.\<close>

fun path_components :: "nat \<Rightarrow> graph_builder \<Rightarrow> u32 \<Rightarrow> string list" where
  "path_components 0 self cur = []"
| "path_components (Suc depth_left) self cur =
     (if cur = 0 then []
      else if b_is_dense self then
        (if cur \<ge> 1 \<and> cur \<le> word_of_nat (length (b_entries self))
         then let entry = b_entries self ! unat (cur - 1)
              in c_name entry # path_components depth_left self (c_parent_id entry)
         else [])
      else (case b_id_to_idx self cur of
          Some idx \<Rightarrow>
            let entry = b_entries self ! unat idx
            in c_name entry # path_components depth_left self (c_parent_id entry)
        | None \<Rightarrow> []))"

definition ends_with :: "string \<Rightarrow> char \<Rightarrow> bool" where
  "ends_with s c \<longleftrightarrow> s \<noteq> [] \<and> last s = c"

abbreviation backslash :: char where
  "backslash \<equiv> CHR 0x5C"

definition push_component :: "string \<Rightarrow> string \<Rightarrow> string" where
  "push_component result part =
     (if \<not> ends_with result backslash \<and> \<not> ends_with result (CHR ''/'')
      then result @ [backslash] @ part else result @ part)"

definition reconstruct_path :: "graph_builder \<Rightarrow> u32 \<Rightarrow> string" where
  "reconstruct_path self dir_id =
     (if dir_id = 0 \<or> b_entries self = [] then b_root_target self
      else case rev (path_components 10000 self dir_id) of
          [] \<Rightarrow> b_root_target self
        | part # parts \<Rightarrow> foldl push_component part parts)"

definition current_directory_path :: "graph_builder \<Rightarrow> string" where
  "current_directory_path self = reconstruct_path self (b_current_dir_id self)"

end
