(* ===== verification/Json.thy ===== *)
theory Json
  imports Protobuf Builder
begin

text \<open>
  The JSON output of \<^verbatim>\<open>crates/pigtree-protocol/src/json.rs\<close>. A string is the list of its
  UTF-8 bytes; every character the code treats specially is a single byte, so the loop over
  characters is a loop over bytes. \<open>format!\<close> strings are written as concatenations of their parts.
\<close>

section \<open>Formatting numbers\<close>

text \<open>\<open>{}\<close> of an unsigned integer, and the padded forms \<open>{:0w}\<close> and \<open>{:02x}\<close>.\<close>

definition digit :: "nat \<Rightarrow> char" where
  "digit d = char_of (48 + d)"

fun decimal :: "nat \<Rightarrow> string" where
  "decimal n = (if n < 10 then [digit n] else decimal (n div 10) @ [digit (n mod 10)])"

declare decimal.simps [simp del]

definition padded :: "nat \<Rightarrow> nat \<Rightarrow> string" where
  "padded w n = (let ds = decimal n in replicate (w - length ds) (CHR ''0'') @ ds)"

definition hex_digit :: "nat \<Rightarrow> char" where
  "hex_digit d = (if d < 10 then char_of (48 + d) else char_of (87 + d))"

definition hex_byte :: "nat \<Rightarrow> string" where
  "hex_byte b = [hex_digit (b div 16), hex_digit (b mod 16)]"

definition show_bool :: "bool \<Rightarrow> string" where
  "show_bool b = (if b then ''true'' else ''false'')"

section \<open>Strings\<close>

abbreviation quote :: char where
  "quote \<equiv> CHR 0x22"

definition escape_char :: "char \<Rightarrow> string" where
  "escape_char c =
     (if c = quote then [backslash, quote]
      else if c = backslash then [backslash, backslash]
      else if c = CHR 0x0A then [backslash, CHR ''n'']
      else if c = CHR 0x0D then [backslash, CHR ''r'']
      else if c = CHR 0x09 then [backslash, CHR ''t'']
      else if c = CHR 0x08 then [backslash, CHR ''b'']
      else if c = CHR 0x0C then [backslash, CHR ''f'']
      else if of_char c < (0x20 :: nat) then [backslash] @ ''u00'' @ hex_byte (of_char c)
      else [c])"

definition escape_json_string :: "string \<Rightarrow> string" where
  "escape_json_string s = [quote] @ concat (map escape_char s) @ [quote]"

text \<open>\<open>join(",")\<close>, and the loops that push a comma before every element but the first.\<close>

fun join_with :: "string \<Rightarrow> string list \<Rightarrow> string" where
  "join_with sep [] = []"
| "join_with sep [x] = x"
| "join_with sep (x # xs) = x @ sep @ join_with sep xs"

section \<open>Envelopes\<close>

definition format_diagnostic :: "string \<Rightarrow> string \<Rightarrow> string \<Rightarrow> string" where
  \<open>format_diagnostic level target message =
     ''{"level":'' @ escape_json_string level @ '',"target":'' @ escape_json_string target
     @ '',"message":'' @ escape_json_string message @ ''}''\<close>

definition format_success_envelope :: "string \<Rightarrow> string \<Rightarrow> string" where
  \<open>format_success_envelope request_id data_json =
     ''{"version":"1.0","request_id":'' @ escape_json_string request_id
     @ '',"status":"success","data":'' @ data_json @ ''}''\<close>

definition format_error_envelope :: "string \<Rightarrow> string \<Rightarrow> string \<Rightarrow> string" where
  \<open>format_error_envelope request_id error_code error_message =
     ''{"version":"1.0","request_id":'' @ escape_json_string request_id
     @ '',"status":"error","error":{"code":'' @ escape_json_string error_code
     @ '',"message":'' @ escape_json_string error_message @ ''}}''\<close>

definition format_cancelled_envelope :: "string \<Rightarrow> string \<Rightarrow> string" where
  \<open>format_cancelled_envelope request_id reason =
     ''{"version":"1.0","request_id":'' @ escape_json_string request_id
     @ '',"status":"cancelled","error":{"code":"OPERATION_CANCELLED","message":''
     @ escape_json_string reason @ ''}}''\<close>

section \<open>Responses\<close>

definition show_u64 :: "u64 \<Rightarrow> string" where
  "show_u64 w = decimal (unat w)"

definition show_u32 :: "u32 \<Rightarrow> string" where
  "show_u32 w = decimal (unat w)"

definition format_ping_response :: "ping_response \<Rightarrow> string" where
  \<open>format_ping_response resp =
     ''{"timestamp_utc_ms":'' @ show_u64 (pr_timestamp_utc_ms resp)
     @ '',"echo_timestamp_utc_ms":'' @ show_u64 (pr_echo_timestamp_utc_ms resp) @ ''}''\<close>

definition format_echo_response :: "string \<Rightarrow> string" where
  \<open>format_echo_response payload = ''{"payload":'' @ escape_json_string payload @ ''}''\<close>

definition format_health_response :: "health_response \<Rightarrow> string" where
  \<open>format_health_response resp =
     ''{"status":'' @ escape_json_string (hp_status resp) @ '',"uptime_ms":'' @ show_u64 (hp_uptime_ms resp)
     @ '',"memory_private_bytes":'' @ show_u64 (hp_memory_private_bytes resp)
     @ '',"handle_count":'' @ show_u32 (hp_handle_count resp) @ ''}''\<close>

definition format_status_response :: "status_response \<Rightarrow> string" where
  \<open>format_status_response resp =
     ''{"state":'' @ escape_json_string (st_state resp) @ '',"active_runs":'' @ show_u32 (st_active_runs resp)
     @ '',"total_observations":'' @ show_u64 (st_total_observations resp)
     @ '',"session_id":'' @ escape_json_string (st_session_id resp) @ ''}''\<close>

definition format_version_response :: "version_response \<Rightarrow> string" where
  \<open>format_version_response resp =
     ''{"engine_version":'' @ escape_json_string (vr_engine_version resp)
     @ '',"protocol_version":'' @ show_u32 (vr_protocol_version resp)
     @ '',"build_date":'' @ escape_json_string (vr_build_date resp)
     @ '',"commit_hash":'' @ escape_json_string (vr_commit_hash resp) @ ''}''\<close>

section \<open>Names of enumeration values\<close>

definition scan_run_outcome_to_str :: "int \<Rightarrow> string" where
  "scan_run_outcome_to_str outcome =
     (if outcome = 1 then ''finished'' else if outcome = 2 then ''cancelled'' else ''failed'')"

definition scope_coverage_to_str :: "int \<Rightarrow> string" where
  "scope_coverage_to_str coverage =
     (if coverage = 1 then ''complete'' else if coverage = 2 then ''partial'' else ''indeterminate'')"

definition entry_kind_to_str :: "u32 \<Rightarrow> string" where
  "entry_kind_to_str kind =
     (if kind = 1 then ''directory'' else if kind = 2 then ''file'' else if kind = 3 then ''special'' else ''unknown'')"

definition link_count_knowledge_to_str :: "int \<Rightarrow> string" where
  "link_count_knowledge_to_str status =
     (if status = 1 then ''known'' else if status = 2 then ''not_observed''
      else if status = 3 then ''unavailable'' else if status = 4 then ''not_applicable'' else ''not_observed'')"

definition external_reference_status_to_str :: "int \<Rightarrow> string" where
  "external_reference_status_to_str status =
     (if status = 1 then ''confirmed_none'' else if status = 2 then ''confirmed_external''
      else if status = 3 then ''indeterminate'' else if status = 4 then ''inconsistent_evidence''
      else if status = 5 then ''not_applicable'' else ''indeterminate'')"

definition allocation_knowledge_str :: "bool \<Rightarrow> string" where
  "allocation_knowledge_str known = (if known then ''known'' else ''not_observed'')"

section \<open>Arrays and entries\<close>

definition format_coverage_gap :: "coverage_gap_report \<Rightarrow> string" where
  \<open>format_coverage_gap gap =
     ''{"path":'' @ escape_json_string (gr_display_path gap) @ '',"status":'' @ escape_json_string (gr_status_code gap)
     @ '',"native_error":'' @ show_u32 (gr_native_error gap)
     @ '',"message":'' @ escape_json_string (gr_error_message gap) @ ''}''\<close>

definition format_coverage_gaps_array :: "coverage_gap_report list \<Rightarrow> string" where
  "format_coverage_gaps_array gaps = ''['' @ join_with '','' (map format_coverage_gap gaps) @ '']''"

definition format_link_count_knowledge :: "link_count_proto option \<Rightarrow> string" where
  \<open>format_link_count_knowledge proto = (case proto of
     Some p \<Rightarrow>
       if lp_status p = link_status_i32 LinkKnown
       then ''{"value":'' @ show_u32 (lp_count p) @ '',"knowledge":"known"}''
       else ''{"value":null,"knowledge":'' @ escape_json_string (link_count_knowledge_to_str (lp_status p)) @ ''}''
   | None \<Rightarrow> ''{"value":null,"knowledge":"not_observed"}'')\<close>

text \<open>The 128-bit file identifier, high half shifted.\<close>

definition file_id_of :: "hard_link_report \<Rightarrow> u128" where
  "file_id_of r = or (push_bit 64 (ucast (hr_file_id_hi r))) (ucast (hr_file_id_lo r))"

definition format_hard_link :: "hard_link_report \<Rightarrow> string" where
  \<open>format_hard_link r =
     (let guid_hex = concat (map (\<lambda>b. hex_byte (unat b)) (hr_volume_guid r))
      in ''{"volume_guid":'' @ escape_json_string guid_hex
         @ '',"file_id":'' @ escape_json_string (decimal (unat (file_id_of r)))
         @ '',"observed_alias_count":'' @ show_u32 (hr_observed_alias_count r)
         @ '',"total_link_count":'' @ format_link_count_knowledge (hr_total_link_count r)
         @ '',"external_reference_status":'' @ escape_json_string (external_reference_status_to_str (hr_external_reference_status r))
         @ '',"entry_paths":['' @ join_with '','' (map escape_json_string (hr_entry_paths r)) @ '']}'')\<close>

definition format_hard_links_array :: "hard_link_report list \<Rightarrow> string" where
  "format_hard_links_array reports = ''['' @ join_with '','' (map format_hard_link reports) @ '']''"

definition format_content_stream :: "content_stream_proto \<Rightarrow> string" where
  \<open>format_content_stream s =
     ''{"name":'' @ escape_json_string (sp_name s) @ '',"logical_bytes":'' @ show_u64 (sp_logical_bytes s)
     @ '',"allocated_bytes":'' @ show_u64 (sp_allocated_bytes s)
     @ '',"allocated_size_known":'' @ show_bool (sp_allocated_size_known s) @ ''}''\<close>

definition format_content_streams :: "directory_entry_node \<Rightarrow> string" where
  \<open>format_content_streams node =
     (if n_content_streams node = [] then []
      else '',"content_streams":['' @ join_with '','' (map format_content_stream (n_content_streams node)) @ '']'')\<close>

definition format_directory_entry_json :: "directory_entry_node \<Rightarrow> string" where
  \<open>format_directory_entry_json node =
     ''{"schema_version":"2.0","id":'' @ show_u32 (n_id node) @ '',"parent_id":'' @ show_u32 (n_parent_id node)
     @ '',"name":'' @ escape_json_string (n_name node)
     @ '',"entry_kind":'' @ escape_json_string (entry_kind_to_str (n_entry_kind node))
     @ '',"logical_bytes":'' @ show_u64 (n_logical_bytes node)
     @ '',"referenced_allocated_bytes":'' @ show_u64 (n_referenced_allocated_bytes node)
     @ '',"unique_allocated_bytes":'' @ show_u64 (n_unique_allocated_bytes node)
     @ '',"allocated_size_known":'' @ show_bool (n_allocated_size_known node)
     @ '',"known_subtotal_allocated_bytes":'' @ show_u64 (n_known_subtotal_allocated_bytes node)
     @ '',"child_count":'' @ show_u32 (n_child_count node)
     @ '',"has_children":'' @ show_bool (n_has_children node)
     @ '',"observed_alias_count":'' @ show_u32 (n_observed_alias_count node)
     @ '',"total_link_count":'' @ format_link_count_knowledge (n_total_link_count node)
     @ '',"external_reference_status":'' @ escape_json_string (external_reference_status_to_str (n_external_reference_status node))
     @ format_content_streams node @ ''}''\<close>

definition format_directory_entry_ndjson :: "directory_entry_node \<Rightarrow> string" where
  "format_directory_entry_ndjson node = format_directory_entry_json node"

text \<open>The fields all events of a scan start with.\<close>

definition event_head :: "string \<Rightarrow> u64 \<Rightarrow> string \<Rightarrow> string \<Rightarrow> string \<Rightarrow> string" where
  \<open>event_head operation_id sequence_number timestamp phase channel =
     ''{"operation_id":'' @ escape_json_string operation_id @ '',"sequence_number":'' @ show_u64 sequence_number
     @ '',"timestamp":'' @ escape_json_string timestamp @ '',"schema_version":"2.0","phase":'' @ phase
     @ '',"channel":'' @ channel @ '',"provenance":"win32_directory_traversal","payload":''\<close>

definition format_directory_entry_ndjson_event :: "string \<Rightarrow> u64 \<Rightarrow> string \<Rightarrow> directory_entry_node \<Rightarrow> string" where
  \<open>format_directory_entry_ndjson_event operation_id sequence_number timestamp_iso node =
     event_head operation_id sequence_number timestamp_iso ''"finalizing"'' ''"data"''
     @ format_directory_entry_json node @ ''}''\<close>

section \<open>Scans\<close>

text \<open>
  \<open>directory_count + file_count + special_count\<close>: \<open>None\<close> where the checked addition of a debug
  build panics (a release build wraps).
\<close>

definition directory_entries_of :: "scan_response \<Rightarrow> nat option" where
  "directory_entries_of resp =
     (let n = unat (r_directory_count resp) + unat (r_file_count resp) + unat (r_special_count resp)
      in if n < 2 ^ 64 then Some n else None)"

text \<open>The fields from the entry count to the gaps, shared by the document and the event.\<close>

definition scan_totals :: "scan_response \<Rightarrow> nat \<Rightarrow> string" where
  \<open>scan_totals resp directory_entries =
     (let knowledge_str = allocation_knowledge_str (r_allocated_bytes_known resp)
      in '',"directory_entries":'' @ decimal directory_entries
         @ '',"directories":'' @ show_u64 (r_directory_count resp)
         @ '',"files":'' @ show_u64 (r_file_count resp)
         @ '',"special_objects":'' @ show_u64 (r_special_count resp)
         @ '',"logical_bytes":'' @ show_u64 (r_logical_bytes resp)
         @ '',"referenced_allocated_bytes":{"value":'' @ show_u64 (r_referenced_allocated_bytes resp)
         @ '',"knowledge":'' @ escape_json_string knowledge_str
         @ ''},"unique_allocated_bytes":{"value":'' @ show_u64 (r_unique_allocated_bytes resp)
         @ '',"knowledge":'' @ escape_json_string knowledge_str
         @ ''},"known_subtotal_allocated_bytes":'' @ show_u64 (r_known_subtotal_allocated_bytes resp)
         @ '',"indeterminate_external_reference_objects":'' @ show_u64 (r_indeterminate_external_reference_objects resp)
         @ '',"hard_links":'' @ format_hard_links_array (r_hard_links resp)
         @ '',"coverage_gaps":'' @ format_coverage_gaps_array (r_coverage_gaps resp))\<close>

definition scan_interval :: "scan_response \<Rightarrow> string" where
  \<open>scan_interval resp =
     '',"observation_interval":{"started_at":'' @ escape_json_string (r_observation_started_iso resp)
     @ '',"completed_at":'' @ escape_json_string (r_observation_completed_iso resp)
     @ ''},"scope_coverage":'' @ escape_json_string (scope_coverage_to_str (r_scope_coverage resp))\<close>

definition format_scan_terminal_json :: "scan_response \<Rightarrow> string option" where
  \<open>format_scan_terminal_json resp = map_option (\<lambda>directory_entries.
     ''{"operation_id":'' @ escape_json_string (r_operation_id resp)
     @ '',"schema_version":"2.0","run_outcome":'' @ escape_json_string (scan_run_outcome_to_str (r_run_outcome resp))
     @ scan_interval resp @ scan_totals resp directory_entries @ ''}'') (directory_entries_of resp)\<close>

definition format_scan_progress_ndjson_event :: "scan_progress \<Rightarrow> string" where
  \<open>format_scan_progress_ndjson_event p =
     event_head (p_operation_id p) (p_sequence_number p) (p_timestamp_iso p)
       (escape_json_string (p_current_phase p)) ''"progress"''
     @ ''{"observed_directories":'' @ show_u64 (p_observed_directories p)
     @ '',"observed_files":'' @ show_u64 (p_observed_files p)
     @ '',"observed_logical_bytes":'' @ show_u64 (p_observed_logical_bytes p)
     @ '',"observed_referenced_allocated_bytes":'' @ show_u64 (p_observed_referenced_allocated_bytes p)
     @ '',"coverage_gaps":'' @ show_u32 (p_coverage_gaps p)
     @ '',"current_directory":'' @ escape_json_string (p_current_directory p) @ ''}}''\<close>

definition format_scan_terminal_ndjson_event :: "scan_response \<Rightarrow> u64 \<Rightarrow> string option" where
  \<open>format_scan_terminal_ndjson_event resp sequence_number = map_option (\<lambda>directory_entries.
     event_head (r_operation_id resp) sequence_number (r_observation_completed_iso resp) ''"finalizing"'' ''"data"''
     @ ''{"run_outcome":'' @ escape_json_string (scan_run_outcome_to_str (r_run_outcome resp))
     @ scan_interval resp @ scan_totals resp directory_entries @ ''}}'') (directory_entries_of resp)\<close>

section \<open>Time\<close>

text \<open>
  \<open>format_utc_iso\<close> of a time given in milliseconds since the epoch (times before the epoch count
  as the epoch). The arithmetic of the calendar stays far below the widths used, so it is written
  over integers.
\<close>

definition civil_date :: "int \<Rightarrow> int \<times> int \<times> int" where
  "civil_date days =
     (let z = days + 719468;
          era = (if z \<ge> 0 then z else z - 146096) div 146097;
          doe = z - era * 146097;
          yoe = (doe - doe div 1460 + doe div 36524 - doe div 146096) div 365;
          y = yoe + era * 400;
          doy = doe - (365 * yoe + yoe div 4 - yoe div 100);
          mp = (5 * doy + 2) div 153;
          d = doy - (153 * mp + 2) div 5 + 1;
          m = (if mp < 10 then mp + 3 else mp - 9);
          y = (if m \<le> 2 then y + 1 else y)
      in (y, m, d))"

definition format_utc_iso :: "nat \<Rightarrow> string" where
  "format_utc_iso total_ms =
     (let total_secs = total_ms div 1000; millis = total_ms mod 1000;
          days = total_secs div 86400; seconds_of_day = total_secs mod 86400;
          hours = seconds_of_day div 3600; minutes = (seconds_of_day mod 3600) div 60;
          seconds = seconds_of_day mod 60;
          (y, m, d) = civil_date (int days)
      in padded 4 (nat y) @ ''-'' @ padded 2 (nat m) @ ''-'' @ padded 2 (nat d) @ ''T'' @ padded 2 hours @ '':''
         @ padded 2 minutes @ '':'' @ padded 2 seconds @ ''.'' @ padded 3 millis @ ''Z'')"

definition format_scan_cancelled_ndjson_event :: "nat \<Rightarrow> string \<Rightarrow> u64 \<Rightarrow> string option \<Rightarrow> string \<Rightarrow> string" where
  \<open>format_scan_cancelled_ndjson_event now operation_id sequence_number timestamp_iso message =
     (let ts = (case timestamp_iso of Some t \<Rightarrow> if t \<noteq> [] then t else format_utc_iso now | None \<Rightarrow> format_utc_iso now)
      in event_head operation_id sequence_number ts ''"finalizing"'' ''"data"''
         @ ''{"run_outcome":"cancelled","status":"cancelled","message":'' @ escape_json_string message @ ''}}'')\<close>

end
