(* ===== verification/Worker.thy ===== *)
theory Worker
  imports Wide_Strings Observation_Codec Json
begin

unbundle bit_operations_syntax

text \<open>
  The scan worker of \<^verbatim>\<open>crates/pigtree-scan-worker/src/lib.rs\<close>, first part: time stamps, command line,
  volume evidence and the decoding of the directory buffers of the kernel. What the system answers
  is an argument.
\<close>

section \<open>Constants\<close>

definition FILE_ATTRIBUTE_DIRECTORY :: u32 where "FILE_ATTRIBUTE_DIRECTORY = 0x10"
definition FILE_ATTRIBUTE_DEVICE :: u32 where "FILE_ATTRIBUTE_DEVICE = 0x40"
definition FILE_ATTRIBUTE_REPARSE_POINT :: u32 where "FILE_ATTRIBUTE_REPARSE_POINT = 0x400"
definition W_ERROR_FILE_NOT_FOUND :: u32 where "W_ERROR_FILE_NOT_FOUND = 2"
definition ERROR_PATH_NOT_FOUND :: u32 where "ERROR_PATH_NOT_FOUND = 3"
definition ERROR_INVALID_DATA :: u32 where "ERROR_INVALID_DATA = 13"
definition ERROR_NO_MORE_FILES :: u32 where "ERROR_NO_MORE_FILES = 18"
definition ERROR_INSUFFICIENT_BUFFER :: u32 where "ERROR_INSUFFICIENT_BUFFER = 122"
definition ENUM_BUFFER_INITIAL_BYTES :: nat where "ENUM_BUFFER_INITIAL_BYTES = 64 * 1024"
definition ENUM_BUFFER_MAX_BYTES :: nat where "ENUM_BUFFER_MAX_BYTES = 16 * 1024 * 1024"

lemmas worker_consts = FILE_ATTRIBUTE_DIRECTORY_def FILE_ATTRIBUTE_DEVICE_def FILE_ATTRIBUTE_REPARSE_POINT_def
  W_ERROR_FILE_NOT_FOUND_def ERROR_PATH_NOT_FOUND_def ERROR_INVALID_DATA_def ERROR_NO_MORE_FILES_def
  ERROR_INSUFFICIENT_BUFFER_def ENUM_BUFFER_INITIAL_BYTES_def ENUM_BUFFER_MAX_BYTES_def

definition has_attribute :: "u32 \<Rightarrow> u32 \<Rightarrow> bool" where
  "has_attribute attrs a \<longleftrightarrow> attrs AND a \<noteq> 0"

section \<open>Time stamps and error texts\<close>

record filetime =
  dwLowDateTime :: u32
  dwHighDateTime :: u32

definition filetime_to_unix_ms :: "filetime \<Rightarrow> u64" where
  "filetime_to_unix_ms ft =
     (let ft_u64 = push_bit 32 (ucast (dwHighDateTime ft)) OR ucast (dwLowDateTime ft) :: u64
      in if ft_u64 > 116444736000000000 then (ft_u64 - 116444736000000000) div 10000 else 0)"

text \<open>The same for an \<open>i64\<close>, kept as its 64 bits and compared with its sign.\<close>

definition filetime_i64_to_unix_ms :: "u64 \<Rightarrow> u64" where
  "filetime_i64_to_unix_ms ft =
     (if sint ft > 116444736000000000 then (ft - 116444736000000000) div 10000 else 0)"

text \<open>\<open>FormatMessageW\<close> answers with the characters it wrote, none if it failed.\<close>

definition format_win32_error :: "(u32 \<Rightarrow> u16 list) \<Rightarrow> u32 \<Rightarrow> string" where
  "format_win32_error FormatMessageW code =
     (let buf = FormatMessageW code
      in if buf \<noteq> [] then trim (from_utf16_lossy buf) else ''Win32 error '' @ decimal (unat code))"

section \<open>Numbers on the command line\<close>

definition digit_value :: "nat \<Rightarrow> char \<Rightarrow> nat option" where
  "digit_value radix c =
     (let n = of_char c :: nat;
          v = (if 48 \<le> n \<and> n \<le> 57 then n - 48
               else if 97 \<le> n \<and> n \<le> 122 then n - 87
               else if 65 \<le> n \<and> n \<le> 90 then n - 55 else radix)
      in if v < radix then Some v else None)"

fun digits_to_nat :: "nat \<Rightarrow> nat \<Rightarrow> string \<Rightarrow> nat option" where
  "digits_to_nat radix acc [] = Some acc"
| "digits_to_nat radix acc (c # cs) = (case digit_value radix c of
     None \<Rightarrow> None | Some d \<Rightarrow> digits_to_nat radix (acc * radix + d) cs)"

text \<open>\<open>from_str_radix\<close> of an unsigned type: a leading plus sign is allowed.\<close>

definition from_str_radix :: "nat \<Rightarrow> nat \<Rightarrow> string \<Rightarrow> nat option" where
  "from_str_radix bits radix s =
     (let body = (case s of c # cs \<Rightarrow> if c = CHR ''+'' then cs else s | [] \<Rightarrow> [])
      in if body = [] then None
         else case digits_to_nat radix 0 body of
           Some n \<Rightarrow> if n < 2 ^ bits then Some n else None
         | None \<Rightarrow> None)"

abbreviation parse_usize :: "string \<Rightarrow> nat option" where
  "parse_usize \<equiv> from_str_radix 64 10"

record worker_args =
  wa_target :: string
  wa_pipe_handle :: nat
  wa_cancel_event_handle :: nat

datatype args_error = MissingArgument string | InvalidHandle string string | UnexpectedArgument string

definition args_error_text :: "args_error \<Rightarrow> string" where
  "args_error_text e = (case e of
     MissingArgument arg \<Rightarrow> ''missing required argument: '' @ arg
   | InvalidHandle arg val \<Rightarrow> ''invalid handle integer for '' @ arg @ '': '' @ val
   | UnexpectedArgument arg \<Rightarrow> ''unexpected argument: '' @ arg)"

fun parse_worker_loop :: "string option \<Rightarrow> nat option \<Rightarrow> nat option \<Rightarrow> string list \<Rightarrow>
    args_error + (string option \<times> nat option \<times> nat option)" where
  "parse_worker_loop target pipe cancel [] = Inr (target, pipe, cancel)"
| "parse_worker_loop target pipe cancel (arg # rest) =
     (if arg = ''--target'' then
        (case rest of [] \<Rightarrow> Inl (MissingArgument ''--target'')
         | val # rest' \<Rightarrow> parse_worker_loop (Some val) pipe cancel rest')
      else if arg = ''--pipe-handle'' then
        (case rest of [] \<Rightarrow> Inl (MissingArgument ''--pipe-handle'')
         | val # rest' \<Rightarrow> (case parse_usize val of
             None \<Rightarrow> Inl (InvalidHandle ''--pipe-handle'' val)
           | Some h \<Rightarrow> parse_worker_loop target (Some h) cancel rest'))
      else if arg = ''--cancel-event-handle'' then
        (case rest of [] \<Rightarrow> Inl (MissingArgument ''--cancel-event-handle'')
         | val # rest' \<Rightarrow> (case parse_usize val of
             None \<Rightarrow> Inl (InvalidHandle ''--cancel-event-handle'' val)
           | Some h \<Rightarrow> parse_worker_loop target pipe (Some h) rest'))
      else if take 2 arg = ''--'' then Inl (UnexpectedArgument arg)
      else parse_worker_loop target pipe cancel rest)"

definition parse_worker_args :: "string list \<Rightarrow> args_error + worker_args" where
  "parse_worker_args args =
     and_then (parse_worker_loop None None None args) (\<lambda>(target, pipe, cancel).
     case target of None \<Rightarrow> Inl (MissingArgument ''--target'')
     | Some t \<Rightarrow> (case pipe of None \<Rightarrow> Inl (MissingArgument ''--pipe-handle'')
     | Some p \<Rightarrow> (case cancel of None \<Rightarrow> Inl (MissingArgument ''--cancel-event-handle'')
     | Some c \<Rightarrow> Inr \<lparr>wa_target = t, wa_pipe_handle = p, wa_cancel_event_handle = c\<rparr>)))"

section \<open>Volume evidence\<close>

record volume_context =
  vc_guid :: "u8 list option"
  vc_hardlink_capable :: bool

definition identity :: "volume_context \<Rightarrow> u128 \<Rightarrow> object_identity option" where
  "identity v fid = map_option (\<lambda>guid. \<lparr>volume_guid = guid, file_id = fid\<rparr>) (vc_guid v)"

definition link_knowledge :: "volume_context \<Rightarrow> u32 value_knowledge" where
  "link_knowledge v = (if vc_hardlink_capable v then NotObserved else NotApplicable)"

definition is_fat_family :: "string \<Rightarrow> bool" where
  "is_fat_family fs_name \<longleftrightarrow>
     map ascii_lower fs_name \<in> {''fat'', ''fat12'', ''fat16'', ''fat32'', ''exfat'', ''cdfs''}"

text \<open>
  The bytes of a volume GUID. Slicing a string inside a character panics (the outer \<open>None\<close>);
  that needs a name with characters outside ASCII.
\<close>

definition is_char_boundary :: "string \<Rightarrow> nat \<Rightarrow> bool" where
  "is_char_boundary s i \<longleftrightarrow>
     i = length s \<or> i < length s \<and> \<not> (128 \<le> (of_char (s ! i) :: nat) \<and> (of_char (s ! i) :: nat) < 192)"

fun guid_bytes :: "string \<Rightarrow> nat list \<Rightarrow> u8 list option option" where
  "guid_bytes hex [] = Some (Some [])"
| "guid_bytes hex (i # is) =
     (if \<not> (is_char_boundary hex (i * 2) \<and> is_char_boundary hex (i * 2 + 2)) then None
      else case from_str_radix 8 16 (slice (i * 2) (i * 2 + 2) hex) of
        None \<Rightarrow> Some None
      | Some b \<Rightarrow> map_option (map_option ((#) (word_of_nat b))) (guid_bytes hex is))"

definition parse_volume_guid :: "string \<Rightarrow> u8 list option option" where
  "parse_volume_guid volume_path =
     (case dropWhile (\<lambda>c. c \<noteq> CHR 0x7B) volume_path of
        [] \<Rightarrow> Some None
      | _ # rest \<Rightarrow>
          if CHR 0x7D \<notin> set rest then Some None
          else let hex = filter (\<lambda>c. c \<noteq> CHR ''-'') (takeWhile (\<lambda>c. c \<noteq> CHR 0x7D) rest)
          in if length hex \<noteq> 32 then Some None else guid_bytes hex [0..<16])"

text \<open>The three queries; each answers with a wide buffer, or fails.\<close>

record volume_os =
  vq_path_name :: "u16 list \<Rightarrow> u16 list option"
  vq_mount_point_name :: "u16 list \<Rightarrow> u16 list option"
  vq_file_system_name :: "u16 list \<Rightarrow> u16 list option"

definition resolve_volume_context :: "volume_os \<Rightarrow> string \<Rightarrow> volume_context option" where
  "resolve_volume_context os extended_target =
     (case vq_path_name os (to_wide_null extended_target) of
        None \<Rightarrow> Some \<lparr>vc_guid = None, vc_hardlink_capable = True\<rparr>
      | Some volume_path \<Rightarrow>
          Option.bind (case vq_mount_point_name os volume_path of
              Some volume_name \<Rightarrow> parse_volume_guid (wide_slice_to_string volume_name)
            | None \<Rightarrow> Some None) (\<lambda>guid.
          let capable = (case vq_file_system_name os volume_path of
              Some fs_name \<Rightarrow> \<not> is_fat_family (wide_slice_to_string fs_name)
            | None \<Rightarrow> True)
          in Some \<lparr>vc_guid = guid, vc_hardlink_capable = capable\<rparr>))"

text \<open>A path in verbatim form; \<open>canonicalize\<close> may fail.\<close>

definition normalize_to_extended_path :: "(string \<Rightarrow> string option) \<Rightarrow> string \<Rightarrow> string" where
  "normalize_to_extended_path canonicalize path_str =
     (let prefix = [backslash, backslash, CHR ''?'', backslash] in
      if take 4 path_str = prefix then path_str
      else case canonicalize path_str of
        Some s \<Rightarrow> if take 4 s = prefix then s else prefix @ [backslash] @ path_str
      | None \<Rightarrow> prefix @ [backslash] @ path_str)"

end
