(* ===== verification/Crc32c.thy ===== *)
theory Crc32c
  imports Rust_Std
begin

text \<open>
  \<^verbatim>\<open>crates/pigtree-protocol/src/crc32c.rs\<close>: the table-driven CRC-32C of the frame format, its
  equivalence with the bit-serial division it tabulates, and the error detection the framing
  layer relies on (every corruption confined to four adjacent bytes changes the checksum).
\<close>

section \<open>The table and the checksum\<close>

definition poly :: u32 where
  "poly = 0x82F63B78"

text \<open>One round of the inner loop that fills a table entry.\<close>

definition crc_bit :: "u32 \<Rightarrow> u32" where
  "crc_bit crc = (if crc AND 1 \<noteq> 0 then drop_bit 1 crc XOR poly else drop_bit 1 crc)"

definition table_entry :: "nat \<Rightarrow> u32" where
  "table_entry i = (crc_bit ^^ 8) (word_of_nat i)"

definition CRC32C_TABLE :: "u32 list" where
  "CRC32C_TABLE = map table_entry [0..<256]"

definition crc_step :: "u32 \<Rightarrow> u8 \<Rightarrow> u32" where
  "crc_step crc byte =
     (let table_idx = unat ((crc XOR ucast byte) AND 0xFF)
      in drop_bit 8 crc XOR CRC32C_TABLE ! table_idx)"

definition compute_crc32c :: "u8 list \<Rightarrow> u32" where
  "compute_crc32c data = NOT (foldl crc_step (NOT 0) data)"

section \<open>Linearity of the division\<close>

lemma crc_bit_odd: "crc_bit x = drop_bit 1 x XOR (if bit x 0 then poly else 0)"
  by (simp add: crc_bit_def and_one_eq odd_iff_mod_2_eq_one bit_0 flip: odd_iff_mod_2_eq_one)

lemma crc_bit_xor: "crc_bit (x XOR y) = crc_bit x XOR crc_bit y"
  unfolding crc_bit_odd by (auto intro!: bit_word_eqI simp: bit_simps)

lemma crc_bits_xor: "(crc_bit ^^ n) (x XOR y) = (crc_bit ^^ n) x XOR (crc_bit ^^ n) y"
  by (induction n) (simp_all add: crc_bit_xor)

lemma crc_bits_clear: "(\<forall>i < n. \<not> bit x i) \<Longrightarrow> (crc_bit ^^ n) x = drop_bit n x"
proof (induction n)
  case (Suc n)
  then have "(crc_bit ^^ n) x = drop_bit n x" and "\<not> bit x n" by simp_all
  then have "(crc_bit ^^ Suc n) x = crc_bit (drop_bit n x)" by simp
  also have "\<dots> = drop_bit 1 (drop_bit n x)"
    using \<open>\<not> bit x n\<close> by (simp only: crc_bit_odd) (simp add: bit_simps)
  finally show ?case by simp
qed simp

lemma crc_bit_inj: "crc_bit x = crc_bit y \<Longrightarrow> x = y"
proof -
  assume eq: "crc_bit x = crc_bit y"
  have b: "bit (crc_bit z) i = (if i = 31 then bit z 0 else bit z (Suc i) \<noteq> (bit z 0 \<and> bit poly i))"
    if "i < 32" for z :: u32 and i
    using that by (auto simp: crc_bit_odd bit_simps poly_def dest: bit_imp_le_length)
  have zero: "bit x 0 = bit y 0" using eq b [of 31 x] b [of 31 y] by simp
  have "bit x (Suc i) = bit y (Suc i)" if "Suc i < 32" for i
    using eq zero b [of i x] b [of i y] that by auto
  then have "bit x i = bit y i" if "i < 32" for i
    using zero that by (cases i) auto
  then show "x = y" by (intro bit_word_eqI) simp
qed

lemma crc_bits_inj: "(crc_bit ^^ n) x = (crc_bit ^^ n) y \<Longrightarrow> x = y"
  by (induction n) (auto dest: crc_bit_inj)

section \<open>The table step is eight bit steps\<close>

lemma CRC32C_TABLE_nth: "i < 256 \<Longrightarrow> CRC32C_TABLE ! i = table_entry i"
  by (simp add: CRC32C_TABLE_def)

lemma low_byte_bound: "unat ((x :: u32) AND 0xFF) < 256"
proof -
  have "x AND 0xFF \<le> 0xFF" by (rule word_and_le1)
  then show ?thesis by (simp add: word_le_nat_alt)
qed

text \<open>The table index never leaves the table: the code's array access cannot panic.\<close>

lemma crc_step_index_in_table: "unat ((crc XOR ucast byte) AND 0xFF :: u32) < length CRC32C_TABLE"
  using low_byte_bound by (simp add: CRC32C_TABLE_def)

lemma bit_255: "bit (255 :: int) n \<longleftrightarrow> n < 8"
proof -
  have "bit (mask 8 :: int) n \<longleftrightarrow> n < 8" by (simp add: bit_mask_iff)
  then show ?thesis by (simp add: mask_eq_exp_minus_1)
qed

lemma word_xor_cancel: "x XOR a = y XOR a \<longleftrightarrow> x = (y :: u32)"
  by (auto simp: bit_eq_iff bit_simps)

lemma crc_step_bits: "crc_step crc byte = (crc_bit ^^ 8) (crc XOR ucast byte)"
proof -
  let ?x = "crc XOR ucast byte"
  have split: "?x = push_bit 8 (drop_bit 8 ?x) XOR (?x AND 0xFF)"
    by (rule bit_word_eqI) (auto simp: bit_simps bit_255 dest: bit_imp_le_length)
  have "(crc_bit ^^ 8) (push_bit 8 (drop_bit 8 ?x)) = drop_bit 8 (push_bit 8 (drop_bit 8 ?x))"
    by (rule crc_bits_clear) (simp add: bit_simps)
  also have "\<dots> = drop_bit 8 crc"
    by (rule bit_word_eqI) (auto simp: bit_simps dest: bit_imp_le_length)
  finally have "(crc_bit ^^ 8) ?x = drop_bit 8 crc XOR (crc_bit ^^ 8) (?x AND 0xFF)"
    using split crc_bits_xor by metis
  moreover have "CRC32C_TABLE ! unat (?x AND 0xFF) = (crc_bit ^^ 8) (?x AND 0xFF)"
    using low_byte_bound by (simp add: CRC32C_TABLE_nth table_entry_def)
  ultimately show ?thesis by (simp add: crc_step_def Let_def)
qed

section \<open>Equivalence with the bit-serial checksum\<close>

text \<open>The reference: shift the message through the register one bit at a time.\<close>

definition crc32c_bitwise :: "u8 list \<Rightarrow> u32" where
  "crc32c_bitwise data =
     NOT (foldl (\<lambda>crc byte. (crc_bit ^^ 8) (crc XOR ucast byte)) (NOT 0) data)"

lemma crc32c_table_is_bitwise: "compute_crc32c data = crc32c_bitwise data"
proof -
  have "crc_step = (\<lambda>crc byte. (crc_bit ^^ 8) (crc XOR ucast byte))"
    by (intro ext) (rule crc_step_bits)
  then show ?thesis by (simp add: compute_crc32c_def crc32c_bitwise_def)
qed

section \<open>Burst detection\<close>

text \<open>Up to four bytes as one register-sized word, first byte lowest.\<close>

primrec burst_word :: "u8 list \<Rightarrow> u32" where
  "burst_word [] = 0"
| "burst_word (b # bs) = ucast b XOR push_bit 8 (burst_word bs)"

lemma bit_burst_word: "bit (burst_word bs) i \<Longrightarrow> i < 8 * length bs"
proof (induction bs arbitrary: i)
  case (Cons b bs)
  then show ?case
    by (cases "i < 8") (auto simp: bit_simps dest: bit_imp_le_length Cons.IH)
qed simp

lemma crc_bits_push:
  assumes "\<And>i. bit y i \<Longrightarrow> i < 24"
  shows "(crc_bit ^^ 8) (push_bit 8 y) = (y :: u32)"
proof -
  have "(crc_bit ^^ 8) (push_bit 8 y) = drop_bit 8 (push_bit 8 y)"
    by (rule crc_bits_clear) (simp add: bit_simps)
  also have "\<dots> = y"
    by (rule bit_word_eqI) (use assms in \<open>auto simp: bit_simps\<close>)
  finally show ?thesis .
qed

lemma foldl_crc_step_burst:
  "length bs \<le> 4 \<Longrightarrow> foldl crc_step s bs = (crc_bit ^^ (8 * length bs)) (s XOR burst_word bs)"
proof (induction bs arbitrary: s)
  case (Cons b bs)
  from Cons.prems have low: "bit (burst_word bs) i \<Longrightarrow> i < 24" for i
    using bit_burst_word [of bs i] by simp
  have "foldl crc_step s (b # bs)
      = (crc_bit ^^ (8 * length bs)) (crc_step s b XOR burst_word bs)"
    using Cons by simp
  also have "crc_step s b XOR burst_word bs
      = (crc_bit ^^ 8) (s XOR ucast b) XOR (crc_bit ^^ 8) (push_bit 8 (burst_word bs))"
    by (simp only: crc_step_bits crc_bits_push [OF low])
  also have "\<dots> = (crc_bit ^^ 8) (s XOR burst_word (b # bs))"
    by (simp only: crc_bits_xor [symmetric] burst_word.simps ac_simps)
  finally show ?case
    by (simp only: funpow_add [THEN fun_cong, unfolded comp_apply, symmetric])
      (simp add: algebra_simps)
qed simp

lemma burst_word_inject:
  "length bs = length cs \<Longrightarrow> length bs \<le> 4 \<Longrightarrow> burst_word bs = burst_word cs \<Longrightarrow> bs = cs"
proof (induction bs cs rule: list_induct2)
  case (Cons b bs c cs)
  have low: "ucast b = (burst_word (b # bs) AND 0xFF)" for b bs
    by (rule bit_word_eqI) (auto simp: bit_simps bit_255 dest: bit_imp_le_length)
  have "(ucast b :: u32) = ucast c" using low Cons.prems(2) by metis
  then have bc: "b = c"
    by (simp add: bit_eq_iff bit_simps)
  with Cons.prems(2) have push: "push_bit 8 (burst_word bs) = push_bit 8 (burst_word cs)"
    by (simp add: xor.commute [of "ucast c"] word_xor_cancel)
  have un: "(crc_bit ^^ 8) (push_bit 8 (burst_word xs)) = burst_word xs" if "length xs \<le> 3" for xs
  proof (rule crc_bits_push)
    show "i < 24" if "bit (burst_word xs) i" for i
      using bit_burst_word [OF that] \<open>length xs \<le> 3\<close> by simp
  qed
  have "length bs \<le> 3" and "length cs \<le> 3" using Cons.hyps Cons.prems(1) by simp_all
  from un [OF this(1)] un [OF this(2)] have "burst_word bs = burst_word cs"
    unfolding push by (rule trans [OF sym])
  then have "bs = cs" using Cons.IH Cons.prems(1) by simp
  with bc show ?case by simp
qed simp

lemma foldl_crc_step_inj: "foldl crc_step s ws = foldl crc_step t ws \<Longrightarrow> s = t"
proof (induction ws arbitrary: s t)
  case (Cons w ws)
  then have "crc_step s w = crc_step t w" by simp
  then have "s XOR ucast w = t XOR ucast w"
    unfolding crc_step_bits by (rule crc_bits_inj)
  then show ?case by (simp only: word_xor_cancel)
qed simp

lemma crc32c_detects_bursts:
  assumes "length ys = length zs" and "length ys \<le> 4" and "ys \<noteq> zs"
  shows "compute_crc32c (xs @ ys @ ws) \<noteq> compute_crc32c (xs @ zs @ ws)"
proof
  let ?s = "foldl crc_step (NOT 0) xs"
  assume "compute_crc32c (xs @ ys @ ws) = compute_crc32c (xs @ zs @ ws)"
  then have "foldl crc_step (foldl crc_step ?s ys) ws = foldl crc_step (foldl crc_step ?s zs) ws"
    by (simp add: compute_crc32c_def)
  then have "foldl crc_step ?s ys = foldl crc_step ?s zs" by (rule foldl_crc_step_inj)
  then have "?s XOR burst_word ys = ?s XOR burst_word zs"
    using assms(1,2) by (auto simp: foldl_crc_step_burst intro: crc_bits_inj)
  then have "burst_word ys = burst_word zs"
    by (simp only: word_xor_cancel [of _ ?s] xor.commute [of ?s])
  with assms show False by (blast dest: burst_word_inject)
qed

section \<open>The checksum as an interface\<close>

text \<open>
  What the framing layer relies on: changing at most four adjacent bytes of a message, in
  place, changes its checksum. The framing lemmas about rejected corruption are proved from
  this contract alone.
\<close>

locale burst_checksum =
  fixes checksum :: "u8 list \<Rightarrow> u32"
  assumes detects_burst:
    "length ys = length zs \<Longrightarrow> length ys \<le> 4 \<Longrightarrow> ys \<noteq> zs \<Longrightarrow>
      checksum (xs @ ys @ ws) \<noteq> checksum (xs @ zs @ ws)"
begin

text \<open>A message followed by its checksum, and the test a receiver makes.\<close>

definition sealed :: "u8 list \<Rightarrow> u8 list" where
  "sealed msg = msg @ to_le_bytes (checksum msg)"

definition seal_ok :: "u8 list \<Rightarrow> u8 list \<Rightarrow> bool" where
  "seal_ok msg crc \<longleftrightarrow> from_le_bytes crc = checksum msg"

lemma sealed_ok: "sealed msg = m @ c \<Longrightarrow> length m = length msg \<Longrightarrow> seal_ok m c"
  by (auto simp: sealed_def seal_ok_def from_to_le_bytes)

lemma corrupted_not_ok:
  assumes "length ys = length zs" and "length ys \<le> 4" and "ys \<noteq> zs"
  shows "\<not> seal_ok (xs @ zs @ ws) (to_le_bytes (checksum (xs @ ys @ ws)))"
  using detects_burst [OF assms] by (simp add: seal_ok_def from_to_le_bytes)

end

interpretation crc: burst_checksum compute_crc32c
  by unfold_locales (rule crc32c_detects_bursts)

section \<open>Properties\<close>

text \<open>
  C24: The table-driven checksum is the bit-serial CRC-32C: for every input the byte-wise loop
  over the 256-entry table computes what shifting the message through the register one bit at a
  time computes.
\<close>

theorem crc32c_equals_bitwise: "compute_crc32c data = crc32c_bitwise data"
  by (rule crc32c_table_is_bitwise)

text \<open>
  C25: Every corruption confined to at most four adjacent bytes changes the checksum, wherever in
  the message it is and whatever surrounds it.
\<close>

theorem crc32c_burst_detected:
  assumes "length ys = length zs" and "length ys \<le> 4" and "ys \<noteq> zs"
  shows "compute_crc32c (xs @ ys @ ws) \<noteq> compute_crc32c (xs @ zs @ ws)"
  using assms by (rule crc32c_detects_bursts)

theorem crc32c_burst_detected_witness:
  "compute_crc32c ([7] @ [1, 2] @ [9]) \<noteq> compute_crc32c ([7] @ [1, 3] @ [9])"
  using crc32c_burst_detected [of "[1, 2]" "[1, 3]" "[7]" "[9]"] by simp

end
