(* ===== verification/Frame.thy ===== *)
theory Frame
  imports Crc32c
begin

text \<open>
  \<^verbatim>\<open>crates/pigtree-protocol/src/frame.rs\<close>: the binary frame of the engine's IPC. A frame is a
  20-byte little-endian header, the payload, and a CRC-32C over both.
\<close>

section \<open>Header types\<close>

definition MAGIC :: "u8 list" where
  "MAGIC = [0x50, 0x54]"

definition SCHEMA_VERSION :: u16 where
  "SCHEMA_VERSION = 1"

definition HEADER_SIZE :: nat where
  "HEADER_SIZE = 20"

definition CRC_SIZE :: nat where
  "CRC_SIZE = 4"

definition MAX_PAYLOAD_SIZE :: nat where
  "MAX_PAYLOAD_SIZE = 4 * 1024 * 1024"

lemmas frame_consts = MAGIC_def SCHEMA_VERSION_def HEADER_SIZE_def CRC_SIZE_def MAX_PAYLOAD_SIZE_def

datatype frame_parse_error =
    PrematureEof
  | InvalidMagic "u8 list"
  | UnsupportedVersion u16
  | InvalidChannelTag u8
  | InvalidReserved u16
  | PayloadTooLarge nat
  | ChecksumMismatch u32 u32
  | Io io_error

datatype channel_tag = Command | LosslessDomain | ProgressPulse | CancellationHeartbeat

primrec channel_tag_u8 :: "channel_tag \<Rightarrow> u8" where
  "channel_tag_u8 Command = 1"
| "channel_tag_u8 LosslessDomain = 2"
| "channel_tag_u8 ProgressPulse = 3"
| "channel_tag_u8 CancellationHeartbeat = 4"

definition channel_tag_from_u8 :: "u8 \<Rightarrow> frame_parse_error + channel_tag" where
  "channel_tag_from_u8 val =
     (if val = 1 then Inr Command
      else if val = 2 then Inr LosslessDomain
      else if val = 3 then Inr ProgressPulse
      else if val = 4 then Inr CancellationHeartbeat
      else Inl (InvalidChannelTag val))"

lemma channel_tag_roundtrip [simp]: "channel_tag_from_u8 (channel_tag_u8 t) = Inr t"
  by (cases t) (simp_all add: channel_tag_from_u8_def)

lemma channel_tag_from_u8_Inr: "channel_tag_from_u8 v = Inr t \<longleftrightarrow> v = channel_tag_u8 t"
proof
  show "channel_tag_from_u8 v = Inr t \<Longrightarrow> v = channel_tag_u8 t"
    by (auto simp: channel_tag_from_u8_def split: if_splits)
qed simp

definition flags_contains :: "u8 \<Rightarrow> u8 \<Rightarrow> bool" where
  "flags_contains self other \<longleftrightarrow> self AND other = other"

record frame_header =
  fh_channel_tag :: channel_tag
  fh_flags :: u8
  fh_sequence_number :: u64

record frame =
  fr_header :: frame_header
  fr_payload :: "u8 list"

section \<open>Encoding\<close>

definition header_bytes :: "frame_header \<Rightarrow> nat \<Rightarrow> u8 list" where
  "header_bytes h payload_len =
     MAGIC @ to_le_bytes SCHEMA_VERSION @ [channel_tag_u8 (fh_channel_tag h)] @ [fh_flags h]
     @ to_le_bytes (0 :: u16) @ to_le_bytes (fh_sequence_number h)
     @ to_le_bytes (word_of_nat payload_len :: u32)"

definition encode_frame :: "frame_header \<Rightarrow> u8 list \<Rightarrow> frame_parse_error + u8 list" where
  "encode_frame h payload =
     (if length payload > MAX_PAYLOAD_SIZE then Inl (PayloadTooLarge (length payload))
      else let buffer = header_bytes h (length payload) @ payload
           in Inr (buffer @ to_le_bytes (compute_crc32c buffer)))"

section \<open>Decoding\<close>

text \<open>
  The header checks, in the order \<open>decode_frame\<close> and \<open>read_frame\<close> make them on the first
  twenty bytes; the result is the header and the payload length.
\<close>

definition parse_header :: "u8 list \<Rightarrow> frame_parse_error + (frame_header \<times> nat)" where
  "parse_header buffer =
     (if slice 0 2 buffer \<noteq> MAGIC then Inl (InvalidMagic (slice 0 2 buffer))
      else let version = from_le_bytes (slice 2 4 buffer)
      in if version \<noteq> SCHEMA_VERSION then Inl (UnsupportedVersion version)
      else and_then (channel_tag_from_u8 (buffer ! 4)) (\<lambda>tag.
        let reserved = from_le_bytes (slice 6 8 buffer)
        in if reserved \<noteq> 0 then Inl (InvalidReserved reserved)
        else let payload_len = unat (from_le_bytes (slice 16 20 buffer) :: u32)
        in if payload_len > MAX_PAYLOAD_SIZE then Inl (PayloadTooLarge payload_len)
        else Inr (\<lparr>fh_channel_tag = tag, fh_flags = buffer ! 5,
                   fh_sequence_number = from_le_bytes (slice 8 16 buffer)\<rparr>, payload_len)))"

definition decode_frame :: "u8 list \<Rightarrow> frame_parse_error + (frame_header \<times> u8 list)" where
  "decode_frame buffer =
     (if length buffer < HEADER_SIZE then Inl PrematureEof
      else and_then (parse_header (take HEADER_SIZE buffer)) (\<lambda>(h, payload_len).
        if length buffer < HEADER_SIZE + payload_len + CRC_SIZE then Inl PrematureEof
        else let expected_crc = from_le_bytes
                   (slice (HEADER_SIZE + payload_len) (HEADER_SIZE + payload_len + 4) buffer);
                 calculated_crc = compute_crc32c (take (HEADER_SIZE + payload_len) buffer)
        in if expected_crc \<noteq> calculated_crc
           then Inl (ChecksumMismatch expected_crc calculated_crc)
           else Inr (h, slice HEADER_SIZE (HEADER_SIZE + payload_len) buffer)))"

text \<open>\<open>read_exact\<close> as the frame reader maps its errors.\<close>

definition frame_read_exact :: "nat \<Rightarrow> reader \<Rightarrow> frame_parse_error + (u8 list \<times> reader)" where
  "frame_read_exact n r =
     map_err (\<lambda>e. if e = Io_UnexpectedEof then PrematureEof else Io e) (read_exact n r)"

definition read_frame :: "reader \<Rightarrow> frame_parse_error + (frame option \<times> reader)" where
  "read_frame r0 =
     (case read_byte r0 of
        Inl e \<Rightarrow> Inl (Io e)
      | Inr (None, r1) \<Rightarrow> Inr (None, r1)
      | Inr (Some first_byte, r1) \<Rightarrow>
          and_then (frame_read_exact (HEADER_SIZE - 1) r1) (\<lambda>(rest, r2).
          let header_buf = first_byte # rest
          in and_then (parse_header header_buf) (\<lambda>(h, payload_len).
          and_then (frame_read_exact payload_len r2) (\<lambda>(payload, r3).
          and_then (frame_read_exact CRC_SIZE r3) (\<lambda>(crc_buf, r4).
          let expected_crc = from_le_bytes crc_buf;
              calculated_crc = compute_crc32c (header_buf @ payload)
          in if expected_crc \<noteq> calculated_crc
             then Inl (ChecksumMismatch expected_crc calculated_crc)
             else Inr (Some \<lparr>fr_header = h, fr_payload = payload\<rparr>, r4))))))"

text \<open>
  \<open>write_frame\<close> to a sink that accepts every write: the bytes appended to it (an I/O error of
  the sink is passed on unchanged by the code).
\<close>

definition write_frame :: "u8 list \<Rightarrow> frame_header \<Rightarrow> u8 list \<Rightarrow> frame_parse_error + u8 list" where
  "write_frame sink h payload = and_then (encode_frame h payload) (\<lambda>encoded. Inr (sink @ encoded))"

section \<open>Header lemmas\<close>

lemma length_header_bytes [simp]: "length (header_bytes h n) = HEADER_SIZE"
  by (simp add: header_bytes_def frame_consts)

lemma le_bytes_u16: "to_le_bytes (w :: u16) = [word_of_nat (unat w mod 256), word_of_nat (unat w div 256 mod 256)]"
  by (simp add: to_le_bytes_def numeral_2_eq_2)

lemma header_bytes_slices:
  "slice 0 2 (header_bytes h n) = MAGIC"
  "slice 2 4 (header_bytes h n) = to_le_bytes SCHEMA_VERSION"
  "header_bytes h n ! 4 = channel_tag_u8 (fh_channel_tag h)"
  "header_bytes h n ! 5 = fh_flags h"
  "slice 6 8 (header_bytes h n) = to_le_bytes (0 :: u16)"
  "slice 8 16 (header_bytes h n) = to_le_bytes (fh_sequence_number h)"
  "slice 16 20 (header_bytes h n) = to_le_bytes (word_of_nat n :: u32)"
  by (simp_all add: header_bytes_def slice_def MAGIC_def le_bytes_u16 nth_append)

lemma parse_header_bytes:
  assumes "n \<le> MAX_PAYLOAD_SIZE"
  shows "parse_header (header_bytes h n) = Inr (h, n)"
proof -
  have "unat (word_of_nat n :: u32) = n"
    using assms by (simp add: unat_of_nat frame_consts)
  with assms show ?thesis
    by (simp add: parse_header_def header_bytes_slices Let_def)
qed

lemma header_split:
  assumes "length buf = HEADER_SIZE"
  shows "buf = slice 0 2 buf @ slice 2 4 buf @ [buf ! 4] @ [buf ! 5] @ slice 6 8 buf
    @ slice 8 16 buf @ slice 16 20 buf"
proof -
  have nth: "slice 4 5 buf = [buf ! 4]" "slice 5 6 buf = [buf ! 5]"
    using assms by (simp_all add: slice_def HEADER_SIZE_def take_Suc_conv_app_nth Cons_nth_drop_Suc
        hd_drop_conv_nth take_Suc)
  have "buf = take 20 buf" using assms by (simp add: HEADER_SIZE_def)
  also have "\<dots> = slice 0 2 buf @ slice 2 4 buf @ slice 4 5 buf @ slice 5 6 buf @ slice 6 8 buf
    @ slice 8 16 buf @ slice 16 20 buf"
    by (simp add: slice_0 take_slice_append flip: append_assoc)
  finally show ?thesis by (simp only: nth)
qed

lemma parse_header_Inr:
  assumes "length buf = HEADER_SIZE" and "parse_header buf = Inr (h, n)"
  shows "buf = header_bytes h n \<and> n \<le> MAX_PAYLOAD_SIZE"
proof -
  let ?len = "from_le_bytes (slice 16 20 buf) :: u32"
  from assms(2) have magic: "slice 0 2 buf = MAGIC"
    and ver: "from_le_bytes (slice 2 4 buf) = SCHEMA_VERSION"
    and tag: "buf ! 4 = channel_tag_u8 (fh_channel_tag h)" and fl: "buf ! 5 = fh_flags h"
    and res: "(from_le_bytes (slice 6 8 buf) :: u16) = 0"
    and seq: "from_le_bytes (slice 8 16 buf) = fh_sequence_number h"
    and n: "n = unat ?len" "n \<le> MAX_PAYLOAD_SIZE"
    by (auto simp: parse_header_def Let_def and_then_eq_Inr channel_tag_from_u8_Inr split: if_splits)
  have "length (slice 2 4 buf) = 2" "length (slice 6 8 buf) = 2" "length (slice 8 16 buf) = 8"
    "length (slice 16 20 buf) = 4"
    using assms(1) by (simp_all add: HEADER_SIZE_def)
  then have "slice 2 4 buf = to_le_bytes SCHEMA_VERSION" "slice 6 8 buf = to_le_bytes (0 :: u16)"
    "slice 8 16 buf = to_le_bytes (fh_sequence_number h)" "slice 16 20 buf = to_le_bytes ?len"
    using to_from_le_bytes_widths(2,3,4) ver res seq by metis+
  moreover have "word_of_nat n = ?len" using n(1) by simp
  ultimately show ?thesis
    using header_split [OF assms(1)] magic tag fl n(2) by (simp add: header_bytes_def)
qed

section \<open>Encoder and decoder agree\<close>

lemma encode_frame_Inr:
  "encode_frame h p = Inr bs \<longleftrightarrow> length p \<le> MAX_PAYLOAD_SIZE \<and>
     bs = header_bytes h (length p) @ p @ to_le_bytes (compute_crc32c (header_bytes h (length p) @ p))"
  by (auto simp: encode_frame_def Let_def)

lemma encode_frame_length:
  "encode_frame h p = Inr bs \<Longrightarrow> length bs = HEADER_SIZE + length p + CRC_SIZE"
  by (auto simp: encode_frame_Inr CRC_SIZE_def)

lemma decode_header_prefix:
  assumes "n \<le> MAX_PAYLOAD_SIZE" and "length p = n" and "length c = CRC_SIZE"
  shows "decode_frame (header_bytes h n @ p @ c @ rest) =
    (if from_le_bytes c = compute_crc32c (header_bytes h n @ p) then Inr (h, p)
     else Inl (ChecksumMismatch (from_le_bytes c) (compute_crc32c (header_bytes h n @ p))))"
  using assms by (simp add: decode_frame_def parse_header_bytes Let_def slice_append_right
      slice_append_left CRC_SIZE_def)

lemma decode_encode:
  assumes "encode_frame h p = Inr bs"
  shows "decode_frame (bs @ rest) = Inr (h, p)"
  using assms by (auto simp: encode_frame_Inr decode_header_prefix CRC_SIZE_def)

lemma decode_frame_Inr:
  assumes "decode_frame buf = Inr (h, p)"
  shows "encode_frame h p = Inr (take (HEADER_SIZE + length p + CRC_SIZE) buf)"
proof -
  from assms obtain n where len: "HEADER_SIZE \<le> length buf"
    and hdr: "parse_header (take HEADER_SIZE buf) = Inr (h, n)"
    and long: "HEADER_SIZE + n + CRC_SIZE \<le> length buf"
    and crc: "from_le_bytes (slice (HEADER_SIZE + n) (HEADER_SIZE + n + 4) buf)
      = compute_crc32c (take (HEADER_SIZE + n) buf)"
    and p: "p = slice HEADER_SIZE (HEADER_SIZE + n) buf"
    by (auto simp: decode_frame_def and_then_eq_Inr Let_def split: if_splits)
  have lp: "length p = n" using p long by simp
  have h: "take HEADER_SIZE buf = header_bytes h n" and n: "n \<le> MAX_PAYLOAD_SIZE"
    using parse_header_Inr [OF _ hdr] len by simp_all
  have hp: "take (HEADER_SIZE + n) buf = header_bytes h n @ p"
    using take_slice_append [of HEADER_SIZE "HEADER_SIZE + n" buf] h p by simp
  have "slice (HEADER_SIZE + n) (HEADER_SIZE + n + 4) buf = to_le_bytes (compute_crc32c (header_bytes h n @ p))"
    using crc long hp to_from_le_bytes_widths(3) [of "slice (HEADER_SIZE + n) (HEADER_SIZE + n + 4) buf"]
    by (simp add: CRC_SIZE_def)
  then have "take (HEADER_SIZE + n + CRC_SIZE) buf
      = header_bytes h n @ p @ to_le_bytes (compute_crc32c (header_bytes h n @ p))"
    using take_slice_append [of "HEADER_SIZE + n" "HEADER_SIZE + n + 4" buf] hp
    by (simp add: CRC_SIZE_def)
  with n lp show ?thesis by (simp add: encode_frame_Inr)
qed

section \<open>The stream reader agrees with the buffer decoder\<close>

lemma frame_read_exact_of_bytes:
  "frame_read_exact n (of_bytes bs) =
     (if n \<le> length bs then Inr (take n bs, of_bytes (drop n bs)) else Inl PrematureEof)"
  by (simp add: frame_read_exact_def read_exact_def of_bytes_def)

lemma frame_read_exact_push:
  "length bs = n \<Longrightarrow> frame_read_exact n (r\<lparr>avail := bs @ cs\<rparr>) = Inr (bs, r\<lparr>avail := cs\<rparr>)"
  by (simp add: frame_read_exact_def read_exact_push)

lemma read_frame_empty: "read_frame (of_bytes []) = Inr (None, of_bytes [])"
  by (simp add: read_frame_def read_byte_def)

lemma read_frame_of_bytes:
  assumes "buf \<noteq> []"
  shows "read_frame (of_bytes buf) = and_then (decode_frame buf) (\<lambda>(h, p).
    Inr (Some \<lparr>fr_header = h, fr_payload = p\<rparr>, of_bytes (drop (HEADER_SIZE + length p + CRC_SIZE) buf)))"
proof -
  obtain b bs where buf: "buf = b # bs" using assms by (cases buf) auto
  have first: "read_byte (of_bytes buf) = Inr (Some b, of_bytes bs)"
    by (simp add: read_byte_def buf of_bytes_def)
  show ?thesis
  proof (cases "length buf < HEADER_SIZE")
    case True
    then have "\<not> HEADER_SIZE - 1 \<le> length bs" by (simp add: buf HEADER_SIZE_def)
    with True show ?thesis
      by (simp add: read_frame_def first frame_read_exact_of_bytes decode_frame_def)
  next
    case False
    then have hdr: "b # take (HEADER_SIZE - 1) bs = take HEADER_SIZE buf"
      "drop (HEADER_SIZE - 1) bs = drop HEADER_SIZE buf" "HEADER_SIZE - 1 \<le> length bs"
      by (simp_all add: buf HEADER_SIZE_def)
    show ?thesis
    proof (cases "parse_header (take HEADER_SIZE buf)")
      case (Inl e)
      with False hdr show ?thesis
        by (simp add: read_frame_def first frame_read_exact_of_bytes decode_frame_def Let_def)
    next
      case (Inr hn)
      obtain h n where hn: "hn = (h, n)" by (cases hn)
      have rest: "take HEADER_SIZE buf @ take n (drop HEADER_SIZE buf) = take (HEADER_SIZE + n) buf"
        "take CRC_SIZE (drop n (drop HEADER_SIZE buf))
          = slice (HEADER_SIZE + n) (HEADER_SIZE + n + 4) buf"
        "take n (drop HEADER_SIZE buf) = slice HEADER_SIZE (HEADER_SIZE + n) buf"
        by (simp_all add: take_add slice_def CRC_SIZE_def add.commute)
      have left: "n \<le> length (drop HEADER_SIZE buf) \<longleftrightarrow> HEADER_SIZE + n \<le> length buf"
        "CRC_SIZE \<le> length (drop n (drop HEADER_SIZE buf)) \<longleftrightarrow> HEADER_SIZE + n + CRC_SIZE \<le> length buf"
        using False by (auto simp: CRC_SIZE_def)
      have joined: "b # (take (HEADER_SIZE - 1) bs @ slice HEADER_SIZE (HEADER_SIZE + n) buf)
          = take (HEADER_SIZE + n) buf"
        using take_slice_append [of HEADER_SIZE "HEADER_SIZE + n" buf] hdr(1)
        by (simp flip: append_Cons)
      from False hdr Inr rest left joined show ?thesis
        by (simp add: read_frame_def first frame_read_exact_of_bytes decode_frame_def Let_def hn
            add.commute add.left_commute)
    qed
  qed
qed

lemma read_frame_encoded:
  assumes "encode_frame h p = Inr bs"
  shows "read_frame (push_front bs r) = Inr (Some \<lparr>fr_header = h, fr_payload = p\<rparr>, r)"
proof -
  from assms have bs: "bs = header_bytes h (length p) @ p @ to_le_bytes (compute_crc32c (header_bytes h (length p) @ p))"
    and n: "length p \<le> MAX_PAYLOAD_SIZE" by (auto simp: encode_frame_Inr)
  obtain b hs where hb: "header_bytes h (length p) = b # hs" and hs: "length hs = HEADER_SIZE - 1"
    by (metis HEADER_SIZE_def diff_Suc_1 length_Suc_conv length_header_bytes numeral_eq_Suc)
  have ph: "parse_header (b # hs) = Inr (h, length p)"
    using parse_header_bytes [OF n, of h] by (simp only: hb)
  show ?thesis
    by (simp add: bs hb read_frame_def frame_read_exact_push hs ph Let_def CRC_SIZE_def)
qed

section \<open>Corruption\<close>

text \<open>
  A frame whose payload was changed in at most four adjacent bytes is rejected with a
  checksum mismatch (the contract \<open>burst_checksum\<close> of the checksum).
\<close>

lemma corrupted_payload_rejected:
  assumes enc: "encode_frame h (xs @ ys @ ws) = Inr bs"
    and "length ys = length zs" and "length ys \<le> 4" and "ys \<noteq> zs"
  shows "\<exists>calculated. decode_frame
      (header_bytes h (length (xs @ ys @ ws)) @ (xs @ zs @ ws) @ drop (HEADER_SIZE + length (xs @ ys @ ws)) bs)
    = Inl (ChecksumMismatch (compute_crc32c (header_bytes h (length (xs @ ys @ ws)) @ xs @ ys @ ws)) calculated)"
proof -
  let ?n = "length (xs @ ys @ ws)" and ?hb = "header_bytes h (length (xs @ ys @ ws))"
  let ?crc = "compute_crc32c (?hb @ xs @ ys @ ws)"
  have n: "?n \<le> MAX_PAYLOAD_SIZE" and "drop (HEADER_SIZE + ?n) bs = to_le_bytes ?crc"
    using enc by (auto simp: encode_frame_Inr)
  moreover have "decode_frame (?hb @ (xs @ zs @ ws) @ to_le_bytes ?crc @ [])
      = Inl (ChecksumMismatch ?crc (compute_crc32c (?hb @ xs @ zs @ ws)))"
    using decode_header_prefix [OF n, of "xs @ zs @ ws" "to_le_bytes ?crc" h "[]"] assms(2)
      crc.corrupted_not_ok [OF assms(2-4), of "?hb @ xs" ws]
    by (simp add: CRC_SIZE_def crc.seal_ok_def)
  ultimately show ?thesis by auto
qed

section \<open>Properties\<close>

text \<open>
  C20: What \<open>encode_frame\<close> produces, \<open>decode_frame\<close> takes back into the same header and payload,
  whatever bytes follow the frame in the buffer.
\<close>

theorem frame_roundtrip:
  assumes "encode_frame h p = Inr bs"
  shows "decode_frame (bs @ rest) = Inr (h, p)"
  using assms by (rule decode_encode)

theorem frame_roundtrip_witness:
  "\<exists>bs. encode_frame \<lparr>fh_channel_tag = Command, fh_flags = 1, fh_sequence_number = 7\<rparr> [1, 2, 3] = Inr bs
    \<and> decode_frame (bs @ [0xFF]) = Inr (\<lparr>fh_channel_tag = Command, fh_flags = 1, fh_sequence_number = 7\<rparr>, [1, 2, 3])"
proof -
  obtain bs where "encode_frame \<lparr>fh_channel_tag = Command, fh_flags = 1, fh_sequence_number = 7\<rparr> [1, 2, 3] = Inr bs"
    by (simp add: encode_frame_Inr MAX_PAYLOAD_SIZE_def)
  then show ?thesis using frame_roundtrip by blast
qed

text \<open>
  C21: \<open>decode_frame\<close> accepts canonical encodings only: an accepted buffer starts with exactly
  the bytes \<open>encode_frame\<close> produces for the header and payload it returned, so no two different
  byte sequences of one frame decode to the same value.
\<close>

theorem frame_decoding_canonical:
  assumes "decode_frame buf = Inr (h, p)"
  shows "encode_frame h p = Inr (take (HEADER_SIZE + length p + CRC_SIZE) buf)"
  using assms by (rule decode_frame_Inr)

theorem frame_decoding_canonical_witness:
  "\<exists>buf. encode_frame \<lparr>fh_channel_tag = ProgressPulse, fh_flags = 0, fh_sequence_number = 2\<rparr> [9]
     = Inr (take (HEADER_SIZE + length [9 :: u8] + CRC_SIZE) buf)"
proof -
  obtain bs where "encode_frame \<lparr>fh_channel_tag = ProgressPulse, fh_flags = 0, fh_sequence_number = 2\<rparr> [9] = Inr bs"
    by (simp add: encode_frame_Inr MAX_PAYLOAD_SIZE_def)
  then have "decode_frame (bs @ []) = Inr (\<lparr>fh_channel_tag = ProgressPulse, fh_flags = 0, fh_sequence_number = 2\<rparr>, [9])"
    by (rule decode_encode)
  then show ?thesis using frame_decoding_canonical by blast
qed

text \<open>
  C22: The stream reader \<open>read_frame\<close> and the buffer decoder \<open>decode_frame\<close> agree on every
  nonempty input: the same frame or the same error, and the reader stops right after the frame.
\<close>

theorem frame_reader_agrees:
  assumes "buf \<noteq> []"
  shows "read_frame (of_bytes buf) = and_then (decode_frame buf) (\<lambda>(h, p).
    Inr (Some \<lparr>fr_header = h, fr_payload = p\<rparr>, of_bytes (drop (HEADER_SIZE + length p + CRC_SIZE) buf)))"
  using assms by (rule read_frame_of_bytes)

theorem frame_reader_agrees_witness:
  "read_frame (of_bytes [0x50]) = Inl PrematureEof"
  using frame_reader_agrees [of "[0x50]"] by (simp add: decode_frame_def HEADER_SIZE_def)

text \<open>
  C23: A frame whose payload was changed in at most four adjacent bytes on the way is rejected
  with a checksum mismatch that names the checksum the sender computed.
\<close>

theorem frame_corruption_rejected:
  assumes "encode_frame h (xs @ ys @ ws) = Inr bs"
    and "length ys = length zs" and "length ys \<le> 4" and "ys \<noteq> zs"
  shows "\<exists>calculated. decode_frame
      (header_bytes h (length (xs @ ys @ ws)) @ (xs @ zs @ ws) @ drop (HEADER_SIZE + length (xs @ ys @ ws)) bs)
    = Inl (ChecksumMismatch (compute_crc32c (header_bytes h (length (xs @ ys @ ws)) @ xs @ ys @ ws)) calculated)"
  using assms by (rule corrupted_payload_rejected)

theorem frame_corruption_rejected_witness:
  "\<exists>bs calculated. decode_frame
      (header_bytes \<lparr>fh_channel_tag = Command, fh_flags = 0, fh_sequence_number = 1\<rparr> 3 @ [1, 8, 3]
        @ drop (HEADER_SIZE + 3) bs)
    = Inl (ChecksumMismatch (compute_crc32c (header_bytes
        \<lparr>fh_channel_tag = Command, fh_flags = 0, fh_sequence_number = 1\<rparr> 3 @ [1, 2, 3])) calculated)"
proof -
  obtain bs where "encode_frame \<lparr>fh_channel_tag = Command, fh_flags = 0, fh_sequence_number = 1\<rparr> ([1] @ [2] @ [3]) = Inr bs"
    by (simp add: encode_frame_Inr MAX_PAYLOAD_SIZE_def)
  from frame_corruption_rejected [OF this, of "[8]"] show ?thesis
    by (auto simp: numeral_3_eq_3)
qed

end
