(* ===== verification/Worker_Buffers.thy ===== *)
theory Worker_Buffers
  imports Worker Frame
begin

text \<open>
  Decoding the directory records of the kernel: the two enumeration backends of the scan worker
  up to the facts they collect.
\<close>

section \<open>Reading integers\<close>

text \<open>\<open>None\<close> when the buffer is too short.\<close>

definition read_u32_le :: "u8 list \<Rightarrow> nat \<Rightarrow> u32 option" where
  "read_u32_le buf off = (if off + 4 > length buf then None else Some (from_le_bytes (slice off (off + 4) buf)))"

definition read_u64_le :: "u8 list \<Rightarrow> nat \<Rightarrow> u64 option" where
  "read_u64_le buf off = (if off + 8 > length buf then None else Some (from_le_bytes (slice off (off + 8) buf)))"

definition read_i64_le :: "u8 list \<Rightarrow> nat \<Rightarrow> u64 option" where
  "read_i64_le buf off = read_u64_le buf off"

definition read_u128_le :: "u8 list \<Rightarrow> nat \<Rightarrow> u128 option" where
  "read_u128_le buf off = (if off + 16 > length buf then None else Some (from_le_bytes (slice off (off + 16) buf)))"

section \<open>Facts\<close>

record entry_facts =
  e_name :: string
  e_file_attributes :: u32
  e_reparse_tag :: u32
  e_creation_time_utc_ms :: u64
  e_last_write_time_utc_ms :: u64
  e_last_access_time_utc_ms :: u64
  e_logical_size :: u64
  e_allocated_size :: "u64 option"
  e_object_id :: "object_identity option"
  e_total_link_count :: "u32 value_knowledge"

record find_data =
  fd_attributes :: u32
  fd_creation :: filetime
  fd_last_access :: filetime
  fd_last_write :: filetime
  fd_size_high :: u32
  fd_size_low :: u32
  fd_reserved0 :: u32
  fd_file_name :: "u16 list"

definition find_data_to_facts :: "find_data \<Rightarrow> volume_context \<Rightarrow> entry_facts" where
  "find_data_to_facts d volume =
     \<lparr>e_name = wide_slice_to_string (fd_file_name d),
      e_file_attributes = fd_attributes d,
      e_reparse_tag = (if has_attribute (fd_attributes d) FILE_ATTRIBUTE_REPARSE_POINT then fd_reserved0 d else 0),
      e_creation_time_utc_ms = filetime_to_unix_ms (fd_creation d),
      e_last_write_time_utc_ms = filetime_to_unix_ms (fd_last_write d),
      e_last_access_time_utc_ms = filetime_to_unix_ms (fd_last_access d),
      e_logical_size = push_bit 32 (ucast (fd_size_high d)) OR ucast (fd_size_low d),
      e_allocated_size = None,
      e_object_id = None,
      e_total_link_count = link_knowledge volume\<rparr>"

section \<open>Batched records\<close>

text \<open>
  Slicing a buffer panics outside of it; the outer \<open>None\<close> of a result is that panic. The sizes
  are those of a buffer in memory, so the checked additions of the code do not overflow.
\<close>

definition slice_bytes :: "u8 list \<Rightarrow> nat \<Rightarrow> nat \<Rightarrow> u8 list option" where
  "slice_bytes buf a b = (if a \<le> b \<and> b \<le> length buf then Some (slice a b buf) else None)"

fun u16_chunks :: "u8 list \<Rightarrow> u16 list" where
  "u16_chunks (a # b # bs) = from_le_bytes [a, b] # u16_chunks bs"
| "u16_chunks _ = []"

abbreviation EXTD_MIN_RECORD :: nat where "EXTD_MIN_RECORD \<equiv> 88"
abbreviation EXTD_OFF_NAME :: nat where "EXTD_OFF_NAME \<equiv> 88"

definition extd_facts :: "u8 list \<Rightarrow> nat \<Rightarrow> volume_context \<Rightarrow> u32 \<Rightarrow> u32 \<Rightarrow> u8 list \<Rightarrow> entry_facts option" where
  "extd_facts buf off volume attrs reparse_tag name_bytes =
     Option.bind (read_i64_le buf (off + 8)) (\<lambda>creation.
     Option.bind (read_i64_le buf (off + 16)) (\<lambda>last_access.
     Option.bind (read_i64_le buf (off + 24)) (\<lambda>last_write.
     Option.bind (read_i64_le buf (off + 48)) (\<lambda>alloc_raw.
     Option.bind (read_i64_le buf (off + 40)) (\<lambda>eof_raw.
     Option.bind (read_u128_le buf (off + 72)) (\<lambda>fid.
     Some \<lparr>e_name = from_utf16_lossy (u16_chunks name_bytes),
       e_file_attributes = attrs,
       e_reparse_tag = reparse_tag,
       e_creation_time_utc_ms = filetime_i64_to_unix_ms creation,
       e_last_write_time_utc_ms = filetime_i64_to_unix_ms last_write,
       e_last_access_time_utc_ms = filetime_i64_to_unix_ms last_access,
       e_logical_size = (if sint eof_raw < 0 then 0 else eof_raw),
       e_allocated_size = (if sint alloc_raw \<ge> 0 then Some alloc_raw else None),
       e_object_id = identity volume fid,
       e_total_link_count = link_knowledge volume\<rparr>))))))"

text \<open>One record: \<open>Some None\<close> if it is malformed, else its facts and the offset of the next record.\<close>

definition extd_record :: "u8 list \<Rightarrow> nat \<Rightarrow> volume_context \<Rightarrow> (entry_facts \<times> nat option) option option" where
  "extd_record buf off volume =
     (case read_u32_le buf off of None \<Rightarrow> Some None | Some next_word \<Rightarrow>
      let next = unat next_word in
      if next \<noteq> 0 \<and> (next < EXTD_MIN_RECORD \<or> next mod 8 \<noteq> 0 \<or> off + next > length buf) then Some None
      else let record_end = (if next \<noteq> 0 then off + next else length buf) in
      case read_u32_le buf (off + 56) of None \<Rightarrow> Some None | Some attrs \<Rightarrow>
      case (if has_attribute attrs FILE_ATTRIBUTE_REPARSE_POINT then read_u32_le buf (off + 68) else Some 0) of
        None \<Rightarrow> Some None | Some reparse_tag \<Rightarrow>
      case read_u32_le buf (off + 60) of None \<Rightarrow> Some None | Some name_len_word \<Rightarrow>
      let name_len = unat name_len_word in
      if name_len = 0 \<or> name_len mod 2 \<noteq> 0 then Some None
      else let name_start = off + EXTD_OFF_NAME; name_end = name_start + name_len in
      if name_end > record_end then Some None
      else Option.bind (slice_bytes buf name_start name_end) (\<lambda>name_bytes.
        Some (map_option (\<lambda>f. (f, if next = 0 then None else Some record_end))
          (extd_facts buf off volume attrs reparse_tag name_bytes))))"

lemma extd_record_next:
  "extd_record buf off volume = Some (Some (f, Some off')) \<Longrightarrow> off < off' \<and> off' \<le> length buf"
  by (auto simp: extd_record_def Let_def bind_eq_Some_conv split: option.splits if_splits)

function parse_extd_from :: "u8 list \<Rightarrow> volume_context \<Rightarrow> nat \<Rightarrow> entry_facts list option option" where
  "parse_extd_from buf volume off =
     (if off + EXTD_MIN_RECORD > length buf then Some (if off = 0 then Some [] else None)
      else case extd_record buf off volume of
        None \<Rightarrow> None
      | Some None \<Rightarrow> Some None
      | Some (Some (f, None)) \<Rightarrow> Some (Some [f])
      | Some (Some (f, Some off')) \<Rightarrow> map_option (map_option ((#) f)) (parse_extd_from buf volume off'))"
  by pat_completeness auto
termination
  by (relation "measure (\<lambda>(buf, volume, off). length buf - off)") (auto dest!: extd_record_next)

declare parse_extd_from.simps [simp del]

definition parse_extd_entries :: "u8 list \<Rightarrow> volume_context \<Rightarrow> entry_facts list option option" where
  "parse_extd_entries buf volume = parse_extd_from buf volume 0"

section \<open>Malformed buffers\<close>

lemma read_le_Some:
  "read_u32_le buf off = Some w \<Longrightarrow> off + 4 \<le> length buf"
  by (auto simp: read_u32_le_def split: if_splits)

lemma extd_record_no_panic: "extd_record buf off volume \<noteq> None"
  by (auto simp: extd_record_def Let_def slice_bytes_def split: option.splits if_splits)

lemma parse_extd_from_no_panic: "parse_extd_from buf volume off \<noteq> None"
proof (induction buf volume off rule: parse_extd_from.induct)
  case (1 buf volume off)
  then show ?case
    using extd_record_no_panic [of buf off volume]
    by (subst parse_extd_from.simps) (auto split: option.splits)
qed

section \<open>Well-formed buffers\<close>

text \<open>The layout of \<open>FILE_ID_EXTD_DIR_INFO\<close>: a record, what follows its name, and a chain of them.\<close>

record dir_record =
  dr_file_index :: u32
  dr_creation :: u64
  dr_last_access :: u64
  dr_last_write :: u64
  dr_change :: u64
  dr_eof :: u64
  dr_alloc :: u64
  dr_attrs :: u32
  dr_ea_size :: u32
  dr_reparse_tag :: u32
  dr_file_id :: u128
  dr_name :: "u16 list"

definition extd_head :: "dir_record \<Rightarrow> u32 \<Rightarrow> u8 list" where
  "extd_head r next =
     to_le_bytes next @ to_le_bytes (dr_file_index r) @ to_le_bytes (dr_creation r)
     @ to_le_bytes (dr_last_access r) @ to_le_bytes (dr_last_write r) @ to_le_bytes (dr_change r)
     @ to_le_bytes (dr_eof r) @ to_le_bytes (dr_alloc r) @ to_le_bytes (dr_attrs r)
     @ to_le_bytes (word_of_nat (2 * length (dr_name r)) :: u32) @ to_le_bytes (dr_ea_size r)
     @ to_le_bytes (dr_reparse_tag r) @ to_le_bytes (dr_file_id r)"

definition name_bytes_of :: "dir_record \<Rightarrow> u8 list" where
  "name_bytes_of r = concat (map to_le_bytes (dr_name r))"

definition record_size :: "dir_record \<times> u8 list \<Rightarrow> nat" where
  "record_size rp = 88 + 2 * length (dr_name (fst rp)) + length (snd rp)"

fun extd_buffer :: "(dir_record \<times> u8 list) list \<Rightarrow> u8 list" where
  "extd_buffer [] = []"
| "extd_buffer [(r, pad)] = extd_head r 0 @ name_bytes_of r @ pad"
| "extd_buffer ((r, pad) # rs) =
     extd_head r (word_of_nat (record_size (r, pad))) @ name_bytes_of r @ pad @ extd_buffer rs"

definition wf_dir_record :: "dir_record \<times> u8 list \<Rightarrow> bool" where
  "wf_dir_record rp \<longleftrightarrow> dr_name (fst rp) \<noteq> [] \<and> record_size rp < 2 ^ 32 \<and> record_size rp mod 8 = 0"

definition facts_of :: "volume_context \<Rightarrow> dir_record \<Rightarrow> entry_facts" where
  "facts_of volume r =
     \<lparr>e_name = from_utf16_lossy (dr_name r),
      e_file_attributes = dr_attrs r,
      e_reparse_tag = (if has_attribute (dr_attrs r) FILE_ATTRIBUTE_REPARSE_POINT then dr_reparse_tag r else 0),
      e_creation_time_utc_ms = filetime_i64_to_unix_ms (dr_creation r),
      e_last_write_time_utc_ms = filetime_i64_to_unix_ms (dr_last_write r),
      e_last_access_time_utc_ms = filetime_i64_to_unix_ms (dr_last_access r),
      e_logical_size = (if sint (dr_eof r) < 0 then 0 else dr_eof r),
      e_allocated_size = (if sint (dr_alloc r) \<ge> 0 then Some (dr_alloc r) else None),
      e_object_id = identity volume (dr_file_id r),
      e_total_link_count = link_knowledge volume\<rparr>"

lemma u16_chunks_names: "u16_chunks (concat (map to_le_bytes ws)) = ws"
proof (induction ws)
  case (Cons w ws)
  obtain a b where ab: "to_le_bytes w = [a, b]" by (simp add: le_bytes_u16)
  then have "from_le_bytes [a, b] = w" by (metis from_to_le_bytes_widths(2))
  with ab Cons show ?case by simp
qed simp

lemma length_extd_head [simp]: "length (extd_head r n) = 88"
  by (simp add: extd_head_def)

lemma length_name_bytes [simp]: "length (name_bytes_of r) = 2 * length (dr_name r)"
proof -
  have "length (concat (map to_le_bytes (ws :: u16 list))) = 2 * length ws" for ws
    by (induction ws) simp_all
  then show ?thesis by (simp add: name_bytes_of_def)
qed

lemma read_at:
  "read_u32_le (xs @ to_le_bytes w @ ys) (length xs) = Some w"
  "read_i64_le (xs @ to_le_bytes v @ ys) (length xs) = Some v"
  "read_u128_le (xs @ to_le_bytes u @ ys) (length xs) = Some u"
  by (simp_all add: read_u32_le_def read_i64_le_def read_u64_le_def read_u128_le_def slice_append_right
      slice_append_left)

lemma head_fields:
  fixes pre tail n r
  defines "buf \<equiv> pre @ extd_head r n @ tail"
  shows "read_u32_le buf (length pre) = Some n"
    "read_i64_le buf (length pre + 8) = Some (dr_creation r)"
    "read_i64_le buf (length pre + 16) = Some (dr_last_access r)"
    "read_i64_le buf (length pre + 24) = Some (dr_last_write r)"
    "read_i64_le buf (length pre + 40) = Some (dr_eof r)"
    "read_i64_le buf (length pre + 48) = Some (dr_alloc r)"
    "read_u32_le buf (length pre + 56) = Some (dr_attrs r)"
    "read_u32_le buf (length pre + 60) = Some (word_of_nat (2 * length (dr_name r)))"
    "read_u32_le buf (length pre + 68) = Some (dr_reparse_tag r)"
    "read_u128_le buf (length pre + 72) = Some (dr_file_id r)"
  by (simp_all add: buf_def extd_head_def read_u32_le_def read_i64_le_def read_u64_le_def read_u128_le_def
      slice_append_right slice_append_left)

lemma unat_u32: "n < 2 ^ 32 \<Longrightarrow> unat (word_of_nat n :: u32) = n"
  by (simp add: unat_of_nat)

lemma extd_record_ok:
  assumes "dr_name r \<noteq> []" and "88 + 2 * length (dr_name r) + length pad < 2 ^ 32"
    and "n = 0 \<and> rest = [] \<or> n = word_of_nat (record_size (r, pad)) \<and> record_size (r, pad) mod 8 = 0"
  shows "extd_record (pre @ extd_head r n @ name_bytes_of r @ pad @ rest) (length pre) volume
    = Some (Some (facts_of volume r, if n = 0 then None else Some (length pre + record_size (r, pad))))"
proof -
  define buf where "buf = pre @ extd_head r n @ name_bytes_of r @ pad @ rest"
  define w :: u32 where "w = word_of_nat (2 * length (dr_name r))"
  note fields = head_fields [of pre r n "name_bytes_of r @ pad @ rest", folded buf_def w_def]
  have len: "length buf = length pre + 88 + 2 * length (dr_name r) + length pad + length rest"
    by (simp add: buf_def)
  have nl: "unat w = 2 * length (dr_name r)"
    unfolding w_def using assms(2) by (intro unat_u32) simp
  have size: "n = 0 \<and> rest = [] \<or> unat n = record_size (r, pad) \<and> record_size (r, pad) mod 8 = 0 \<and> n \<noteq> 0"
  proof -
    have "unat (word_of_nat (record_size (r, pad)) :: u32) = record_size (r, pad)"
      using assms(2) by (intro unat_u32) (simp add: record_size_def)
    with assms(3) show ?thesis by (auto simp: record_size_def simp flip: unat_eq_0)
  qed
  have slice: "slice_bytes buf (length pre + 88) (length pre + 88 + 2 * length (dr_name r)) = Some (name_bytes_of r)"
    by (simp add: slice_bytes_def len) (simp add: buf_def slice_append_right slice_append_left)
  have facts: "extd_facts buf (length pre) volume (dr_attrs r)
      (if has_attribute (dr_attrs r) FILE_ATTRIBUTE_REPARSE_POINT then dr_reparse_tag r else 0) (name_bytes_of r)
      = Some (facts_of volume r)"
    by (simp add: extd_facts_def fields facts_of_def name_bytes_of_def u16_chunks_names)
  have "extd_record buf (length pre) volume
      = Some (Some (facts_of volume r, if n = 0 then None else Some (length pre + record_size (r, pad))))"
    using size assms(1) facts
    by (elim disjE) (auto simp: extd_record_def fields Let_def nl slice len record_size_def unat_eq_0)
  then show ?thesis by (simp add: buf_def)
qed

lemma parse_extd_buffer:
  "rs \<noteq> [] \<Longrightarrow> \<forall>rp \<in> set rs. wf_dir_record rp \<Longrightarrow>
    parse_extd_from (pre @ extd_buffer rs) volume (length pre) = Some (Some (map (facts_of volume \<circ> fst) rs))"
proof (induction rs arbitrary: pre rule: extd_buffer.induct)
  case (2 r pad)
  then have "extd_record (pre @ extd_head r 0 @ name_bytes_of r @ pad @ []) (length pre) volume
      = Some (Some (facts_of volume r, None))"
    by (subst extd_record_ok) (auto simp: wf_dir_record_def record_size_def)
  then show ?case by (subst parse_extd_from.simps) simp
next
  case (3 r pad rp rs)
  let ?n = "word_of_nat (record_size (r, pad)) :: u32" and ?rest = "extd_buffer (rp # rs)"
  have wf: "wf_dir_record (r, pad)" using "3.prems" by simp
  then have "unat ?n = record_size (r, pad)" by (intro unat_u32) (simp add: wf_dir_record_def)
  then have n: "?n \<noteq> 0" by (metis record_size_def add_is_0 unsigned_0 zero_neq_numeral)
  let ?pre = "pre @ extd_head r ?n @ name_bytes_of r @ pad"
  have rec: "extd_record (pre @ extd_head r ?n @ name_bytes_of r @ pad @ ?rest) (length pre) volume
      = Some (Some (facts_of volume r, Some (length pre + record_size (r, pad))))"
    using wf n by (subst extd_record_ok) (auto simp: wf_dir_record_def record_size_def)
  have "length ?pre = length pre + record_size (r, pad)" by (simp add: record_size_def)
  then have "parse_extd_from (?pre @ ?rest) volume (length pre + record_size (r, pad))
      = Some (Some (map (facts_of volume \<circ> fst) (rp # rs)))"
    using "3.IH" [of ?pre] "3.prems" by (simp del: extd_buffer.simps length_append)
  with rec show ?case
    by (subst parse_extd_from.simps) (simp add: record_size_def)
qed simp

text \<open>C31: Decoding a directory buffer never reads outside of it, whatever the kernel put there,
  and of a chain of well-formed records it yields the facts of every record, in order.\<close>

theorem directory_buffers_decode:
  assumes "rs \<noteq> []" and "\<forall>rp \<in> set rs. wf_dir_record rp"
  shows "parse_extd_entries (extd_buffer rs) volume = Some (Some (map (facts_of volume \<circ> fst) rs))
    \<and> parse_extd_entries buf volume \<noteq> None"
  using parse_extd_buffer [OF assms, of "[]" volume] parse_extd_from_no_panic
  by (simp add: parse_extd_entries_def)

definition sample_record :: dir_record where
  "sample_record = \<lparr>dr_file_index = 0, dr_creation = 0, dr_last_access = 0, dr_last_write = 0, dr_change = 0,
     dr_eof = 700, dr_alloc = 4096, dr_attrs = 0x20, dr_ea_size = 0, dr_reparse_tag = 0, dr_file_id = 9,
     dr_name = [0x61, 0x62]\<rparr>"

theorem directory_buffers_decode_witness:
  "parse_extd_entries (extd_buffer [(sample_record, [0, 0, 0, 0]), (sample_record\<lparr>dr_eof := 1\<rparr>, [0, 0, 0, 0])]) \<lparr>vc_guid = None, vc_hardlink_capable = True\<rparr>
    = Some (Some [facts_of \<lparr>vc_guid = None, vc_hardlink_capable = True\<rparr> sample_record, facts_of \<lparr>vc_guid = None, vc_hardlink_capable = True\<rparr> (sample_record\<lparr>dr_eof := 1\<rparr>)])"
  using directory_buffers_decode [of "[(sample_record, [0, 0, 0, 0]), (sample_record\<lparr>dr_eof := 1\<rparr>, [0, 0, 0, 0])]"
    "\<lparr>vc_guid = None, vc_hardlink_capable = True\<rparr>"]
  by (simp add: wf_dir_record_def record_size_def sample_record_def)

end
