(* ===== verification/Error_Text.thy ===== *)
theory Error_Text
  imports Frame Graph_Types Json
begin

text \<open>
  The errors of the IPC layer (\<^verbatim>\<open>crates/pigtree-ipc/src/error.rs\<close>) and the texts \<open>Display\<close> gives
  for them and for the errors of the frame codec, the observation stream and the graph builder.
  The texts of \<open>io::Error\<close> and \<open>Utf8Error\<close> come from the operating system and the standard
  library: they are arguments.
\<close>

section \<open>Hexadecimal numbers\<close>

text \<open>\<open>{:#04x}\<close> of a byte and \<open>{:#010x}\<close> of a 32-bit word.\<close>

definition hex_u8 :: "u8 \<Rightarrow> string" where
  "hex_u8 b = ''0x'' @ hex_byte (unat b)"

definition hex_u32 :: "u32 \<Rightarrow> string" where
  "hex_u32 w = ''0x'' @ concat (map hex_byte (rev (map unat (to_le_bytes w))))"

section \<open>Frame errors\<close>

definition frame_error_text :: "(io_error \<Rightarrow> string) \<Rightarrow> frame_parse_error \<Rightarrow> string" where
  "frame_error_text io e = (case e of
     PrematureEof \<Rightarrow> ''premature EOF while reading frame''
   | InvalidMagic m \<Rightarrow> ''invalid frame magic: ['' @ hex_u8 (m ! 0) @ '', '' @ hex_u8 (m ! 1) @ '']''
   | UnsupportedVersion v \<Rightarrow> ''unsupported wire version: '' @ decimal (unat v)
   | InvalidChannelTag t \<Rightarrow> ''invalid channel tag: '' @ decimal (unat t)
   | InvalidReserved r \<Rightarrow> ''non-zero reserved field: '' @ decimal (unat r)
   | PayloadTooLarge n \<Rightarrow> ''payload size '' @ decimal n @ '' exceeds maximum '' @ decimal MAX_PAYLOAD_SIZE
   | ChecksumMismatch expected calculated \<Rightarrow>
       ''checksum mismatch: expected '' @ hex_u32 expected @ '', calculated '' @ hex_u32 calculated
   | Io err \<Rightarrow> ''I/O error during frame parsing: '' @ io err)"

section \<open>Observation and graph errors\<close>

definition obs_error_text :: "(io_error \<Rightarrow> string) \<Rightarrow> string \<Rightarrow> obs_decode_error \<Rightarrow> string" where
  "obs_error_text io utf8 e = (case e of
     Obs_PrematureEof \<Rightarrow> ''premature EOF in observation stream''
   | Obs_InvalidMagic m \<Rightarrow> ''invalid observation stream magic: ['' @ hex_u8 (m ! 0) @ '', '' @ hex_u8 (m ! 1)
       @ '', '' @ hex_u8 (m ! 2) @ '', '' @ hex_u8 (m ! 3) @ '']''
   | Obs_UnsupportedVersion v \<Rightarrow> ''unsupported observation stream version: '' @ decimal (unat v)
   | InvalidRecordTag t \<Rightarrow> ''invalid observation record tag: '' @ hex_u8 t
   | InvalidUtf8 \<Rightarrow> ''invalid UTF-8 in observation string: '' @ utf8
   | InvalidOutcome c \<Rightarrow> ''invalid run outcome code: '' @ decimal (unat c)
   | InvalidValueKnowledgeTag t \<Rightarrow> ''invalid value knowledge tag: '' @ hex_u8 t
   | InvalidBooleanTag t \<Rightarrow> ''invalid boolean flag tag: '' @ hex_u8 t
   | InvalidExternalStatus s \<Rightarrow> ''invalid external reference status: '' @ hex_u8 s
   | Obs_Io err \<Rightarrow> ''I/O error in observation stream: '' @ io err)"

definition build_error_text :: "(io_error \<Rightarrow> string) \<Rightarrow> string \<Rightarrow> graph_build_error \<Rightarrow> string" where
  "build_error_text io utf8 e = (case e of
     InvalidRoot entry_id parent_id \<Rightarrow>
       ''invalid root entry: expected id=1 and parent_id=0, got id='' @ decimal (unat entry_id)
       @ '' and parent_id='' @ decimal (unat parent_id)
   | DuplicateEntryId i \<Rightarrow> ''duplicate entry ID: '' @ decimal (unat i)
   | MissingParent entry_id parent_id \<Rightarrow>
       ''missing or out-of-order parent: entry '' @ decimal (unat entry_id)
       @ '' references non-existent parent '' @ decimal (unat parent_id)
   | ParentNotDirectory entry_id parent_id \<Rightarrow>
       ''parent of entry '' @ decimal (unat entry_id) @ '' (id='' @ decimal (unat parent_id)
       @ '') is not a directory''
   | SelfParent i \<Rightarrow> ''entry '' @ decimal (unat i) @ '' has self-referencing parent_id''
   | UnknownStreamParent entry_id \<Rightarrow>
       ''content stream references entry '' @ decimal (unat entry_id) @ '' which has not been observed''
   | RecordAfterTerminal \<Rightarrow> ''received observation record after terminal record''
   | DuplicateTerminal \<Rightarrow> ''received duplicate terminal record''
   | MissingTerminal \<Rightarrow> ''stream finished without a terminal record''
   | AggregateMismatch field expected actual \<Rightarrow>
       ''terminal aggregate mismatch on '' @ field @ '': expected '' @ decimal (unat expected)
       @ '', actual '' @ decimal (unat actual)
   | Decode d \<Rightarrow> ''observation stream decode error: '' @ obs_error_text io utf8 d)"

section \<open>IPC errors\<close>

text \<open>A \<open>ProtoError\<close> of the message library is represented by its text.\<close>

datatype ipc_error =
    Ipc_Io io_error
  | Ipc_Protocol frame_parse_error
  | Ipc_Protobuf string
  | Ipc_Win32 u32 string
  | AuthenticationFailed string
  | CommandError string string
  | IdentityMismatch string string
  | SessionNotFound
  | Ipc_Timeout
  | Ipc_Cancelled
  | ProcessExited u32
  | ServerNotFound

definition ipc_error_text :: "(io_error \<Rightarrow> string) \<Rightarrow> ipc_error \<Rightarrow> string" where
  "ipc_error_text io e = (case e of
     Ipc_Io err \<Rightarrow> ''I/O error: '' @ io err
   | Ipc_Protocol err \<Rightarrow> ''protocol framing error: '' @ frame_error_text io err
   | Ipc_Protobuf err \<Rightarrow> ''protobuf decoding error: '' @ err
   | Ipc_Win32 code message \<Rightarrow> ''Win32 error (code '' @ decimal (unat code) @ ''): '' @ message
   | AuthenticationFailed msg \<Rightarrow> ''authentication failed: '' @ msg
   | CommandError code message \<Rightarrow> ''command error ('' @ code @ ''): '' @ message
   | IdentityMismatch expected actual \<Rightarrow>
       ''mutual process identity mismatch: expected '' @ expected @ '', actual '' @ actual
   | SessionNotFound \<Rightarrow> ''session not found''
   | Ipc_Timeout \<Rightarrow> ''IPC operation timed out''
   | Ipc_Cancelled \<Rightarrow> ''IPC operation cancelled''
   | ProcessExited code \<Rightarrow> ''child process exited prematurely with code '' @ decimal (unat code)
   | ServerNotFound \<Rightarrow> ''engine server named pipe not found'')"

end
