(* ===== verification/Validator.thy ===== *)
theory Validator
  imports Wide_Strings Error_Text
begin

text \<open>
  The scan target validator of \<^verbatim>\<open>crates/pigtree-ipc/src/validator.rs\<close>: classification of drives
  and file systems, the lexical test for network paths, and \<open>validate_scan_target\<close> over the
  answers of the operating system.
\<close>

section \<open>Drives and file systems\<close>

datatype drive_kind = Drive_Unknown | Drive_NoRootDir | Drive_Removable | Drive_Fixed | Drive_Remote
  | Drive_CdRom | Drive_RamDisk | Drive_Other u32

definition drive_kind_from_raw :: "u32 \<Rightarrow> drive_kind" where
  "drive_kind_from_raw raw =
     (if raw = 0 then Drive_Unknown
      else if raw = 1 then Drive_NoRootDir
      else if raw = 2 then Drive_Removable
      else if raw = 3 then Drive_Fixed
      else if raw = 4 then Drive_Remote
      else if raw = 5 then Drive_CdRom
      else if raw = 6 then Drive_RamDisk
      else Drive_Other raw)"

definition drive_is_supported :: "drive_kind \<Rightarrow> bool" where
  "drive_is_supported k \<longleftrightarrow> k = Drive_Fixed \<or> k = Drive_Removable"

primrec drive_as_str :: "drive_kind \<Rightarrow> string" where
  "drive_as_str Drive_Unknown = ''DRIVE_UNKNOWN''"
| "drive_as_str Drive_NoRootDir = ''DRIVE_NO_ROOT_DIR''"
| "drive_as_str Drive_Removable = ''DRIVE_REMOVABLE''"
| "drive_as_str Drive_Fixed = ''DRIVE_FIXED''"
| "drive_as_str Drive_Remote = ''DRIVE_REMOTE''"
| "drive_as_str Drive_CdRom = ''DRIVE_CDROM''"
| "drive_as_str Drive_RamDisk = ''DRIVE_RAMDISK''"
| "drive_as_str (Drive_Other _) = ''DRIVE_OTHER''"

datatype file_system_kind = Ntfs | ReFs | Fat32 | ExFat | Unsupported string

definition parse_file_system :: "string \<Rightarrow> file_system_kind" where
  "parse_file_system name =
     (let trimmed = trim name in
      if eq_ignore_ascii_case trimmed ''NTFS'' then Ntfs
      else if eq_ignore_ascii_case trimmed ''ReFS'' then ReFs
      else if eq_ignore_ascii_case trimmed ''FAT32'' then Fat32
      else if eq_ignore_ascii_case trimmed ''exFAT'' then ExFat
      else Unsupported trimmed)"

definition file_system_is_supported :: "file_system_kind \<Rightarrow> bool" where
  "file_system_is_supported k \<longleftrightarrow> (case k of Unsupported _ \<Rightarrow> False | _ \<Rightarrow> True)"

primrec file_system_as_str :: "file_system_kind \<Rightarrow> string" where
  "file_system_as_str Ntfs = ''NTFS''"
| "file_system_as_str ReFs = ''ReFS''"
| "file_system_as_str Fat32 = ''FAT32''"
| "file_system_as_str ExFat = ''exFAT''"
| "file_system_as_str (Unsupported s) = s"

section \<open>Network paths\<close>

definition is_slash :: "char \<Rightarrow> bool" where
  "is_slash b \<longleftrightarrow> b = backslash \<or> b = CHR ''/''"

definition starts_with :: "string \<Rightarrow> string \<Rightarrow> bool" where
  "starts_with s p \<longleftrightarrow> take (length p) s = p"

definition extended_unc :: "string \<Rightarrow> bool" where
  "extended_unc bytes \<longleftrightarrow>
     (let first_two_slash = is_slash (bytes ! 0) \<and> is_slash (bytes ! 1)
            \<or> bytes ! 0 = backslash \<and> bytes ! 1 = CHR ''?'' \<and> bytes ! 2 = CHR ''?'' in
      (first_two_slash \<and> (bytes ! 2 = CHR ''?'' \<or> bytes ! 2 = CHR ''.'') \<and> is_slash (bytes ! 3)
       \<or> starts_with bytes ([backslash] @ ''??'' @ [backslash, backslash]))
      \<and> eq_ignore_ascii_case (slice 4 7 bytes) ''UNC'' \<and> is_slash (bytes ! 7))"

definition is_lexical_unc :: "string \<Rightarrow> bool" where
  "is_lexical_unc raw =
     (let s = trim raw in
      if s = [] then False
      else if 8 \<le> length s \<and> extended_unc s then True
      else if 2 \<le> length s \<and> is_slash (s ! 0) \<and> is_slash (s ! 1) then
        (if 4 \<le> length s \<and> (s ! 2 = CHR ''?'' \<or> s ! 2 = CHR ''.'') \<and> is_slash (s ! 3) then
           (if 6 \<le> length s \<and> is_ascii_alphabetic (s ! 4) \<and> s ! 5 = CHR '':'' then False
            else True)
         else True)
      else False)"

section \<open>Validation\<close>

datatype target_validation_error =
    EmptyPath
  | UncPathNotSupported string
  | NotFound string
  | NotADirectory string
  | CanonicalizationFailed string string
  | VolumeResolutionFailed string u32
  | UnsupportedDriveType string string drive_kind
  | VolumeInformationFailed string string u32
  | UnsupportedFileSystem string string string

definition target_error_text :: "target_validation_error \<Rightarrow> string" where
  "target_error_text e = (case e of
     EmptyPath \<Rightarrow> ''Target directory path cannot be empty''
   | UncPathNotSupported path \<Rightarrow> ''UNC and network paths are not supported: '' @ path
   | NotFound path \<Rightarrow> ''Target directory does not exist: '' @ path
   | NotADirectory path \<Rightarrow> ''Target path is not a directory: '' @ path
   | CanonicalizationFailed path reason \<Rightarrow> ''Failed to resolve target path '' @ [CHR 0x27] @ path
       @ [CHR 0x27] @ '': '' @ reason
   | VolumeResolutionFailed path win32_code \<Rightarrow> ''Failed to determine volume root for '' @ [CHR 0x27] @ path
       @ [CHR 0x27] @ '' (Win32 error '' @ decimal (unat win32_code) @ '')''
   | UnsupportedDriveType _ volume_root kind \<Rightarrow> ''Target volume '' @ [CHR 0x27] @ volume_root @ [CHR 0x27]
       @ '' has unsupported drive type '' @ [CHR 0x27] @ drive_as_str kind @ [CHR 0x27]
       @ '' (only fixed and removable local drives are supported)''
   | VolumeInformationFailed _ volume_root win32_code \<Rightarrow> ''Failed to query volume information for ''
       @ [CHR 0x27] @ volume_root @ [CHR 0x27] @ '' (Win32 error '' @ decimal (unat win32_code) @ '')''
   | UnsupportedFileSystem _ volume_root filesystem_name \<Rightarrow> ''Filesystem '' @ [CHR 0x27] @ filesystem_name
       @ [CHR 0x27] @ '' on volume '' @ [CHR 0x27] @ volume_root @ [CHR 0x27]
       @ '' is not supported (supported filesystems: NTFS, ReFS, FAT32, exFAT)'')"

text \<open>The file system and volume calls the validator makes.\<close>

record target_os =
  path_exists :: "string \<Rightarrow> bool"
  path_is_dir :: "string \<Rightarrow> bool"
  canonicalize :: "string \<Rightarrow> string + string"
  GetVolumePathNameW :: "u16 list \<Rightarrow> u32 + u16 list"
  GetDriveTypeW :: "u16 list \<Rightarrow> u32"
  GetVolumeInformationW :: "u16 list \<Rightarrow> u32 + (u32 \<times> u16 list)"

record validated_scan_target =
  vt_display_path :: string
  vt_canonical_path :: string
  vt_extended_path :: string
  vt_volume_root :: string
  vt_drive_kind :: drive_kind
  vt_filesystem_kind :: file_system_kind
  vt_filesystem_name :: string
  vt_volume_serial_number :: "u32 option"

abbreviation verbatim_prefix :: string where
  "verbatim_prefix \<equiv> [backslash, backslash, CHR ''?'', backslash]"

abbreviation device_prefix :: string where
  "device_prefix \<equiv> [backslash, backslash, CHR ''.'', backslash]"

definition extend_path :: "string \<Rightarrow> string" where
  "extend_path p =
     (if starts_with p verbatim_prefix \<or> starts_with p device_prefix then p else verbatim_prefix @ p)"

definition validate_scan_target :: "target_os \<Rightarrow> string \<Rightarrow> target_validation_error + validated_scan_target" where
  "validate_scan_target os display_path =
     (let trimmed = trim display_path in
      if trimmed = [] then Inl EmptyPath
      else if is_lexical_unc trimmed then Inl (UncPathNotSupported display_path)
      else if \<not> path_exists os trimmed then Inl (NotFound display_path)
      else if \<not> path_is_dir os trimmed then Inl (NotADirectory display_path)
      else case canonicalize os trimmed of
        Inl reason \<Rightarrow> Inl (CanonicalizationFailed display_path reason)
      | Inr canonical \<Rightarrow>
          if is_lexical_unc canonical then Inl (UncPathNotSupported display_path)
          else let extended_path = extend_path canonical in
          case GetVolumePathNameW os (to_wide_null extended_path) of
            Inl code \<Rightarrow> Inl (VolumeResolutionFailed display_path code)
          | Inr volume_root_buf \<Rightarrow>
              let volume_root = wide_slice_to_string volume_root_buf;
                  volume_root_w = to_wide_null volume_root;
                  kind = drive_kind_from_raw (GetDriveTypeW os volume_root_w)
              in if \<not> drive_is_supported kind
                 then Inl (UnsupportedDriveType display_path volume_root kind)
                 else case GetVolumeInformationW os volume_root_w of
                   Inl code \<Rightarrow> Inl (VolumeInformationFailed display_path volume_root code)
                 | Inr (serial_number, fs_name_buf) \<Rightarrow>
                     let fs_name = wide_slice_to_string fs_name_buf; fs_kind = parse_file_system fs_name
                     in if \<not> file_system_is_supported fs_kind
                        then Inl (UnsupportedFileSystem display_path volume_root fs_name)
                        else Inr \<lparr>vt_display_path = display_path, vt_canonical_path = canonical,
                               vt_extended_path = extended_path, vt_volume_root = volume_root,
                               vt_drive_kind = kind, vt_filesystem_kind = fs_kind,
                               vt_filesystem_name = fs_name,
                               vt_volume_serial_number = Some serial_number\<rparr>)"

section \<open>The test for network paths\<close>

lemma is_lexical_unc_trim [simp]: "is_lexical_unc (trim s) = is_lexical_unc s"
  by (simp add: is_lexical_unc_def)

text \<open>
  Which paths count as network paths, by their first characters: those that start with two
  slashes, except for a drive letter behind \<open>?\<close> or \<open>.\<close>, and the native form \<open>\??\UNC\<close>.
\<close>

fun behind_two_slashes :: "string \<Rightarrow> bool" where
  "behind_two_slashes (c # d # l # colon # r) =
     (\<not> ((c = CHR ''?'' \<or> c = CHR ''.'') \<and> is_slash d \<and> is_ascii_alphabetic l \<and> colon = CHR '':''))"
| "behind_two_slashes _ = True"

fun network_path :: "string \<Rightarrow> bool" where
  "network_path (a # b # r) =
     (is_slash a \<and> is_slash b \<and> behind_two_slashes r
      \<or> a = backslash \<and> b = CHR ''?'' \<and>
        (case r of q # d # u # n # c # e # _ \<Rightarrow>
           q = CHR ''?'' \<and> is_slash d \<and> eq_ignore_ascii_case [u, n, c] ''UNC'' \<and> is_slash e
         | _ \<Rightarrow> False))"
| "network_path _ = False"

lemma is_slash_simps [simp]: "is_slash backslash" "is_slash (CHR ''/'')" "\<not> is_slash (CHR ''?'')"
  by (simp_all add: is_slash_def)

lemma extended_unc_eq:
  assumes "s = a # b # q # d # u # n # c # e # r"
  shows "extended_unc s \<longleftrightarrow> (is_slash a \<and> is_slash b \<or> a = backslash \<and> b = CHR ''?'' \<and> q = CHR ''?'')
    \<and> (q = CHR ''?'' \<or> q = CHR ''.'') \<and> is_slash d \<and> eq_ignore_ascii_case [u, n, c] ''UNC'' \<and> is_slash e"
proof -
  have "u \<noteq> backslash" if "eq_ignore_ascii_case [u, n, c] ''UNC''"
  proof -
    have "ascii_lower backslash \<noteq> ascii_lower (CHR ''U'')" by code_simp
    with that show ?thesis by (auto simp: eq_ignore_ascii_case_def)
  qed
  then show ?thesis
    by (auto simp: assms extended_unc_def starts_with_def slice_def Let_def)
qed

lemma lexical_unc_network_path: "is_lexical_unc raw \<longleftrightarrow> network_path (trim raw)"
proof (cases "\<exists>a b q d u n c e r. trim raw = a # b # q # d # u # n # c # e # r")
  case True
  then obtain a b q d u n c e r where s: "trim raw = a # b # q # d # u # n # c # e # r" by blast
  have "n \<noteq> CHR '':''" if "eq_ignore_ascii_case [u, n, c] ''UNC''"
  proof -
    have "ascii_lower (CHR '':'') \<noteq> ascii_lower (CHR ''N'')" by code_simp
    with that show ?thesis by (auto simp: eq_ignore_ascii_case_def)
  qed
  then show ?thesis
    by (auto simp: is_lexical_unc_def extended_unc_eq [OF refl] s Let_def)
next
  case False
  then have short: "length (trim raw) < 8"
    by (rule contrapos_np) (auto simp: not_less numeral_eq_Suc Suc_le_length_iff)
  then consider "trim raw = []" | a where "trim raw = [a]" | a b where "trim raw = [a, b]"
    | a b c where "trim raw = [a, b, c]" | a b c d where "trim raw = [a, b, c, d]"
    | a b c d e where "trim raw = [a, b, c, d, e]" | a b c d e f where "trim raw = [a, b, c, d, e, f]"
    | a b c d e f g where "trim raw = [a, b, c, d, e, f, g]"
    by (auto simp: less_Suc_eq numeral_eq_Suc length_Suc_conv)
  then show ?thesis
    by cases (auto simp: is_lexical_unc_def Let_def)
qed

text \<open>C38: The lexical test recognises exactly the network paths: after trimming, a path with two
  leading slashes of either kind unless these introduce a drive letter behind \<open>?\<close> or \<open>.\<close>, and
  the native form of a UNC path.\<close>

theorem lexical_unc_is_network_path: "is_lexical_unc raw \<longleftrightarrow> network_path (trim raw)"
  by (rule lexical_unc_network_path)

text \<open>A network path is refused whatever the system would answer: no file system or volume
  call can influence the result, so none is needed before it.\<close>

theorem network_paths_refused_lexically:
  assumes "network_path (trim path)"
  shows "validate_scan_target os path = Inl (UncPathNotSupported path)"
proof -
  have "trim path \<noteq> []" using assms by auto
  with assms show ?thesis by (simp add: validate_scan_target_def lexical_unc_network_path)
qed

definition sample_os :: target_os where
  "sample_os = \<lparr>path_exists = (\<lambda>_. True), path_is_dir = (\<lambda>_. True),
     canonicalize = (\<lambda>p. Inr (verbatim_prefix @ p)),
     GetVolumePathNameW = (\<lambda>_. Inr (to_wide_null ''C:/'')),
     GetDriveTypeW = (\<lambda>_. 3),
     GetVolumeInformationW = (\<lambda>_. Inr (7, to_wide_null ''ntfs''))\<rparr>"

lemma sample_os_accepts: obtains t where "validate_scan_target sample_os ''C:/data'' = Inr t" "vt_display_path t = ''C:/data''"
proof -
  have wide: "wide_slice_to_string (to_wide_null ''C:/'') = ''C:/''"
    "wide_slice_to_string (to_wide_null ''ntfs'') = ''ntfs''"
    using wide_roundtrip [of "''C:/''" "[]"] wide_roundtrip [of "''ntfs''" "[]"]
    by (simp_all add: rust_string_ascii)
  have lexical: "trim ''C:/data'' = ''C:/data''" "is_lexical_unc ''C:/data'' = False"
    "is_lexical_unc (verbatim_prefix @ ''C:/data'') = False" "parse_file_system ''ntfs'' = Ntfs"
    by code_simp+
  obtain t where "validate_scan_target sample_os ''C:/data'' = Inr t" "vt_display_path t = ''C:/data''"
    by (simp add: validate_scan_target_def sample_os_def lexical wide drive_kind_from_raw_def
        drive_is_supported_def file_system_is_supported_def Let_def del: append.simps)
  then show ?thesis by (rule that)
qed

theorem network_paths_refused_lexically_witness:
  "validate_scan_target sample_os ''//server/share'' = Inl (UncPathNotSupported ''//server/share'')"
  by (rule network_paths_refused_lexically) code_simp

text \<open>C37: Every accepted target is an existing directory, neither it nor its canonical path is a
  network path, and what is recorded about its volume is what the system answered: the volume root
  of the extended path, a drive the system calls removable (2) or fixed (3), its serial number, and
  a file system whose name is, up to spaces around it and case, NTFS, ReFS, FAT32 or exFAT. The
  extended path is the canonical one, behind the verbatim prefix unless it has such a prefix or that
  of a device.\<close>

theorem accepted_target_is_local:
  assumes "validate_scan_target os path = Inr t"
  shows "vt_display_path t = path \<and> path_exists os (trim path) \<and> path_is_dir os (trim path)
    \<and> canonicalize os (trim path) = Inr (vt_canonical_path t)
    \<and> \<not> network_path (trim path) \<and> \<not> network_path (trim (vt_canonical_path t))
    \<and> (\<exists>prefix \<in> {[], verbatim_prefix}. vt_extended_path t = prefix @ vt_canonical_path t
        \<and> (starts_with (vt_extended_path t) verbatim_prefix \<or> starts_with (vt_extended_path t) device_prefix))
    \<and> (\<exists>root. GetVolumePathNameW os (to_wide_null (vt_extended_path t)) = Inr root \<and> vt_volume_root t = wide_slice_to_string root)
    \<and> (GetDriveTypeW os (to_wide_null (vt_volume_root t)), vt_drive_kind t) \<in> {(2, Drive_Removable), (3, Drive_Fixed)}
    \<and> (\<exists>serial name. GetVolumeInformationW os (to_wide_null (vt_volume_root t)) = Inr (serial, name)
        \<and> vt_volume_serial_number t = Some serial \<and> vt_filesystem_name t = wide_slice_to_string name)
    \<and> (\<exists>(kind, name) \<in> {(Ntfs, ''NTFS''), (ReFs, ''ReFS''), (Fat32, ''FAT32''), (ExFat, ''exFAT'')}.
        vt_filesystem_kind t = kind \<and> eq_ignore_ascii_case (trim (vt_filesystem_name t)) name)"
proof -
  have extended: "\<exists>prefix \<in> {[], verbatim_prefix}. extend_path p = prefix @ p
      \<and> (starts_with (extend_path p) verbatim_prefix \<or> starts_with (extend_path p) device_prefix)" for p
    by (simp add: extend_path_def starts_with_def)
  have drive: "(raw, drive_kind_from_raw raw) \<in> {(2, Drive_Removable), (3, Drive_Fixed)}"
    if "drive_is_supported (drive_kind_from_raw raw)" for raw
    using that by (auto simp: drive_is_supported_def drive_kind_from_raw_def split: if_splits)
  have file_system: "\<exists>(kind, text) \<in> {(Ntfs, ''NTFS''), (ReFs, ''ReFS''), (Fat32, ''FAT32''), (ExFat, ''exFAT'')}.
      parse_file_system name = kind \<and> eq_ignore_ascii_case (trim name) text"
    if "file_system_is_supported (parse_file_system name)" for name
    using that by (auto simp: file_system_is_supported_def parse_file_system_def Let_def split: if_splits)
  obtain canonical root serial name where answers: "path_exists os (trim path)" "path_is_dir os (trim path)"
      "canonicalize os (trim path) = Inr canonical" "\<not> network_path (trim path)" "\<not> network_path (trim canonical)"
      "GetVolumePathNameW os (to_wide_null (extend_path canonical)) = Inr root"
      "GetVolumeInformationW os (to_wide_null (wide_slice_to_string root)) = Inr (serial, name)"
      "drive_is_supported (drive_kind_from_raw (GetDriveTypeW os (to_wide_null (wide_slice_to_string root))))"
      "file_system_is_supported (parse_file_system (wide_slice_to_string name))"
    and t: "t = \<lparr>vt_display_path = path, vt_canonical_path = canonical, vt_extended_path = extend_path canonical,
      vt_volume_root = wide_slice_to_string root,
      vt_drive_kind = drive_kind_from_raw (GetDriveTypeW os (to_wide_null (wide_slice_to_string root))),
      vt_filesystem_kind = parse_file_system (wide_slice_to_string name), vt_filesystem_name = wide_slice_to_string name,
      vt_volume_serial_number = Some serial\<rparr>"
    using assms unfolding validate_scan_target_def Let_def lexical_unc_network_path
    by (auto split: if_splits sum.splits)
  show ?thesis
    unfolding t validated_scan_target.simps
    by (intro conjI exI [of _ root] exI [of _ serial] exI [of _ name] answers refl extended drive file_system)
qed

theorem accepted_target_is_local_witness:
  "\<exists>t. validate_scan_target sample_os ''C:/data'' = Inr t \<and> vt_drive_kind t = Drive_Fixed \<and> vt_volume_serial_number t = Some 7"
proof -
  obtain t where t: "validate_scan_target sample_os ''C:/data'' = Inr t" by (rule sample_os_accepts)
  moreover have "GetDriveTypeW sample_os r = 3" "GetVolumeInformationW sample_os r = Inr (7, to_wide_null ''ntfs'')" for r
    by (simp_all add: sample_os_def)
  ultimately show ?thesis using accepted_target_is_local [OF t] by auto
qed

end
