(* ===== verification/Worker_Scan.thy ===== *)
theory Worker_Scan
  imports Worker_Buffers Validator
begin

text \<open>
  The traversal of the scan worker: \<open>scan_directory\<close> of \<^verbatim>\<open>crates/pigtree-scan-worker/src/lib.rs\<close>.
  What the system answers may depend on the moment of the call: every call and every poll of the
  cancellation has a number, counted by the state. The records are collected in the order they are
  written.
\<close>

section \<open>The answers of the system\<close>

record scan_os =
  so_cancelled :: "nat \<Rightarrow> bool"
  so_open :: "nat \<Rightarrow> string \<Rightarrow> u32 option"
  so_probe :: "nat \<Rightarrow> string \<Rightarrow> u32 option"
  so_batches :: "nat \<Rightarrow> string \<Rightarrow> (u32 + u8 list) list"
  so_find_first :: "nat \<Rightarrow> string \<Rightarrow> u32 + (find_data \<times> find_data list \<times> u32)"
  so_root_find :: "string \<Rightarrow> find_data option"
  so_root_attributes :: "string \<Rightarrow> u32 + (u32 \<times> filetime \<times> filetime \<times> filetime)"
  so_root_standard_info :: "string \<Rightarrow> u8 list option"
  so_root_id_info :: "string \<Rightarrow> u8 list option"
  so_volume :: volume_os
  so_format_message :: "u32 \<Rightarrow> u16 list"
  so_duration_ms :: u64

section \<open>Enumerating one directory\<close>

datatype enum_class = Extd | Legacy

definition probe_enum_class :: "u32 option \<Rightarrow> enum_class" where
  "probe_enum_class answer = (case answer of
     None \<Rightarrow> Extd
   | Some err \<Rightarrow>
       if err = ERROR_INSUFFICIENT_BUFFER \<or> err = ERROR_NO_MORE_FILES \<or> err = W_ERROR_FILE_NOT_FOUND
       then Extd else Legacy)"

datatype dir_enumeration =
    Enum_Success "entry_facts list"
  | Enum_OpenFailed u32
  | Enum_Partial "entry_facts list" u32
  | Enum_Cancelled

text \<open>
  \<open>None\<close>: the answers were used up before the enumeration ended. The second component is the
  number of the next call.
\<close>

fun batched_loop :: "scan_os \<Rightarrow> volume_context \<Rightarrow> (u32 + u8 list) list \<Rightarrow> nat \<Rightarrow> entry_facts list \<Rightarrow> nat \<Rightarrow>
    (dir_enumeration \<times> nat) option" where
  "batched_loop os volume [] buf_len facts tick =
     (if so_cancelled os tick then Some (Enum_Cancelled, Suc tick) else None)"
| "batched_loop os volume (answer # answers) buf_len facts tick =
     (if so_cancelled os tick then Some (Enum_Cancelled, Suc tick)
      else case answer of
        Inl err \<Rightarrow>
          if err = ERROR_INSUFFICIENT_BUFFER \<and> buf_len < ENUM_BUFFER_MAX_BYTES
          then batched_loop os volume answers (buf_len * 2) facts (Suc tick)
          else if err = ERROR_NO_MORE_FILES \<or> err = W_ERROR_FILE_NOT_FOUND
          then Some (Enum_Success facts, Suc tick)
          else Some (Enum_Partial facts err, Suc tick)
      | Inr buf \<Rightarrow>
          Option.bind (parse_extd_entries buf volume) (\<lambda>parsed. case parsed of
            Some batch \<Rightarrow>
              if batch = [] then Some (Enum_Success facts, Suc tick)
              else batched_loop os volume answers buf_len (facts @ batch) (Suc tick)
          | None \<Rightarrow> Some (Enum_Partial facts ERROR_INVALID_DATA, Suc tick)))"

definition enumerate_directory_batched :: "scan_os \<Rightarrow> string \<Rightarrow> volume_context \<Rightarrow> nat \<Rightarrow>
    (dir_enumeration \<times> nat) option" where
  "enumerate_directory_batched os extended_path volume tick =
     (case so_open os tick extended_path of
        Some error_code \<Rightarrow> Some (Enum_OpenFailed error_code, Suc tick)
      | None \<Rightarrow> batched_loop os volume (so_batches os tick extended_path) ENUM_BUFFER_INITIAL_BYTES [] (Suc tick))"

fun legacy_loop :: "scan_os \<Rightarrow> volume_context \<Rightarrow> find_data \<Rightarrow> find_data list \<Rightarrow> u32 \<Rightarrow> entry_facts list \<Rightarrow> nat \<Rightarrow>
    dir_enumeration \<times> nat" where
  "legacy_loop os volume d rest err facts tick =
     (if so_cancelled os tick then (Enum_Cancelled, Suc tick)
      else let name = wide_slice_to_string (fd_file_name d);
               facts' = (if name \<noteq> ''.'' \<and> name \<noteq> ''..'' then facts @ [find_data_to_facts d volume] else facts)
      in case rest of
           [] \<Rightarrow>
             if err \<noteq> ERROR_NO_MORE_FILES \<and> err \<noteq> W_ERROR_FILE_NOT_FOUND
             then (Enum_Partial facts' err, Suc tick)
             else (Enum_Success facts', Suc tick)
         | d' # rest' \<Rightarrow> legacy_loop os volume d' rest' err facts' (Suc tick))"

definition join_path :: "string \<Rightarrow> string \<Rightarrow> string" where
  "join_path dir name = (if ends_with dir backslash then dir @ name else dir @ [backslash] @ name)"

definition enumerate_directory_legacy :: "scan_os \<Rightarrow> string \<Rightarrow> volume_context \<Rightarrow> nat \<Rightarrow> dir_enumeration \<times> nat" where
  "enumerate_directory_legacy os extended_path volume tick =
     (case so_find_first os tick (join_path extended_path ''*'') of
        Inl error_code \<Rightarrow>
          if error_code = W_ERROR_FILE_NOT_FOUND \<or> error_code = ERROR_NO_MORE_FILES
          then (Enum_Success [], Suc tick)
          else (Enum_OpenFailed error_code, Suc tick)
      | Inr (d, rest, err) \<Rightarrow> legacy_loop os volume d rest err [] (Suc tick))"

section \<open>The state of the traversal\<close>

record stack_item =
  si_entry_id :: u32
  si_extended_path :: string
  si_display_path :: string

record walk =
  k_next_entry_id :: u32
  k_directories :: u64
  k_files :: u64
  k_logical_bytes :: u64
  k_allocated_bytes :: u64
  k_gaps :: u32
  k_class :: "enum_class option"
  k_stack :: "stack_item list"
  k_records :: "observation_record list"
  k_tick :: nat

definition emit :: "observation_record \<Rightarrow> walk \<Rightarrow> walk" where
  "emit r k = k\<lparr>k_records := k_records k @ [r]\<rparr>"

text \<open>The sums are those of a release build, which wrap around.\<close>

definition add_allocated :: "u64 option \<Rightarrow> walk \<Rightarrow> walk" where
  "add_allocated a k = (case a of Some alloc \<Rightarrow> k\<lparr>k_allocated_bytes := k_allocated_bytes k + alloc\<rparr> | None \<Rightarrow> k)"

definition record_gap :: "scan_os \<Rightarrow> string \<Rightarrow> u32 \<Rightarrow> walk \<Rightarrow> walk" where
  "record_gap os path code k =
     emit (Obs_CoverageGap \<lparr>g_path = path, g_error_code = code,
             g_error_message = format_win32_error (so_format_message os) code\<rparr>)
       (k\<lparr>k_gaps := k_gaps k + 1\<rparr>)"

definition terminal :: "scan_os \<Rightarrow> run_outcome \<Rightarrow> walk \<Rightarrow> terminal_observation" where
  "terminal os outcome k =
     \<lparr>t_outcome = outcome, t_total_directories = k_directories k, t_total_files = k_files k,
      t_total_logical_bytes = k_logical_bytes k, t_total_allocated_bytes = k_allocated_bytes k,
      t_coverage_gap_count = k_gaps k, t_duration_ms = so_duration_ms os\<rparr>"

section \<open>Emitting the facts of a directory\<close>

definition special_of :: "u32 \<Rightarrow> u32 \<Rightarrow> entry_facts \<Rightarrow> special_observation" where
  "special_of entry_id parent_id f =
     \<lparr>s_entry_id = entry_id, s_parent_id = parent_id, s_name = e_name f,
      s_file_attributes = e_file_attributes f, s_reparse_tag = e_reparse_tag f,
      s_creation_time_utc_ms = e_creation_time_utc_ms f, s_last_write_time_utc_ms = e_last_write_time_utc_ms f,
      s_last_access_time_utc_ms = e_last_access_time_utc_ms f, s_object_id = e_object_id f\<rparr>"

definition directory_of :: "u32 \<Rightarrow> u32 \<Rightarrow> entry_facts \<Rightarrow> directory_observation" where
  "directory_of entry_id parent_id f =
     \<lparr>d_entry_id = entry_id, d_parent_id = parent_id, d_name = e_name f,
      d_file_attributes = e_file_attributes f, d_reparse_tag = e_reparse_tag f,
      d_creation_time_utc_ms = e_creation_time_utc_ms f, d_last_write_time_utc_ms = e_last_write_time_utc_ms f,
      d_last_access_time_utc_ms = e_last_access_time_utc_ms f, d_object_id = e_object_id f,
      d_allocated_size = e_allocated_size f, d_total_link_count = NotApplicable\<rparr>"

definition file_of :: "u32 \<Rightarrow> u32 \<Rightarrow> entry_facts \<Rightarrow> file_observation" where
  "file_of entry_id parent_id f =
     \<lparr>f_entry_id = entry_id, f_parent_id = parent_id, f_name = e_name f,
      f_logical_size = e_logical_size f, f_allocated_size = e_allocated_size f,
      f_file_attributes = e_file_attributes f, f_reparse_tag = e_reparse_tag f,
      f_creation_time_utc_ms = e_creation_time_utc_ms f, f_last_write_time_utc_ms = e_last_write_time_utc_ms f,
      f_last_access_time_utc_ms = e_last_access_time_utc_ms f, f_object_id = e_object_id f,
      f_total_link_count = e_total_link_count f\<rparr>"

definition emit_fact :: "stack_item \<Rightarrow> entry_facts \<Rightarrow> walk \<Rightarrow> walk" where
  "emit_fact current f k0 =
     (if e_name f = ''.'' \<or> e_name f = ''..'' then k0
      else
        let entry_id = k_next_entry_id k0;
            k = k0\<lparr>k_next_entry_id := entry_id + 1\<rparr>;
            is_dir = has_attribute (e_file_attributes f) FILE_ATTRIBUTE_DIRECTORY;
            is_reparse = has_attribute (e_file_attributes f) FILE_ATTRIBUTE_REPARSE_POINT;
            is_device = has_attribute (e_file_attributes f) FILE_ATTRIBUTE_DEVICE
        in if is_device then emit (Obs_Special (special_of entry_id (si_entry_id current) f)) k
        else if is_dir then
          let k1 = add_allocated (e_allocated_size f)
                (emit (Obs_Directory (directory_of entry_id (si_entry_id current) f))
                  (k\<lparr>k_directories := k_directories k + 1\<rparr>))
          in if is_reparse then k1
             else k1\<lparr>k_stack := \<lparr>si_entry_id = entry_id,
                       si_extended_path = join_path (si_extended_path current) (e_name f),
                       si_display_path = join_path (si_display_path current) (e_name f)\<rparr> # k_stack k1\<rparr>
        else
          add_allocated (e_allocated_size f)
            (emit (Obs_File (file_of entry_id (si_entry_id current) f))
              (k\<lparr>k_files := k_files k + 1, k_logical_bytes := k_logical_bytes k + e_logical_size f\<rparr>)))"

section \<open>The loop\<close>

text \<open>The enumeration class of a turn: decided once, by the first directory that opens.\<close>

definition choose_class :: "scan_os \<Rightarrow> string \<Rightarrow> walk \<Rightarrow> enum_class \<times> walk" where
  "choose_class os extended_path k = (case k_class k of
     Some class \<Rightarrow> (class, k)
   | None \<Rightarrow> (case so_open os (k_tick k) extended_path of
        None \<Rightarrow>
          let class = probe_enum_class (so_probe os (k_tick k) extended_path)
          in (class, k\<lparr>k_class := Some class, k_tick := Suc (k_tick k)\<rparr>)
      | Some _ \<Rightarrow> (Legacy, k\<lparr>k_tick := Suc (k_tick k)\<rparr>)))"

definition enumerate_by_class :: "scan_os \<Rightarrow> volume_context \<Rightarrow> enum_class \<Rightarrow> string \<Rightarrow> nat \<Rightarrow> (dir_enumeration \<times> nat) option" where
  "enumerate_by_class os volume class extended_path tick = (case class of
     Extd \<Rightarrow> enumerate_directory_batched os extended_path volume tick
   | Legacy \<Rightarrow> Some (enumerate_directory_legacy os extended_path volume tick))"

text \<open>One turn for the directory taken from the stack; \<open>Inl\<close> is the cancelled scan.\<close>

definition visit_directory :: "scan_os \<Rightarrow> volume_context \<Rightarrow> stack_item \<Rightarrow> walk \<Rightarrow> (walk + walk) option" where
  "visit_directory os volume current k0 =
     (let (class, k1) = choose_class os (si_extended_path current) k0 in
      Option.bind (enumerate_by_class os volume class (si_extended_path current) (k_tick k1)) (\<lambda>(e, tick).
      let k = k1\<lparr>k_tick := tick\<rparr> in
      Some (case e of
        Enum_Cancelled \<Rightarrow> Inl k
      | Enum_OpenFailed error_code \<Rightarrow>
          if error_code \<noteq> W_ERROR_FILE_NOT_FOUND \<and> error_code \<noteq> ERROR_NO_MORE_FILES
          then Inr (record_gap os (si_display_path current) error_code k) else Inr k
      | Enum_Partial facts error_code \<Rightarrow>
          Inr (fold (emit_fact current) facts (record_gap os (si_display_path current) error_code k))
      | Enum_Success facts \<Rightarrow> Inr (fold (emit_fact current) facts k))))"

text \<open>The loop with fuel for its turns; the result is the outcome and the final state.\<close>

fun walk_loop :: "nat \<Rightarrow> scan_os \<Rightarrow> volume_context \<Rightarrow> walk \<Rightarrow> (run_outcome \<times> walk) option" where
  "walk_loop fuel os volume k =
     (case k_stack k of
        [] \<Rightarrow> Some (Finished, k)
      | current # rest \<Rightarrow>
          (case fuel of
             0 \<Rightarrow> None
           | Suc fuel' \<Rightarrow>
               let k1 = k\<lparr>k_stack := rest, k_tick := Suc (k_tick k)\<rparr> in
               if so_cancelled os (k_tick k) then Some (Cancelled, k1)
               else Option.bind (visit_directory os volume current k1) (\<lambda>r. case r of
                 Inl k2 \<Rightarrow> Some (Cancelled, k2)
               | Inr k2 \<Rightarrow> walk_loop fuel' os volume k2)))"

declare walk_loop.simps [simp del] legacy_loop.simps [simp del]

section \<open>The whole scan\<close>

definition walk_start :: walk where
  "walk_start = \<lparr>k_next_entry_id = 1, k_directories = 0, k_files = 0, k_logical_bytes = 0,
     k_allocated_bytes = 0, k_gaps = 0, k_class = None, k_stack = [], k_records = [], k_tick = 1\<rparr>"

text \<open>Attributes, reparse tag and the times (creation, last write, last access) of the root.\<close>

definition root_attributes :: "scan_os \<Rightarrow> string \<Rightarrow> u32 + (u32 \<times> u32 \<times> u64 \<times> u64 \<times> u64)" where
  "root_attributes os extended_target = (case so_root_find os extended_target of
     Some d \<Rightarrow>
       Inr (fd_attributes d,
            if has_attribute (fd_attributes d) FILE_ATTRIBUTE_REPARSE_POINT then fd_reserved0 d else 0,
            filetime_to_unix_ms (fd_creation d), filetime_to_unix_ms (fd_last_write d),
            filetime_to_unix_ms (fd_last_access d))
   | None \<Rightarrow> (case so_root_attributes os extended_target of
       Inr (attrs, creation, last_write, last_access) \<Rightarrow>
         Inr (attrs, 0, filetime_to_unix_ms creation, filetime_to_unix_ms last_write, filetime_to_unix_ms last_access)
     | Inl err \<Rightarrow> Inl err))"

text \<open>Identity, allocated size and enumeration class found through a handle of the root.\<close>

definition root_evidence :: "scan_os \<Rightarrow> volume_context \<Rightarrow> string \<Rightarrow> u32 \<Rightarrow>
    object_identity option \<times> u64 option \<times> enum_class option" where
  "root_evidence os volume extended_target root_reparse_tag =
     (if root_reparse_tag = 0 \<and> so_open os 0 extended_target = None then
        (if vc_hardlink_capable volume \<and> vc_guid volume \<noteq> None then
           (case so_root_id_info os extended_target of
              Some id_buf \<Rightarrow>
                (case read_u128_le id_buf 8 of Some fid \<Rightarrow> identity volume fid | None \<Rightarrow> None)
            | None \<Rightarrow> None)
         else None,
         case so_root_standard_info os extended_target of
           Some std_buf \<Rightarrow>
             (let alloc = (case read_i64_le std_buf 0 of Some a \<Rightarrow> a | None \<Rightarrow> - 1)
              in if sint alloc \<ge> 0 then Some alloc else None)
         | None \<Rightarrow> None,
         Some (probe_enum_class (so_probe os 0 extended_target)))
      else (None, None, None))"

definition root_observation :: "string \<Rightarrow> (u32 \<times> u32 \<times> u64 \<times> u64 \<times> u64) \<Rightarrow> object_identity option \<Rightarrow>
    u64 option \<Rightarrow> directory_observation" where
  "root_observation target_display attrs oid alloc = (case attrs of (a, tag, creation, last_write, last_access) \<Rightarrow>
     \<lparr>d_entry_id = 1, d_parent_id = 0, d_name = target_display, d_file_attributes = a, d_reparse_tag = tag,
      d_creation_time_utc_ms = creation, d_last_write_time_utc_ms = last_write,
      d_last_access_time_utc_ms = last_access, d_object_id = oid, d_allocated_size = alloc,
      d_total_link_count = NotApplicable\<rparr>)"

definition walk_root :: "validated_scan_target \<Rightarrow> (u32 \<times> u32 \<times> u64 \<times> u64 \<times> u64) \<Rightarrow>
    object_identity option \<times> u64 option \<times> enum_class option \<Rightarrow> walk" where
  "walk_root t attrs evidence = (case evidence of (oid, alloc, class) \<Rightarrow>
     add_allocated alloc
       (emit (Obs_Directory (root_observation (vt_display_path t) attrs oid alloc))
         (walk_start\<lparr>k_next_entry_id := 2, k_directories := 1, k_class := class,
            k_stack := [\<lparr>si_entry_id = 1, si_extended_path = vt_extended_path t,
                        si_display_path = vt_display_path t\<rparr>]\<rparr>)))"

definition failed_gap :: "walk \<Rightarrow> string \<Rightarrow> u32 \<Rightarrow> string \<Rightarrow> walk" where
  "failed_gap k path code message =
     emit (Obs_CoverageGap \<lparr>g_path = path, g_error_code = code, g_error_message = message\<rparr>)
       (k\<lparr>k_gaps := k_gaps k + 1\<rparr>)"

text \<open>
  The records of a scan before its terminal one, with the outcome. The cancellation is polled
  first, under number 0.
\<close>

definition scan_walk :: "nat \<Rightarrow> scan_os \<Rightarrow> validated_scan_target \<Rightarrow> (run_outcome \<times> walk) option" where
  "scan_walk fuel os t =
     (if so_cancelled os 0 then Some (Cancelled, walk_start)
      else case root_attributes os (vt_extended_path t) of
        Inl err \<Rightarrow> Some (Failed, failed_gap walk_start (vt_display_path t) err
                          (format_win32_error (so_format_message os) err))
      | Inr attrs \<Rightarrow>
          if \<not> has_attribute (fst attrs) FILE_ATTRIBUTE_DIRECTORY
          then Some (Failed, failed_gap walk_start (vt_display_path t) ERROR_PATH_NOT_FOUND
                 ''Target path is not a directory'')
          else Option.bind (resolve_volume_context (so_volume os) (vt_extended_path t)) (\<lambda>volume.
            walk_loop fuel os volume
              (walk_root t attrs (root_evidence os volume (vt_extended_path t) (fst (snd attrs))))))"

definition scan_records :: "nat \<Rightarrow> scan_os \<Rightarrow> validated_scan_target \<Rightarrow> observation_record list option" where
  "scan_records fuel os t =
     map_option (\<lambda>(outcome, k). k_records k @ [Obs_Terminal (terminal os outcome k)]) (scan_walk fuel os t)"

text \<open>
  Writing stops at the first record the writer refuses; the scan then fails with its error and
  without a terminal record.
\<close>

definition scan_directory :: "nat \<Rightarrow> target_os \<Rightarrow> scan_os \<Rightarrow> string \<Rightarrow> u8 list \<Rightarrow>
    ((io_error + terminal_observation) \<times> u8 list) option" where
  "scan_directory fuel target_os os target sink =
     (case validate_scan_target target_os target of
        Inl _ \<Rightarrow> Some (Inl Io_InvalidInput, sink)
      | Inr t \<Rightarrow>
          map_option (\<lambda>(outcome, k).
            case write_seq (map write_record (k_records k @ [Obs_Terminal (terminal os outcome k)])) sink of
              (None, sink') \<Rightarrow> (Inr (terminal os outcome k), sink')
            | (Some e, sink') \<Rightarrow> (Inl e, sink'))
            (scan_walk fuel os t))"

text \<open>
  The executable: exit code and what went into the pipe. The error texts on its standard error
  are not modelled.
\<close>

definition exit_code_of :: "run_outcome \<Rightarrow> nat" where
  "exit_code_of outcome = (case outcome of Finished \<Rightarrow> 0 | Cancelled \<Rightarrow> 3 | Failed \<Rightarrow> 1)"

definition worker_main :: "nat \<Rightarrow> target_os \<Rightarrow> scan_os \<Rightarrow> string list \<Rightarrow> (nat \<times> u8 list) option" where
  "worker_main fuel target_os os args =
     (case parse_worker_args (drop 1 args) of
        Inl _ \<Rightarrow> Some (2, [])
      | Inr parsed \<Rightarrow>
          (case validate_scan_target target_os (wa_target parsed) of
             Inl _ \<Rightarrow> Some (2, [])
           | Inr _ \<Rightarrow>
               (case writer_new (wa_target parsed) [] of
                  (Some _, sink) \<Rightarrow> Some (1, sink)
                | (None, sink) \<Rightarrow>
                    map_option (\<lambda>(r, sink'). (case r of Inr t \<Rightarrow> exit_code_of (t_outcome t) | Inl _ \<Rightarrow> 1, sink'))
                      (scan_directory fuel target_os os (wa_target parsed) sink))))"

end
