(* ===== verification/Builder_Invariant.thy ===== *)
theory Builder_Invariant
  imports Builder
begin

text \<open>
  The invariant of \<open>GraphBuilder\<close>: identifiers index the entries, every entry but the root has
  an earlier directory as its parent, the sibling links of a directory list its children in
  order, and the tallies count what was accepted. Every operation keeps it, failing calls
  included.
\<close>

section \<open>Sibling chains\<close>

text \<open>Following \<open>next_sibling\<close> from \<open>w\<close> visits the positions \<open>js\<close> and ends at the sentinel.\<close>

fun chain :: "u32 list \<Rightarrow> u32 \<Rightarrow> nat list \<Rightarrow> bool" where
  "chain ns w [] \<longleftrightarrow> w = u32_max"
| "chain ns w (j # js) \<longleftrightarrow> w = word_of_nat j \<and> j < length ns \<and> j < 2 ^ 32 - 1 \<and> chain ns (ns ! j) js"

lemma chain_update: "chain ns w js \<Longrightarrow> x \<notin> set js \<Longrightarrow> chain (ns[x := v]) w js"
  by (induction js arbitrary: w) auto

lemma chain_append: "chain ns w js \<Longrightarrow> chain (ns @ vs) w js"
  by (induction js arbitrary: w) (auto simp: nth_append)

lemma chain_snoc:
  assumes "chain ns w js" and "js \<noteq> []" and "distinct js" and "length ns < 2 ^ 32 - 1"
  shows "chain (ns[last js := word_of_nat (length ns)] @ [u32_max]) w (js @ [length ns])"
  using assms
proof (induction js arbitrary: w)
  case (Cons j js)
  show ?case
  proof (cases js)
    case Nil
    with Cons.prems show ?thesis by (simp add: nth_append)
  next
    case (Cons k ks)
    with Cons.prems have "j \<noteq> last js" by (metis distinct.simps(2) last_in_set list.distinct(1))
    moreover from Cons Cons.prems have "chain (ns[last js := word_of_nat (length ns)] @ [u32_max]) (ns ! j) (js @ [length ns])"
      by (intro Cons.IH) auto
    ultimately show ?thesis using Cons.prems Cons by (simp add: nth_append)
  qed
qed simp

lemma chain_first: "chain ns w js \<Longrightarrow> w = u32_max \<longleftrightarrow> js = []"
proof (cases js)
  case (Cons j js')
  assume "chain ns w js"
  with Cons have "w = word_of_nat j" "j < 2 ^ 32 - 1" by simp_all
  then have "unat w = j" by (simp add: unat_of_nat)
  then have "w \<noteq> u32_max" using \<open>j < 2 ^ 32 - 1\<close> by auto
  with Cons show ?thesis by simp
qed simp

section \<open>The invariant\<close>

abbreviation builder_len :: "graph_builder \<Rightarrow> nat" where
  "builder_len self \<equiv> length (b_entries self)"

definition ids_ok :: "graph_builder \<Rightarrow> bool" where
  "ids_ok self \<longleftrightarrow>
     (if b_is_dense self then dense_ids (b_entries self)
      else sparse_ids (b_entries self) (b_id_to_idx self))"

text \<open>In dense mode the sparse map is empty: it is only filled by the switch.\<close>

definition map_idle :: "graph_builder \<Rightarrow> bool" where
  "map_idle self \<longleftrightarrow> (b_is_dense self \<longrightarrow> b_id_to_idx self = Map.empty)"

text \<open>The position of an entry's parent, and the positions of an entry's children.\<close>

definition parent_pos :: "graph_builder \<Rightarrow> nat \<Rightarrow> nat" where
  "parent_pos self j = the (builder_get_idx self (c_parent_id (b_entries self ! j)))"

definition kids :: "graph_builder \<Rightarrow> nat \<Rightarrow> nat list" where
  "kids self p = filter (\<lambda>j. parent_pos self j = p) [1..<builder_len self]"

definition root_ok :: "graph_builder \<Rightarrow> bool" where
  "root_ok self \<longleftrightarrow> (0 < builder_len self \<longrightarrow>
     c_id (b_entries self ! 0) = 1 \<and> c_parent_id (b_entries self ! 0) = 0
     \<and> c_kind (b_entries self ! 0) = Directory)"

definition parents_ok :: "graph_builder \<Rightarrow> bool" where
  "parents_ok self \<longleftrightarrow> (\<forall>j. 0 < j \<and> j < builder_len self \<longrightarrow>
     c_id (b_entries self ! j) \<noteq> 1 \<and> c_parent_id (b_entries self ! j) \<noteq> 0
     \<and> (\<exists>p < j. builder_get_idx self (c_parent_id (b_entries self ! j)) = Some p
          \<and> c_kind (b_entries self ! p) = Directory))"

definition links_ok :: "graph_builder \<Rightarrow> bool" where
  "links_ok self \<longleftrightarrow>
     length (b_first_child self) = builder_len self \<and> length (b_last_child self) = builder_len self
     \<and> length (b_next_sibling self) = builder_len self \<and> length (b_dir_self_alloc self) = builder_len self
     \<and> (\<forall>p < builder_len self. chain (b_next_sibling self) (b_first_child self ! p) (kids self p)
          \<and> (kids self p \<noteq> [] \<longrightarrow> b_last_child self ! p = word_of_nat (last (kids self p))))"

text \<open>What an entry holds before the aggregation.\<close>

definition opt_bytes :: "u64 option \<Rightarrow> u64" where
  "opt_bytes a = (case a of Some x \<Rightarrow> x | None \<Rightarrow> 0)"

definition entry_ok :: "compact_entry \<Rightarrow> u64 \<Rightarrow> bool" where
  "entry_ok e self_alloc \<longleftrightarrow> c_object_index e = NO_OBJECT
     \<and> c_referenced_allocated_bytes e = opt_bytes (c_allocated_size e)
     \<and> c_known_subtotal_allocated_bytes e = opt_bytes (c_allocated_size e)
     \<and> (case c_kind e of
          Directory \<Rightarrow> self_alloc = opt_bytes (c_allocated_size e)
        | File \<Rightarrow> self_alloc = 0 \<and> c_logical_size e \<noteq> None
            \<and> c_allocated_size_known e = (c_allocated_size e \<noteq> None)
        | Special \<Rightarrow> self_alloc = 0 \<and> c_logical_size e = None \<and> c_allocated_size e = None
            \<and> \<not> c_allocated_size_known e)"

definition entries_ok :: "graph_builder \<Rightarrow> bool" where
  "entries_ok self \<longleftrightarrow>
     (\<forall>i < builder_len self. entry_ok (b_entries self ! i) (b_dir_self_alloc self ! i))"

definition kind_at :: "graph_builder \<Rightarrow> entry_kind \<Rightarrow> u32 \<Rightarrow> bool" where
  "kind_at self k eid \<longleftrightarrow>
     (\<exists>i. builder_get_idx self eid = Some i \<and> i < builder_len self \<and> c_kind (b_entries self ! i) = k)"

definition maps_ok :: "graph_builder \<Rightarrow> bool" where
  "maps_ok self \<longleftrightarrow>
     distinct (map fst (b_file_object_map self))
     \<and> distinct (concat (map snd (b_file_object_map self)))
     \<and> (\<forall>(oid, eids) \<in> set (b_file_object_map self). eids \<noteq> [])
     \<and> (\<forall>eid \<in> set (concat (map snd (b_file_object_map self))). kind_at self File eid)
     \<and> distinct (map fst (b_dir_object_ids self))
     \<and> (\<forall>eid \<in> set (map fst (b_dir_object_ids self)). kind_at self Directory eid)
     \<and> (\<forall>(i, s) \<in> set (b_pending_streams self). i < builder_len self)"

text \<open>The tallies the terminal record is checked against.\<close>

definition sat_sum :: "u64 list \<Rightarrow> u64" where
  "sat_sum xs = foldl saturating_add 0 xs"

definition count_kind :: "entry_kind \<Rightarrow> compact_entry list \<Rightarrow> nat" where
  "count_kind k es = length (filter (\<lambda>e. c_kind e = k) es)"

definition file_sizes :: "compact_entry list \<Rightarrow> u64 list" where
  "file_sizes es = map (\<lambda>e. opt_bytes (c_logical_size e)) (filter (\<lambda>e. c_kind e = File) es)"

definition alloc_sizes :: "compact_entry list \<Rightarrow> u64 list" where
  "alloc_sizes es = map (\<lambda>e. opt_bytes (c_allocated_size e)) es"

definition tallies_ok :: "graph_builder \<Rightarrow> bool" where
  "tallies_ok self \<longleftrightarrow>
     b_dir_count self = word_of_nat (count_kind Directory (b_entries self))
     \<and> b_file_count self = word_of_nat (count_kind File (b_entries self))
     \<and> b_special_count self = word_of_nat (count_kind Special (b_entries self))
     \<and> b_logical_bytes self = sat_sum (file_sizes (b_entries self))
     \<and> b_allocated_bytes self = sat_sum (alloc_sizes (b_entries self))
     \<and> (b_allocated_bytes_known self \<longleftrightarrow>
          (\<forall>e \<in> set (b_entries self). c_kind e = File \<longrightarrow> c_allocated_size e \<noteq> None))"

definition wf_tree :: "graph_builder \<Rightarrow> bool" where
  "wf_tree self \<longleftrightarrow> ids_ok self \<and> map_idle self \<and> root_ok self \<and> parents_ok self \<and> links_ok self
     \<and> entries_ok self"

definition wf_builder :: "graph_builder \<Rightarrow> bool" where
  "wf_builder self \<longleftrightarrow> wf_tree self \<and> maps_ok self \<and> tallies_ok self"

lemmas wf_tree_defs = wf_tree_def ids_ok_def map_idle_def root_ok_def parents_ok_def links_ok_def
  entries_ok_def
lemmas wf_defs = wf_builder_def wf_tree_defs maps_ok_def tallies_ok_def

lemma wf_builder_new [simp]: "wf_builder (builder_new t)"
  by (simp add: wf_defs builder_new_def dense_ids_def count_kind_def file_sizes_def
      alloc_sizes_def sat_sum_def)

section \<open>Lookups\<close>

lemma builder_idx_iff:
  "ids_ok self \<Longrightarrow> builder_get_idx self eid = Some i \<longleftrightarrow>
     i < builder_len self \<and> c_id (b_entries self ! i) = eid"
  by (simp add: ids_ok_def builder_get_idx_def dense_idx_iff sparse_idx_iff)

interpretation builder: id_index builder_get_idx "\<lambda>self. entry_ids (b_entries self)" ids_ok
  by unfold_locales (auto simp: builder_idx_iff entry_ids_def)

lemma ids_len: "ids_ok self \<Longrightarrow> builder_len self < 2 ^ 32"
  by (auto simp: ids_ok_def dense_ids_def sparse_ids_def split: if_splits)

lemma get_idx_cong:
  assumes "ids_ok self" and "ids_ok self'" and "entry_ids (b_entries self') = entry_ids (b_entries self)"
  shows "builder_get_idx self' = builder_get_idx self"
proof
  fix eid
  have "length (b_entries self') = builder_len self"
    using arg_cong [OF assms(3), of length] by (simp add: entry_ids_def)
  moreover from this have "c_id (b_entries self' ! i) = c_id (b_entries self ! i)" if "i < builder_len self" for i
    using arg_cong [OF assms(3), of "\<lambda>xs. xs ! i"] that by (simp add: entry_ids_def)
  ultimately have "builder_get_idx self' eid = Some i \<longleftrightarrow> builder_get_idx self eid = Some i" for i
    using assms(1,2) by (auto simp: builder_idx_iff)
  then show "builder_get_idx self' eid = builder_get_idx self eid"
    by (metis not_None_eq)
qed

section \<open>Leaving the dense mode\<close>

lemma fold_upd_apply:
  "foldl (\<lambda>m i. m(f i \<mapsto> g i)) m [0..<n] k = Some w \<longleftrightarrow>
     (\<exists>i < n. f i = k \<and> g i = w \<and> (\<forall>j. i < j \<and> j < n \<longrightarrow> f j \<noteq> k))
     \<or> (\<forall>j < n. f j \<noteq> k) \<and> m k = Some w"
proof (induction n)
  case (Suc n)
  have step: "foldl (\<lambda>m i. m(f i \<mapsto> g i)) m [0..<Suc n] k
      = (if f n = k then Some (g n) else foldl (\<lambda>m i. m(f i \<mapsto> g i)) m [0..<n] k)" by simp
  show ?case
  proof (cases "f n = k")
    case True
    then show ?thesis unfolding step by (auto simp: less_Suc_eq)
  next
    case False
    show ?thesis unfolding step if_not_P [OF False] Suc.IH
      using False by (auto simp: less_Suc_eq)
  qed
qed simp

lemma dense_ids_inj:
  "dense_ids es \<Longrightarrow> i < length es \<Longrightarrow> j < length es \<Longrightarrow> c_id (es ! i) = c_id (es ! j) \<Longrightarrow> i = j"
  using dense_idx_iff by (metis option.inject)

lemma switch_ids_ok:
  assumes "ids_ok self" and "map_idle self"
  shows "ids_ok (switch_to_sparse eid self)"
proof (cases "b_is_dense self \<and> eid \<noteq> word_of_nat (builder_len self + 1)")
  case True
  let ?es = "b_entries self" and ?n = "builder_len self"
  have d: "dense_ids ?es" and m: "b_id_to_idx self = Map.empty"
    using True assms by (auto simp: ids_ok_def map_idle_def)
  have len: "?n < 2 ^ 32" using d by (simp add: dense_ids_def)
  have "foldl (\<lambda>m i. m(c_id (?es ! i) \<mapsto> word_of_nat i)) Map.empty [0..<?n] k = Some w \<longleftrightarrow>
      unat w < ?n \<and> c_id (?es ! unat w) = k" for k and w :: u32
  proof -
    have "unat (word_of_nat i :: u32) = i" if "i < ?n" for i
      using that len by (simp add: unat_of_nat)
    then show ?thesis
      unfolding fold_upd_apply by (auto dest: dense_ids_inj [OF d])
  qed
  then show ?thesis using True m len
    by (auto simp: switch_to_sparse_def ids_ok_def sparse_ids_def Let_def
        simp del: of_nat_Suc of_nat_add)
next
  case False
  then show ?thesis using assms by (auto simp: switch_to_sparse_def Let_def)
qed

text \<open>
  Everything but the identifier index depends on the entries and links only, and on what the
  identifiers resolve to.
\<close>

lemma kids_cong:
  "b_entries self' = b_entries self \<Longrightarrow> builder_get_idx self' = builder_get_idx self \<Longrightarrow>
     kids self' = kids self"
  by (rule ext) (simp add: kids_def parent_pos_def)

lemma wf_tree_cong:
  assumes "wf_tree self" and "ids_ok self'" and "map_idle self'"
    and "b_entries self' = b_entries self" and "b_first_child self' = b_first_child self"
    and "b_last_child self' = b_last_child self" and "b_next_sibling self' = b_next_sibling self"
    and "b_dir_self_alloc self' = b_dir_self_alloc self"
  shows "wf_tree self'" and "builder_get_idx self' = builder_get_idx self"
proof -
  show same: "builder_get_idx self' = builder_get_idx self"
    using assms by (intro get_idx_cong) (simp_all add: wf_tree_def)
  show "wf_tree self'"
    using assms kids_cong [OF assms(4) same]
    by (simp add: wf_tree_def root_ok_def parents_ok_def links_ok_def entries_ok_def same)
qed

lemma maps_ok_cong:
  assumes "maps_ok self" and "builder_get_idx self' = builder_get_idx self"
    and "b_entries self' = b_entries self" and "b_file_object_map self' = b_file_object_map self"
    and "b_dir_object_ids self' = b_dir_object_ids self"
    and "b_pending_streams self' = b_pending_streams self"
  shows "maps_ok self'"
  using assms by (simp add: maps_ok_def kind_at_def)

lemma switch_fields [simp]:
  "b_entries (switch_to_sparse eid self) = b_entries self"
  "b_first_child (switch_to_sparse eid self) = b_first_child self"
  "b_last_child (switch_to_sparse eid self) = b_last_child self"
  "b_next_sibling (switch_to_sparse eid self) = b_next_sibling self"
  "b_dir_self_alloc (switch_to_sparse eid self) = b_dir_self_alloc self"
  "b_file_object_map (switch_to_sparse eid self) = b_file_object_map self"
  "b_dir_object_ids (switch_to_sparse eid self) = b_dir_object_ids self"
  "b_pending_streams (switch_to_sparse eid self) = b_pending_streams self"
  "b_dir_count (switch_to_sparse eid self) = b_dir_count self"
  "b_file_count (switch_to_sparse eid self) = b_file_count self"
  "b_special_count (switch_to_sparse eid self) = b_special_count self"
  "b_logical_bytes (switch_to_sparse eid self) = b_logical_bytes self"
  "b_allocated_bytes (switch_to_sparse eid self) = b_allocated_bytes self"
  "b_allocated_bytes_known (switch_to_sparse eid self) = b_allocated_bytes_known self"
  "b_terminal (switch_to_sparse eid self) = b_terminal self"
  "b_gaps (switch_to_sparse eid self) = b_gaps self"
  by (simp_all add: switch_to_sparse_def Let_def)

lemma map_idle_switch: "map_idle self \<Longrightarrow> map_idle (switch_to_sparse eid self)"
  by (simp add: switch_to_sparse_def map_idle_def Let_def)

lemma dense_switch:
  "b_is_dense (switch_to_sparse eid self) \<Longrightarrow> eid = word_of_nat (builder_len self + 1)"
  by (auto simp: switch_to_sparse_def Let_def simp del: of_nat_Suc of_nat_add split: if_splits)

lemma wf_switch:
  assumes "wf_builder self"
  shows "wf_builder (switch_to_sparse eid self)"
    and "builder_get_idx (switch_to_sparse eid self) = builder_get_idx self"
proof -
  let ?s = "switch_to_sparse eid self"
  have t: "wf_tree self" using assms by (simp add: wf_builder_def)
  then have i: "ids_ok ?s" "map_idle ?s"
    by (simp_all add: wf_tree_def switch_ids_ok map_idle_switch)
  show same: "builder_get_idx ?s = builder_get_idx self"
    using wf_tree_cong(2) [OF t i] by simp
  show "wf_builder ?s"
    using assms wf_tree_cong(1) [OF t i] maps_ok_cong [OF _ same]
    by (simp add: wf_builder_def tallies_ok_def)
qed

section \<open>Inserting an entry\<close>

lemma not_duplicate:
  assumes "ids_ok self" and "\<not> is_duplicate eid self" and "builder_len self + 1 < 2 ^ 32"
    and "b_is_dense self \<Longrightarrow> eid = word_of_nat (builder_len self + 1)"
  shows "\<forall>i < builder_len self. c_id (b_entries self ! i) \<noteq> eid"
proof (cases "b_is_dense self")
  case True
  then have "eid = word_of_nat (builder_len self + 1)" using assms(4) by blast
  then have "unat eid = builder_len self + 1"
    using assms(3) by (simp add: unat_of_nat del: of_nat_Suc of_nat_add)
  moreover have "unat (c_id (b_entries self ! i)) = i + 1" if "i < builder_len self" for i
    using True assms(1,3) that
    by (simp add: ids_ok_def dense_ids_def unat_of_nat del: of_nat_Suc of_nat_add)
  ultimately show ?thesis by auto
next
  case False
  then have "b_id_to_idx self eid = None" and "sparse_ids (b_entries self) (b_id_to_idx self)"
    using assms(1,2) by (simp_all add: is_duplicate_def ids_ok_def)
  then have "sparse_idx (b_id_to_idx self) eid = None" by (simp add: sparse_idx_def)
  then show ?thesis
    using sparse_idx_iff [OF \<open>sparse_ids _ _\<close>] by (metis option.distinct(1))
qed

lemma parent_lookup_eq:
  assumes "ids_ok self" and "parent_id \<noteq> 0"
  shows "parent_lookup parent_id self = builder_get_idx self parent_id"
proof (cases "b_is_dense self")
  case True
  then have "builder_len self < 2 ^ 32" using assms(1) by (simp add: ids_ok_def dense_ids_def)
  then have "unat (word_of_nat (builder_len self) :: u32) = builder_len self" by (simp add: unat_of_nat)
  then have "parent_id > word_of_nat (builder_len self) \<longleftrightarrow> unat parent_id > builder_len self"
    by (simp add: word_less_nat_alt)
  moreover have "unat (parent_id - 1) = unat parent_id - 1"
    using assms(2) by (rule unat_minus_one)
  ultimately show ?thesis using True assms(2)
    by (simp add: parent_lookup_def builder_get_idx_def dense_idx_def)
next
  case False
  then show ?thesis by (simp add: parent_lookup_def builder_get_idx_def sparse_idx_def)
qed

lemma push_fields [simp]:
  "b_entries (push_entry eid e sa self) = b_entries self @ [e]"
  "b_first_child (push_entry eid e sa self) = b_first_child self @ [u32_max]"
  "b_last_child (push_entry eid e sa self) = b_last_child self @ [u32_max]"
  "b_next_sibling (push_entry eid e sa self) = b_next_sibling self @ [u32_max]"
  "b_dir_self_alloc (push_entry eid e sa self) = b_dir_self_alloc self @ [sa]"
  "b_is_dense (push_entry eid e sa self) = b_is_dense self"
  "b_file_object_map (push_entry eid e sa self) = b_file_object_map self"
  "b_dir_object_ids (push_entry eid e sa self) = b_dir_object_ids self"
  "b_pending_streams (push_entry eid e sa self) = b_pending_streams self"
  "b_dir_count (push_entry eid e sa self) = b_dir_count self"
  "b_file_count (push_entry eid e sa self) = b_file_count self"
  "b_special_count (push_entry eid e sa self) = b_special_count self"
  "b_logical_bytes (push_entry eid e sa self) = b_logical_bytes self"
  "b_allocated_bytes (push_entry eid e sa self) = b_allocated_bytes self"
  "b_allocated_bytes_known (push_entry eid e sa self) = b_allocated_bytes_known self"
  "b_terminal (push_entry eid e sa self) = b_terminal self"
  "b_gaps (push_entry eid e sa self) = b_gaps self"
  by (simp_all add: push_entry_def Let_def)

lemma link_fields [simp]:
  "b_entries (link_child p self) = b_entries self"
  "b_dir_self_alloc (link_child p self) = b_dir_self_alloc self"
  "b_is_dense (link_child p self) = b_is_dense self"
  "b_id_to_idx (link_child p self) = b_id_to_idx self"
  "b_file_object_map (link_child p self) = b_file_object_map self"
  "b_dir_object_ids (link_child p self) = b_dir_object_ids self"
  "b_pending_streams (link_child p self) = b_pending_streams self"
  "b_dir_count (link_child p self) = b_dir_count self"
  "b_file_count (link_child p self) = b_file_count self"
  "b_special_count (link_child p self) = b_special_count self"
  "b_logical_bytes (link_child p self) = b_logical_bytes self"
  "b_allocated_bytes (link_child p self) = b_allocated_bytes self"
  "b_allocated_bytes_known (link_child p self) = b_allocated_bytes_known self"
  "b_terminal (link_child p self) = b_terminal self"
  "b_gaps (link_child p self) = b_gaps self"
  by (simp_all add: link_child_def Let_def)

lemma push_ids_ok:
  assumes ok: "ids_ok self" and fresh: "\<forall>i < builder_len self. c_id (b_entries self ! i) \<noteq> eid"
    and room: "builder_len self + 1 < 2 ^ 32" and e: "c_id e = eid"
    and dense: "b_is_dense self \<Longrightarrow> eid = word_of_nat (builder_len self + 1)"
  shows "ids_ok (push_entry eid e sa self)"
proof (cases "b_is_dense self")
  case True
  then show ?thesis using ok dense room e
    by (auto simp: ids_ok_def dense_ids_def nth_append less_Suc_eq simp del: of_nat_Suc)
next
  case False
  let ?n = "builder_len self"
  have n: "unat (word_of_nat ?n :: u32) = ?n" using room by (simp add: unat_of_nat)
  have sp: "sparse_ids (b_entries self) (b_id_to_idx self)" using ok False by (simp add: ids_ok_def)
  have "b_id_to_idx self eid = None"
    using sp fresh by (cases "b_id_to_idx self eid") (auto simp: sparse_ids_def)
  moreover have "word_of_nat ?n = w \<longleftrightarrow> unat w = ?n" for w :: u32
    using n by (auto simp: word_unat_eq_iff)
  moreover have "b_id_to_idx (push_entry eid e sa self) = (b_id_to_idx self)(eid \<mapsto> word_of_nat ?n)"
    using False by (simp add: push_entry_def Let_def)
  ultimately show ?thesis using sp False room e fresh n
    by (auto simp: ids_ok_def sparse_ids_def nth_append less_Suc_eq)
qed

lemma push_get_idx:
  assumes "ids_ok self" and "ids_ok (push_entry eid e sa self')" and "c_id e = eid"
    and "b_entries self' = b_entries self"
  shows "builder_get_idx (push_entry eid e sa self') = (builder_get_idx self)(eid \<mapsto> builder_len self)"
proof
  fix k
  have "builder_get_idx (push_entry eid e sa self') k = Some i
      \<longleftrightarrow> ((builder_get_idx self)(eid \<mapsto> builder_len self)) k = Some i" for i
  proof (cases "k = eid")
    case True
    have "builder_get_idx (push_entry eid e sa self') eid = Some (builder_len self)"
      using assms by (simp add: builder_idx_iff)
    with True show ?thesis by simp
  next
    case False
    then show ?thesis using assms by (auto simp: builder_idx_iff nth_append less_Suc_eq)
  qed
  then show "builder_get_idx (push_entry eid e sa self') k = ((builder_get_idx self)(eid \<mapsto> builder_len self)) k"
    by (metis not_None_eq)
qed

text \<open>The first entry.\<close>

lemma wf_tree_push_root:
  assumes "wf_tree self" and "b_entries self = []"
    and "c_id e = 1" and "c_parent_id e = 0" and "c_kind e = Directory" and "entry_ok e sa"
  shows "wf_tree (push_entry 1 e sa self)"
proof -
  have len: "b_first_child self = []" "b_last_child self = []" "b_next_sibling self = []"
    "b_dir_self_alloc self = []"
    using assms(1,2) by (simp_all add: wf_tree_def links_ok_def)
  have ids: "ids_ok (push_entry 1 e sa self)"
    using assms by (intro push_ids_ok) (simp_all add: wf_tree_def)
  moreover have "map_idle (push_entry 1 e sa self)"
    using assms(1) by (simp add: wf_tree_def map_idle_def push_entry_def)
  ultimately show ?thesis
    using assms len by (auto simp: wf_tree_def root_ok_def parents_ok_def links_ok_def kids_def
        entries_ok_def)
qed

text \<open>Every later entry.\<close>

lemma parent_pos_Some:
  "parents_ok self \<Longrightarrow> 0 < j \<Longrightarrow> j < builder_len self \<Longrightarrow>
     builder_get_idx self (c_parent_id (b_entries self ! j)) = Some (parent_pos self j) \<and> parent_pos self j < j
     \<and> c_kind (b_entries self ! parent_pos self j) = Directory"
  unfolding parents_ok_def parent_pos_def by (metis option.sel)

lemma kids_bound: "j \<in> set (kids self p) \<Longrightarrow> 0 < j \<and> j < builder_len self"
  by (auto simp: kids_def)

lemma distinct_kids [simp]: "distinct (kids self p)"
  by (simp add: kids_def)

lemma kids_push:
  assumes t: "parents_ok self" and n: "b_entries self \<noteq> []"
    and fresh: "\<forall>i < builder_len self. c_id (b_entries self ! i) \<noteq> eid"
    and e: "b_entries self' = b_entries self @ [e]"
    and idx: "builder_get_idx self' = (builder_get_idx self)(eid \<mapsto> builder_len self)"
    and ids: "ids_ok self"
    and p: "builder_get_idx self (c_parent_id e) = Some p"
  shows "kids self' q = kids self q @ (if q = p then [builder_len self] else [])"
proof -
  let ?n = "builder_len self"
  have old: "parent_pos self' j = parent_pos self j" if "0 < j" "j < ?n" for j
  proof -
    have "builder_get_idx self (c_parent_id (b_entries self ! j)) = Some (parent_pos self j)"
      "parent_pos self j < j"
      using parent_pos_Some [OF t that] by simp_all
    then have "c_parent_id (b_entries self ! j) \<noteq> eid"
      using fresh that ids by (auto simp: builder_idx_iff)
    then show ?thesis using that by (simp add: parent_pos_def e nth_append idx)
  qed
  have "c_parent_id e \<noteq> eid" using p fresh ids by (auto simp: builder_idx_iff)
  then have "parent_pos self' ?n = p" using p by (simp add: parent_pos_def e idx)
  moreover have "filter (\<lambda>j. parent_pos self' j = q) [1..<?n] = filter (\<lambda>j. parent_pos self j = q) [1..<?n]"
    using old by (intro filter_cong) auto
  moreover have "[1..<Suc ?n] = [1..<?n] @ [?n]" using n by (cases "b_entries self") auto
  ultimately show ?thesis by (simp add: kids_def e)
qed

lemma links_push:
  assumes l: "links_ok self" and n: "builder_len self < 2 ^ 32 - 1" and p: "p < builder_len self"
    and kids': "\<And>q. kids self' q = kids self q @ (if q = p then [builder_len self] else [])"
    and leaf: "kids self (builder_len self) = []"
    and self': "self' = push_entry eid e sa (link_child p self)"
  shows "links_ok self'"
proof -
  let ?n = "builder_len self" and ?w = "word_of_nat (builder_len self) :: u32"
  let ?ns = "b_next_sibling self" and ?fc = "b_first_child self" and ?lc = "b_last_child self"
  have len: "length ?fc = ?n" "length ?lc = ?n" "length ?ns = ?n" "length (b_dir_self_alloc self) = ?n"
    using l by (simp_all add: links_ok_def)
  have ch: "chain ?ns (?fc ! q) (kids self q)" if "q < ?n" for q using l that by (simp add: links_ok_def)
  have la: "?lc ! q = word_of_nat (last (kids self q))" if "q < ?n" "kids self q \<noteq> []" for q
    using l that by (simp add: links_ok_def)
  have f': "b_first_child self' = (if ?fc ! p = u32_max then ?fc[p := ?w] else ?fc) @ [u32_max]"
    "b_last_child self' = ?lc[p := ?w] @ [u32_max]"
    "b_next_sibling self' = (if ?fc ! p = u32_max then ?ns else ?ns[unat (?lc ! p) := ?w]) @ [u32_max]"
    by (simp_all add: self' link_child_def Let_def)
  have lens: "length (b_first_child self') = Suc ?n" "length (b_last_child self') = Suc ?n"
    "length (b_next_sibling self') = Suc ?n" "length (b_dir_self_alloc self') = Suc ?n"
    by (simp_all add: self' link_child_def Let_def len)
  have chl: "chain (b_next_sibling self') (b_first_child self' ! q) (kids self' q)
      \<and> (kids self' q \<noteq> [] \<longrightarrow> b_last_child self' ! q = word_of_nat (last (kids self' q)))"
    if q: "q < Suc ?n" for q
  proof -
    consider "q = ?n" | "q = p" "kids self p = []" | "q = p" "kids self p \<noteq> []" | "q < ?n" "q \<noteq> p"
      using q by linarith
    then show ?thesis
    proof (cases)
      case 1
      then show ?thesis
        using p leaf by (simp_all add: kids' f' nth_append len)
    next
      case 2
      then have "?fc ! p = u32_max" using ch [OF p] by simp
      then show ?thesis
        using 2 p n by (simp_all add: kids' f' nth_append len)
    next
      case 3
      then have "?fc ! p \<noteq> u32_max" using chain_first [OF ch [OF p]] by simp
      moreover have "last (kids self p) < ?n"
        using kids_bound [of "last (kids self p)" self p] 3 by (simp add: last_in_set)
      then have "unat (?lc ! p) = last (kids self p)" using la [OF p] 3 n by (simp add: unat_of_nat)
      moreover have "chain (?ns[last (kids self p) := ?w] @ [u32_max]) (?fc ! p) (kids self p @ [?n])"
        using chain_snoc [OF ch [OF p]] 3 n len by simp
      ultimately show ?thesis
        using 3 p by (simp_all add: kids' f' nth_append len)
    next
      case 4
      have fresh: "kids self p \<noteq> [] \<Longrightarrow> unat (?lc ! p) \<notin> set (kids self q)"
      proof -
        assume k: "kids self p \<noteq> []"
        then have m: "last (kids self p) \<in> set (kids self p)" by (rule last_in_set)
        then have "last (kids self p) < ?n" by (simp add: kids_bound)
        then have "unat (?lc ! p) = last (kids self p)" using la [OF p k] n by (simp add: unat_of_nat)
        then show "unat (?lc ! p) \<notin> set (kids self q)" using m 4 by (auto simp: kids_def)
      qed
      have "chain (b_next_sibling self') (?fc ! q) (kids self q)"
        using ch [OF 4(1)] fresh chain_first [OF ch [OF p]]
        by (auto simp: f' intro!: chain_append chain_update)
      then show ?thesis
        using 4 la [OF 4(1)] by (auto simp: kids' f' nth_append len)
    qed
  qed
  show ?thesis using lens chl by (auto simp: links_ok_def self')
qed

lemma wf_tree_push_child:
  assumes t: "wf_tree self" and ne: "b_entries self \<noteq> []" and room: "builder_len self + 1 < 2 ^ 32"
    and fresh: "\<forall>i < builder_len self. c_id (b_entries self ! i) \<noteq> eid"
    and dense: "b_is_dense self \<Longrightarrow> eid = word_of_nat (builder_len self + 1)"
    and e: "c_id e = eid" "eid \<noteq> 1" "c_parent_id e \<noteq> 0" "entry_ok e sa"
    and p: "builder_get_idx self (c_parent_id e) = Some p" "c_kind (b_entries self ! p) = Directory"
    and self': "self' = push_entry eid e sa (link_child p self)"
  shows "wf_tree self'" and "builder_get_idx self' = (builder_get_idx self)(eid \<mapsto> builder_len self)"
    and "b_entries self' = b_entries self @ [e]"
proof -
  let ?n = "builder_len self"
  have ids: "ids_ok self" and par: "parents_ok self" and li: "links_ok self" and idle: "map_idle self"
    and root: "root_ok self" and ents: "entries_ok self"
    using t by (simp_all add: wf_tree_def)
  have "ids_ok (link_child p self)" using ids by (simp add: ids_ok_def)
  then have ids': "ids_ok self'" unfolding self'
    using room fresh dense e(1) by (intro push_ids_ok) simp_all
  show ents': "b_entries self' = b_entries self @ [e]" by (simp add: self')
  show idx: "builder_get_idx self' = (builder_get_idx self)(eid \<mapsto> ?n)"
    using ids' unfolding self' by (intro push_get_idx [OF ids _ e(1)]) simp_all
  have pn: "p < ?n" using p(1) ids by (simp add: builder_idx_iff)
  have kids': "kids self' q = kids self q @ (if q = p then [?n] else [])" for q
    by (rule kids_push [OF par ne fresh ents' idx ids p(1)])
  have "parent_pos self j \<noteq> ?n" if "j \<in> set [1..<?n]" for j
    using parent_pos_Some [OF par, of j] that by auto
  then have leaf: "kids self ?n = []"
    unfolding kids_def filter_empty_conv by blast
  have "links_ok self'" using links_push [OF li _ pn kids' leaf self'] room by simp
  moreover have "map_idle self'"
    using idle by (simp add: map_idle_def self' push_entry_def Let_def)
  moreover have "root_ok self'" using root ne by (simp add: root_ok_def ents' nth_append)
  moreover have "entries_ok self'"
    using ents e(4) li by (auto simp: entries_ok_def self' nth_append less_Suc_eq links_ok_def)
  moreover have "parents_ok self'"
    unfolding parents_ok_def
  proof (intro allI impI)
    fix j assume j: "0 < j \<and> j < length (b_entries self')"
    show "c_id (b_entries self' ! j) \<noteq> 1 \<and> c_parent_id (b_entries self' ! j) \<noteq> 0 \<and>
      (\<exists>p<j. builder_get_idx self' (c_parent_id (b_entries self' ! j)) = Some p \<and> c_kind (b_entries self' ! p) = Directory)"
    proof (cases "j = ?n")
      case True
      have "c_parent_id e \<noteq> eid" using p(1) fresh ids by (auto simp: builder_idx_iff)
      then show ?thesis using True e p pn by (simp add: ents' idx nth_append)
    next
      case False
      with j have jn: "0 < j" "j < ?n" by (simp_all add: ents')
      then obtain q where q: "q < j" "builder_get_idx self (c_parent_id (b_entries self ! j)) = Some q"
        "c_kind (b_entries self ! q) = Directory" "c_id (b_entries self ! j) \<noteq> 1"
        "c_parent_id (b_entries self ! j) \<noteq> 0"
        using par by (auto simp: parents_ok_def)
      moreover from q have "c_parent_id (b_entries self ! j) \<noteq> eid"
        using fresh ids jn by (auto simp: builder_idx_iff)
      ultimately show ?thesis using jn by (auto simp: ents' idx nth_append)
    qed
  qed
  ultimately show "wf_tree self'" using ids' by (simp add: wf_tree_def)
qed

section \<open>What an insertion does\<close>

text \<open>
  The outcome of \<open>validate_and_insert_entry\<close> on a well-formed builder: an error leaves the
  entries as they are; success appends the entry at a fresh identifier.
\<close>

definition same_but_index :: "graph_builder \<Rightarrow> graph_builder \<Rightarrow> bool" where
  "same_but_index self self' \<longleftrightarrow> builder_get_idx self' = builder_get_idx self
     \<and> b_entries self' = b_entries self \<and> b_terminal self' = b_terminal self \<and> b_gaps self' = b_gaps self"

definition appended :: "graph_builder \<Rightarrow> compact_entry \<Rightarrow> graph_builder \<Rightarrow> bool" where
  "appended self e self' \<longleftrightarrow> wf_tree self' \<and> b_entries self' = b_entries self @ [e]
     \<and> builder_get_idx self (c_id e) = None
     \<and> builder_get_idx self' = (builder_get_idx self)(c_id e \<mapsto> builder_len self)
     \<and> b_file_object_map self' = b_file_object_map self \<and> b_dir_object_ids self' = b_dir_object_ids self
     \<and> b_pending_streams self' = b_pending_streams self \<and> b_dir_count self' = b_dir_count self
     \<and> b_file_count self' = b_file_count self \<and> b_special_count self' = b_special_count self
     \<and> b_logical_bytes self' = b_logical_bytes self \<and> b_allocated_bytes self' = b_allocated_bytes self
     \<and> b_allocated_bytes_known self' = b_allocated_bytes_known self
     \<and> b_terminal self' = b_terminal self \<and> b_gaps self' = b_gaps self"

lemma insert_cases:
  assumes wf: "wf_builder self" and room: "builder_len self + 1 < 2 ^ 32"
    and e: "entry_ok e sa" "c_id e = eid" "c_parent_id e = parent_id"
  shows "case validate_and_insert_entry eid parent_id e sa self of
      (Some err, self') \<Rightarrow> wf_builder self' \<and> same_but_index self self'
    | (None, self') \<Rightarrow> appended self e self'"
proof -
  have t: "wf_tree self" and ids: "ids_ok self" using wf by (simp_all add: wf_builder_def wf_tree_def)
  show ?thesis
  proof (cases "b_entries self = []")
    case True
    have "builder_get_idx self k = None" for k
      using ids True builder_idx_iff [of self k] by (cases "builder_get_idx self k") auto
    moreover have "builder_get_idx (push_entry 1 e sa self) = (builder_get_idx self)(1 \<mapsto> 0)"
      if "eid = 1"
      using that True ids e push_ids_ok [OF ids, of 1 e sa] push_get_idx [OF ids, of 1 e sa self] by simp
    ultimately show ?thesis
      using True wf wf_tree_push_root [OF t True, of e sa] e
      by (auto simp: validate_and_insert_entry_def appended_def same_but_index_def)
  next
    case False
    let ?s = "switch_to_sparse eid self"
    have ws: "wf_builder ?s" and idx: "builder_get_idx ?s = builder_get_idx self"
      using wf_switch [OF wf] by simp_all
    then have ts: "wf_tree ?s" and si: "ids_ok ?s" by (simp_all add: wf_builder_def wf_tree_def)
    show ?thesis
    proof (cases "eid = parent_id \<or> parent_id = 0 \<or> eid = 1 \<or> is_duplicate eid ?s
        \<or> parent_lookup parent_id ?s = None")
      case True
      then show ?thesis using False wf ws idx
        by (auto simp: validate_and_insert_entry_def same_but_index_def Let_def)
    next
      case ok: False
      then obtain p where p: "builder_get_idx ?s parent_id = Some p"
        using parent_lookup_eq [OF si, of parent_id] by auto
      have dense: "b_is_dense ?s \<Longrightarrow> eid = word_of_nat (builder_len ?s + 1)"
        using dense_switch [of eid self] by simp
      have fresh: "\<forall>i < builder_len ?s. c_id (b_entries ?s ! i) \<noteq> eid"
        using not_duplicate [OF si _ _ dense] ok room by simp
      then have "builder_get_idx ?s eid = None"
        using builder_idx_iff [OF si, of eid] by (cases "builder_get_idx ?s eid") auto
      moreover have "appended self e (push_entry eid e sa (link_child p ?s))"
        if "c_kind (b_entries self ! p) = Directory"
        using that wf_tree_push_child [OF ts _ _ fresh dense _ _ _ e(1) _ _ refl, of p] ok p e False room
          \<open>builder_get_idx ?s eid = None\<close> idx
        by (auto simp: appended_def)
      ultimately show ?thesis
        using ok False p parent_lookup_eq [OF si, of parent_id] ws idx
        by (auto simp: validate_and_insert_entry_def same_but_index_def Let_def)
    qed
  qed
qed

section \<open>Every operation keeps the invariant\<close>

lemma push_at_keys: "set (map fst (push_at k v m)) = insert k (set (map fst m))"
  by (induction k v m rule: push_at.induct) (auto simp del: set_map)

lemma push_at_distinct: "distinct (map fst m) \<Longrightarrow> distinct (map fst (push_at k v m))"
  by (induction m) (auto simp: push_at_keys simp del: set_map)

lemma push_at_mset: "mset (concat (map snd (push_at k v m))) = add_mset v (mset (concat (map snd m)))"
  by (induction m) auto

lemma push_at_nonempty: "\<forall>(k, vs) \<in> set m. vs \<noteq> [] \<Longrightarrow> \<forall>(k, vs) \<in> set (push_at k' v m). vs \<noteq> []"
  by (induction m) (auto split: if_splits)

lemma sat_sum_snoc: "sat_sum (xs @ [x]) = saturating_add (sat_sum xs) x"
  by (simp add: sat_sum_def)

lemma tallies_snoc:
  "count_kind k (es @ [e]) = count_kind k es + (if c_kind e = k then 1 else 0)"
  "sat_sum (file_sizes (es @ [e])) = (if c_kind e = File
     then saturating_add (sat_sum (file_sizes es)) (opt_bytes (c_logical_size e)) else sat_sum (file_sizes es))"
  "sat_sum (alloc_sizes (es @ [e])) = saturating_add (sat_sum (alloc_sizes es)) (opt_bytes (c_allocated_size e))"
  by (simp_all add: count_kind_def file_sizes_def alloc_sizes_def sat_sum_snoc)

lemma entry_ok_new:
  "entry_ok (directory_entry d) (opt_bytes (d_allocated_size d))"
  "entry_ok (file_entry f) 0"
  "entry_ok (special_entry s) 0"
  by (auto simp: entry_ok_def directory_entry_def file_entry_def special_entry_def opt_bytes_def Let_def)

lemma new_entry_fields [simp]:
  "c_id (directory_entry d) = d_entry_id d" "c_parent_id (directory_entry d) = d_parent_id d"
  "c_kind (directory_entry d) = Directory" "c_allocated_size (directory_entry d) = d_allocated_size d"
  "c_id (file_entry f) = f_entry_id f" "c_parent_id (file_entry f) = f_parent_id f"
  "c_kind (file_entry f) = File" "c_allocated_size (file_entry f) = f_allocated_size f"
  "c_logical_size (file_entry f) = Some (f_logical_size f)"
  "c_id (special_entry s) = s_entry_id s" "c_parent_id (special_entry s) = s_parent_id s"
  "c_kind (special_entry s) = Special" "c_allocated_size (special_entry s) = None"
  by (simp_all add: directory_entry_def file_entry_def special_entry_def Let_def)

lemma kind_at_appended:
  "appended self e self' \<Longrightarrow> kind_at self k eid \<Longrightarrow> kind_at self' k eid"
  by (auto simp: appended_def kind_at_def nth_append)

lemma kind_at_new: "appended self e self' \<Longrightarrow> kind_at self' (c_kind e) (c_id e)"
  by (auto simp: appended_def kind_at_def)

lemma kind_at_cong:
  "builder_get_idx self' = builder_get_idx self \<Longrightarrow> b_entries self' = b_entries self \<Longrightarrow>
     kind_at self' = kind_at self"
  by (rule ext)+ (simp add: kind_at_def)

lemma wf_tree_same:
  assumes "wf_tree self" and "b_entries self' = b_entries self" "b_first_child self' = b_first_child self"
    "b_last_child self' = b_last_child self" "b_next_sibling self' = b_next_sibling self"
    "b_dir_self_alloc self' = b_dir_self_alloc self" "b_is_dense self' = b_is_dense self"
    "b_id_to_idx self' = b_id_to_idx self"
  shows "wf_tree self'" and "builder_get_idx self' = builder_get_idx self"
proof -
  have "ids_ok self'" "map_idle self'"
    using assms by (simp_all add: wf_tree_def ids_ok_def map_idle_def)
  with assms show "wf_tree self'" "builder_get_idx self' = builder_get_idx self"
    by (blast intro: wf_tree_cong)+
qed

text \<open>The maps after an entry was appended.\<close>

lemma maps_ok_appended:
  assumes "maps_ok self" and a: "appended self e self'"
  shows "maps_ok self'" and "c_id e \<notin> set (concat (map snd (b_file_object_map self')))"
    and "c_id e \<notin> set (map fst (b_dir_object_ids self'))"
proof -
  have none: "\<not> kind_at self k (c_id e)" for k using a by (simp add: appended_def kind_at_def)
  show "c_id e \<notin> set (concat (map snd (b_file_object_map self')))"
    "c_id e \<notin> set (map fst (b_dir_object_ids self'))"
    using assms none by (auto simp: maps_ok_def appended_def)
  show "maps_ok self'"
    using assms kind_at_appended [OF a] by (fastforce simp: maps_ok_def appended_def)
qed

lemma maps_ok_push_file:
  assumes m: "maps_ok self" and k: "kind_at self File eid"
    and fresh: "eid \<notin> set (concat (map snd (b_file_object_map self)))"
    and same: "b_file_object_map self' = push_at oid eid (b_file_object_map self)"
      "b_dir_object_ids self' = b_dir_object_ids self" "b_pending_streams self' = b_pending_streams self"
      "b_entries self' = b_entries self" "builder_get_idx self' = builder_get_idx self"
  shows "maps_ok self'"
proof -
  let ?m = "b_file_object_map self" and ?m' = "push_at oid eid (b_file_object_map self)"
  have ms: "mset (concat (map snd ?m')) = add_mset eid (mset (concat (map snd ?m)))" by (rule push_at_mset)
  have set': "set (concat (map snd ?m')) = insert eid (set (concat (map snd ?m)))"
    using arg_cong [OF ms, of set_mset] by simp
  have "distinct (concat (map snd ?m'))"
    using m fresh ms mset_eq_imp_distinct_iff [of "concat (map snd ?m')" "eid # concat (map snd ?m)"]
    by (simp add: maps_ok_def)
  moreover have "distinct (map fst ?m')" using m by (simp add: maps_ok_def push_at_distinct)
  moreover have "\<forall>(oid, eids) \<in> set ?m'. eids \<noteq> []"
    using m by (intro push_at_nonempty) (simp add: maps_ok_def)
  moreover have "\<forall>x \<in> set (concat (map snd ?m')). kind_at self File x"
    using m k unfolding set' maps_ok_def by blast
  ultimately show ?thesis using m kind_at_cong [OF same(5,4)]
    unfolding maps_ok_def same by simp
qed

lemma maps_ok_push_dir:
  assumes m: "maps_ok self" and k: "kind_at self Directory eid"
    and same: "b_dir_object_ids self' = AList.update eid oid (b_dir_object_ids self)"
      "b_file_object_map self' = b_file_object_map self" "b_pending_streams self' = b_pending_streams self"
      "b_entries self' = b_entries self" "builder_get_idx self' = builder_get_idx self"
  shows "maps_ok self'"
proof -
  have "distinct (map fst (AList.update eid oid (b_dir_object_ids self)))"
    using m by (simp add: maps_ok_def distinct_update)
  moreover have "\<forall>x \<in> set (map fst (AList.update eid oid (b_dir_object_ids self))). kind_at self Directory x"
    using m k by (simp add: maps_ok_def update_keys)
  ultimately show ?thesis using m kind_at_cong [OF same(5,4)]
    unfolding maps_ok_def same by simp
qed

lemma wf_same_cong:
  assumes "wf_builder self"
    and "b_entries self' = b_entries self" "b_first_child self' = b_first_child self"
    "b_last_child self' = b_last_child self" "b_next_sibling self' = b_next_sibling self"
    "b_dir_self_alloc self' = b_dir_self_alloc self" "b_is_dense self' = b_is_dense self"
    "b_id_to_idx self' = b_id_to_idx self" "b_file_object_map self' = b_file_object_map self"
    "b_dir_object_ids self' = b_dir_object_ids self" "b_pending_streams self' = b_pending_streams self"
    "b_dir_count self' = b_dir_count self" "b_file_count self' = b_file_count self"
    "b_special_count self' = b_special_count self" "b_logical_bytes self' = b_logical_bytes self"
    "b_allocated_bytes self' = b_allocated_bytes self"
    "b_allocated_bytes_known self' = b_allocated_bytes_known self"
  shows "wf_builder self'" and "builder_get_idx self' = builder_get_idx self"
proof -
  have t: "wf_tree self" using assms by (simp add: wf_builder_def)
  note t' = wf_tree_same [OF t assms(2-8)]
  show "builder_get_idx self' = builder_get_idx self" by (rule t'(2))
  show "wf_builder self'"
    using assms t' maps_ok_cong [OF _ t'(2)] by (simp add: wf_builder_def tallies_ok_def)
qed

lemma wf_set_current [simp]:
  "wf_builder self \<Longrightarrow> wf_builder (self\<lparr>b_current_dir_id := d\<rparr>)"
  by (erule wf_same_cong) simp_all

lemma get_idx_set_current [simp]:
  "builder_get_idx (self\<lparr>b_current_dir_id := d\<rparr>) = builder_get_idx self"
  by (rule ext) (simp add: builder_get_idx_def)

lemma ingest_directory_wf:
  assumes wf: "wf_builder self" and room: "builder_len self + 1 < 2 ^ 32"
  shows "wf_builder (snd (ingest_directory dir self))"
proof -
  let ?e = "directory_entry dir" and ?sa = "opt_bytes (d_allocated_size dir)"
  note ins = insert_cases [OF wf room entry_ok_new(1) [where d = dir] refl refl]
  show ?thesis
  proof (cases "validate_and_insert_entry (d_entry_id dir) (d_parent_id dir) ?e ?sa self")
    case (Pair r s)
    show ?thesis
    proof (cases r)
      case (Some err)
      with Pair ins show ?thesis
        by (simp add: ingest_directory_def and_do_def opt_bytes_def [symmetric])
    next
      case None
      with Pair ins have a: "appended self ?e s" by simp
      define s1 where "s1 = (case d_object_id dir of None \<Rightarrow> s
        | Some oid \<Rightarrow> s\<lparr>b_dir_object_ids := AList.update (d_entry_id dir) oid (b_dir_object_ids s)\<rparr>)"
      define s2 where "s2 = (case d_allocated_size dir of None \<Rightarrow> s1\<lparr>b_dir_count := b_dir_count s1 + 1\<rparr>
        | Some alloc \<Rightarrow> s1\<lparr>b_dir_count := b_dir_count s1 + 1,
            b_allocated_bytes := saturating_add (b_allocated_bytes s1) alloc\<rparr>)"
      have res: "snd (ingest_directory dir self) = s2"
        using Pair None by (auto simp: ingest_directory_def and_do_def opt_bytes_def [symmetric]
            s1_def s2_def Let_def split: option.split)
      have ms: "maps_ok s" and ts: "wf_tree s"
        using wf maps_ok_appended [OF _ a] a by (simp_all add: wf_builder_def appended_def)
      have k: "kind_at s Directory (d_entry_id dir)" using kind_at_new [OF a] by simp
      have t1: "wf_tree s1" "builder_get_idx s1 = builder_get_idx s"
        using wf_tree_same [OF ts, of s1] by (simp_all add: s1_def split: option.split)
      have m1: "maps_ok s1"
        using maps_ok_push_dir [OF ms k, of s1] ms t1(2) by (simp add: s1_def split: option.splits)
      have t2: "wf_tree s2" "builder_get_idx s2 = builder_get_idx s1"
        using wf_tree_same [OF t1(1), of s2] by (simp_all add: s2_def split: option.split)
      have m2: "maps_ok s2"
        using maps_ok_cong [OF m1 t2(2)] by (simp add: s2_def split: option.split)
      have "tallies_ok s2"
        using wf a by (auto simp: wf_builder_def tallies_ok_def appended_def tallies_snoc
            s2_def s1_def opt_bytes_def split: option.split)
      with t2 m2 show ?thesis by (simp add: res wf_builder_def)
    qed
  qed
qed

lemma ingest_file_wf:
  assumes wf: "wf_builder self" and room: "builder_len self + 1 < 2 ^ 32"
  shows "wf_builder (snd (ingest_file file self))"
proof -
  let ?e = "file_entry file"
  note ins = insert_cases [OF wf room entry_ok_new(2) [where f = "file"] refl refl]
  show ?thesis
  proof (cases "validate_and_insert_entry (f_entry_id file) (f_parent_id file) ?e 0 self")
    case (Pair r s)
    show ?thesis
    proof (cases r)
      case (Some err)
      with Pair ins show ?thesis by (simp add: ingest_file_def and_do_def)
    next
      case None
      with Pair ins have a: "appended self ?e s" by simp
      define s1 where "s1 = (case f_object_id file of None \<Rightarrow> s
        | Some oid \<Rightarrow> s\<lparr>b_file_object_map := push_at oid (f_entry_id file) (b_file_object_map s)\<rparr>)"
      define lc where "lc = b_file_link_counts (snd (ingest_file file self))"
      define s2 where "s2 = s1\<lparr>b_file_link_counts := lc, b_file_count := b_file_count s1 + 1,
          b_logical_bytes := saturating_add (b_logical_bytes s1) (f_logical_size file),
          b_allocated_bytes := saturating_add (b_allocated_bytes s1) (opt_bytes (f_allocated_size file)),
          b_allocated_bytes_known := (b_allocated_bytes_known s1 \<and> f_allocated_size file \<noteq> None)\<rparr>"
      have res: "snd (ingest_file file self) = s2"
        using Pair None by (auto simp: s2_def lc_def ingest_file_def and_do_def s1_def opt_bytes_def Let_def
            split: option.split)
      have ms: "maps_ok s" and ts: "wf_tree s" and fr: "f_entry_id file \<notin> set (concat (map snd (b_file_object_map s)))"
        using wf maps_ok_appended [OF _ a] a by (simp_all add: wf_builder_def appended_def)
      have k: "kind_at s File (f_entry_id file)" using kind_at_new [OF a] by simp
      have t1: "wf_tree s1" "builder_get_idx s1 = builder_get_idx s"
        using wf_tree_same [OF ts, of s1] by (simp_all add: s1_def split: option.split)
      have m1: "maps_ok s1"
        using maps_ok_push_file [OF ms k fr, of s1] ms t1(2) by (simp add: s1_def split: option.splits)
      have t2: "wf_tree s2" "builder_get_idx s2 = builder_get_idx s1"
        using wf_tree_same [OF t1(1), of s2] by (simp_all add: s2_def)
      have m2: "maps_ok s2"
        using maps_ok_cong [OF m1 t2(2)] by (simp add: s2_def)
      have "tallies_ok s2"
        using wf a unfolding s2_def
        by (auto simp: wf_builder_def tallies_ok_def appended_def tallies_snoc
            s1_def opt_bytes_def split: option.split)
      with t2 m2 show ?thesis by (simp add: res wf_builder_def)
    qed
  qed
qed

lemma ingest_special_wf:
  assumes wf: "wf_builder self" and room: "builder_len self + 1 < 2 ^ 32"
  shows "wf_builder (snd (ingest_special special self))"
proof -
  let ?e = "special_entry special"
  note ins = insert_cases [OF wf room entry_ok_new(3) [where s = special] refl refl]
  show ?thesis
  proof (cases "validate_and_insert_entry (s_entry_id special) (s_parent_id special) ?e 0 self")
    case (Pair r s)
    show ?thesis
    proof (cases r)
      case (Some err)
      with Pair ins show ?thesis by (simp add: ingest_special_def and_do_def)
    next
      case None
      with Pair ins have a: "appended self ?e s" by simp
      let ?s = "s\<lparr>b_special_count := b_special_count s + 1\<rparr>"
      have ms: "maps_ok s" and ts: "wf_tree s"
        using wf maps_ok_appended [OF _ a] a by (simp_all add: wf_builder_def appended_def)
      have t2: "wf_tree ?s" "builder_get_idx ?s = builder_get_idx s"
        using wf_tree_same [OF ts, of ?s] by simp_all
      have "tallies_ok ?s"
        using wf a by (auto simp: wf_builder_def tallies_ok_def appended_def tallies_snoc opt_bytes_def)
      then show ?thesis using Pair None t2 maps_ok_cong [OF ms t2(2)]
        by (simp add: ingest_special_def and_do_def wf_builder_def)
    qed
  qed
qed

lemma ingest_stream_wf:
  assumes wf: "wf_builder self"
  shows "wf_builder (snd (ingest_stream stream self))"
proof (cases "builder_get_idx self (st_parent_entry_id stream)")
  case None
  with wf show ?thesis by (simp add: ingest_stream_def)
next
  case (Some i)
  let ?s = "snd (ingest_stream stream self)"
  have t: "wf_tree self" using wf by (simp add: wf_builder_def)
  have t2: "wf_tree ?s" "builder_get_idx ?s = builder_get_idx self"
    using wf_tree_same [OF t, of ?s] by (simp_all add: ingest_stream_def Some)
  have "i < builder_len self"
    using t Some by (simp add: builder_idx_iff wf_tree_def)
  then have "maps_ok ?s"
    using wf kind_at_cong [OF t2(2)] by (simp add: wf_builder_def maps_ok_def ingest_stream_def Some)
  moreover have "tallies_ok ?s"
    using wf by (simp add: wf_builder_def tallies_ok_def ingest_stream_def Some)
  ultimately show ?thesis using t2 by (simp add: wf_builder_def)
qed

lemma ingest_terminal_state:
  "snd (ingest_terminal term self) = self \<or> snd (ingest_terminal term self) = self\<lparr>b_terminal := Some term\<rparr>"
  by (simp add: ingest_terminal_def)

lemma wf_set_terminal [simp]: "wf_builder self \<Longrightarrow> wf_builder (self\<lparr>b_terminal := t\<rparr>)"
  by (erule wf_same_cong) simp_all

lemma wf_set_gaps [simp]: "wf_builder self \<Longrightarrow> wf_builder (self\<lparr>b_gaps := g\<rparr>)"
  by (erule wf_same_cong) simp_all

lemma ingest_terminal_wf: "wf_builder self \<Longrightarrow> wf_builder (snd (ingest_terminal term self))"
  using ingest_terminal_state [of "term" self] by auto

lemma ingest_record_wf:
  assumes "wf_builder self" and "builder_len self + 1 < 2 ^ 32"
  shows "wf_builder (snd (ingest_record rec self))"
  using assms
  by (cases rec) (simp_all add: ingest_record_def ingest_directory_wf ingest_file_wf
      ingest_special_wf ingest_stream_wf ingest_terminal_wf)

end
