(* ===== verification/Builder_Spec.thy ===== *)
theory Builder_Spec
  imports Builder_Invariant
begin

text \<open>
  The abstract specification of ingestion: which observation streams are accepted, stated on
  the records alone, and the refinement lemma that \<open>GraphBuilder\<close> implements it, whatever mode
  (dense or sparse) its index is in.
\<close>

section \<open>The specification\<close>

text \<open>The entry a record contributes, and the entries of the records accepted so far.\<close>

definition entry_of :: "observation_record \<Rightarrow> compact_entry option" where
  "entry_of rec = (case rec of
     Obs_Directory d \<Rightarrow> Some (directory_entry d)
   | Obs_File f \<Rightarrow> Some (file_entry f)
   | Obs_Special s \<Rightarrow> Some (special_entry s)
   | _ \<Rightarrow> None)"

definition observed_entries :: "observation_record list \<Rightarrow> compact_entry list" where
  "observed_entries acc = List.map_filter entry_of acc"

definition observed_gaps :: "observation_record list \<Rightarrow> coverage_gap_observation list" where
  "observed_gaps acc = List.map_filter (\<lambda>r. case r of Obs_CoverageGap g \<Rightarrow> Some g | _ \<Rightarrow> None) acc"

definition observed_identities :: "observation_record list \<Rightarrow> (object_identity \<times> u32) list" where
  "observed_identities acc = List.map_filter
     (\<lambda>r. case r of Obs_File f \<Rightarrow> map_option (\<lambda>oid. (oid, f_entry_id f)) (f_object_id f) | _ \<Rightarrow> None) acc"

definition terminated :: "observation_record list \<Rightarrow> bool" where
  "terminated acc \<longleftrightarrow> list_ex (\<lambda>r. case r of Obs_Terminal _ \<Rightarrow> True | _ \<Rightarrow> False) acc"

text \<open>
  A new entry needs a fresh identifier and an observed directory as its parent; the first one is
  the root, with identifier 1 and parent 0, and there is no other root.
\<close>

definition spec_insert :: "compact_entry list \<Rightarrow> compact_entry \<Rightarrow> graph_build_error option" where
  "spec_insert es e =
     (if c_id e = c_parent_id e then Some (SelfParent (c_id e))
      else if es = [] then
        (if c_id e = 1 \<and> c_parent_id e = 0 \<and> c_kind e = Directory then None
         else Some (InvalidRoot (c_id e) (c_parent_id e)))
      else if c_parent_id e = 0 \<or> c_id e = 1 then Some (InvalidRoot (c_id e) (c_parent_id e))
      else if list_ex (\<lambda>x. c_id x = c_id e) es then Some (DuplicateEntryId (c_id e))
      else case List.find (\<lambda>x. c_id x = c_parent_id e) es of
          None \<Rightarrow> Some (MissingParent (c_id e) (c_parent_id e))
        | Some p \<Rightarrow> if c_kind p = Directory then None
            else Some (ParentNotDirectory (c_id e) (c_parent_id e)))"

text \<open>The terminal record must state the tallies of what was observed.\<close>

definition spec_terminal :: "compact_entry list \<Rightarrow> nat \<Rightarrow> terminal_observation \<Rightarrow> graph_build_error option" where
  "spec_terminal es gaps t =
     (let dirs = word_of_nat (count_kind Directory es); files = word_of_nat (count_kind File es);
          logical = sat_sum (file_sizes es); alloc = sat_sum (alloc_sizes es)
      in if t_total_directories t \<noteq> dirs
         then Some (AggregateMismatch ''total_directories'' (t_total_directories t) dirs)
         else if t_total_files t \<noteq> files
         then Some (AggregateMismatch ''total_files'' (t_total_files t) files)
         else if t_total_logical_bytes t \<noteq> logical
         then Some (AggregateMismatch ''total_logical_bytes'' (t_total_logical_bytes t) logical)
         else if t_total_allocated_bytes t \<noteq> alloc
         then Some (AggregateMismatch ''total_allocated_bytes'' (t_total_allocated_bytes t) alloc)
         else if t_coverage_gap_count t \<noteq> word_of_nat gaps
         then Some (AggregateMismatch ''coverage_gap_count'' (ucast (t_coverage_gap_count t)) (word_of_nat gaps))
         else None)"

definition spec_error :: "observation_record list \<Rightarrow> observation_record \<Rightarrow> graph_build_error option" where
  "spec_error acc rec =
     (if terminated acc then Some RecordAfterTerminal
      else case rec of
        Obs_Directory d \<Rightarrow> spec_insert (observed_entries acc) (directory_entry d)
      | Obs_File f \<Rightarrow> spec_insert (observed_entries acc) (file_entry f)
      | Obs_Special s \<Rightarrow> spec_insert (observed_entries acc) (special_entry s)
      | Obs_ContentStream st \<Rightarrow>
          (if list_ex (\<lambda>x. c_id x = st_parent_entry_id st) (observed_entries acc) then None
           else Some (UnknownStreamParent (st_parent_entry_id st)))
      | Obs_CoverageGap g \<Rightarrow> None
      | Obs_Terminal t \<Rightarrow> spec_terminal (observed_entries acc) (length (observed_gaps acc)) t)"

text \<open>The first error of a stream, if any.\<close>

fun spec_run :: "observation_record list \<Rightarrow> observation_record list \<Rightarrow> graph_build_error option" where
  "spec_run acc [] = None"
| "spec_run acc (rec # recs) =
     (case spec_error acc rec of Some e \<Rightarrow> Some e | None \<Rightarrow> spec_run (acc @ [rec]) recs)"

section \<open>Refinement of one insertion\<close>

lemma map_filter_snoc: "List.map_filter f (xs @ [x]) = List.map_filter f xs @ (case f x of None \<Rightarrow> [] | Some y \<Rightarrow> [y])"
  by (simp add: List.map_filter_def split: option.split)

lemma lookup_Some_iff:
  "ids_ok self \<Longrightarrow> builder_get_idx self k = None \<longleftrightarrow> \<not> list_ex (\<lambda>x. c_id x = k) (b_entries self)"
  using builder_idx_iff [of self k]
  by (cases "builder_get_idx self k") (auto simp: list_ex_length)

lemma find_lookup:
  assumes "ids_ok self"
  shows "List.find (\<lambda>x. c_id x = k) (b_entries self) = map_option (\<lambda>i. b_entries self ! i) (builder_get_idx self k)"
proof (cases "builder_get_idx self k")
  case None
  then have "\<not> list_ex (\<lambda>x. c_id x = k) (b_entries self)" using lookup_Some_iff [OF assms] by blast
  with None show ?thesis by (auto simp: find_None_iff list_ex_iff)
next
  case (Some i)
  then have i: "i < builder_len self" "c_id (b_entries self ! i) = k" using assms by (simp_all add: builder_idx_iff)
  moreover have "\<forall>j < i. c_id (b_entries self ! j) \<noteq> k"
    using Some assms i(1) by (metis builder_idx_iff less_trans nat_neq_iff option.inject)
  ultimately show ?thesis using Some by (auto simp: find_Some_iff)
qed

lemma insert_error:
  assumes wf: "wf_builder self" and room: "builder_len self + 1 < 2 ^ 32"
  shows "fst (validate_and_insert_entry (c_id e) (c_parent_id e) e sa self) = spec_insert (b_entries self) e"
proof (cases "b_entries self = []")
  case True
  then show ?thesis by (auto simp: validate_and_insert_entry_def spec_insert_def)
next
  case False
  let ?s = "switch_to_sparse (c_id e) self"
  have ids: "ids_ok self" using wf by (simp add: wf_builder_def wf_tree_def)
  have idx: "builder_get_idx ?s = builder_get_idx self" and "wf_builder ?s"
    using wf_switch [OF wf] by simp_all
  then have si: "ids_ok ?s" by (simp add: wf_builder_def wf_tree_def)
  have dup: "is_duplicate (c_id e) ?s \<longleftrightarrow> list_ex (\<lambda>x. c_id x = c_id e) (b_entries self)"
  proof
    assume "list_ex (\<lambda>x. c_id x = c_id e) (b_entries self)"
    then obtain i where "i < builder_len ?s" "c_id (b_entries ?s ! i) = c_id e"
      by (auto simp: list_ex_length)
    then show "is_duplicate (c_id e) ?s"
      using not_duplicate [OF si, of "c_id e"] dense_switch [of "c_id e" self] room by auto
  next
    assume d: "is_duplicate (c_id e) ?s"
    show "list_ex (\<lambda>x. c_id x = c_id e) (b_entries self)"
    proof (cases "b_is_dense ?s")
      case True
      then have "c_id e = word_of_nat (builder_len self + 1)" by (rule dense_switch)
      then have "unat (c_id e) = builder_len self + 1"
        using room by (simp add: unat_of_nat del: of_nat_Suc of_nat_add)
      moreover have "unat (c_id e) \<le> builder_len self"
        using d True room by (simp add: is_duplicate_def word_le_nat_alt unat_of_nat)
      ultimately show ?thesis by simp
    next
      case False
      then have "builder_get_idx ?s (c_id e) \<noteq> None"
        using d by (simp add: is_duplicate_def builder_get_idx_def sparse_idx_def)
      then show ?thesis using lookup_Some_iff [OF ids] idx by metis
    qed
  qed
  have par: "parent_lookup (c_parent_id e) ?s = builder_get_idx self (c_parent_id e)"
    if "c_parent_id e \<noteq> 0"
    using parent_lookup_eq [OF si that] idx by simp
  show ?thesis
    using False dup par find_lookup [OF ids, of "c_parent_id e"]
    by (auto simp: validate_and_insert_entry_def spec_insert_def Let_def split: option.split)
qed

section \<open>Refinement of ingestion\<close>

definition refines :: "observation_record list \<Rightarrow> graph_builder \<Rightarrow> bool" where
  "refines acc self \<longleftrightarrow> wf_builder self \<and> b_entries self = observed_entries acc
     \<and> b_gaps self = observed_gaps acc \<and> (b_terminal self \<noteq> None \<longleftrightarrow> terminated acc)
     \<and> b_file_object_map self = foldl (\<lambda>m (oid, eid). push_at oid eid m) [] (observed_identities acc)"

lemmas observed_defs = observed_entries_def observed_gaps_def observed_identities_def terminated_def entry_of_def

lemma observed_snoc:
  "observed_entries (acc @ [r]) = observed_entries acc @ (case entry_of r of None \<Rightarrow> [] | Some e \<Rightarrow> [e])"
  "observed_gaps (acc @ [r]) = observed_gaps acc @ (case r of Obs_CoverageGap g \<Rightarrow> [g] | _ \<Rightarrow> [])"
  "terminated (acc @ [r]) \<longleftrightarrow> terminated acc \<or> (case r of Obs_Terminal _ \<Rightarrow> True | _ \<Rightarrow> False)"
  "observed_identities (acc @ [r]) = observed_identities acc @ (case r of
      Obs_File f \<Rightarrow> (case f_object_id f of Some oid \<Rightarrow> [(oid, f_entry_id f)] | None \<Rightarrow> []) | _ \<Rightarrow> [])"
  by (auto simp: observed_defs map_filter_snoc split: observation_record.split option.split)

lemma refines_new: "refines [] (builder_new t)"
  by (simp add: refines_def observed_defs builder_new_def List.map_filter_def
      wf_builder_new [of t, unfolded builder_new_def])

lemma refines_set_current [simp]: "refines acc (self\<lparr>b_current_dir_id := d\<rparr>) \<longleftrightarrow> refines acc self"
  using wf_set_current [of self d] wf_set_current [of "self\<lparr>b_current_dir_id := d\<rparr>" "b_current_dir_id self"]
  by (auto simp: refines_def)

lemma refines_step_entry:
  assumes r: "refines acc self" and nt: "\<not> terminated acc" and room: "builder_len self + 1 < 2 ^ 32"
    and e: "entry_of rec = Some e" "entry_ok e sa"
    and op: "op = and_do (validate_and_insert_entry (c_id e) (c_parent_id e) e sa) g"
    and wf: "wf_builder (snd (op self))"
    and g: "\<And>s. b_entries (g s) = b_entries s \<and> b_gaps (g s) = b_gaps s \<and> b_terminal (g s) = b_terminal s
      \<and> b_file_object_map (g s) = foldl (\<lambda>m (oid, eid). push_at oid eid m) (b_file_object_map s) (observed_identities [rec])"
  shows "fst (op self) = spec_insert (observed_entries acc) e \<and>
    (fst (op self) = None \<longrightarrow> refines (acc @ [rec]) (snd (op self)))"
proof -
  have wfs: "wf_builder self" using r by (simp add: refines_def)
  have err: "fst (op self) = fst (validate_and_insert_entry (c_id e) (c_parent_id e) e sa self)"
    by (simp add: op and_do_def split: prod.split option.split)
  have "refines (acc @ [rec]) (snd (op self))" if none: "fst (op self) = None"
  proof -
    obtain s where s: "validate_and_insert_entry (c_id e) (c_parent_id e) e sa self = (None, s)"
      using none err by (metis prod.collapse)
    then have a: "appended self e s" using insert_cases [OF wfs room e(2) refl refl] by simp
    have "snd (op self) = g s" using s by (simp add: op and_do_def)
    moreover have "observed_identities (acc @ [rec]) = observed_identities acc @ observed_identities [rec]"
      by (simp add: observed_identities_def List.map_filter_def)
    moreover have "\<not> terminated (acc @ [rec])" "observed_gaps (acc @ [rec]) = observed_gaps acc"
      using nt e(1) by (auto simp: observed_snoc entry_of_def split: observation_record.splits)
    ultimately show ?thesis using r a g wf e(1) nt
      by (simp add: refines_def appended_def observed_snoc(1))
  qed
  then show ?thesis using err insert_error [OF wfs room] r by (simp add: refines_def)
qed

lemma terminal_error:
  assumes "tallies_ok self"
  shows "fst (ingest_terminal t self) = spec_terminal (b_entries self) (length (b_gaps self)) t"
  using assms by (simp add: ingest_terminal_def spec_terminal_def tallies_ok_def Let_def)

lemma ingest_terminal_result:
  "ingest_terminal t self = (None, self\<lparr>b_terminal := Some t\<rparr>) \<or> (\<exists>e. ingest_terminal t self = (Some e, self))"
  by (simp add: ingest_terminal_def)

lemma ingest_record_refines:
  assumes r: "refines acc self" and room: "builder_len self + 1 < 2 ^ 32"
  shows "fst (ingest_record rec self) = spec_error acc rec \<and>
    (spec_error acc rec = None \<longrightarrow> refines (acc @ [rec]) (snd (ingest_record rec self)))"
proof (cases "terminated acc")
  case True
  then show ?thesis using r by (simp add: ingest_record_def spec_error_def refines_def)
next
  case nt: False
  then have no: "b_terminal self = None" using r by (auto simp: refines_def)
  have wf: "wf_builder self" and ids: "ids_ok self" and ents: "b_entries self = observed_entries acc"
    using r by (simp_all add: refines_def wf_builder_def wf_tree_def)
  show ?thesis
  proof (cases rec)
    case (Obs_Directory d)
    let ?s = "self\<lparr>b_current_dir_id := (if d_parent_id d = 0 then d_entry_id d else d_parent_id d)\<rparr>"
    have "fst (ingest_directory d ?s) = spec_insert (observed_entries acc) (directory_entry d) \<and>
        (fst (ingest_directory d ?s) = None \<longrightarrow> refines (acc @ [rec]) (snd (ingest_directory d ?s)))"
    proof (rule refines_step_entry [OF _ nt _ _ entry_ok_new(1)])
      show "ingest_directory d = and_do (validate_and_insert_entry (c_id (directory_entry d))
          (c_parent_id (directory_entry d)) (directory_entry d) (opt_bytes (d_allocated_size d)))
        (\<lambda>self.
           let self = (case d_object_id d of
                 None \<Rightarrow> self
               | Some oid \<Rightarrow> self\<lparr>b_dir_object_ids := AList.update (d_entry_id d) oid (b_dir_object_ids self)\<rparr>);
               self = self\<lparr>b_dir_count := b_dir_count self + 1\<rparr>
           in case d_allocated_size d of
               None \<Rightarrow> self
             | Some alloc \<Rightarrow> self\<lparr>b_allocated_bytes := saturating_add (b_allocated_bytes self) alloc\<rparr>)"
        by (simp add: ingest_directory_def opt_bytes_def)
    qed (use r wf room in \<open>auto simp: Obs_Directory entry_of_def ingest_directory_wf Let_def
        observed_identities_def List.map_filter_def split: option.split\<close>)
    then show ?thesis using nt no by (simp add: ingest_record_def spec_error_def Obs_Directory)
  next
    case (Obs_File f)
    let ?s = "self\<lparr>b_current_dir_id := f_parent_id f\<rparr>"
    have "fst (ingest_file f ?s) = spec_insert (observed_entries acc) (file_entry f) \<and>
        (fst (ingest_file f ?s) = None \<longrightarrow> refines (acc @ [rec]) (snd (ingest_file f ?s)))"
    proof (rule refines_step_entry [OF _ nt _ _ entry_ok_new(2)])
      show "ingest_file f = and_do (validate_and_insert_entry (c_id (file_entry f))
          (c_parent_id (file_entry f)) (file_entry f) 0)
        (\<lambda>self.
         let self = (case f_object_id f of
               None \<Rightarrow> self
             | Some oid \<Rightarrow> self\<lparr>b_file_object_map := push_at oid (f_entry_id f) (b_file_object_map self)\<rparr>);
             self = (if f_total_link_count f \<noteq> NotObserved
               then self\<lparr>b_file_link_counts := (b_file_link_counts self)(f_entry_id f \<mapsto> f_total_link_count f)\<rparr>
               else self);
             self = self\<lparr>b_file_count := b_file_count self + 1,
               b_logical_bytes := saturating_add (b_logical_bytes self) (f_logical_size f)\<rparr>
         in case f_allocated_size f of
             Some alloc \<Rightarrow> self\<lparr>b_allocated_bytes := saturating_add (b_allocated_bytes self) alloc\<rparr>
           | None \<Rightarrow> self\<lparr>b_allocated_bytes_known := False\<rparr>)"
        by (simp add: ingest_file_def)
    qed (use r wf room in \<open>auto simp: Obs_File entry_of_def ingest_file_wf Let_def
        observed_identities_def List.map_filter_def split: option.split\<close>)
    then show ?thesis using nt no by (simp add: ingest_record_def spec_error_def Obs_File)
  next
    case (Obs_Special s)
    let ?s = "self\<lparr>b_current_dir_id := s_parent_id s\<rparr>"
    have "fst (ingest_special s ?s) = spec_insert (observed_entries acc) (special_entry s) \<and>
        (fst (ingest_special s ?s) = None \<longrightarrow> refines (acc @ [rec]) (snd (ingest_special s ?s)))"
    proof (rule refines_step_entry [OF _ nt _ _ entry_ok_new(3)])
      show "ingest_special s = and_do (validate_and_insert_entry (c_id (special_entry s))
          (c_parent_id (special_entry s)) (special_entry s) 0)
        (\<lambda>self. self\<lparr>b_special_count := b_special_count self + 1\<rparr>)"
        by (simp add: ingest_special_def)
    qed (use r wf room in \<open>auto simp: Obs_Special entry_of_def ingest_special_wf
        observed_identities_def List.map_filter_def split: option.split\<close>)
    then show ?thesis using nt no by (simp add: ingest_record_def spec_error_def Obs_Special)
  next
    case (Obs_ContentStream st)
    have "wf_builder (snd (ingest_stream st self))" using wf by (rule ingest_stream_wf)
    then show ?thesis
      using nt no r lookup_Some_iff [OF ids, of "st_parent_entry_id st"] ents
      by (cases "builder_get_idx self (st_parent_entry_id st)")
        (auto simp: ingest_record_def spec_error_def Obs_ContentStream ingest_stream_def refines_def
          observed_snoc entry_of_def)
  next
    case (Obs_CoverageGap g)
    then show ?thesis using nt no r
      by (simp add: ingest_record_def spec_error_def refines_def observed_snoc entry_of_def)
  next
    case (Obs_Terminal t)
    have "fst (ingest_terminal t self) = spec_terminal (observed_entries acc) (length (observed_gaps acc)) t"
      using terminal_error [of self t] r by (simp add: refines_def wf_builder_def)
    moreover have "fst (ingest_terminal t self) = None \<Longrightarrow> snd (ingest_terminal t self) = self\<lparr>b_terminal := Some t\<rparr>"
      using ingest_terminal_result [of t self] by auto
    ultimately show ?thesis using nt no r
      by (auto simp: ingest_record_def spec_error_def refines_def observed_snoc entry_of_def Obs_Terminal)
  qed
qed

lemma length_observed_entries: "length (observed_entries acc) \<le> length acc"
  by (simp add: observed_entries_def List.map_filter_def)

lemma ingest_all_refines:
  assumes "refines acc self" and "length acc + length recs < 2 ^ 32 - 1"
  shows "fst (ingest_all recs self) = spec_run acc recs \<and>
    (spec_run acc recs = None \<longrightarrow> refines (acc @ recs) (snd (ingest_all recs self)))"
  using assms
proof (induction recs arbitrary: acc self)
  case (Cons rec recs)
  have "builder_len self + 1 < 2 ^ 32"
    using Cons.prems length_observed_entries [of acc] by (simp add: refines_def)
  note step = ingest_record_refines [OF Cons.prems(1) this, of rec]
  show ?case
  proof (cases "spec_error acc rec")
    case None
    with step Cons.IH [of "acc @ [rec]" "snd (ingest_record rec self)"] Cons.prems show ?thesis
      by (cases "ingest_record rec self") simp
  next
    case (Some e)
    with step show ?thesis by (cases "ingest_record rec self") simp
  qed
qed simp

section \<open>What acceptance means\<close>

lemma spec_run_append:
  "spec_run acc (xs @ ys) = (case spec_run acc xs of Some e \<Rightarrow> Some e | None \<Rightarrow> spec_run (acc @ xs) ys)"
  by (induction xs arbitrary: acc) (simp_all split: option.split)

lemma spec_run_last:
  "spec_run acc (xs @ [r]) = None \<Longrightarrow> spec_error (acc @ xs) r = None"
  by (simp add: spec_run_append split: option.splits)

lemma ids_distinct: "ids_ok self \<Longrightarrow> distinct (entry_ids (b_entries self))"
  unfolding entry_ids_def distinct_conv_nth using builder_idx_iff [of self]
  by (metis length_map nth_map option.inject)

lemma unat_foldl_sat:
  "unat (foldl saturating_add a xs) = min (unat a + (\<Sum>x \<leftarrow> xs. unat x)) (2 ^ 64 - 1)"
proof (induction xs arbitrary: a)
  case Nil
  have "unat a < 2 ^ 64" using unsigned_less [of a] by simp
  then show ?case by simp
next
  case (Cons x xs)
  then show ?case by (simp add: unat_saturating_add)
qed

lemma unat_sat_sum: "unat (sat_sum xs) = min (\<Sum>x \<leftarrow> xs. unat x) (2 ^ 64 - 1)"
  by (simp add: sat_sum_def unat_foldl_sat)

section \<open>Properties\<close>

text \<open>
  C3: Ingestion implements the specification: for every stream of fewer than 2^32 - 1 records
  the builder stops with exactly the error the specification gives for the first offending
  record, or accepts all of them; whether its index is dense or sparse never shows.
\<close>

theorem ingestion_refines_specification:
  assumes "length recs < 2 ^ 32 - 1"
  shows "fst (ingest_all recs (builder_new target)) = spec_run [] recs"
  using ingest_all_refines [OF refines_new, of recs target] assms by simp

theorem ingestion_refines_specification_witness:
  "fst (ingest_all [Obs_Special \<lparr>s_entry_id = 1, s_parent_id = 0, s_name = ''x'', s_file_attributes = 0,
      s_reparse_tag = 0, s_creation_time_utc_ms = 0, s_last_write_time_utc_ms = 0,
      s_last_access_time_utc_ms = 0, s_object_id = None\<rparr>] (builder_new ''C:'')) = Some (InvalidRoot 1 0)"
  using ingestion_refines_specification [of "[Obs_Special \<lparr>s_entry_id = 1, s_parent_id = 0, s_name = ''x'', s_file_attributes = 0,
      s_reparse_tag = 0, s_creation_time_utc_ms = 0, s_last_write_time_utc_ms = 0,
      s_last_access_time_utc_ms = 0, s_object_id = None\<rparr>]" "''C:''"]
  by (simp add: spec_error_def spec_insert_def observed_defs List.map_filter_def)

text \<open>
  C14: Every call of \<open>ingest_record\<close>, failing or not, keeps the builder's invariant: identifiers
  resolve to the one entry that holds them, every entry but the root has an earlier directory as
  its parent, the sibling links of each directory list its children in order of arrival and end,
  and the tallies count the accepted entries.
\<close>

theorem ingest_record_keeps_invariant:
  assumes "wf_builder self" and "length (b_entries self) + 1 < 2 ^ 32"
  shows "wf_builder (snd (ingest_record rec self))"
  using assms by (rule ingest_record_wf)

theorem ingest_record_keeps_invariant_witness:
  "wf_builder (snd (ingest_record (Obs_CoverageGap \<lparr>g_path = [], g_error_code = 5, g_error_message = []\<rparr>)
     (builder_new ''C:'')))"
  by (rule ingest_record_keeps_invariant) (simp_all add: builder_new_def
      wf_builder_new [unfolded builder_new_def])

text \<open>
  An accepted stream holds exactly the entries of its records, in order, with pairwise
  different identifiers, and its terminal record states their true tallies.
\<close>

theorem accepted_stream_totals:
  assumes "length recs + 1 < 2 ^ 32 - 1" and "ingest_all (recs @ [Obs_Terminal t]) (builder_new target) = (None, self)"
  shows "b_entries self = observed_entries recs \<and> distinct (entry_ids (b_entries self))
    \<and> t_total_directories t = word_of_nat (count_kind Directory (observed_entries recs))
    \<and> t_total_files t = word_of_nat (count_kind File (observed_entries recs))
    \<and> unat (t_total_logical_bytes t) = min (\<Sum>x \<leftarrow> file_sizes (observed_entries recs). unat x) (2 ^ 64 - 1)
    \<and> unat (t_total_allocated_bytes t) = min (\<Sum>x \<leftarrow> alloc_sizes (observed_entries recs). unat x) (2 ^ 64 - 1)
    \<and> t_coverage_gap_count t = word_of_nat (length (observed_gaps recs))"
proof -
  have run: "spec_run [] (recs @ [Obs_Terminal t]) = None" and ref: "refines (recs @ [Obs_Terminal t]) self"
    using ingest_all_refines [OF refines_new, of "recs @ [Obs_Terminal t]" target] assms by simp_all
  have "spec_error recs (Obs_Terminal t) = None"
    using spec_run_last [OF run] by simp
  then have "spec_terminal (observed_entries recs) (length (observed_gaps recs)) t = None"
    by (simp add: spec_error_def split: if_splits)
  moreover have "distinct (entry_ids (b_entries self))"
    using ref unfolding refines_def wf_builder_def wf_tree_def by (blast intro: ids_distinct)
  ultimately show ?thesis
    using ref by (auto simp: spec_terminal_def Let_def unat_sat_sum refines_def observed_snoc entry_of_def
        split: if_splits)
qed

theorem accepted_stream_totals_witness:
  "\<exists>self. ingest_all ([Obs_CoverageGap \<lparr>g_path = [], g_error_code = 5, g_error_message = []\<rparr>] @ [Obs_Terminal
      \<lparr>t_outcome = Failed, t_total_directories = 0, t_total_files = 0, t_total_logical_bytes = 0,
       t_total_allocated_bytes = 0, t_coverage_gap_count = 1, t_duration_ms = 3\<rparr>]) (builder_new ''C:'') = (None, self)
    \<and> b_entries self = []"
proof -
  let ?t = "\<lparr>t_outcome = Failed, t_total_directories = 0, t_total_files = 0, t_total_logical_bytes = 0,
       t_total_allocated_bytes = 0, t_coverage_gap_count = 1, t_duration_ms = 3\<rparr>"
  let ?g = "Obs_CoverageGap \<lparr>g_path = [], g_error_code = 5, g_error_message = []\<rparr>"
  obtain self where self: "ingest_all ([?g] @ [Obs_Terminal ?t]) (builder_new ''C:'') = (None, self)"
    by (simp add: ingest_record_def ingest_terminal_def builder_new_def)
  then show ?thesis using accepted_stream_totals [OF _ self]
    by (auto simp: observed_defs List.map_filter_def)
qed

end
