(* ===== verification/Worker_Spec.thy ===== *)
theory Worker_Spec
  imports Worker_Scan Builder_Spec
begin

text \<open>
  What the traversal of the scan worker promises to the graph builder: the identifiers it assigns,
  the parents it names and the totals it states are those the ingestion of the records demands.
  And the traversal ends.
\<close>

section \<open>The invariant of the traversal\<close>

abbreviation observed :: "walk \<Rightarrow> compact_entry list" where
  "observed k \<equiv> observed_entries (k_records k)"

definition known_dir :: "walk \<Rightarrow> u32 \<Rightarrow> bool" where
  "known_dir k i \<longleftrightarrow> i \<noteq> 0 \<and> list_ex (\<lambda>e. c_id e = i \<and> c_kind e = Directory) (observed k)"

definition small :: "walk \<Rightarrow> bool" where
  "small k \<longleftrightarrow> length (k_records k) < 2 ^ 32 - 1"

definition walk_ids :: "walk \<Rightarrow> bool" where
  "walk_ids k \<longleftrightarrow> observed k \<noteq> [] \<and> map c_id (observed k) = map word_of_nat [1..<Suc (length (observed k))]
     \<and> k_next_entry_id k = word_of_nat (Suc (length (observed k)))
     \<and> (\<forall>item \<in> set (k_stack k). known_dir k (si_entry_id item))"

definition walk_totals :: "walk \<Rightarrow> bool" where
  "walk_totals k \<longleftrightarrow>
     k_directories k = word_of_nat (count_kind Directory (observed k))
     \<and> k_files k = word_of_nat (count_kind File (observed k))
     \<and> k_logical_bytes k = sum_list (file_sizes (observed k))
     \<and> k_allocated_bytes k = sum_list (alloc_sizes (observed k))
     \<and> k_gaps k = word_of_nat (length (observed_gaps (k_records k)))"

definition walk_accepted :: "walk \<Rightarrow> bool" where
  "walk_accepted k \<longleftrightarrow> spec_run [] (k_records k) = None \<and> \<not> terminated (k_records k)"

definition walk_ok :: "walk \<Rightarrow> bool" where
  "walk_ok k \<longleftrightarrow> (small k \<longrightarrow> walk_accepted k \<and> walk_ids k) \<and> walk_totals k"

lemmas walk_defs = walk_ok_def walk_accepted_def walk_ids_def walk_totals_def known_dir_def small_def

section \<open>One more record\<close>

lemma observed_emit [simp]:
  "k_records (emit r k) = k_records k @ [r]" "k_stack (emit r k) = k_stack k"
  "k_next_entry_id (emit r k) = k_next_entry_id k" "k_directories (emit r k) = k_directories k"
  "k_files (emit r k) = k_files k" "k_logical_bytes (emit r k) = k_logical_bytes k"
  "k_allocated_bytes (emit r k) = k_allocated_bytes k" "k_gaps (emit r k) = k_gaps k"
  by (simp_all add: emit_def)

lemma add_allocated_simps [simp]:
  "k_records (add_allocated a k) = k_records k" "k_stack (add_allocated a k) = k_stack k"
  "k_next_entry_id (add_allocated a k) = k_next_entry_id k" "k_directories (add_allocated a k) = k_directories k"
  "k_files (add_allocated a k) = k_files k" "k_logical_bytes (add_allocated a k) = k_logical_bytes k"
  "k_gaps (add_allocated a k) = k_gaps k"
  "k_allocated_bytes (add_allocated a k) = k_allocated_bytes k + opt_bytes a"
  by (simp_all add: add_allocated_def opt_bytes_def split: option.split)

lemma accepted_snoc:
  "walk_accepted k \<Longrightarrow> spec_error (k_records k) r = None \<Longrightarrow> \<forall>t. r \<noteq> Obs_Terminal t \<Longrightarrow>
    k_records k' = k_records k @ [r] \<Longrightarrow> walk_accepted k'"
  by (auto simp: walk_accepted_def spec_run_append observed_snoc split: observation_record.split)

lemma sizes_snoc:
  "file_sizes (es @ [e]) = file_sizes es @ (if c_kind e = File then [opt_bytes (c_logical_size e)] else [])"
  "alloc_sizes (es @ [e]) = alloc_sizes es @ [opt_bytes (c_allocated_size e)]"
  "count_kind c (es @ [e]) = count_kind c es + (if c_kind e = c then 1 else 0)"
  by (simp_all add: file_sizes_def alloc_sizes_def count_kind_def)

lemma id_nth:
  assumes "map c_id es = map word_of_nat [1..<Suc (length es)]" and "length es + 1 < 2 ^ 32" and "j < length es"
  shows "unat (c_id (es ! j)) = Suc j"
proof -
  have "c_id (es ! j) = map word_of_nat [1..<Suc (length es)] ! j"
    using assms(1,3) by (metis nth_map)
  then have "c_id (es ! j) = word_of_nat (Suc j)" using assms(3) by (simp del: upt_Suc of_nat_Suc)
  then show ?thesis using assms(2,3) unat_u32 [of "Suc j"] by (simp del: of_nat_Suc)
qed

lemma fresh_id:
  assumes "map c_id es = map word_of_nat [1..<Suc (length es)]" and "length es + 1 < 2 ^ 32"
    and "i = (word_of_nat (Suc (length es)) :: u32)"
  shows "\<not> list_ex (\<lambda>x. c_id x = i) es"
  using id_nth [OF assms(1,2)] assms(2) unat_u32 [of "Suc (length es)"]
  by (fastforce simp: list_ex_length assms(3) simp del: of_nat_Suc)

lemma find_known:
  assumes "map c_id es = map word_of_nat [1..<Suc (length es)]" and "length es + 1 < 2 ^ 32"
    and "list_ex (\<lambda>e. c_id e = i \<and> c_kind e = Directory) es"
  shows "\<exists>p. List.find (\<lambda>x. c_id x = i) es = Some p \<and> c_kind p = Directory"
proof -
  obtain j where j: "j < length es" "c_id (es ! j) = i" "c_kind (es ! j) = Directory"
    using assms(3) by (auto simp: list_ex_length)
  have "c_id (es ! l) \<noteq> i" if "l < j" for l
    using id_nth [OF assms(1,2), of l] id_nth [OF assms(1,2), of j] j that by auto
  then show ?thesis using j by (auto simp: find_Some_iff)
qed

text \<open>The specification accepts the next entry of the traversal.\<close>

lemma next_entry_accepted:
  assumes "walk_ids k" and "known_dir k p" and "length (observed k) + 1 < 2 ^ 32"
    and e: "c_id e = k_next_entry_id k" "c_parent_id e = p"
  shows "spec_insert (observed k) e = None"
proof -
  let ?es = "observed k"
  have ids: "map c_id ?es = map word_of_nat [1..<Suc (length ?es)]" and ne: "?es \<noteq> []"
    and next_id: "c_id e = word_of_nat (Suc (length ?es))"
    using assms(1) e by (simp_all add: walk_ids_def)
  have fresh: "\<not> list_ex (\<lambda>x. c_id x = c_id e) ?es"
    using fresh_id [OF ids assms(3)] next_id by simp
  obtain q where q: "List.find (\<lambda>x. c_id x = p) ?es = Some q" "c_kind q = Directory"
    using find_known [OF ids assms(3)] assms(2) by (auto simp: known_dir_def)
  have "c_id e \<noteq> p" using fresh assms(2) by (auto simp: known_dir_def list_ex_iff)
  moreover have "c_id e \<noteq> 1"
    using ne assms(3) unat_u32 [of "Suc (length ?es)"] unfolding next_id
    by (metis Suc_eq_plus1 One_nat_def length_0_conv nat.inject unsigned_1)
  moreover have "p \<noteq> 0" using assms(2) by (simp add: known_dir_def)
  ultimately show ?thesis using fresh q e ne by (simp add: spec_insert_def)
qed


definition adds_entry :: "stack_item \<Rightarrow> walk \<Rightarrow> observation_record \<Rightarrow> compact_entry \<Rightarrow> walk \<Rightarrow> bool" where
  "adds_entry current k r e k' \<longleftrightarrow> k_records k' = k_records k @ [r] \<and> entry_of r = Some e
     \<and> (\<exists>d. r = Obs_Directory d \<or> (\<exists>f. r = Obs_File f) \<or> (\<exists>s. r = Obs_Special s))
     \<and> c_id e = k_next_entry_id k \<and> c_parent_id e = si_entry_id current
     \<and> k_next_entry_id k' = k_next_entry_id k + 1
     \<and> (k_stack k' = k_stack k \<or> c_kind e = Directory
         \<and> (\<exists>item. si_entry_id item = c_id e \<and> k_stack k' = item # k_stack k))"

lemma emit_fact_adds:
  "emit_fact current f k = k \<or> (\<exists>r e. adds_entry current k r e (emit_fact current f k))"
proof (cases "e_name f = ''.'' \<or> e_name f = ''..''")
  case True
  then show ?thesis by (simp add: emit_fact_def)
next
  case False
  let ?i = "k_next_entry_id k" and ?p = "si_entry_id current"
  consider (special) "has_attribute (e_file_attributes f) FILE_ATTRIBUTE_DEVICE"
    | (dir) "\<not> has_attribute (e_file_attributes f) FILE_ATTRIBUTE_DEVICE"
        "has_attribute (e_file_attributes f) FILE_ATTRIBUTE_DIRECTORY"
    | (regular) "\<not> has_attribute (e_file_attributes f) FILE_ATTRIBUTE_DEVICE"
        "\<not> has_attribute (e_file_attributes f) FILE_ATTRIBUTE_DIRECTORY" by blast
  then show ?thesis
  proof cases
    case special
    with False have "adds_entry current k (Obs_Special (special_of ?i ?p f)) (special_entry (special_of ?i ?p f)) (emit_fact current f k)"
      by (simp add: adds_entry_def emit_fact_def Let_def entry_of_def special_entry_def special_of_def)
    then show ?thesis by blast
  next
    case dir
    with False have "adds_entry current k (Obs_Directory (directory_of ?i ?p f)) (directory_entry (directory_of ?i ?p f)) (emit_fact current f k)"
      by (auto simp: adds_entry_def emit_fact_def Let_def entry_of_def directory_entry_def directory_of_def)
    then show ?thesis by blast
  next
    case regular
    with False have "adds_entry current k (Obs_File (file_of ?i ?p f)) (file_entry (file_of ?i ?p f)) (emit_fact current f k)"
      by (simp add: adds_entry_def emit_fact_def Let_def entry_of_def file_entry_def file_of_def)
    then show ?thesis by blast
  qed
qed

lemma emit_fact_totals: "walk_totals k \<Longrightarrow> walk_totals (emit_fact current f k)"
  by (simp add: walk_totals_def emit_fact_def Let_def observed_snoc sizes_snoc entry_of_def special_entry_def
      special_of_def directory_entry_def directory_of_def file_entry_def file_of_def opt_bytes_def)

lemma known_dir_mono:
  "known_dir k i \<Longrightarrow> k_records k' = k_records k @ rs \<Longrightarrow> known_dir k' i"
  by (auto simp: known_dir_def observed_entries_def List.map_filter_def)

lemma length_observed_entries_small:
  "length (k_records k) < n \<Longrightarrow> length (observed k) < n"
  using length_observed_entries [of "k_records k"] by simp

lemma adds_entry_ok:
  assumes k: "walk_accepted k" "walk_ids k" and p: "known_dir k (si_entry_id current)" and s: "small k'"
    and a: "adds_entry current k r e k'"
  shows "walk_accepted k' \<and> walk_ids k'"
proof -
  have len: "length (observed k) + 1 < 2 ^ 32 - 1"
    using s a length_observed_entries [of "k_records k"] by (simp add: small_def adds_entry_def)
  have obs: "observed k' = observed k @ [e]" using a by (simp add: adds_entry_def observed_snoc)
  have "spec_insert (observed k) e = None"
    using next_entry_accepted [OF k(2) p] len a by (simp add: adds_entry_def)
  then have "spec_error (k_records k) r = None"
    using k(1) a by (auto simp: spec_error_def walk_accepted_def adds_entry_def entry_of_def)
  then have acc: "walk_accepted k'"
    using a accepted_snoc [OF k(1)] by (fastforce simp: adds_entry_def)
  have next_id: "k_next_entry_id k = word_of_nat (Suc (length (observed k)))"
    using k(2) by (simp add: walk_ids_def)
  have "c_id e \<noteq> 0"
    using a next_id len unat_u32 [of "Suc (length (observed k))"]
    by (simp add: adds_entry_def unat_eq_0 flip: unat_0_iff del: of_nat_Suc)
  moreover have "known_dir k' i" if "known_dir k i" for i
    using that a by (auto intro: known_dir_mono simp: adds_entry_def)
  ultimately have stack: "\<forall>item \<in> set (k_stack k'). known_dir k' (si_entry_id item)"
    using a k(2) obs by (auto simp: adds_entry_def walk_ids_def known_dir_def)
  have "map c_id (observed k') = map word_of_nat [1..<Suc (length (observed k'))]"
    using k(2) a obs next_id by (simp add: walk_ids_def adds_entry_def)
  then have "walk_ids k'" using obs a next_id stack by (simp add: walk_ids_def adds_entry_def)
  with acc show ?thesis ..
qed

lemma emit_fact_ok:
  assumes "walk_ok k" and "small (emit_fact current f k) \<Longrightarrow> known_dir k (si_entry_id current)"
  shows "walk_ok (emit_fact current f k)"
  using emit_fact_adds [of current f k]
proof (elim disjE exE)
  fix r e assume a: "adds_entry current k r e (emit_fact current f k)"
  then have "small (emit_fact current f k) \<Longrightarrow> small k" by (simp add: small_def adds_entry_def)
  then show ?thesis
    using assms adds_entry_ok [OF _ _ _ _ a] emit_fact_totals by (auto simp: walk_ok_def)
qed (use assms(1) in simp)

lemma emit_facts_records: "\<exists>rs. k_records (fold (emit_fact current) facts k) = k_records k @ rs"
proof (induction facts arbitrary: k)
  case (Cons f facts)
  have "\<exists>rs. k_records (emit_fact current f k) = k_records k @ rs"
    using emit_fact_adds [of current f k] by (auto simp: adds_entry_def)
  with Cons [of "emit_fact current f k"] show ?case by auto
qed simp

lemma emit_fact_grows: "small (emit_fact current f k) \<Longrightarrow> small k"
  using emit_fact_adds [of current f k] by (auto simp: adds_entry_def small_def)

lemma emit_facts_ok:
  "walk_ok k \<Longrightarrow> (small k \<Longrightarrow> known_dir k (si_entry_id current)) \<Longrightarrow> walk_ok (fold (emit_fact current) facts k)"
proof (induction facts arbitrary: k)
  case (Cons f facts)
  have "known_dir (emit_fact current f k) (si_entry_id current)" if "small (emit_fact current f k)"
    using emit_fact_adds [of current f k] Cons.prems(2) emit_fact_grows [OF that]
    by (auto simp: adds_entry_def intro: known_dir_mono)
  then show ?case using Cons emit_fact_ok emit_fact_grows by simp
qed simp

section \<open>The turns of the traversal\<close>

lemma walk_ok_other [simp]:
  "walk_ok (k\<lparr>k_tick := n\<rparr>) \<longleftrightarrow> walk_ok k" "walk_ok (k\<lparr>k_class := c\<rparr>) \<longleftrightarrow> walk_ok k"
  "known_dir (k\<lparr>k_tick := n\<rparr>) i \<longleftrightarrow> known_dir k i" "known_dir (k\<lparr>k_class := c\<rparr>) i \<longleftrightarrow> known_dir k i"
  "small (k\<lparr>k_tick := n\<rparr>) \<longleftrightarrow> small k" "small (k\<lparr>k_class := c\<rparr>) \<longleftrightarrow> small k"
  by (simp_all add: walk_defs)

lemma record_gap_ok:
  assumes "walk_ok k"
  shows "walk_ok (record_gap os path code k)"
    and "known_dir k i \<Longrightarrow> known_dir (record_gap os path code k) i"
    and "small (record_gap os path code k) \<Longrightarrow> small k"
proof -
  let ?k = "record_gap os path code k"
  obtain g where r: "k_records ?k = k_records k @ [Obs_CoverageGap g]" by (simp add: record_gap_def)
  then have obs: "observed ?k = observed k" by (simp add: observed_snoc entry_of_def)
  show dir: "known_dir ?k i" if "known_dir k i" for i using that obs by (simp add: known_dir_def)
  show grows: "small k" if "small ?k" using that r by (simp add: small_def)
  have acc: "walk_accepted ?k" if "walk_accepted k"
  proof (rule accepted_snoc [OF that _ _ r])
    show "spec_error (k_records k) (Obs_CoverageGap g) = None"
      using that by (simp add: walk_accepted_def spec_error_def)
  qed simp
  have "walk_ids ?k" if "walk_ids k"
    using that obs dir by (auto simp: walk_ids_def record_gap_def)
  moreover have "walk_totals ?k"
    using assms obs by (simp add: walk_ok_def walk_totals_def record_gap_def observed_snoc)
  ultimately show "walk_ok ?k" using assms acc grows by (auto simp: walk_ok_def)
qed

lemma choose_class_ok:
  "choose_class os p k = (c, k') \<Longrightarrow> walk_ok k' = walk_ok k \<and> known_dir k' = known_dir k \<and> small k' = small k"
  by (auto simp: choose_class_def Let_def fun_eq_iff split: option.splits)

lemma visit_directory_ok:
  assumes "walk_ok k" and "small k \<Longrightarrow> known_dir k (si_entry_id current)"
    and "visit_directory os volume current k = Some r"
  shows "case r of Inl k' \<Rightarrow> walk_ok k' | Inr k' \<Rightarrow> walk_ok k'"
proof -
  obtain c k1 where c: "choose_class os (si_extended_path current) k = (c, k1)" by fastforce
  obtain e tick where e: "enumerate_by_class os volume c (si_extended_path current) (k_tick k1) = Some (e, tick)"
    using assms(3) c by (auto simp: visit_directory_def bind_eq_Some_conv)
  define k2 where "k2 = k1\<lparr>k_tick := tick\<rparr>"
  have k2: "walk_ok k2" "small k2 \<Longrightarrow> known_dir k2 (si_entry_id current)"
    using choose_class_ok [OF c] assms(1,2) by (simp_all add: k2_def)
  note gap = record_gap_ok [OF k2(1), where os = os and path = "si_display_path current"]
  have "walk_ok (fold (emit_fact current) facts (record_gap os (si_display_path current) code k2))" for facts code
    using gap k2(2) by (intro emit_facts_ok) simp_all
  moreover have "walk_ok (fold (emit_fact current) facts k2)" for facts
    using k2 by (rule emit_facts_ok)
  ultimately show ?thesis
    using assms(3) c e k2 gap(1) by (auto simp: visit_directory_def simp flip: k2_def split: dir_enumeration.splits)
qed

lemma walk_loop_ok:
  "walk_loop fuel os volume k = Some (outcome, k') \<Longrightarrow> walk_ok k \<Longrightarrow> walk_ok k'"
proof (induction fuel arbitrary: k)
  case 0
  then show ?case by (auto simp: walk_loop.simps split: list.splits)
next
  case (Suc fuel)
  show ?case
  proof (cases "k_stack k")
    case Nil
    with Suc.prems show ?thesis by (simp add: walk_loop.simps)
  next
    case (Cons current rest)
    let ?k = "k\<lparr>k_stack := rest, k_tick := Suc (k_tick k)\<rparr>"
    have popped: "walk_ok ?k" "small ?k \<Longrightarrow> known_dir ?k (si_entry_id current)"
      using Suc.prems(2) Cons by (auto simp: walk_defs)
    show ?thesis
    proof (cases "so_cancelled os (k_tick k)")
      case True
      with Suc.prems popped Cons show ?thesis by (simp add: walk_loop.simps)
    next
      case False
      then obtain r where r: "visit_directory os volume current ?k = Some r"
        using Suc.prems Cons by (auto simp: walk_loop.simps bind_eq_Some_conv)
      have "case r of Inl k' \<Rightarrow> walk_ok k' | Inr k' \<Rightarrow> walk_ok k'"
        by (rule visit_directory_ok [OF _ _ r]) (use popped in auto)
      then show ?thesis
        using Suc r False Cons by (cases r) (auto simp: walk_loop.simps)
    qed
  qed
qed

section \<open>The whole scan\<close>

lemma walk_root_ok: "walk_ok (walk_root t attrs evidence)"
  by (cases evidence, cases attrs)
    (simp add: walk_root_def walk_defs walk_start_def root_observation_def spec_error_def spec_insert_def
      observed_defs List.map_filter_def directory_entry_def count_kind_def file_sizes_def alloc_sizes_def opt_bytes_def Let_def)

lemma failed_gap_accepted:
  "walk_accepted (failed_gap walk_start p c m) \<and> walk_totals (failed_gap walk_start p c m)"
  by (simp add: failed_gap_def walk_defs walk_start_def spec_error_def observed_defs List.map_filter_def
      count_kind_def file_sizes_def alloc_sizes_def)

lemma scan_walk_cases:
  assumes "scan_walk fuel os t = Some (outcome, k)"
  shows "k = walk_start \<or> (\<exists>p c m. k = failed_gap walk_start p c m)
      \<or> (\<exists>volume attrs e. walk_loop fuel os volume (walk_root t attrs e) = Some (outcome, k))"
proof (cases "so_cancelled os 0")
  case True
  with assms show ?thesis by (simp add: scan_walk_def)
next
  case False
  show ?thesis
  proof (cases "root_attributes os (vt_extended_path t)")
    case (Inl err)
    with assms False show ?thesis by (auto simp: scan_walk_def)
  next
    case (Inr attrs)
    with assms False show ?thesis
      by (simp add: scan_walk_def bind_eq_Some_conv del: split_paired_Ex split: if_splits) blast+
  qed
qed

lemma scan_walk_ok:
  assumes "scan_walk fuel os t = Some (outcome, k)" and "small k"
  shows "walk_accepted k \<and> walk_totals k"
proof -
  have start: "walk_accepted walk_start \<and> walk_totals walk_start"
    by (simp add: walk_defs walk_start_def observed_defs List.map_filter_def count_kind_def file_sizes_def alloc_sizes_def)
  from scan_walk_cases [OF assms(1)]
  consider "k = walk_start" | p c m where "k = failed_gap walk_start p c m"
    | volume attrs e where "walk_loop fuel os volume (walk_root t attrs e) = Some (outcome, k)" by blast
  then show ?thesis
  proof cases
    case 3
    then have "walk_ok k" using walk_loop_ok walk_root_ok by blast
    then show ?thesis using assms(2) by (simp add: walk_ok_def)
  qed (use start failed_gap_accepted in auto)
qed

text \<open>
  The builder's sums saturate and those of the worker wrap. They agree on totals that fit 64 bits,
  and otherwise only where the wrapped total is the largest number.
\<close>

definition totals_agree :: "u64 list \<Rightarrow> bool" where
  "totals_agree xs \<longleftrightarrow> (\<Sum>x \<leftarrow> xs. unat x) mod 2 ^ 64 = min (\<Sum>x \<leftarrow> xs. unat x) (2 ^ 64 - 1)"

lemma totals_fit: "(\<Sum>x \<leftarrow> xs. unat x) < 2 ^ 64 \<Longrightarrow> totals_agree xs"
  by (simp add: totals_agree_def)

lemma sum_list_sat: "sum_list xs = sat_sum xs \<longleftrightarrow> totals_agree xs"
proof -
  have "unat (sum_list xs) = (\<Sum>x \<leftarrow> xs. unat x) mod 2 ^ 64" for xs :: "u64 list"
    by (induction xs) (simp_all add: unat_word_ariths mod_add_right_eq)
  then show ?thesis by (simp add: word_unat_eq_iff unat_sat_sum totals_agree_def)
qed

text \<open>The records of a scan are those the builder accepts, unless a total does not fit.\<close>

lemma scan_records_outcome:
  assumes "scan_records fuel os t = Some recs" and "length recs < 2 ^ 32 - 1"
  shows "spec_run [] recs = None \<longleftrightarrow>
      totals_agree (file_sizes (observed_entries recs)) \<and> totals_agree (alloc_sizes (observed_entries recs))"
    and "spec_run [] recs = Some e \<Longrightarrow> \<exists>field stated counted. e = AggregateMismatch field stated counted"
proof -
  obtain outcome k where w: "scan_walk fuel os t = Some (outcome, k)"
    and recs: "recs = k_records k @ [Obs_Terminal (terminal os outcome k)]"
    using assms(1) by (auto simp: scan_records_def)
  then have k: "walk_accepted k" "walk_totals k"
    using scan_walk_ok [OF w] assms(2) by (simp_all add: small_def)
  have obs: "observed_entries recs = observed k" by (simp add: recs observed_snoc entry_of_def)
  have run: "spec_run [] recs = spec_terminal (observed k) (length (observed_gaps (k_records k))) (terminal os outcome k)"
    using k(1) by (simp add: recs spec_run_append walk_accepted_def spec_error_def split: option.split)
  show "spec_run [] recs = None \<longleftrightarrow>
      totals_agree (file_sizes (observed_entries recs)) \<and> totals_agree (alloc_sizes (observed_entries recs))"
    using k(2) by (simp add: run obs spec_terminal_def terminal_def walk_totals_def sum_list_sat Let_def)
  show "\<exists>field stated counted. e = AggregateMismatch field stated counted" if "spec_run [] recs = Some e"
    using that by (auto simp: run spec_terminal_def Let_def split: if_splits)
qed

end
