(* ===== verification/Worker_Ends.thy ===== *)
theory Worker_Ends
  imports Worker_Scan
begin

text \<open>
  The traversal of the scan worker ends: every directory pushed on the stack has a longer path than
  the one it was found in, and the system opens no path beyond a length, so the multiset of the
  remaining lengths of the stacked paths decreases with every turn.
\<close>

section \<open>What the system promises\<close>

text \<open>Names of volumes are ASCII, as their documentation has it.\<close>

definition ascii_volumes :: "scan_os \<Rightarrow> bool" where
  "ascii_volumes os \<longleftrightarrow> (\<forall>path name. vq_mount_point_name (so_volume os) path = Some name \<longrightarrow> (\<forall>u \<in> set name. u < 128))"

text \<open>A batched enumeration ends with an error that is not a full buffer; found names are not empty.\<close>

definition answers_end :: "scan_os \<Rightarrow> bool" where
  "answers_end os \<longleftrightarrow> (\<forall>tick path. \<exists>pre err. so_batches os tick path = pre @ [Inl err] \<and> err \<noteq> ERROR_INSUFFICIENT_BUFFER)"

definition names_found :: "scan_os \<Rightarrow> bool" where
  "names_found os \<longleftrightarrow> (\<forall>tick path d rest err. so_find_first os tick path = Inr (d, rest, err) \<longrightarrow>
     (\<forall>x \<in> set (d # rest). fd_file_name x \<noteq> [] \<and> hd (fd_file_name x) \<noteq> 0))"

text \<open>Paths longer than \<open>B\<close> cannot be opened or searched.\<close>

definition path_limit :: "nat \<Rightarrow> scan_os \<Rightarrow> bool" where
  "path_limit B os \<longleftrightarrow> (\<forall>tick path. B < length path \<longrightarrow>
     so_open os tick path \<noteq> None \<and> isl (so_find_first os tick (join_path path ''*'')))"

section \<open>Enumerations return\<close>

lemma batched_loop_returns:
  "answers = pre @ [Inl err] \<Longrightarrow> err \<noteq> ERROR_INSUFFICIENT_BUFFER \<Longrightarrow>
    \<exists>r. batched_loop os volume answers buf_len facts tick = Some r"
proof (induction answers arbitrary: pre buf_len facts tick)
  case (Cons a answers)
  have rest: "answers = [] \<or> (\<exists>pre'. answers = pre' @ [Inl err])"
    using Cons.prems by (cases pre) auto
  show ?case
  proof (cases a)
    case (Inl e)
    have "\<exists>pre'. answers = pre' @ [Inl err]" if "e = ERROR_INSUFFICIENT_BUFFER"
      using Cons.prems that Inl by (cases pre) auto
    then show ?thesis using Cons.IH Cons.prems(2) Inl by auto
  next
    case (Inr buf)
    obtain parsed where "parse_extd_entries buf volume = Some parsed"
      using parse_extd_from_no_panic [of buf volume 0] by (auto simp: parse_extd_entries_def)
    moreover have "\<exists>pre'. answers = pre' @ [Inl err]"
      using Cons.prems Inr by (cases pre) auto
    ultimately show ?thesis using Cons.IH Cons.prems(2) Inr by (auto split: option.split)
  qed
qed simp

lemma enumerate_returns: "answers_end os \<Longrightarrow> \<exists>r. enumerate_by_class os volume c path tick = Some r"
proof -
  assume "answers_end os"
  then obtain pre err where "so_batches os tick path = pre @ [Inl err]" "err \<noteq> ERROR_INSUFFICIENT_BUFFER"
    unfolding answers_end_def by blast
  then have "\<exists>r. batched_loop os volume (so_batches os tick path) ENUM_BUFFER_INITIAL_BYTES [] (Suc tick) = Some r"
    by (rule batched_loop_returns)
  then show ?thesis
    by (cases c) (auto simp: enumerate_by_class_def enumerate_directory_batched_def split: option.split)
qed

section \<open>Names\<close>

lemma utf8_encode_nonempty: "utf8_encode_char n \<noteq> []"
  by (simp add: utf8_encode_char_def)

lemma from_utf16_lossy_nonempty: "us \<noteq> [] \<Longrightarrow> from_utf16_lossy us \<noteq> []"
proof -
  assume "us \<noteq> []"
  then have "utf16_decode_lossy us \<noteq> []" by (cases us) (auto split: list.split)
  then show ?thesis
    using utf8_encode_nonempty by (cases "utf16_decode_lossy us") (simp_all add: from_utf16_lossy_def bytes_to_string_def)
qed

lemma extd_record_name:
  assumes "extd_record buf off volume = Some (Some (f, n))"
  shows "e_name f \<noteq> []"
proof -
  obtain attrs tag name_bytes name_len where f: "extd_facts buf off volume attrs tag name_bytes = Some f"
    and nb: "slice_bytes buf (off + 88) (off + 88 + name_len) = Some name_bytes" "name_len \<noteq> 0" "name_len mod 2 = 0"
    using assms by (auto simp: extd_record_def Let_def bind_eq_Some_conv split: option.splits if_splits)
  have "length name_bytes = name_len" using nb(1) by (auto simp: slice_bytes_def slice_def split: if_splits)
  then obtain a b bs where "name_bytes = a # b # bs" using nb(2,3)
    by (cases name_bytes; cases "tl name_bytes") auto
  then have "from_utf16_lossy (u16_chunks name_bytes) \<noteq> []" by (simp add: from_utf16_lossy_nonempty)
  then show ?thesis using f by (auto simp: extd_facts_def bind_eq_Some_conv)
qed

lemma parse_extd_names:
  "parse_extd_from buf volume off = Some (Some fs) \<Longrightarrow> \<forall>f \<in> set fs. e_name f \<noteq> []"
proof (induction buf volume off arbitrary: fs rule: parse_extd_from.induct)
  case (1 buf volume off)
  show ?case
    using "1.prems" "1.IH"
    by (subst (asm) parse_extd_from.simps)
      (auto split: if_splits option.splits prod.splits dest: extd_record_name)
qed


definition named :: "dir_enumeration \<Rightarrow> bool" where
  "named e \<longleftrightarrow> (case e of Enum_Success fs \<Rightarrow> \<forall>f \<in> set fs. e_name f \<noteq> []
     | Enum_Partial fs _ \<Rightarrow> \<forall>f \<in> set fs. e_name f \<noteq> [] | _ \<Rightarrow> True)"

lemma batched_loop_named:
  "batched_loop os volume answers buf_len facts tick = Some (e, n) \<Longrightarrow> \<forall>f \<in> set facts. e_name f \<noteq> [] \<Longrightarrow> named e"
proof (induction answers arbitrary: buf_len facts tick)
  case (Cons a answers)
  show ?case
  proof (cases a)
    case (Inl err)
    with Cons show ?thesis by (auto simp: named_def split: if_splits)
  next
    case (Inr buf)
    have "\<forall>f \<in> set (facts @ batch). e_name f \<noteq> []" if "parse_extd_entries buf volume = Some (Some batch)" for batch
      using that Cons.prems(2) parse_extd_names unfolding parse_extd_entries_def by fastforce
    with Inr Cons show ?thesis
      by (auto simp: named_def bind_eq_Some_conv split: if_splits option.splits)
  qed
qed (auto simp: named_def split: if_splits)

lemma legacy_loop_named:
  assumes "\<forall>x \<in> set (d # rest). fd_file_name x \<noteq> [] \<and> hd (fd_file_name x) \<noteq> 0" and "\<forall>f \<in> set facts. e_name f \<noteq> []"
  shows "named (fst (legacy_loop os volume d rest err facts tick))"
  using assms
proof (induction rest arbitrary: d facts tick)
  case Nil
  have "e_name (find_data_to_facts d volume) \<noteq> []"
    using Nil.prems(1) by (cases "fd_file_name d") (simp_all add: find_data_to_facts_def wide_slice_to_string_def from_utf16_lossy_nonempty)
  with Nil show ?case by (auto simp: legacy_loop.simps named_def Let_def)
next
  case (Cons d' rest)
  have "e_name (find_data_to_facts d volume) \<noteq> []"
    using Cons.prems(1) by (cases "fd_file_name d") (simp_all add: find_data_to_facts_def wide_slice_to_string_def from_utf16_lossy_nonempty)
  with Cons show ?case by (subst legacy_loop.simps) (simp add: named_def Let_def)
qed

lemma enumerate_named:
  assumes "enumerate_by_class os volume c path tick = Some (e, n)" and "names_found os"
  shows "named e"
proof (cases c)
  case Extd
  then show ?thesis
    using assms(1) by (auto simp: enumerate_by_class_def enumerate_directory_batched_def named_def [of "Enum_OpenFailed _"]
        split: option.splits dest: batched_loop_named)
next
  case Legacy
  show ?thesis
  proof (cases "so_find_first os tick (join_path path ''*'')")
    case (Inl err)
    with assms(1) Legacy show ?thesis by (auto simp: enumerate_by_class_def enumerate_directory_legacy_def named_def split: if_splits)
  next
    case (Inr r)
    obtain d rest err where r: "r = (d, rest, err)" by (cases r)
    have "\<forall>x \<in> set (d # rest). fd_file_name x \<noteq> [] \<and> hd (fd_file_name x) \<noteq> 0"
      using assms(2) Inr r unfolding names_found_def by blast
    then have "named (fst (legacy_loop os volume d rest err [] (Suc tick)))"
      by (rule legacy_loop_named) simp
    with assms(1) Legacy Inr r show ?thesis by (auto simp: enumerate_by_class_def enumerate_directory_legacy_def)
  qed
qed

section \<open>Every turn takes a path and adds longer ones\<close>

definition lengths :: "walk \<Rightarrow> nat multiset" where
  "lengths k = image_mset (\<lambda>item. length (si_extended_path item)) (mset (k_stack k))"

lemma join_path_longer: "name \<noteq> [] \<Longrightarrow> length dir < length (join_path dir name)"
  by (simp add: join_path_def)

lemma lengths_other [simp]:
  "lengths (emit r k) = lengths k" "lengths (add_allocated a k) = lengths k" "lengths (k\<lparr>k_tick := n\<rparr>) = lengths k"
  "lengths (k\<lparr>k_class := c\<rparr>) = lengths k" "lengths (k\<lparr>k_next_entry_id := i\<rparr>) = lengths k"
  "lengths (k\<lparr>k_directories := w\<rparr>) = lengths k" "lengths (k\<lparr>k_gaps := g\<rparr>) = lengths k"
  "lengths (k\<lparr>k_files := x, k_logical_bytes := y\<rparr>) = lengths k" "lengths (record_gap os p code k) = lengths k"
  by (simp_all add: lengths_def emit_def add_allocated_def record_gap_def split: option.split)

lemma emit_fact_lengths:
  assumes "e_name f \<noteq> []"
  shows "\<exists>M. lengths (emit_fact current f k) = M + lengths k \<and> (\<forall>n \<in># M. length (si_extended_path current) < n)"
proof (rule exI [of _ "lengths (emit_fact current f k) - lengths k"])
  show "lengths (emit_fact current f k) = lengths (emit_fact current f k) - lengths k + lengths k \<and>
    (\<forall>n \<in># lengths (emit_fact current f k) - lengths k. length (si_extended_path current) < n)"
    using join_path_longer [OF assms]
    by (simp add: emit_fact_def Let_def) (simp add: lengths_def add_allocated_def emit_def split: option.split)
qed

lemma emit_facts_lengths:
  "\<forall>f \<in> set facts. e_name f \<noteq> [] \<Longrightarrow>
    \<exists>M. lengths (fold (emit_fact current) facts k) = M + lengths k \<and> (\<forall>n \<in># M. length (si_extended_path current) < n)"
proof (induction facts arbitrary: k)
  case Nil
  then show ?case by (intro exI [of _ "{#}"]) simp
next
  case (Cons f facts)
  obtain M where M: "lengths (emit_fact current f k) = M + lengths k" "\<forall>n \<in># M. length (si_extended_path current) < n"
    using emit_fact_lengths [of f current k] Cons.prems by auto
  obtain N where "lengths (fold (emit_fact current) facts (emit_fact current f k)) = N + lengths (emit_fact current f k)"
    "\<forall>n \<in># N. length (si_extended_path current) < n"
    using Cons by fastforce
  then show ?case using M by (intro exI [of _ "N + M"]) (auto simp: ac_simps)
qed


lemma enumerate_beyond:
  assumes "path_limit B os" and "B < length path" and "enumerate_by_class os volume c path tick = Some (e, n)"
  shows "(\<exists>code. e = Enum_OpenFailed code) \<or> e = Enum_Success []"
proof -
  obtain err where "so_find_first os tick (join_path path ''*'') = Inl err" "so_open os tick path \<noteq> None"
    using assms(1,2) unfolding path_limit_def isl_def by blast
  then show ?thesis using assms(3)
    by (cases c) (auto simp: enumerate_by_class_def enumerate_directory_batched_def enumerate_directory_legacy_def split: if_splits)
qed

lemma choose_class_lengths [simp]: "choose_class os p k = (c, k') \<Longrightarrow> lengths k' = lengths k"
  by (auto simp: choose_class_def Let_def lengths_def split: option.splits)

lemma visit_directory_lengths:
  assumes "path_limit B os" and "names_found os" and "visit_directory os volume current k = Some (Inr k')"
  shows "\<exists>M. lengths k' = M + lengths k \<and> (\<forall>n \<in># M. length (si_extended_path current) < n)
    \<and> (B < length (si_extended_path current) \<longrightarrow> M = {#})"
proof -
  obtain c k1 where c: "choose_class os (si_extended_path current) k = (c, k1)" by fastforce
  obtain e tick where e: "enumerate_by_class os volume c (si_extended_path current) (k_tick k1) = Some (e, tick)"
    using assms(3) c by (auto simp: visit_directory_def bind_eq_Some_conv)
  define k2 where "k2 = k1\<lparr>k_tick := tick\<rparr>"
  have k2: "lengths k2 = lengths k" using c by (simp add: k2_def)
  have long: "(\<exists>code. e = Enum_OpenFailed code) \<or> e = Enum_Success []" if "B < length (si_extended_path current)"
    using enumerate_beyond [OF assms(1) that e] .
  have "named e" using enumerate_named [OF e assms(2)] .
  then have facts: "e = Enum_Success facts \<or> e = Enum_Partial facts code \<Longrightarrow> \<forall>f \<in> set facts. e_name f \<noteq> []" for facts code
    by (auto simp: named_def)
  have r: "(case e of
        Enum_Cancelled \<Rightarrow> Inl k2
      | Enum_OpenFailed error_code \<Rightarrow>
          if error_code \<noteq> W_ERROR_FILE_NOT_FOUND \<and> error_code \<noteq> ERROR_NO_MORE_FILES
          then Inr (record_gap os (si_display_path current) error_code k2) else Inr k2
      | Enum_Partial facts error_code \<Rightarrow>
          Inr (fold (emit_fact current) facts (record_gap os (si_display_path current) error_code k2))
      | Enum_Success facts \<Rightarrow> Inr (fold (emit_fact current) facts k2)) = Inr k'"
    using assms(3) c e unfolding k2_def by (simp add: visit_directory_def Let_def)
  show ?thesis
  proof (cases e)
    case (Enum_Success fs)
    then have k': "k' = fold (emit_fact current) fs k2" using r by simp
    show ?thesis
    proof (cases "B < length (si_extended_path current)")
      case True
      then have "k' = k2" using long Enum_Success k' by auto
      with k2 show ?thesis by (intro exI [of _ "{#}"]) simp
    next
      case False
      with emit_facts_lengths [of fs current k2] facts Enum_Success k' k2 show ?thesis by auto
    qed
  next
    case (Enum_Partial fs code)
    then have k': "k' = fold (emit_fact current) fs (record_gap os (si_display_path current) code k2)" using r by simp
    have "\<not> B < length (si_extended_path current)" using long Enum_Partial by auto
    with emit_facts_lengths [of fs current "record_gap os (si_display_path current) code k2"] facts Enum_Partial k' k2
    show ?thesis by auto
  next
    case (Enum_OpenFailed code)
    then have "k' = k2 \<or> k' = record_gap os (si_display_path current) code k2" using r by (auto split: if_splits)
    then have "lengths k' = lengths k" using k2 by auto
    then show ?thesis by (intro exI [of _ "{#}"]) simp
  next
    case Enum_Cancelled
    then show ?thesis using r by simp
  qed
qed

definition weight :: "nat \<Rightarrow> walk \<Rightarrow> nat multiset" where
  "weight B k = image_mset (\<lambda>l. Suc B - l) (lengths k)"

lemma weight_decreases:
  assumes "lengths k' = M + lengths k" and "\<forall>n \<in># M. l < n" and "B < l \<longrightarrow> M = {#}"
    and "lengths k0 = add_mset l (lengths k)"
  shows "(weight B k', weight B k0) \<in> mult {(x, y). x < y}"
proof -
  have "(weight B k + image_mset (\<lambda>l. Suc B - l) M, weight B k + {# Suc B - l #}) \<in> mult {(x, y). x < y}"
    using assms(2,3) by (intro one_step_implies_mult) (auto simp: image_iff)
  then show ?thesis using assms(1,4) by (simp add: weight_def ac_simps)
qed

section \<open>The loop ends\<close>

lemma walk_loop_more: "walk_loop fuel os volume k = Some r \<Longrightarrow> fuel \<le> fuel' \<Longrightarrow> walk_loop fuel' os volume k = Some r"
proof (induction fuel arbitrary: k fuel')
  case 0
  then show ?case by (auto simp: walk_loop.simps split: list.splits)
next
  case (Suc fuel)
  then obtain fuel'' where f: "fuel' = Suc fuel''" "fuel \<le> fuel''" by (cases fuel') auto
  show ?case
  proof (cases "k_stack k")
    case Nil
    with Suc.prems(1) show ?thesis by (simp add: walk_loop.simps)
  next
    case (Cons current rest)
    let ?k = "k\<lparr>k_stack := rest, k_tick := Suc (k_tick k)\<rparr>"
    show ?thesis
    proof (cases "so_cancelled os (k_tick k)")
      case True
      with Suc.prems(1) Cons show ?thesis by (simp add: walk_loop.simps f(1))
    next
      case False
      obtain v where "visit_directory os volume current ?k = Some v"
        using Suc.prems(1) Cons False by (auto simp: walk_loop.simps bind_eq_Some_conv)
      then show ?thesis using Suc.prems(1) Suc.IH [OF _ f(2)] Cons False
        by (cases v) (simp_all add: walk_loop.simps [of "Suc fuel"] walk_loop.simps [of "Suc fuel''"] f(1))
    qed
  qed
qed

lemma walk_loop_ends:
  assumes os: "answers_end os" "names_found os" "path_limit B os"
  shows "\<exists>fuel r. walk_loop fuel os volume k = Some r"
proof -
  have "wf (mult {(x, y :: nat). x < y})" by (intro wf_mult wf)
  then show ?thesis
  proof (induction "weight B k" arbitrary: k rule: wf_induct_rule)
  case less
  show ?case
  proof (cases "k_stack k")
    case Nil
    then show ?thesis by (auto simp: walk_loop.simps)
  next
    case (Cons current rest)
    let ?k = "k\<lparr>k_stack := rest, k_tick := Suc (k_tick k)\<rparr>"
    have popped: "lengths k = add_mset (length (si_extended_path current)) (lengths ?k)"
      using Cons by (simp add: lengths_def)
    show ?thesis
    proof (cases "so_cancelled os (k_tick k)")
      case True
      with Cons show ?thesis by (intro exI [of _ 1]) (simp add: walk_loop.simps)
    next
      case False
      obtain c k1 where "choose_class os (si_extended_path current) ?k = (c, k1)" by fastforce
      moreover obtain e where "enumerate_by_class os volume c (si_extended_path current) (k_tick k1) = Some e"
        using enumerate_returns [OF os(1)] by blast
      ultimately obtain v where v: "visit_directory os volume current ?k = Some v"
        by (cases e) (simp add: visit_directory_def Let_def)
      show ?thesis
      proof (cases v)
        case (Inl k2)
        with v False Cons show ?thesis by (intro exI [of _ 1]) (simp add: walk_loop.simps)
      next
        case (Inr k2)
        obtain M where M: "lengths k2 = M + lengths ?k" "\<forall>n \<in># M. length (si_extended_path current) < n"
            "B < length (si_extended_path current) \<longrightarrow> M = {#}"
          using visit_directory_lengths [OF os(3,2) v [unfolded Inr]] by auto
        obtain fuel r where "walk_loop fuel os volume k2 = Some r"
          using less [OF weight_decreases [OF M popped]] by auto
        with v Inr False Cons show ?thesis by (intro exI [of _ "Suc fuel"]) (simp add: walk_loop.simps)
      qed
    qed
  qed
  qed
qed


section \<open>The scan ends\<close>

lemma utf16_lossy_ascii: "\<forall>u \<in> set us. u < 128 \<Longrightarrow> utf16_decode_lossy us = map unat us"
  by (induction us) (auto simp: word_less_nat_alt)

lemma utf8_encode_ascii: "(u :: u16) < 128 \<Longrightarrow> utf8_encode_char (unat u) = [word_of_nat (unat u)]"
  by (simp add: utf8_encode_char_def word_less_nat_alt)

lemma from_utf16_lossy_ascii:
  "\<forall>u \<in> set us. u < 128 \<Longrightarrow> from_utf16_lossy us = map (\<lambda>u. char_of (unat u)) us"
proof -
  assume a: "\<forall>u \<in> set us. u < 128"
  have "unat (word_of_nat (unat u) :: u8) = unat u" if "u < 128" for u :: u16
    using that unat_of_nat [where ?'a = 8, of "unat u"] by (simp add: word_less_nat_alt)
  then have "bytes_to_string (concat (map utf8_encode_char (map unat us))) = map (\<lambda>u. char_of (unat u)) us"
    using a by (induction us) (simp_all add: bytes_to_string_def utf8_encode_ascii)
  then show ?thesis using utf16_lossy_ascii [OF a] by (simp add: from_utf16_lossy_def)
qed

lemma ascii_wide:
  assumes "\<forall>u \<in> set us. u < 128"
  shows "\<forall>c \<in> set (wide_slice_to_string us). of_char c < (128 :: nat)"
proof -
  have a: "\<forall>u \<in> set (takeWhile (\<lambda>c. c \<noteq> 0) us). u < 128" using assms by (auto dest: set_takeWhileD)
  have "of_char (char_of (unat u) :: char) < (128 :: nat)" if "u < 128" for u :: u16
    using that by (simp add: word_less_nat_alt)
  then show ?thesis using a by (auto simp: wide_slice_to_string_def from_utf16_lossy_ascii [OF a])
qed

lemma guid_bytes_ascii:
  assumes "\<forall>c \<in> set hex. of_char c < (128 :: nat)" and "\<forall>i \<in> set is. i * 2 + 2 \<le> length hex"
  shows "guid_bytes hex is \<noteq> None"
proof -
  have "is_char_boundary hex i" if "i \<le> length hex" for i
  proof (cases "i = length hex")
    case False
    with that assms(1) have "of_char (hex ! i) < (128 :: nat)" by simp
    with that False show ?thesis by (simp add: is_char_boundary_def)
  qed (simp add: is_char_boundary_def)
  with assms(2) show ?thesis by (induction "is") (auto split: option.split)
qed

lemma parse_volume_guid_ascii:
  assumes "\<forall>c \<in> set name. of_char c < (128 :: nat)"
  shows "parse_volume_guid name \<noteq> None"
proof (cases "dropWhile (\<lambda>c. c \<noteq> CHR 0x7B) name")
  case Nil
  then show ?thesis unfolding parse_volume_guid_def Nil by simp
next
  case (Cons c rest)
  let ?hex = "filter (\<lambda>c. c \<noteq> CHR ''-'') (takeWhile (\<lambda>c. c \<noteq> CHR 0x7D) rest)"
  have "set rest \<subseteq> set name" using Cons by (metis set_dropWhileD set_subset_Cons subset_code(1) subset_trans)
  then have "\<forall>c \<in> set ?hex. of_char c < (128 :: nat)" using assms by (auto dest!: set_takeWhileD)
  then have "length ?hex = 32 \<Longrightarrow> guid_bytes ?hex [0..<16] \<noteq> None" by (rule guid_bytes_ascii) auto
  then show ?thesis unfolding parse_volume_guid_def Cons by (simp add: Let_def)
qed

lemma resolve_volume_context_returns:
  assumes "ascii_volumes os"
  shows "\<exists>v. resolve_volume_context (so_volume os) path = Some v"
proof (cases "vq_path_name (so_volume os) (to_wide_null path)")
  case None
  then show ?thesis by (simp add: resolve_volume_context_def)
next
  case (Some volume)
  have "parse_volume_guid (wide_slice_to_string name) \<noteq> None"
    if "vq_mount_point_name (so_volume os) volume = Some name" for name
    using assms that unfolding ascii_volumes_def by (intro parse_volume_guid_ascii ascii_wide) blast
  with Some show ?thesis
    by (fastforce simp: resolve_volume_context_def bind_eq_Some_conv split: option.split)
qed

lemma scan_walk_ends:
  assumes "ascii_volumes os" and "answers_end os" and "names_found os" and "path_limit B os"
  shows "\<exists>fuel0 r. \<forall>fuel \<ge> fuel0. scan_walk fuel os t = Some r"
proof (cases "so_cancelled os 0")
  case True
  then show ?thesis by (simp add: scan_walk_def)
next
  case False
  show ?thesis
  proof (cases "root_attributes os (vt_extended_path t)")
    case (Inl err)
    with False show ?thesis by (simp add: scan_walk_def)
  next
    case (Inr attrs)
    obtain volume where v: "resolve_volume_context (so_volume os) (vt_extended_path t) = Some volume"
      using resolve_volume_context_returns [OF assms(1)] by blast
    let ?k = "walk_root t attrs (root_evidence os volume (vt_extended_path t) (fst (snd attrs)))"
    obtain fuel0 r where "walk_loop fuel0 os volume ?k = Some r"
      using walk_loop_ends [OF assms(2-4)] by metis
    then have "\<forall>fuel \<ge> fuel0. walk_loop fuel os volume ?k = Some r" using walk_loop_more by blast
    then show ?thesis using False Inr v
      by (cases "has_attribute (fst attrs) FILE_ATTRIBUTE_DIRECTORY") (simp_all add: scan_walk_def del: split_paired_Ex, blast)
  qed
qed

end
