(* ===== verification/Union_Find.thy ===== *)
theory Union_Find
  imports Prelude "HOL-Library.Monad_Syntax"
begin

text \<open>
  The disjoint-set forest of \<^verbatim>\<open>GraphBuilder::compute_aggregates\<close>
  (\<^verbatim>\<open>crates/pigtree-engine/src/builder.rs\<close>): a vector of parent indices, \<open>find_uf\<close> with its two
  loops (walk to the root, then path compression), and the contract its client relies on. A
  result \<open>None\<close> stands for a loop that does not end or an index out of bounds (a panic).
\<close>

section \<open>The code\<close>

partial_function (option) uf_root :: "u32 list \<Rightarrow> nat \<Rightarrow> nat option" where
  "uf_root parent root =
     (if root < length parent
      then (if unat (parent ! root) \<noteq> root then uf_root parent (unat (parent ! root)) else Some root)
      else None)"

partial_function (option) uf_compress :: "nat \<Rightarrow> u32 list \<Rightarrow> nat \<Rightarrow> u32 list option" where
  "uf_compress root parent cur =
     (if cur \<noteq> root
      then (if cur < length parent
            then uf_compress root (parent[cur := word_of_nat root]) (unat (parent ! cur))
            else None)
      else Some parent)"

definition find_uf :: "u32 list \<Rightarrow> nat \<Rightarrow> (nat \<times> u32 list) option" where
  "find_uf parent i = do {
     root \<leftarrow> uf_root parent i;
     parent' \<leftarrow> uf_compress root parent i;
     Some (root, parent')
   }"

text \<open>\<open>uf_parent[root_c] = root_p as u32\<close>.\<close>

definition uf_link :: "u32 list \<Rightarrow> nat \<Rightarrow> nat \<Rightarrow> u32 list" where
  "uf_link parent root_c root_p = parent[root_c := word_of_nat root_p]"

text \<open>\<open>(0..n as u32).collect()\<close>.\<close>

definition uf_init :: "nat \<Rightarrow> u32 list" where
  "uf_init n = map word_of_nat [0..<n]"

section \<open>The contract\<close>

text \<open>
  A forest of \<open>size u\<close> elements: \<open>find\<close> returns the representative and leaves all
  representatives as they are, \<open>link\<close> puts one class under the representative of another.
\<close>

locale union_find =
  fixes find :: "'uf \<Rightarrow> nat \<Rightarrow> (nat \<times> 'uf) option"
    and link :: "'uf \<Rightarrow> nat \<Rightarrow> nat \<Rightarrow> 'uf"
    and rep :: "'uf \<Rightarrow> nat \<Rightarrow> nat"
    and size :: "'uf \<Rightarrow> nat"
    and invar :: "'uf \<Rightarrow> bool"
  assumes rep_bound: "invar u \<Longrightarrow> x < size u \<Longrightarrow> rep u x < size u"
    and rep_rep: "invar u \<Longrightarrow> x < size u \<Longrightarrow> rep u (rep u x) = rep u x"
    and find_ok: "invar u \<Longrightarrow> x < size u \<Longrightarrow>
      \<exists>u'. find u x = Some (rep u x, u') \<and> invar u' \<and> size u' = size u \<and> (\<forall>y < size u. rep u' y = rep u y)"
    and link_ok: "invar u \<Longrightarrow> c < size u \<Longrightarrow> p < size u \<Longrightarrow> rep u c = c \<Longrightarrow> rep u p = p \<Longrightarrow> c \<noteq> p \<Longrightarrow>
      invar (link u c p) \<and> size (link u c p) = size u \<and>
      (\<forall>y < size u. rep (link u c p) y = (if rep u y = c then p else rep u y))"
begin

text \<open>
  The client merges the class of \<open>c\<close> into that of \<open>p\<close> and labels the result: every class has
  one label, different classes have different labels. The label of an element is \<open>label\<close>.
\<close>

definition merge :: "'uf \<Rightarrow> 'l list \<Rightarrow> nat \<Rightarrow> nat \<Rightarrow> 'l \<Rightarrow> ('uf \<times> 'l list) option" where
  "merge u labels c p l = do {
     (root_p, u) \<leftarrow> find u p;
     (root_c, u) \<leftarrow> find u c;
     Some (link u root_c root_p, labels[root_p := l])
   }"

definition label :: "'uf \<Rightarrow> 'l list \<Rightarrow> nat \<Rightarrow> 'l" where
  "label u labels x = labels ! rep u x"

definition labelled :: "'uf \<Rightarrow> 'l list \<Rightarrow> bool" where
  "labelled u labels \<longleftrightarrow> invar u \<and> length labels = size u \<and>
     (\<forall>x < size u. \<forall>y < size u. label u labels x = label u labels y \<longrightarrow> rep u x = rep u y)"

lemma labelled_find:
  assumes "labelled u labels" and "x < size u"
  obtains u' where "find u x = Some (rep u x, u')" and "labelled u' labels" and "size u' = size u"
    and "\<And>y. y < size u \<Longrightarrow> rep u' y = rep u y"
    and "\<And>y. y < size u \<Longrightarrow> label u' labels y = label u labels y"
proof -
  from assms have u: "invar u" by (simp add: labelled_def)
  from find_ok [OF u assms(2)] obtain u' where u': "find u x = Some (rep u x, u')" "invar u'"
    "size u' = size u" and same: "\<And>y. y < size u \<Longrightarrow> rep u' y = rep u y" by blast
  have lbl: "label u' labels y = label u labels y" if "y < size u" for y
    using same that by (simp add: label_def)
  have "labelled u' labels"
    using assms(1) u'(2,3) same lbl unfolding labelled_def by metis
  from that [OF u'(1) this u'(3) same lbl] show ?thesis .
qed

text \<open>
  Merging relabels exactly the class of \<open>c\<close>, when \<open>p\<close>'s class already carries the label
  \<open>l\<close>. This is the step Tarjan's algorithm makes when it leaves a node.
\<close>

lemma merge_ok:
  assumes lab: "labelled u labels" and c: "c < size u" and p: "p < size u"
    and diff: "label u labels c \<noteq> label u labels p" and l: "label u labels p = l"
  shows "\<exists>u' labels'. merge u labels c p l = Some (u', labels') \<and> labelled u' labels' \<and> size u' = size u \<and>
    (\<forall>y < size u. label u' labels' y = (if label u labels y = label u labels c then l else label u labels y))"
proof -
  obtain u1 where u1: "find u p = Some (rep u p, u1)" "labelled u1 labels" "size u1 = size u"
    and r1: "\<And>y. y < size u \<Longrightarrow> rep u1 y = rep u y"
    using labelled_find [OF lab p] by metis
  obtain u2 where u2: "find u1 c = Some (rep u1 c, u2)" "labelled u2 labels" "size u2 = size u"
    and r2: "\<And>y. y < size u \<Longrightarrow> rep u2 y = rep u y"
    using labelled_find [OF u1(2), of c] c u1(3) r1 by metis
  let ?c = "rep u c" and ?p = "rep u p"
  have ne: "?c \<noteq> ?p" using diff by (auto simp: label_def)
  have inv: "invar u" "invar u2" and len: "length labels = size u"
    using lab u2(2) by (simp_all add: labelled_def)
  have b: "?c < size u" "?p < size u" using rep_bound inv(1) c p by blast+
  have "rep u2 ?c = ?c" "rep u2 ?p = ?p" using r2 b rep_rep inv(1) c p by simp_all
  with link_ok [OF inv(2), of ?c ?p] b ne u2(3) r2
  have lk: "invar (link u2 ?c ?p)" "size (link u2 ?c ?p) = size u"
    and rl: "\<And>y. y < size u \<Longrightarrow> rep (link u2 ?c ?p) y = (if rep u y = ?c then ?p else rep u y)"
    by auto
  have cls: "label u labels y = label u labels z \<longleftrightarrow> rep u y = rep u z"
    if "y < size u" "z < size u" for y z
    using lab that by (auto simp: labelled_def label_def)
  have res: "label (link u2 ?c ?p) (labels[?p := l]) y
      = (if label u labels y = label u labels c then l else label u labels y)" if "y < size u" for y
    using that l rl [OF that] b len cls [OF that c] by (auto simp: label_def)
  have "labelled (link u2 ?c ?p) (labels[?p := l])"
    unfolding labelled_def lk(2)
  proof (intro conjI allI impI)
    fix y z assume yz: "y < size u" "z < size u"
      and "label (link u2 ?c ?p) (labels[?p := l]) y = label (link u2 ?c ?p) (labels[?p := l]) z"
    then show "rep (link u2 ?c ?p) y = rep (link u2 ?c ?p) z"
      using cls c p l by (auto simp: rl res split: if_splits)
  qed (use lk len in simp_all)
  moreover have "merge u labels c p l = Some (link u2 ?c ?p, labels[?p := l])"
    using u1(1) u2(1) r1 c by (simp add: merge_def)
  ultimately show ?thesis using res lk(2) by blast
qed

end

section \<open>The code keeps the contract\<close>

text \<open>A height that falls along every parent edge: there are no cycles.\<close>

definition uf_height :: "(nat \<Rightarrow> nat) \<Rightarrow> u32 list \<Rightarrow> bool" where
  "uf_height h u \<longleftrightarrow> length u \<le> 2 ^ 32 \<and>
     (\<forall>i < length u. unat (u ! i) < length u \<and> (unat (u ! i) \<noteq> i \<longrightarrow> h (unat (u ! i)) < h i))"

definition uf_invar :: "u32 list \<Rightarrow> bool" where
  "uf_invar u \<longleftrightarrow> (\<exists>h. uf_height h u)"

definition uf_rep :: "u32 list \<Rightarrow> nat \<Rightarrow> nat" where
  "uf_rep u i = the (uf_root u i)"

lemma uf_root_Some:
  assumes "uf_height h u" and "i < length u"
  shows "\<exists>r. uf_root u i = Some r \<and> r < length u \<and> unat (u ! r) = r"
  using assms(2)
proof (induction "h i" arbitrary: i rule: less_induct)
  case less
  show ?case
  proof (cases "unat (u ! i) = i")
    case True
    with less.prems show ?thesis by (subst uf_root.simps) simp
  next
    case False
    with assms(1) less.prems have "h (unat (u ! i)) < h i" "unat (u ! i) < length u"
      by (auto simp: uf_height_def)
    with less.hyps [OF this] False less.prems show ?thesis by (subst uf_root.simps) simp
  qed
qed

lemma uf_rep_root [simp]: "i < length u \<Longrightarrow> unat (u ! i) = i \<Longrightarrow> uf_rep u i = i"
  by (simp add: uf_rep_def uf_root.simps)

lemma uf_rep_step:
  "uf_height h u \<Longrightarrow> i < length u \<Longrightarrow> uf_rep u i = uf_rep u (unat (u ! i))"
  by (cases "unat (u ! i) = i") (simp_all add: uf_rep_def uf_root.simps [of u i])

lemma uf_root_rep: "uf_height h u \<Longrightarrow> i < length u \<Longrightarrow> uf_root u i = Some (uf_rep u i)"
  by (auto simp: uf_rep_def dest: uf_root_Some)

lemma uf_rep_bound: "uf_height h u \<Longrightarrow> i < length u \<Longrightarrow> uf_rep u i < length u"
  by (auto simp: uf_rep_def dest: uf_root_Some)

lemma uf_rep_is_root: "uf_height h u \<Longrightarrow> i < length u \<Longrightarrow> unat (u ! uf_rep u i) = uf_rep u i"
  by (auto simp: uf_rep_def dest: uf_root_Some)

lemma uf_rep_height: "uf_height h u \<Longrightarrow> i < length u \<Longrightarrow> uf_rep u i \<noteq> i \<Longrightarrow> h (uf_rep u i) < h i"
proof (induction "h i" arbitrary: i rule: less_induct)
  case less
  let ?j = "unat (u ! i)"
  from less.prems have "?j \<noteq> i" by auto
  with less.prems have j: "h ?j < h i" "?j < length u" by (auto simp: uf_height_def)
  moreover have "uf_rep u i = uf_rep u ?j" using less.prems by (blast intro: uf_rep_step)
  ultimately show ?case using less.hyps [OF j(1) less.prems(1) j(2)] by fastforce
qed

lemma unat_index: "length u \<le> 2 ^ 32 \<Longrightarrow> i < length u \<Longrightarrow> unat (word_of_nat i :: u32) = i"
  by (simp add: unat_of_nat)

text \<open>One step of path compression changes no representative and keeps the same height.\<close>

lemma uf_compress_step:
  assumes u: "uf_height h u" and c: "c < length u" and "uf_rep u c \<noteq> c"
  defines "v \<equiv> u[c := word_of_nat (uf_rep u c)]"
  shows "uf_height h v" and "x < length u \<Longrightarrow> uf_rep v x = uf_rep u x"
proof -
  have b: "uf_rep u c < length u" and hc: "h (uf_rep u c) < h c"
    using u c assms(3) by (auto intro: uf_rep_bound uf_rep_height)
  have len: "length u \<le> 2 ^ 32" using u by (simp add: uf_height_def)
  have r: "unat (word_of_nat (uf_rep u c) :: u32) = uf_rep u c"
    using unat_index [OF len b] .
  have vc: "unat (v ! c) = uf_rep u c" and vx: "\<And>x. x \<noteq> c \<Longrightarrow> v ! x = u ! x"
    using c r by (simp_all add: v_def)
  show hv: "uf_height h v"
    unfolding uf_height_def
  proof (intro conjI allI impI)
    show "length v \<le> 2 ^ 32" using len by (simp add: v_def)
    fix i assume i: "i < length v"
    then have iu: "i < length u" by (simp add: v_def)
    show "unat (v ! i) < length v"
      using iu vc vx [of i] b u by (cases "i = c") (auto simp: uf_height_def v_def)
    show "h (unat (v ! i)) < h i" if "unat (v ! i) \<noteq> i"
      using that iu vc vx [of i] hc u by (cases "i = c") (auto simp: uf_height_def)
  qed
  show "uf_rep v x = uf_rep u x" if "x < length u"
    using that
  proof (induction "h x" arbitrary: x rule: less_induct)
    case less
    have lv: "x < length v" using less.prems by (simp add: v_def)
    show ?case
    proof (cases "x = c")
      case True
      have "uf_rep v (uf_rep u c) = uf_rep u c"
        using b uf_rep_is_root [OF u c] assms(3) by (intro uf_rep_root) (simp_all add: v_def)
      then show ?thesis using uf_rep_step [OF hv lv] True vc by simp
    next
      case False
      show ?thesis
      proof (cases "unat (u ! x) = x")
        case True
        then show ?thesis using vx [OF False] less.prems lv by simp
      next
        case ne: False
        then have "h (unat (u ! x)) < h x" "unat (u ! x) < length u"
          using u less.prems by (auto simp: uf_height_def)
        then show ?thesis
          using less.hyps uf_rep_step [OF hv lv] uf_rep_step [OF u less.prems] vx [OF False] by simp
      qed
    qed
  qed
qed

lemma uf_compress_ok:
  assumes "uf_height h u" and "c < length u" and "uf_rep u c = r"
  shows "\<exists>v. uf_compress r u c = Some v \<and> uf_height h v \<and> length v = length u \<and>
    (\<forall>x < length u. uf_rep v x = uf_rep u x)"
  using assms
proof (induction "h c" arbitrary: u c rule: less_induct)
  case less
  show ?case
  proof (cases "c = r")
    case True
    with less.prems show ?thesis by (subst uf_compress.simps) simp
  next
    case False
    let ?v = "u[c := word_of_nat r]"
    from False less.prems have hv: "uf_height h ?v"
      and rv: "\<And>x. x < length u \<Longrightarrow> uf_rep ?v x = uf_rep u x"
      using uf_compress_step [of h u c] by auto
    let ?j = "unat (u ! c)"
    have "?j \<noteq> c" using False less.prems by auto
    then have j: "h ?j < h c" "?j < length u" using less.prems by (auto simp: uf_height_def)
    have "uf_rep ?v ?j = r" using rv [OF j(2)] uf_rep_step [OF less.prems(1,2)] less.prems(3) by simp
    with less.hyps [OF j(1) hv] j(2) rv False less.prems(2) show ?thesis
      by (subst uf_compress.simps) auto
  qed
qed

lemma uf_find_ok:
  assumes "uf_invar u" and "x < length u"
  shows "\<exists>v. find_uf u x = Some (uf_rep u x, v) \<and> uf_invar v \<and> length v = length u \<and>
    (\<forall>y < length u. uf_rep v y = uf_rep u y)"
proof -
  from assms(1) obtain h where "uf_height h u" by (auto simp: uf_invar_def)
  then show ?thesis
    using uf_compress_ok [of h u x] assms(2) uf_root_rep [of h u x]
    by (force simp: find_uf_def uf_invar_def)
qed

lemma uf_link_ok:
  assumes "uf_invar u" and c: "c < length u" and p: "p < length u"
    and rc: "uf_rep u c = c" and rp: "uf_rep u p = p" and ne: "c \<noteq> p"
  shows "uf_invar (uf_link u c p) \<and> length (uf_link u c p) = length u \<and>
    (\<forall>y < length u. uf_rep (uf_link u c p) y = (if uf_rep u y = c then p else uf_rep u y))"
proof -
  from assms(1) obtain h where h: "uf_height h u" by (auto simp: uf_invar_def)
  let ?v = "uf_link u c p"
  let ?h = "\<lambda>x. if uf_rep u x = c then h x + h p + 1 else h x"
  have len: "length u \<le> 2 ^ 32" using h by (simp add: uf_height_def)
  have vc: "unat (?v ! c) = p" and vx: "\<And>x. x \<noteq> c \<Longrightarrow> ?v ! x = u ! x"
    using c unat_index [OF len p] by (simp_all add: uf_link_def)
  have root_p: "unat (u ! p) = p" using uf_rep_is_root [OF h p] rp by simp
  have hv: "uf_height ?h ?v"
    unfolding uf_height_def
  proof (intro conjI allI impI)
    show "length ?v \<le> 2 ^ 32" using len by (simp add: uf_link_def)
    fix i assume "i < length ?v"
    then have i: "i < length u" by (simp add: uf_link_def)
    show "unat (?v ! i) < length ?v"
      using i vc vx p h by (cases "i = c") (auto simp: uf_height_def uf_link_def)
    assume n: "unat (?v ! i) \<noteq> i"
    show "?h (unat (?v ! i)) < ?h i"
    proof (cases "i = c")
      case True
      then show ?thesis using vc rc rp ne by simp
    next
      case False
      then have "h (unat (u ! i)) < h i" using n vx h i by (simp add: uf_height_def)
      moreover have "uf_rep u (unat (u ! i)) = uf_rep u i" using uf_rep_step [OF h i] by simp
      ultimately show ?thesis using vx [OF False] by simp
    qed
  qed
  have "uf_rep ?v y = (if uf_rep u y = c then p else uf_rep u y)" if "y < length u" for y
    using that
  proof (induction "h y" arbitrary: y rule: less_induct)
    case less
    have lv: "y < length ?v" using less.prems by (simp add: uf_link_def)
    have pv: "uf_rep ?v p = p"
      using p vx [of p] ne root_p by (intro uf_rep_root) (simp_all add: uf_link_def)
    show ?case
    proof (cases "y = c")
      case True
      then show ?thesis using uf_rep_step [OF hv lv] vc pv rc by simp
    next
      case False
      show ?thesis
      proof (cases "unat (u ! y) = y")
        case True
        then show ?thesis using vx [OF False] less.prems lv False by simp
      next
        case ne: False
        then have "h (unat (u ! y)) < h y" "unat (u ! y) < length u"
          using h less.prems by (auto simp: uf_height_def)
        then show ?thesis
          using less.hyps uf_rep_step [OF hv lv] uf_rep_step [OF h less.prems] vx [OF False] by simp
      qed
    qed
  qed
  then show ?thesis using hv by (auto simp: uf_invar_def uf_link_def)
qed

interpretation uf: union_find find_uf uf_link uf_rep length uf_invar
proof
  fix u x assume u: "uf_invar u" and x: "x < length u"
  then obtain h where h: "uf_height h u" by (auto simp: uf_invar_def)
  show "uf_rep u x < length u" using h x by (rule uf_rep_bound)
  show "uf_rep u (uf_rep u x) = uf_rep u x"
    using uf_rep_is_root [OF h x] uf_rep_bound [OF h x] by simp
qed (use uf_find_ok uf_link_ok in blast)+

lemma uf_init_ok:
  assumes "n \<le> 2 ^ 32"
  shows "uf_invar (uf_init n)" "length (uf_init n) = n" "x < n \<Longrightarrow> uf_rep (uf_init n) x = x"
proof -
  have nth: "unat (uf_init n ! i) = i" if "i < n" for i
    using that assms by (simp add: uf_init_def unat_of_nat)
  show len: "length (uf_init n) = n" by (simp add: uf_init_def)
  have "uf_height (\<lambda>_. 0) (uf_init n)"
    using assms nth len by (auto simp: uf_height_def)
  then show "uf_invar (uf_init n)" by (auto simp: uf_invar_def)
  show "uf_rep (uf_init n) x = x" if "x < n"
    using nth [OF that] len that by simp
qed

end
