(* ===== verification/Aggregates.thy ===== *)
theory Aggregates
  imports Builder Union_Find
begin

text \<open>
  \<open>GraphBuilder::compute_aggregates\<close>, \<open>finish\<close> and the reading loop
  (\<^verbatim>\<open>crates/pigtree-engine/src/builder.rs\<close>). The result of a step is \<open>None\<close> where the code
  would panic (an index out of bounds, a checked operation that fails, a violated assertion) or
  not return. The order in which a hash map is iterated is a parameter, and so is the
  Unicode-aware \<open>str::to_lowercase\<close>.
\<close>

section \<open>Phase 1: objects\<close>

text \<open>Link evidence of one object: the resolved count, whether counts disagree, the first count.\<close>

definition link_step :: "(u32 \<Rightarrow> u32 value_knowledge option)
    \<Rightarrow> u32 value_knowledge \<times> bool \<times> u32 option \<Rightarrow> u32 \<Rightarrow> u32 value_knowledge \<times> bool \<times> u32 option" where
  "link_step file_link_counts acc eid =
     (let (resolved_link, has_link_conflict, first_known_link) = acc;
          link = (case file_link_counts eid of None \<Rightarrow> NotObserved | Some l \<Rightarrow> l)
      in case link of
          Known k \<Rightarrow>
            (case first_known_link of
               None \<Rightarrow> (Known k, has_link_conflict, Some k)
             | Some prev \<Rightarrow> (resolved_link, has_link_conflict \<or> prev \<noteq> k, first_known_link))
        | Unavailable \<Rightarrow>
            (if first_known_link = None then (Unavailable, has_link_conflict, first_known_link) else acc)
        | NotApplicable \<Rightarrow>
            (if first_known_link = None \<and> resolved_link \<noteq> Unavailable
             then (NotApplicable, has_link_conflict, first_known_link) else acc)
        | NotObserved \<Rightarrow> acc)"

definition resolve_links :: "(u32 \<Rightarrow> u32 value_knowledge option) \<Rightarrow> u32 list
    \<Rightarrow> u32 value_knowledge \<times> bool \<times> u32 option" where
  "resolve_links file_link_counts eids =
     foldl (link_step file_link_counts) (NotObserved, False, None) eids"

text \<open>\<open>(id - 1) as usize\<close> or \<open>self.id_to_idx[&id] as usize\<close>.\<close>

definition entry_index :: "graph_builder \<Rightarrow> u32 \<Rightarrow> nat option" where
  "entry_index self eid =
     (if b_is_dense self then Some (unat (eid - 1)) else map_option unat (b_id_to_idx self eid))"

definition entry_at :: "graph_builder \<Rightarrow> u32 \<Rightarrow> compact_entry option" where
  "entry_at self eid = Option.bind (entry_index self eid) (get_at (b_entries self))"

definition update_entry :: "(compact_entry \<Rightarrow> compact_entry) \<Rightarrow> graph_builder \<Rightarrow> u32 \<Rightarrow> graph_builder option" where
  "update_entry f self eid = do {
     e_idx \<leftarrow> entry_index self eid;
     entry \<leftarrow> get_at (b_entries self) e_idx;
     Some (self\<lparr>b_entries := (b_entries self)[e_idx := f entry]\<rparr>)
   }"

text \<open>Allocation evidence of one object: the smallest, whether they disagree, the first.\<close>

definition alloc_step :: "graph_builder \<Rightarrow> u64 option \<times> bool \<times> u64 option \<Rightarrow> u32
    \<Rightarrow> (u64 option \<times> bool \<times> u64 option) option" where
  "alloc_step self acc eid = do {
     entry \<leftarrow> entry_at self eid;
     let (min_alloc, has_alloc_conflict, first_alloc) = acc;
     Some (case c_allocated_size entry of
        None \<Rightarrow> acc
      | Some alloc \<Rightarrow>
          (Some (case min_alloc of None \<Rightarrow> alloc | Some m \<Rightarrow> min m alloc),
           has_alloc_conflict \<or> (case first_alloc of None \<Rightarrow> False | Some prev \<Rightarrow> prev \<noteq> alloc),
           case first_alloc of None \<Rightarrow> Some alloc | Some prev \<Rightarrow> first_alloc))
   }"

record aggregation =
  ag_self :: graph_builder
  ag_objects :: "object_record list"
  ag_indeterminate :: u64

definition normalize_object :: "aggregation \<Rightarrow> object_identity \<times> u32 list \<Rightarrow> aggregation option" where
  "normalize_object ag obj = do {
     let (oid, eids) = obj;
     let self = ag_self ag;
     let observed_count = word_of_nat (length eids);
     let (resolved_link, has_link_conflict, _) = resolve_links (b_file_link_counts self) eids;
     let status = (if has_link_conflict then InconsistentEvidence else derive resolved_link observed_count);
     (min_alloc, has_alloc_conflict, _) \<leftarrow> fold_opt (alloc_step self) (None, False, None) eids;
     self \<leftarrow> (if has_alloc_conflict
       then map_option (\<lambda>self. self\<lparr>b_allocated_bytes_known := False\<rparr>)
              (fold_opt (update_entry (\<lambda>e. e\<lparr>c_allocated_size_known := False\<rparr>)) self eids)
       else Some self);
     let obj_idx = word_of_nat (length (ag_objects ag));
     self \<leftarrow> fold_opt (update_entry (\<lambda>e. e\<lparr>c_object_index := obj_idx\<rparr>)) self eids;
     Some \<lparr>ag_self = self,
           ag_objects = ag_objects ag @
             [\<lparr>o_identity = Some oid, o_observed_alias_count = observed_count,
               o_total_link_count = resolved_link, o_external_reference_status = status,
               o_weight = (case min_alloc of None \<Rightarrow> 0 | Some w \<Rightarrow> w)\<rparr>],
           ag_indeterminate = (if status = Indeterminate then ag_indeterminate ag + 1 else ag_indeterminate ag)\<rparr>
   }"

definition normalize_directory :: "aggregation \<Rightarrow> u32 \<times> object_identity \<Rightarrow> aggregation option" where
  "normalize_directory ag dir = do {
     let (eid, oid) = dir;
     let obj_idx = word_of_nat (length (ag_objects ag));
     self \<leftarrow> update_entry (\<lambda>e. e\<lparr>c_object_index := obj_idx\<rparr>) (ag_self ag) eid;
     Some (ag\<lparr>ag_self := self,
              ag_objects := ag_objects ag @
                [\<lparr>o_identity = Some oid, o_observed_alias_count = 1,
                  o_total_link_count = NotApplicable,
                  o_external_reference_status = StatusNotApplicable, o_weight = 0\<rparr>]\<rparr>)
   }"

text \<open>Files without an observed identity, at the position \<open>i\<close>.\<close>

definition normalize_identityless :: "aggregation \<Rightarrow> nat \<Rightarrow> aggregation option" where
  "normalize_identityless ag i = do {
     let self = ag_self ag;
     entry \<leftarrow> get_at (b_entries self) i;
     if c_kind entry = File \<and> c_object_index entry = NO_OBJECT
     then do {
       let link = (case b_file_link_counts self (c_id entry) of None \<Rightarrow> NotObserved | Some l \<Rightarrow> l);
       let status = derive link 1;
       let ag = (if status = Indeterminate then ag\<lparr>ag_indeterminate := ag_indeterminate ag + 1\<rparr> else ag);
       if link \<noteq> NotObserved
       then Some (ag\<lparr>ag_self := self\<lparr>b_entries := (b_entries self)[i :=
                         entry\<lparr>c_object_index := word_of_nat (length (ag_objects ag))\<rparr>]\<rparr>,
                     ag_objects := ag_objects ag @
                       [\<lparr>o_identity = None, o_observed_alias_count = 1, o_total_link_count = link,
                         o_external_reference_status = status,
                         o_weight = (case c_allocated_size entry of None \<Rightarrow> 0 | Some a \<Rightarrow> a)\<rparr>]\<rparr>)
       else Some ag
     }
     else Some ag
   }"

definition attribute_stream :: "graph_builder \<Rightarrow> nat \<times> stream_breakdown \<Rightarrow> graph_builder option" where
  "attribute_stream self pending = do {
     let (entry_idx, breakdown) = pending;
     entry \<leftarrow> get_at (b_entries self) entry_idx;
     let object_index = c_object_index entry;
     Some (if object_index \<noteq> NO_OBJECT
       then self\<lparr>b_object_streams := (b_object_streams self)(object_index \<mapsto>
              (case b_object_streams self object_index of None \<Rightarrow> [] | Some ss \<Rightarrow> ss) @ [breakdown])\<rparr>
       else self)
   }"

definition resolve_objects :: "((object_identity \<times> u32 list) list \<Rightarrow> (object_identity \<times> u32 list) list)
    \<Rightarrow> ((u32 \<times> object_identity) list \<Rightarrow> (u32 \<times> object_identity) list)
    \<Rightarrow> graph_builder \<Rightarrow> aggregation option" where
  "resolve_objects files_order dirs_order self = do {
     let file_object_map = files_order (b_file_object_map self);
     let dir_object_ids = dirs_order (b_dir_object_ids self);
     let pending_streams = b_pending_streams self;
     let self = self\<lparr>b_file_object_map := [], b_dir_object_ids := [], b_pending_streams := []\<rparr>;
     ag \<leftarrow> fold_opt normalize_object
       \<lparr>ag_self = self, ag_objects = [], ag_indeterminate = 0\<rparr> file_object_map;
     ag \<leftarrow> fold_opt normalize_directory ag dir_object_ids;
     ag \<leftarrow> fold_opt normalize_identityless ag [0..<length (b_entries self)];
     self \<leftarrow> fold_opt attribute_stream (ag_self ag) pending_streams;
     Some (ag\<lparr>ag_self := self\<rparr>)
   }"

section \<open>Phase 2: the traversal\<close>

text \<open>The working vectors of the traversal; the stack is listed top first.\<close>

record dfs =
  t_stack :: "(nat \<times> u32) list"
  t_visited :: "bool list"
  t_uf_parent :: "u32 list"
  t_ancestor :: "u32 list"
  t_delta :: "int list"
  t_post_order :: "nat list"
  t_last_occurrence :: "nat option list"

text \<open>
  A file alias of a weighted object seen before: the weight is taken back at the lowest common
  ancestor of this occurrence and the previous one.
\<close>

definition record_occurrence :: "graph_builder \<Rightarrow> object_record list \<Rightarrow> nat \<Rightarrow> dfs \<Rightarrow> dfs option" where
  "record_occurrence self objects cur st = do {
     compact \<leftarrow> get_at (b_entries self) cur;
     if c_kind compact = File \<and> c_object_index compact \<noteq> NO_OBJECT
     then do {
       let obj_idx = unat (c_object_index compact);
       obj \<leftarrow> get_at objects obj_idx;
       let weight = o_weight obj;
       if weight > 0
       then do {
         occurrence \<leftarrow> get_at (t_last_occurrence st) obj_idx;
         st \<leftarrow> (case occurrence of
             None \<Rightarrow> Some st
           | Some prev_idx \<Rightarrow> do {
               (rep, uf_parent) \<leftarrow> find_uf (t_uf_parent st) prev_idx;
               lca \<leftarrow> get_at (t_ancestor st) rep;
               let lca_idx = unat lca;
               delta \<leftarrow> get_at (t_delta st) lca_idx;
               delta \<leftarrow> i128 (delta - uint weight);
               tree_delta \<leftarrow> set_at (t_delta st) lca_idx delta;
               Some (st\<lparr>t_uf_parent := uf_parent, t_delta := tree_delta\<rparr>)
             });
         last_occurrence \<leftarrow> set_at (t_last_occurrence st) obj_idx (Some cur);
         Some (st\<lparr>t_last_occurrence := last_occurrence\<rparr>)
       }
       else Some st
     }
     else Some st
   }"

text \<open>The subtree just finished joins the set of its parent, if there is one on the stack.\<close>

definition join_parent :: "nat \<Rightarrow> dfs \<Rightarrow> dfs option" where
  "join_parent cur st = (case t_stack st of
     [] \<Rightarrow> Some st
   | (parent_idx, _) # _ \<Rightarrow> do {
       (root_p, uf_parent) \<leftarrow> find_uf (t_uf_parent st) parent_idx;
       (root_c, uf_parent) \<leftarrow> find_uf uf_parent cur;
       ancestor \<leftarrow> set_at (t_ancestor st) root_p (word_of_nat parent_idx);
       Some (st\<lparr>t_uf_parent := uf_link uf_parent root_c root_p, t_ancestor := ancestor\<rparr>)
     })"

definition traverse_step :: "graph_builder \<Rightarrow> object_record list \<Rightarrow> nat \<Rightarrow> u32 \<Rightarrow> (nat \<times> u32) list \<Rightarrow> dfs \<Rightarrow> dfs option" where
  "traverse_step self objects cur next_child rest st =
     (if next_child \<noteq> u32_max
      then do {
        let child = unat next_child;
        sibling \<leftarrow> get_at (b_next_sibling self) child;
        seen \<leftarrow> get_at (t_visited st) child;
        if \<not> seen
        then do {
          first \<leftarrow> get_at (b_first_child self) child;
          Some (st\<lparr>t_stack := (child, first) # (cur, sibling) # rest,
                   t_visited := (t_visited st)[child := True]\<rparr>)
        }
        else Some (st\<lparr>t_stack := (cur, sibling) # rest\<rparr>)
      }
      else do {
        st \<leftarrow> record_occurrence self objects cur (st\<lparr>t_stack := rest\<rparr>);
        join_parent cur (st\<lparr>t_post_order := t_post_order st @ [cur]\<rparr>)
      })"

partial_function (option) traverse :: "graph_builder \<Rightarrow> object_record list \<Rightarrow> dfs \<Rightarrow> dfs option" where
  "traverse self objects st = (case t_stack st of
     [] \<Rightarrow> Some st
   | (cur, next_child) # rest \<Rightarrow>
       Option.bind (traverse_step self objects cur next_child rest st) (traverse self objects))"

definition start_at :: "graph_builder \<Rightarrow> object_record list \<Rightarrow> nat \<Rightarrow> dfs \<Rightarrow> dfs option" where
  "start_at self objects i st = do {
     visited \<leftarrow> set_at (t_visited st) i True;
     first \<leftarrow> get_at (b_first_child self) i;
     traverse self objects (st\<lparr>t_visited := visited, t_stack := (i, first) # t_stack st\<rparr>)
   }"

definition dfs_init :: "nat \<Rightarrow> nat \<Rightarrow> dfs" where
  "dfs_init n objects_len =
     \<lparr>t_stack = [], t_visited = replicate n False, t_uf_parent = uf_init n,
      t_ancestor = map word_of_nat [0..<n], t_delta = replicate n 0, t_post_order = [],
      t_last_occurrence = replicate objects_len None\<rparr>"

text \<open>From the root, then from every entry the root does not reach.\<close>

definition traverse_all :: "graph_builder \<Rightarrow> object_record list \<Rightarrow> dfs option" where
  "traverse_all self objects = do {
     let n = length (b_entries self);
     st \<leftarrow> start_at self objects 0 (dfs_init n (length objects));
     if length (t_post_order st) < n
     then fold_opt (\<lambda>st i. do {
            seen \<leftarrow> get_at (t_visited st) i;
            if \<not> seen then start_at self objects i st else Some st
          }) st [0..<n]
     else Some st
   }"

section \<open>Phases 3 and 4: sizes\<close>

definition set_leaf_unique :: "object_record list \<Rightarrow> graph_builder \<Rightarrow> nat \<Rightarrow> graph_builder option" where
  "set_leaf_unique objects self idx = do {
     compact \<leftarrow> get_at (b_entries self) idx;
     if c_kind compact = File then
       (if c_object_index compact \<noteq> NO_OBJECT
        then do {
          obj \<leftarrow> get_at objects (unat (c_object_index compact));
          Some (self\<lparr>b_entries := (b_entries self)[idx := compact\<lparr>c_unique_allocated_bytes := o_weight obj\<rparr>]\<rparr>)
        }
        else Some (self\<lparr>b_entries := (b_entries self)[idx := compact\<lparr>c_unique_allocated_bytes :=
               (case c_allocated_size compact of None \<Rightarrow> 0 | Some a \<Rightarrow> a)\<rparr>]\<rparr>))
     else if c_kind compact = Special then
       Some (self\<lparr>b_entries := (b_entries self)[idx := compact\<lparr>c_unique_allocated_bytes := 0\<rparr>]\<rparr>)
     else Some self
   }"

text \<open>The running sums over a directory's children.\<close>

record child_sums =
  cs_logical :: u64
  cs_referenced :: u64
  cs_known_subtotal :: u64
  cs_unique :: int
  cs_all_known :: bool

definition add_child :: "compact_entry \<Rightarrow> child_sums \<Rightarrow> child_sums option" where
  "add_child child sums = do {
     child_unique_sum \<leftarrow> i128 (cs_unique sums + uint (c_unique_allocated_bytes child));
     Some \<lparr>cs_logical = saturating_add (cs_logical sums) (case c_logical_size child of None \<Rightarrow> 0 | Some l \<Rightarrow> l),
           cs_referenced = saturating_add (cs_referenced sums) (c_referenced_allocated_bytes child),
           cs_known_subtotal = saturating_add (cs_known_subtotal sums) (c_known_subtotal_allocated_bytes child),
           cs_unique = child_unique_sum,
           cs_all_known = (cs_all_known sums \<and> c_allocated_size_known child
             \<and> \<not> (c_kind child = File \<and> c_allocated_size child = None))\<rparr>
   }"

partial_function (option) sum_children :: "graph_builder \<Rightarrow> u32 \<Rightarrow> child_sums \<Rightarrow> child_sums option" where
  "sum_children self c sums =
     (if c \<noteq> u32_max
      then do {
        child \<leftarrow> get_at (b_entries self) (unat c);
        sums \<leftarrow> add_child child sums;
        sibling \<leftarrow> get_at (b_next_sibling self) (unat c);
        sum_children self sibling sums
      }
      else Some sums)"

definition aggregate_directory :: "int list \<Rightarrow> graph_builder \<Rightarrow> nat \<Rightarrow> graph_builder option" where
  "aggregate_directory tree_delta self idx = do {
     entry \<leftarrow> get_at (b_entries self) idx;
     if c_kind entry \<noteq> Directory then Some self
     else do {
       self_alloc \<leftarrow> get_at (b_dir_self_alloc self) idx;
       first \<leftarrow> get_at (b_first_child self) idx;
       sums \<leftarrow> sum_children self first
         \<lparr>cs_logical = 0, cs_referenced = self_alloc, cs_known_subtotal = self_alloc,
          cs_unique = 0, cs_all_known = True\<rparr>;
       delta \<leftarrow> get_at tree_delta idx;
       net_unique \<leftarrow> i128 (cs_unique sums + delta);
       net_unique \<leftarrow> i128 (net_unique + uint self_alloc);
       if net_unique \<ge> 0
       then Some (self\<lparr>b_entries := (b_entries self)[idx :=
          entry\<lparr>c_logical_size := Some (cs_logical sums),
                c_referenced_allocated_bytes := cs_referenced sums,
                c_known_subtotal_allocated_bytes := cs_known_subtotal sums,
                c_allocated_size := Some (cs_referenced sums),
                c_allocated_size_known := cs_all_known sums,
                c_unique_allocated_bytes := word_of_int net_unique\<rparr>]\<rparr>)
       else None
     }
   }"

section \<open>Phase 5: sorted children\<close>

partial_function (option) collect_children :: "graph_builder \<Rightarrow> u32 \<Rightarrow> u32 list \<Rightarrow> u32 list option" where
  "collect_children self c child_ids =
     (if c \<noteq> u32_max
      then do {
        child \<leftarrow> get_at (b_entries self) (unat c);
        sibling \<leftarrow> get_at (b_next_sibling self) (unat c);
        collect_children self sibling (child_ids @ [c_id child])
      }
      else Some child_ids)"

text \<open>
  The comparison of the child order: directories first, then by logical size descending, then
  by lowercased name, by name, and by identifier. \<open>True\<close> means not greater.
\<close>

definition child_le :: "(string \<Rightarrow> string) \<Rightarrow> compact_entry \<Rightarrow> compact_entry \<Rightarrow> bool" where
  "child_le to_lowercase a b =
     (let a_is_dir = (c_kind a = Directory); b_is_dir = (c_kind b = Directory);
          a_logical = (case c_logical_size a of None \<Rightarrow> 0 | Some l \<Rightarrow> l);
          b_logical = (case c_logical_size b of None \<Rightarrow> 0 | Some l \<Rightarrow> l);
          a_lower = to_lowercase (c_name a); b_lower = to_lowercase (c_name b)
      in if a_is_dir \<noteq> b_is_dir then a_is_dir
         else if a_logical \<noteq> b_logical then b_logical < a_logical
         else if a_lower \<noteq> b_lower then str_less a_lower b_lower
         else if c_name a \<noteq> c_name b then str_less (c_name a) (c_name b)
         else c_id a \<le> c_id b)"

definition sort_children :: "(string \<Rightarrow> string) \<Rightarrow> graph_builder \<Rightarrow> u32 list \<Rightarrow> u32 list option" where
  "sort_children to_lowercase self child_ids =
     (if \<forall>eid \<in> set child_ids. entry_at self eid \<noteq> None
      then Some (sort_by (\<lambda>a b. child_le to_lowercase (the (entry_at self a)) (the (entry_at self b))) child_ids)
      else None)"

definition place_children :: "(string \<Rightarrow> string) \<Rightarrow> graph_builder \<times> u32 list \<Rightarrow> nat \<Rightarrow> (graph_builder \<times> u32 list) option" where
  "place_children to_lowercase acc idx = do {
     let (self, all_children) = acc;
     entry \<leftarrow> get_at (b_entries self) idx;
     if c_kind entry = Directory
     then do {
       first \<leftarrow> get_at (b_first_child self) idx;
       child_ids \<leftarrow> collect_children self first [];
       child_ids \<leftarrow> sort_children to_lowercase self child_ids;
       Some (self\<lparr>b_entries := (b_entries self)[idx :=
               entry\<lparr>c_child_start := word_of_nat (length all_children),
                     c_child_count := word_of_nat (length child_ids)\<rparr>]\<rparr>,
             all_children @ child_ids)
     }
     else Some (self\<lparr>b_entries := (b_entries self)[idx := entry\<lparr>c_child_start := 0, c_child_count := 0\<rparr>]\<rparr>,
                all_children)
   }"

section \<open>All phases\<close>

definition compute_aggregates :: "((object_identity \<times> u32 list) list \<Rightarrow> (object_identity \<times> u32 list) list)
    \<Rightarrow> ((u32 \<times> object_identity) list \<Rightarrow> (u32 \<times> object_identity) list) \<Rightarrow> (string \<Rightarrow> string)
    \<Rightarrow> graph_builder \<Rightarrow> (graph_builder \<times> object_record list \<times> u32 list \<times> u64) option" where
  "compute_aggregates files_order dirs_order to_lowercase self =
     (if b_entries self = [] then Some (self, [], [], 0)
      else do {
        ag \<leftarrow> resolve_objects files_order dirs_order self;
        let self = ag_self ag;
        let objects = ag_objects ag;
        st \<leftarrow> traverse_all self objects;
        self \<leftarrow> fold_opt (set_leaf_unique objects) self (t_post_order st);
        self \<leftarrow> fold_opt (aggregate_directory (t_delta st)) self (t_post_order st);
        (self, all_children) \<leftarrow> fold_opt (place_children to_lowercase) (self, []) [0..<length (b_entries self)];
        Some (self, objects, all_children, ag_indeterminate ag)
      })"

definition finish :: "((object_identity \<times> u32 list) list \<Rightarrow> (object_identity \<times> u32 list) list)
    \<Rightarrow> ((u32 \<times> object_identity) list \<Rightarrow> (u32 \<times> object_identity) list) \<Rightarrow> (string \<Rightarrow> string)
    \<Rightarrow> graph_builder \<Rightarrow> (graph_build_error + directory_graph) option" where
  "finish files_order dirs_order to_lowercase self =
     (case b_terminal self of
        None \<Rightarrow> Some (Inl MissingTerminal)
      | Some term \<Rightarrow>
          if b_entries self = [] then
            (if t_outcome term = Finished then Some (Inl (InvalidRoot 0 0))
             else Some (Inr \<lparr>dg_root_target = b_root_target self, dg_root_id = 0, dg_storage = Dense [],
                dg_all_children = [], dg_objects = [], dg_object_streams = b_object_streams self,
                dg_gaps = b_gaps self, dg_terminal = term,
                dg_allocated_bytes_known = b_allocated_bytes_known self,
                dg_indeterminate_external_reference_objects = 0\<rparr>))
          else do {
            (self, objects, all_children, indeterminate_objects) \<leftarrow>
              compute_aggregates files_order dirs_order to_lowercase self;
            Some (Inr \<lparr>dg_root_target = b_root_target self, dg_root_id = 1,
              dg_storage = (if b_is_dense self then Dense (b_entries self)
                            else Sparse (b_entries self) (b_id_to_idx self)),
              dg_all_children = all_children, dg_objects = objects,
              dg_object_streams = b_object_streams self, dg_gaps = b_gaps self, dg_terminal = term,
              dg_allocated_bytes_known = b_allocated_bytes_known self,
              dg_indeterminate_external_reference_objects = indeterminate_objects\<rparr>)
          })"

end
