(* ===== verification/Lca.thy ===== *)
theory Lca
  imports Aggregates Builder_Invariant
begin

text \<open>
  The traversal of \<open>compute_aggregates\<close> is Tarjan's offline algorithm: the explicit stack
  performs a recursive postorder visit of the directory tree, and the amounts it subtracts from
  the nodes of a subtree are, for every object, its weight times the number of its repeated
  occurrences in that subtree.
\<close>

section \<open>Directory trees\<close>

datatype dtree = DNode (dt_root: nat) (dt_kids: "dtree list")

fun post :: "dtree \<Rightarrow> nat list" where
  "post (DNode c ts) = concat (map post ts) @ [c]"

abbreviation posts :: "dtree list \<Rightarrow> nat list" where
  "posts ts \<equiv> concat (map post ts)"

fun subtrees :: "dtree \<Rightarrow> dtree list" where
  "subtrees (DNode c ts) = DNode c ts # concat (map subtrees ts)"

lemma root_in_post [simp]: "dt_root t \<in> set (post t)"
  by (cases t) simp

lemma subtree_post: "s \<in> set (subtrees t) \<Longrightarrow> set (post s) \<subseteq> set (post t)"
  by (induction t rule: subtrees.induct) fastforce

lemma post_nonempty [simp]: "post t \<noteq> []"
  by (cases t) simp

section \<open>The recursive visit\<close>

text \<open>\<open>join_parent\<close> with the parent given instead of read off the stack.\<close>

definition join_to :: "nat option \<Rightarrow> nat \<Rightarrow> dfs \<Rightarrow> dfs option" where
  "join_to p cur st = (case p of
     None \<Rightarrow> Some st
   | Some parent_idx \<Rightarrow> do {
       (root_p, uf_parent) \<leftarrow> find_uf (t_uf_parent st) parent_idx;
       (root_c, uf_parent) \<leftarrow> find_uf uf_parent cur;
       ancestor \<leftarrow> set_at (t_ancestor st) root_p (word_of_nat parent_idx);
       Some (st\<lparr>t_uf_parent := uf_link uf_parent root_c root_p, t_ancestor := ancestor\<rparr>)
     })"

definition leave :: "graph_builder \<Rightarrow> object_record list \<Rightarrow> nat option \<Rightarrow> nat \<Rightarrow> dfs \<Rightarrow> dfs option" where
  "leave self objects p cur st = do {
     st \<leftarrow> record_occurrence self objects cur st;
     join_to p cur (st\<lparr>t_post_order := t_post_order st @ [cur]\<rparr>)
   }"

definition mark :: "nat \<Rightarrow> dfs \<Rightarrow> dfs" where
  "mark c st = st\<lparr>t_visited := (t_visited st)[c := True]\<rparr>"

fun visit :: "graph_builder \<Rightarrow> object_record list \<Rightarrow> nat option \<Rightarrow> dtree \<Rightarrow> dfs \<Rightarrow> dfs option" where
  "visit self objects p (DNode c ts) st =
     Option.bind (fold_opt (\<lambda>st t. visit self objects (Some c) t st) (mark c st) ts)
       (leave self objects p c)"

abbreviation visit_all :: "graph_builder \<Rightarrow> object_record list \<Rightarrow> nat \<Rightarrow> dtree list \<Rightarrow> dfs \<Rightarrow> dfs option" where
  "visit_all self objects c ts st \<equiv> fold_opt (\<lambda>st t. visit self objects (Some c) t st) st ts"

abbreviation with_stack :: "(nat \<times> u32) list \<Rightarrow> dfs \<Rightarrow> dfs" where
  "with_stack s st \<equiv> st\<lparr>t_stack := s\<rparr>"

subsection \<open>The stack does not matter\<close>

lemma map_option_bind_case:
  "map_option f (Option.bind x g) = Option.bind x (\<lambda>y. map_option f (g y))"
  "map_option f (case z of (a, b) \<Rightarrow> h a b) = (case z of (a, b) \<Rightarrow> map_option f (h a b))"
  "Option.bind (Option.bind x g) k = Option.bind x (\<lambda>y. Option.bind (g y) k)"
  "Option.bind (case z of (a, b) \<Rightarrow> h a b) k = (case z of (a, b) \<Rightarrow> Option.bind (h a b) k)"
  by (cases x; simp)+ (auto split: prod.split)

lemma upd_commute [simp]:
  "(with_stack s st)\<lparr>t_uf_parent := u\<rparr> = with_stack s (st\<lparr>t_uf_parent := u\<rparr>)"
  "(with_stack s st)\<lparr>t_ancestor := an\<rparr> = with_stack s (st\<lparr>t_ancestor := an\<rparr>)"
  "(with_stack s st)\<lparr>t_delta := d\<rparr> = with_stack s (st\<lparr>t_delta := d\<rparr>)"
  "(with_stack s st)\<lparr>t_post_order := po\<rparr> = with_stack s (st\<lparr>t_post_order := po\<rparr>)"
  "(with_stack s st)\<lparr>t_last_occurrence := l\<rparr> = with_stack s (st\<lparr>t_last_occurrence := l\<rparr>)"
  "(with_stack s st)\<lparr>t_visited := v\<rparr> = with_stack s (st\<lparr>t_visited := v\<rparr>)"
  by simp_all

lemma record_occurrence_stack:
  "record_occurrence self objects cur (with_stack s st)
     = map_option (with_stack s) (record_occurrence self objects cur st)"
proof (cases "get_at (b_entries self) cur")
  case (Some e)
  let ?i = "unat (c_object_index e)"
  show ?thesis
  proof (cases "c_kind e = File \<and> c_object_index e \<noteq> NO_OBJECT")
    case True
    show ?thesis
    proof (cases "get_at objects ?i")
      case (Some obj)
      with \<open>get_at (b_entries self) cur = Some e\<close> True show ?thesis
        by (cases "get_at (t_last_occurrence st) ?i")
          (simp_all add: record_occurrence_def Let_def map_option_bind_case upd_commute split: option.split)
    qed (use Some True in \<open>simp add: record_occurrence_def Let_def\<close>)
  qed (use Some in \<open>auto simp: record_occurrence_def Let_def\<close>)
qed (simp add: record_occurrence_def)

lemma join_to_stack: "join_to p cur (with_stack s st) = map_option (with_stack s) (join_to p cur st)"
  by (cases p) (simp_all add: join_to_def map_option_bind_case upd_commute)

lemma leave_stack: "leave self objects p cur (with_stack s st) = map_option (with_stack s) (leave self objects p cur st)"
proof (cases "record_occurrence self objects cur st")
  case (Some st')
  then show ?thesis
    using join_to_stack [of p cur s "st'\<lparr>t_post_order := t_post_order st' @ [cur]\<rparr>"]
    by (simp add: leave_def record_occurrence_stack upd_commute)
qed (simp add: leave_def record_occurrence_stack)

lemma join_parent_eq: "join_parent cur st = join_to (case t_stack st of [] \<Rightarrow> None | (q, _) # _ \<Rightarrow> Some q) cur st"
  by (auto simp: join_parent_def join_to_def split: list.split)

lemma record_occurrence_fields:
  "record_occurrence self objects cur st = Some st' \<Longrightarrow>
     t_stack st' = t_stack st \<and> t_visited st' = t_visited st \<and> t_post_order st' = t_post_order st
     \<and> t_ancestor st' = t_ancestor st"
  by (auto simp: record_occurrence_def Let_def split: option.splits Option.bind_splits prod.splits if_splits)

lemma join_to_fields:
  "join_to p cur st = Some st' \<Longrightarrow>
     t_stack st' = t_stack st \<and> t_visited st' = t_visited st \<and> t_post_order st' = t_post_order st
     \<and> t_delta st' = t_delta st \<and> t_last_occurrence st' = t_last_occurrence st"
  by (auto simp: join_to_def split: option.splits Option.bind_splits prod.splits)

lemma leave_fields:
  "leave self objects p cur st = Some st' \<Longrightarrow>
     t_stack st' = t_stack st \<and> t_visited st' = t_visited st \<and> t_post_order st' = t_post_order st @ [cur]"
  by (auto simp: leave_def dest!: record_occurrence_fields join_to_fields split: Option.bind_splits)

text \<open>The visit marks exactly the nodes of the tree and lists them in postorder.\<close>

definition visited_more :: "dfs \<Rightarrow> nat list \<Rightarrow> dfs \<Rightarrow> bool" where
  "visited_more st xs st' \<longleftrightarrow> length (t_visited st') = length (t_visited st)
     \<and> (\<forall>i < length (t_visited st). t_visited st' ! i \<longleftrightarrow> i \<in> set xs \<or> t_visited st ! i)
     \<and> t_post_order st' = t_post_order st @ xs \<and> t_stack st' = t_stack st"

lemma visit_marks: "visit self objects p t st = Some st' \<Longrightarrow> visited_more st (post t) st'"
proof (induction t arbitrary: p st st')
  case (DNode c ts)
  have "visited_more (mark c st) (posts us) s" if "visit_all self objects c us (mark c st) = Some s"
    "set us \<subseteq> set ts" for us s
    using that
  proof (induction us arbitrary: s rule: rev_induct)
    case Nil
    then show ?case by (simp add: visited_more_def)
  next
    case (snoc u us)
    then obtain s1 where s1: "visit_all self objects c us (mark c st) = Some s1"
      "visit self objects (Some c) u s1 = Some s" by (auto simp: fold_opt_append Option.bind_eq_Some_conv)
    have "visited_more s1 (post u) s" using DNode.IH s1(2) snoc.prems(2) by simp
    moreover have "visited_more (mark c st) (posts us) s1" using snoc.IH s1(1) snoc.prems(2) by simp
    ultimately show ?case by (auto simp: visited_more_def)
  qed
  note all = this [of ts]
  from DNode.prems obtain s where s: "visit_all self objects c ts (mark c st) = Some s"
    "leave self objects p c s = Some st'" by (auto split: Option.bind_splits)
  have "(t_visited st)[c := True] ! i \<longleftrightarrow> i = c \<or> t_visited st ! i" if "i < length (t_visited st)" for i
    using that by (cases "i = c") simp_all
  then show ?case using all [OF s(1) subset_refl] leave_fields [OF s(2)]
    by (auto simp: visited_more_def mark_def)
qed

section \<open>The explicit stack performs the visit\<close>

text \<open>The links of the builder describe the tree.\<close>

fun linked :: "graph_builder \<Rightarrow> dtree \<Rightarrow> bool" where
  "linked self (DNode c ts) \<longleftrightarrow> c < length (b_first_child self) \<and> c < 2 ^ 32 - 1
     \<and> chain (b_next_sibling self) (b_first_child self ! c) (map dt_root ts) \<and> list_all (linked self) ts"

lemma traverse_Nil [simp]: "t_stack st = [] \<Longrightarrow> traverse self objects st = Some st"
  by (simp add: traverse.simps)

lemma traverse_pop:
  "traverse self objects (with_stack ((c, u32_max) # rest) st) =
     Option.bind (leave self objects (case rest of [] \<Rightarrow> None | (q, _) # _ \<Rightarrow> Some q) c st)
       (\<lambda>st'. traverse self objects (with_stack rest st'))"
proof -
  let ?p = "case rest of [] \<Rightarrow> None | (q, _) # _ \<Rightarrow> Some q"
  have "traverse_step self objects c u32_max rest (with_stack ((c, u32_max) # rest) st)
      = map_option (with_stack rest) (leave self objects ?p c st)"
  proof (cases "record_occurrence self objects c st")
    case None
    then show ?thesis
      using record_occurrence_stack [of self objects c rest st]
      by (simp add: traverse_step_def leave_def)
  next
    case (Some st')
    then show ?thesis
      using record_occurrence_stack [of self objects c rest st]
        join_to_stack [of ?p c rest "st'\<lparr>t_post_order := t_post_order st' @ [c]\<rparr>"]
      by (simp add: traverse_step_def leave_def join_parent_eq upd_commute)
  qed
  then show ?thesis
    by (subst traverse.simps) (cases "leave self objects ?p c st"; simp)
qed

lemma traverse_push:
  assumes "j < length (b_next_sibling self)" and "j < 2 ^ 32 - 1" and "j < length (t_visited st)"
    and "\<not> t_visited st ! j" and "j < length (b_first_child self)"
  shows "traverse self objects (with_stack ((c, word_of_nat j) # rest) st) =
    traverse self objects (with_stack ((j, b_first_child self ! j) # (c, b_next_sibling self ! j) # rest) (mark j st))"
proof -
  have u: "unat (word_of_nat j :: u32) = j" using assms(2) by (simp add: unat_of_nat)
  then have "word_of_nat j \<noteq> u32_max" using assms(2) by auto
  then show ?thesis using assms u
    by (subst traverse.simps) (simp add: traverse_step_def mark_def)
qed

lemma visit_stack: "visit self objects p t (with_stack s st) = map_option (with_stack s) (visit self objects p t st)"
proof (induction t arbitrary: p st)
  case (DNode c ts)
  have "visit_all self objects c us (with_stack s st) = map_option (with_stack s) (visit_all self objects c us st)"
    if "set us \<subseteq> set ts" for us st
    using that
  proof (induction us arbitrary: st)
    case (Cons u us)
    then have "visit self objects (Some c) u (with_stack s st) = map_option (with_stack s) (visit self objects (Some c) u st)"
      using DNode.IH by simp
    with Cons show ?case by (cases "visit self objects (Some c) u st") simp_all
  qed simp
  from this [of ts "mark c st"] show ?case
    by (cases "visit_all self objects c ts (mark c st)") (simp_all add: mark_def leave_stack)
qed

text \<open>
  Working through a node with all its children unvisited is the recursive visit of its tree,
  after which the loop goes on with the rest of the stack.
\<close>

lemma traverse_visit:
  assumes "linked self t" and "distinct (post t)"
    and "\<forall>x \<in> set (post t). x < length (t_visited st) \<and> \<not> t_visited st ! x"
  shows "traverse self objects (with_stack ((dt_root t, b_first_child self ! dt_root t) # rest) (mark (dt_root t) st)) =
    Option.bind (visit self objects (case rest of [] \<Rightarrow> None | (q, _) # _ \<Rightarrow> Some q) t st)
      (\<lambda>st'. traverse self objects (with_stack rest st'))"
  using assms
proof (induction t arbitrary: st rest)
  case (DNode c ts)
  have list: "traverse self objects (with_stack ((c, w) # rest) s) =
      Option.bind (visit_all self objects c us s) (\<lambda>st'. traverse self objects (with_stack ((c, u32_max) # rest) st'))"
    if "chain (b_next_sibling self) w (map dt_root us)" "set us \<subseteq> set ts" "distinct (posts us)"
      "\<forall>x \<in> set (posts us). x < length (t_visited s) \<and> \<not> t_visited s ! x" for us w s
    using that
  proof (induction us arbitrary: w s)
    case (Cons u us)
    let ?j = "dt_root u"
    have u: "linked self u" "u \<in> set ts"
      using Cons.prems(2) DNode.prems(1) by (auto simp: list_all_iff)
    then have lj: "?j < length (b_first_child self)" "?j < 2 ^ 32 - 1" by (cases u; simp)+
    have w: "w = word_of_nat ?j" "?j < length (b_next_sibling self)"
      "chain (b_next_sibling self) (b_next_sibling self ! ?j) (map dt_root us)"
      using Cons.prems(1) by simp_all
    have unv: "?j < length (t_visited s)" "\<not> t_visited s ! ?j"
      using Cons.prems(4) root_in_post [of u] by auto
    have "traverse self objects (with_stack ((c, w) # rest) s)
        = traverse self objects (with_stack ((?j, b_first_child self ! ?j) # (c, b_next_sibling self ! ?j) # rest) (mark ?j s))"
      using traverse_push [OF w(2) lj(2) unv lj(1)] w(1) by simp
    also have "\<dots> = Option.bind (visit self objects (Some c) u s)
        (\<lambda>st'. traverse self objects (with_stack ((c, b_next_sibling self ! ?j) # rest) st'))"
      using DNode.IH [OF u(2) u(1), of s "(c, b_next_sibling self ! ?j) # rest"] Cons.prems(3,4) by simp
    also have "\<dots> = Option.bind (visit_all self objects c (u # us) s)
        (\<lambda>st'. traverse self objects (with_stack ((c, u32_max) # rest) st'))"
    proof (cases "visit self objects (Some c) u s")
      case (Some s')
      have "visited_more s (post u) s'" using Some by (rule visit_marks)
      then have "\<forall>x \<in> set (posts us). x < length (t_visited s') \<and> \<not> t_visited s' ! x"
        using Cons.prems(3,4) by (auto simp: visited_more_def)
      with Some Cons.IH [OF w(3)] Cons.prems(2,3) show ?thesis by simp
    qed simp
    finally show ?case .
  qed simp
  have "c \<notin> set (posts ts)" "distinct (posts ts)" using DNode.prems(2) by auto
  then have "\<forall>x \<in> set (posts ts). x < length (t_visited (mark c st)) \<and> \<not> t_visited (mark c st) ! x"
    using DNode.prems(3) by (auto simp: mark_def nth_list_update)
  then have "traverse self objects (with_stack ((c, b_first_child self ! c) # rest) (mark c st)) =
      Option.bind (visit_all self objects c ts (mark c st)) (\<lambda>st'. traverse self objects (with_stack ((c, u32_max) # rest) st'))"
    using list [of _ ts "mark c st"] DNode.prems(1) \<open>distinct (posts ts)\<close> by simp
  then show ?case
    by (cases "visit_all self objects c ts (mark c st)") (simp_all add: traverse_pop)
qed

end
