(* ===== verification/Tarjan.thy ===== *)
theory Tarjan
  imports Lca
begin

text \<open>
  What the visit subtracts. The label of a node is the nearest of its ancestors still open (or
  itself), kept by the disjoint sets; an occurrence of an object subtracts its weight at the label
  of the previous occurrence. Summed over a subtree this is the object's weight times the number
  of its occurrences there beyond the first.
\<close>

section \<open>Events and sums\<close>

text \<open>The object a node is an occurrence of: a file with a weighted object.\<close>

definition event :: "graph_builder \<Rightarrow> object_record list \<Rightarrow> nat \<Rightarrow> nat option" where
  "event self objects x =
     (let e = b_entries self ! x
      in if c_kind e = File \<and> c_object_index e \<noteq> NO_OBJECT
            \<and> o_weight (objects ! unat (c_object_index e)) > 0
         then Some (unat (c_object_index e)) else None)"

definition weight_of :: "object_record list \<Rightarrow> nat \<Rightarrow> int" where
  "weight_of objects ob = uint (o_weight (objects ! ob))"

text \<open>How often an object occurs among the nodes of a list, and the total of its repetitions.\<close>

definition occurrences :: "graph_builder \<Rightarrow> object_record list \<Rightarrow> nat \<Rightarrow> nat list \<Rightarrow> nat" where
  "occurrences self objects ob xs = length (filter (\<lambda>x. event self objects x = Some ob) xs)"

definition repeated :: "graph_builder \<Rightarrow> object_record list \<Rightarrow> nat list \<Rightarrow> int" where
  "repeated self objects xs =
     (\<Sum>ob < length objects. weight_of objects ob * int (occurrences self objects ob xs - 1))"

lemma occurrences_append [simp]:
  "occurrences self objects ob (xs @ ys) = occurrences self objects ob xs + occurrences self objects ob ys"
  by (simp add: occurrences_def)

lemma occurrences_Nil [simp]: "occurrences self objects ob [] = 0"
  by (simp add: occurrences_def)

lemma occurrences_single:
  "occurrences self objects ob [c] = (if event self objects c = Some ob then 1 else 0)"
  by (simp add: occurrences_def)

lemma occurrences_pos: "occurrences self objects ob xs > 0 \<longleftrightarrow> (\<exists>x \<in> set xs. event self objects x = Some ob)"
  by (auto simp: occurrences_def filter_empty_conv)

section \<open>Labels\<close>

definition lab :: "dfs \<Rightarrow> nat \<Rightarrow> nat" where
  "lab st x = unat (uf.label (t_uf_parent st) (t_ancestor st) x)"

text \<open>The last occurrence of an object carries a label in the set.\<close>

definition last_in :: "dfs \<Rightarrow> nat \<Rightarrow> nat set \<Rightarrow> bool" where
  "last_in st ob S \<longleftrightarrow> (\<exists>prev. t_last_occurrence st ! ob = Some prev \<and> lab st prev \<in> S)"

definition delta_sum :: "dfs \<Rightarrow> nat set \<Rightarrow> int" where
  "delta_sum st S = (\<Sum>x \<in> S. t_delta st ! x)"

text \<open>
  The amount processing the nodes \<open>xs\<close> takes from a set \<open>S\<close>: all repetitions among them, if the
  set holds their common ancestors (\<open>b\<close>), and one weight for each object that had its previous
  occurrence in the set.
\<close>

definition takes :: "graph_builder \<Rightarrow> object_record list \<Rightarrow> nat list \<Rightarrow> bool \<Rightarrow> nat set \<Rightarrow> dfs \<Rightarrow> dfs \<Rightarrow> bool" where
  "takes self objects xs b S st st' \<longleftrightarrow> delta_sum st' S = delta_sum st S
     - (if b then repeated self objects xs else 0)
     - (\<Sum>ob < length objects. if occurrences self objects ob xs > 0 \<and> last_in st ob S then weight_of objects ob else 0)"

lemma takes_Nil: "takes self objects [] b S st st' \<longleftrightarrow> delta_sum st' S = delta_sum st S"
  by (simp add: takes_def repeated_def)

lemma takes_append:
  assumes xs: "takes self objects xs b S st st1" and ys: "takes self objects ys b S st1 st2"
    and seen: "\<And>ob. ob < length objects \<Longrightarrow> occurrences self objects ob xs > 0 \<Longrightarrow> last_in st1 ob S \<longleftrightarrow> b"
    and unseen: "\<And>ob. ob < length objects \<Longrightarrow> occurrences self objects ob xs = 0 \<Longrightarrow> last_in st1 ob S = last_in st ob S"
  shows "takes self objects (xs @ ys) b S st st2"
proof -
  let ?k = "\<lambda>ob xs. occurrences self objects ob xs" and ?w = "weight_of objects"
  let ?m = "{..< length objects}"
  have "(if b then ?w ob * int (?k ob (xs @ ys) - 1) else 0)
        + (if ?k ob (xs @ ys) > 0 \<and> last_in st ob S then ?w ob else 0)
      = (if b then ?w ob * int (?k ob xs - 1) else 0) + (if ?k ob xs > 0 \<and> last_in st ob S then ?w ob else 0)
        + ((if b then ?w ob * int (?k ob ys - 1) else 0) + (if ?k ob ys > 0 \<and> last_in st1 ob S then ?w ob else 0))"
    if "ob < length objects" for ob
  proof (cases "?k ob xs")
    case 0
    then show ?thesis using unseen [OF that] by simp
  next
    case (Suc i)
    then have l: "last_in st1 ob S \<longleftrightarrow> b" using seen [OF that] by simp
    show ?thesis using Suc l by (cases "?k ob ys") (simp_all add: algebra_simps)
  qed
  then have "(\<Sum>ob \<in> ?m. (if b then ?w ob * int (?k ob (xs @ ys) - 1) else 0)
        + (if ?k ob (xs @ ys) > 0 \<and> last_in st ob S then ?w ob else 0))
      = (\<Sum>ob \<in> ?m. (if b then ?w ob * int (?k ob xs - 1) else 0) + (if ?k ob xs > 0 \<and> last_in st ob S then ?w ob else 0)
        + ((if b then ?w ob * int (?k ob ys - 1) else 0) + (if ?k ob ys > 0 \<and> last_in st1 ob S then ?w ob else 0)))"
    by (intro sum.cong) simp_all
  then show ?thesis using xs ys
    by (cases b) (simp_all add: takes_def repeated_def sum.distrib del: occurrences_append)
qed

section \<open>The steps of a visit\<close>

text \<open>The working vectors have the right sizes, and the subtracted amounts stay within \<open>i128\<close>.\<close>

definition dfs_ok :: "graph_builder \<Rightarrow> object_record list \<Rightarrow> dfs \<Rightarrow> bool" where
  "dfs_ok self objects st \<longleftrightarrow>
     (let n = builder_len self
      in uf.labelled (t_uf_parent st) (t_ancestor st) \<and> length (t_uf_parent st) = n
         \<and> length (t_delta st) = n \<and> length (t_last_occurrence st) = length objects
         \<and> (\<forall>x < n. lab st x < n)
         \<and> (\<forall>ob < length objects. \<forall>prev. t_last_occurrence st ! ob = Some prev \<longrightarrow> prev < n)
         \<and> (\<forall>x < n. - (2 ^ 64 * int (length (t_post_order st))) \<le> t_delta st ! x \<and> t_delta st ! x \<le> 0))"

definition objects_ok :: "graph_builder \<Rightarrow> object_record list \<Rightarrow> bool" where
  "objects_ok self objects \<longleftrightarrow> builder_len self < 2 ^ 32 \<and>
     (\<forall>i < builder_len self. c_kind (b_entries self ! i) = File \<and> c_object_index (b_entries self ! i) \<noteq> NO_OBJECT
        \<longrightarrow> unat (c_object_index (b_entries self ! i)) < length objects)"

lemma event_bound: "objects_ok self objects \<Longrightarrow> x < builder_len self \<Longrightarrow> event self objects x = Some ob \<Longrightarrow> ob < length objects"
  by (auto simp: event_def objects_ok_def Let_def split: if_splits)

lemma labelled_length: "uf.labelled u labels \<Longrightarrow> length labels = length u \<and> uf_invar u"
  by (simp only: uf.labelled_def)

lemma sum_list_update:
  assumes "finite S" and "i < length xs"
  shows "(\<Sum>x \<in> S. xs[i := v] ! x) = (\<Sum>x \<in> S. xs ! x) + (if i \<in> S then v - xs ! i else (0::int))"
proof (cases "i \<in> S")
  case True
  then have "(\<Sum>x \<in> S. xs[i := v] ! x) = v + (\<Sum>x \<in> S - {i}. xs ! x)"
    using assms by (subst sum.remove [of _ i]) (auto intro!: sum.cong)
  moreover have "(\<Sum>x \<in> S. xs ! x) = xs ! i + (\<Sum>x \<in> S - {i}. xs ! x)"
    using assms(1) True by (rule sum.remove)
  ultimately show ?thesis using True by simp
next
  case False
  then have "xs[i := v] ! x = xs ! x" if "x \<in> S" for x using that by (metis nth_list_update_neq)
  then show ?thesis using False by simp
qed

text \<open>Recording an occurrence.\<close>

lemma record_ok:
  assumes ok: "dfs_ok self objects st" and objs: "objects_ok self objects" and c: "c < builder_len self"
    and room: "length (t_post_order st) < builder_len self"
  shows "\<exists>st'. record_occurrence self objects c st = Some st'
    \<and> uf.labelled (t_uf_parent st') (t_ancestor st') \<and> length (t_uf_parent st') = builder_len self
    \<and> length (t_delta st') = builder_len self \<and> length (t_last_occurrence st') = length objects
    \<and> (\<forall>x < builder_len self. lab st' x = lab st x)
    \<and> (\<forall>ob < length objects. t_last_occurrence st' ! ob
         = (if event self objects c = Some ob then Some c else t_last_occurrence st ! ob))
    \<and> (\<forall>x < builder_len self. - (2 ^ 64 * int (length (t_post_order st) + 1)) \<le> t_delta st' ! x \<and> t_delta st' ! x \<le> 0)
    \<and> (\<forall>S b. S \<subseteq> {..< builder_len self} \<longrightarrow> takes self objects [c] b S st st')"
proof -
  let ?n = "builder_len self"
  let ?e = "b_entries self ! c"
  let ?i = "unat (c_object_index ?e)"
  let ?L = "length (t_post_order st)"
  from ok have uf: "uf.labelled (t_uf_parent st) (t_ancestor st)" and ln: "length (t_uf_parent st) = ?n"
    and ld: "length (t_delta st) = ?n" and ll: "length (t_last_occurrence st) = length objects"
    and lab: "\<And>x. x < ?n \<Longrightarrow> lab st x < ?n"
    and la: "\<And>ob prev. ob < length objects \<Longrightarrow> t_last_occurrence st ! ob = Some prev \<Longrightarrow> prev < ?n"
    and db: "\<And>x. x < ?n \<Longrightarrow> - (2 ^ 64 * int ?L) \<le> t_delta st ! x \<and> t_delta st ! x \<le> 0"
    by (simp_all add: dfs_ok_def Let_def)
  have db1: "- (2 ^ 64 * int (?L + 1)) \<le> t_delta st ! x \<and> t_delta st ! x \<le> 0" if "x < ?n" for x
    using db [OF that] by simp
  show ?thesis
  proof (cases "event self objects c")
    case None
    then have "takes self objects [c] b S st st" for b S
      by (simp add: takes_def repeated_def occurrences_single)
    moreover have "record_occurrence self objects c st = Some st"
      using None c objs by (auto simp: record_occurrence_def event_def objects_ok_def Let_def split: if_splits)
    ultimately show ?thesis using None uf ln ld ll db1 by auto
  next
    case (Some ob)
    then have f: "c_kind ?e = File" "c_object_index ?e \<noteq> NO_OBJECT" "ob = ?i" "o_weight (objects ! ob) > 0"
      by (auto simp: event_def Let_def split: if_splits)
    have ob: "ob < length objects" using event_bound [OF objs c Some] .
    have occ: "occurrences self objects o' [c] = (if o' = ob then 1 else 0)" for o'
      using Some by (auto simp: occurrences_single)
    have rep: "repeated self objects [c] = 0" by (simp add: repeated_def occ)
    have sumw: "(\<Sum>o' < length objects. if occurrences self objects o' [c] > 0 \<and> P o' then weight_of objects o' else 0)
        = (if P ob then weight_of objects ob else 0)" for P
    proof -
      have "(\<Sum>o' < length objects. if occurrences self objects o' [c] > 0 \<and> P o' then weight_of objects o' else 0)
        = (\<Sum>o' < length objects. if o' = ob then (if P ob then weight_of objects ob else 0) else 0)"
        by (intro sum.cong) (auto simp: occ)
      then show ?thesis using ob by simp
    qed
    show ?thesis
    proof (cases "t_last_occurrence st ! ob")
      case None
      let ?st = "st\<lparr>t_last_occurrence := (t_last_occurrence st)[ob := Some c]\<rparr>"
      have "record_occurrence self objects c st = Some ?st"
        using f c ob ll None by (simp add: record_occurrence_def Let_def)
      moreover have "takes self objects [c] b S st ?st" for b S
        using rep sumw [of "\<lambda>o'. last_in st o' S"] None
        by (simp add: takes_def delta_sum_def last_in_def)
      ultimately show ?thesis using uf ln ld ll db1 Some ob
        by (auto simp: lab_def nth_list_update)
    next
      case prev: (Some prev)
      have pn: "prev < ?n" using la [OF ob prev] .
      have pu: "prev < length (t_uf_parent st)" using pn ln by simp
      obtain u' where u': "find_uf (t_uf_parent st) prev = Some (uf_rep (t_uf_parent st) prev, u')"
        "uf.labelled u' (t_ancestor st)" "length u' = length (t_uf_parent st)"
        and same: "\<And>y. y < length (t_uf_parent st) \<Longrightarrow>
          uf.label u' (t_ancestor st) y = uf.label (t_uf_parent st) (t_ancestor st) y"
        by (rule uf.labelled_find [OF uf pu], rule that)
      have rb: "uf_rep (t_uf_parent st) prev < length (t_ancestor st)"
        using labelled_length [OF uf] uf.rep_bound [of "t_uf_parent st" prev] pu by simp
      let ?a = "lab st prev" and ?w = "uint (o_weight (objects ! ob))"
      have an: "?a < ?n" using lab [OF pn] .
      have wb: "0 \<le> ?w" "?w < 2 ^ 64" using unsigned_less [of "o_weight (objects ! ob)", where 'a = int] by simp_all
      have L32: "int ?L + 1 \<le> 2 ^ 32" using room objs by (simp add: objects_ok_def)
      have lo: "- (2 ^ 64 * int (?L + 1)) \<le> t_delta st ! ?a - ?w"
        using db [OF an] wb(2) by (simp add: algebra_simps)
      have hi: "t_delta st ! ?a - ?w \<le> 0" using db [OF an] wb(1) by linarith
      note lo hi
      moreover have "2 ^ 64 * int (?L + 1) \<le> 2 ^ 64 * (2 ^ 32 :: int)" using L32 by simp
      ultimately have i: "i128 (t_delta st ! ?a - ?w) = Some (t_delta st ! ?a - ?w)"
        and nb: "- (2 ^ 64 * int (?L + 1)) \<le> t_delta st ! ?a - ?w" "t_delta st ! ?a - ?w \<le> 0"
        by (simp_all add: i128_def)
      let ?st = "st\<lparr>t_uf_parent := u', t_delta := (t_delta st)[?a := t_delta st ! ?a - ?w],
        t_last_occurrence := (t_last_occurrence st)[ob := Some c]\<rparr>"
      have anc: "get_at (t_ancestor st) (uf_rep (t_uf_parent st) prev) = Some (uf.label (t_uf_parent st) (t_ancestor st) prev)"
        using rb by (simp add: uf.label_def)
      have res: "record_occurrence self objects c st = Some ?st"
        using f c ob ll prev u'(1) anc an ld i
        by (simp add: record_occurrence_def Let_def lab_def)
      have lab': "lab ?st x = lab st x" if "x < ?n" for x
        using same that ln by (simp add: lab_def)
      have "takes self objects [c] b S st ?st" if "S \<subseteq> {..< ?n}" for b S
      proof -
        have fin: "finite S" using that finite_subset by blast
        have "last_in st ob S \<longleftrightarrow> ?a \<in> S" using prev by (simp add: last_in_def)
        then show ?thesis
          using sumw [of "\<lambda>o'. last_in st o' S"] rep sum_list_update [OF fin, of ?a "t_delta st"] an ld
          by (simp add: takes_def delta_sum_def weight_of_def)
      qed
      moreover have "- (2 ^ 64 * int (?L + 1)) \<le> t_delta ?st ! x \<and> t_delta ?st ! x \<le> 0" if "x < ?n" for x
        using db1 [OF that] nb an ld that by (cases "x = ?a") simp_all
      ultimately show ?thesis using res u' ln ld ll lab' ob Some
        by (intro exI [of _ ?st]) (simp add: nth_list_update)
    qed
  qed
qed

text \<open>Joining the parent's set relabels exactly the set of the node that is left.\<close>

lemma join_ok:
  assumes uf: "uf.labelled (t_uf_parent st) (t_ancestor st)" and n: "length (t_uf_parent st) = n" "n < 2 ^ 32"
    and c: "c < n" and p: "p < n" and lc: "lab st c = c" and lp: "lab st p = p" and ne: "c \<noteq> p"
  shows "\<exists>st'. join_to (Some p) c st = Some st'
    \<and> uf.labelled (t_uf_parent st') (t_ancestor st') \<and> length (t_uf_parent st') = n
    \<and> (\<forall>y < n. lab st' y = (if lab st y = c then p else lab st y))"
proof -
  have wp: "unat (word_of_nat p :: u32) = p" using p n(2) by (simp add: unat_of_nat)
  let ?l = "uf.label (t_uf_parent st) (t_ancestor st)"
  have lw: "?l y = word_of_nat (lab st y)" for y by (simp add: lab_def)
  have "?l p = word_of_nat p" "?l c \<noteq> ?l p"
    using lw [of p] lp lc ne unfolding lab_def by metis+
  then obtain u' labels' where m: "uf.merge (t_uf_parent st) (t_ancestor st) c p (word_of_nat p) = Some (u', labels')"
    "uf.labelled u' labels'" "length u' = n"
    and lab': "\<And>y. y < n \<Longrightarrow> uf.label u' labels' y = (if ?l y = ?l c then word_of_nat p else ?l y)"
    using uf.merge_ok [OF uf, of c p "word_of_nat p"] c p n(1) by auto
  have rb: "root_p < length (t_ancestor st)" if "find_uf (t_uf_parent st) p = Some (root_p, v)" for root_p v
    using labelled_length [OF uf] uf.find_ok [of "t_uf_parent st" p] uf.rep_bound [of "t_uf_parent st" p] that p n(1)
    by auto
  have "join_to (Some p) c st = Some (st\<lparr>t_uf_parent := u', t_ancestor := labels'\<rparr>)"
    using m(1) rb by (auto simp: join_to_def uf.merge_def Option.bind_eq_Some_conv split: prod.splits)
  moreover have "lab (st\<lparr>t_uf_parent := u', t_ancestor := labels'\<rparr>) y = (if lab st y = c then p else lab st y)"
    if "y < n" for y
  proof -
    have "?l y = ?l c \<longleftrightarrow> lab st y = c" using lc lw [of y] lw [of c] by (metis lab_def)
    then show ?thesis using lab' [OF that] wp by (simp add: lab_def)
  qed
  ultimately show ?thesis using m(2,3) by auto
qed

section \<open>The visit of a tree\<close>

abbreviation nodes :: "dtree \<Rightarrow> nat set" where
  "nodes t \<equiv> set (post t)"

text \<open>
  A set of nodes not yet touched: each is its own label and the label of nothing else, nothing
  was taken from it, and no occurrence was recorded in it.
\<close>

definition fresh_in :: "graph_builder \<Rightarrow> object_record list \<Rightarrow> nat set \<Rightarrow> dfs \<Rightarrow> bool" where
  "fresh_in self objects N st \<longleftrightarrow> N \<subseteq> {..< builder_len self}
     \<and> (\<forall>x \<in> N. lab st x = x \<and> t_delta st ! x = 0)
     \<and> (\<forall>x < builder_len self. x \<notin> N \<longrightarrow> lab st x \<notin> N)
     \<and> (\<forall>ob < length objects. \<forall>prev. t_last_occurrence st ! ob = Some prev \<longrightarrow> prev \<notin> N)"

definition ready :: "graph_builder \<Rightarrow> object_record list \<Rightarrow> nat list \<Rightarrow> dfs \<Rightarrow> bool" where
  "ready self objects xs st \<longleftrightarrow> dfs_ok self objects st \<and> distinct xs \<and> fresh_in self objects (set xs) st
     \<and> length (t_post_order st) + length xs \<le> builder_len self"

definition open_node :: "graph_builder \<Rightarrow> nat \<Rightarrow> nat list \<Rightarrow> dfs \<Rightarrow> bool" where
  "open_node self q xs st \<longleftrightarrow> q < builder_len self \<and> q \<notin> set xs \<and> lab st q = q"

text \<open>What processing the nodes \<open>xs\<close> does, when their set becomes labelled \<open>l\<close>.\<close>

definition processed :: "graph_builder \<Rightarrow> object_record list \<Rightarrow> nat list \<Rightarrow> nat \<Rightarrow> dfs \<Rightarrow> dfs \<Rightarrow> bool" where
  "processed self objects xs l st st' \<longleftrightarrow> dfs_ok self objects st'
     \<and> t_post_order st' = t_post_order st @ xs
     \<and> (\<forall>x < builder_len self. lab st' x = (if x \<in> set xs then l else lab st x))
     \<and> (\<forall>ob < length objects. if occurrences self objects ob xs > 0
          then \<exists>x \<in> set xs. t_last_occurrence st' ! ob = Some x
          else t_last_occurrence st' ! ob = t_last_occurrence st ! ob)"

definition settled :: "graph_builder \<Rightarrow> object_record list \<Rightarrow> dtree \<Rightarrow> dfs \<Rightarrow> bool" where
  "settled self objects t st \<longleftrightarrow>
     (\<forall>s \<in> set (subtrees t). delta_sum st (nodes s) = - repeated self objects (post s))"

definition visit_spec :: "graph_builder \<Rightarrow> object_record list \<Rightarrow> nat option \<Rightarrow> dtree \<Rightarrow> dfs \<Rightarrow> dfs \<Rightarrow> bool" where
  "visit_spec self objects p t st st' \<longleftrightarrow>
     processed self objects (post t) (case p of Some q \<Rightarrow> q | None \<Rightarrow> dt_root t) st st'
     \<and> (\<forall>S \<subseteq> {..< builder_len self}. nodes t \<subseteq> S \<or> S \<inter> nodes t = {} \<longrightarrow>
          takes self objects (post t) (dt_root t \<in> S) S st st')
     \<and> settled self objects t st'"

text \<open>Sets that no label points into lose nothing.\<close>

lemma no_takes:
  assumes "takes self objects xs False S st st'"
    and "\<And>ob prev. ob < length objects \<Longrightarrow> t_last_occurrence st ! ob = Some prev \<Longrightarrow> lab st prev \<notin> S"
  shows "delta_sum st' S = delta_sum st S"
proof -
  have "(\<Sum>ob < length objects. if occurrences self objects ob xs > 0 \<and> last_in st ob S then weight_of objects ob else 0) = 0"
    using assms(2) by (intro sum.neutral) (auto simp: last_in_def)
  then show ?thesis using assms(1) by (simp add: takes_def)
qed

lemma dfs_ok_last:
  "dfs_ok self objects st \<Longrightarrow> ob < length objects \<Longrightarrow> t_last_occurrence st ! ob = Some prev \<Longrightarrow> prev < builder_len self"
  by (simp add: dfs_ok_def Let_def)

lemma readyD:
  assumes "ready self objects xs st"
  shows "dfs_ok self objects st" and "distinct xs" and "\<And>x. x \<in> set xs \<Longrightarrow> x < builder_len self"
    and "\<And>x. x \<in> set xs \<Longrightarrow> lab st x = x" and "\<And>x. x \<in> set xs \<Longrightarrow> t_delta st ! x = 0"
    and "\<And>x. x < builder_len self \<Longrightarrow> x \<notin> set xs \<Longrightarrow> lab st x \<notin> set xs"
    and "\<And>ob prev. ob < length objects \<Longrightarrow> t_last_occurrence st ! ob = Some prev \<Longrightarrow> prev < builder_len self \<and> prev \<notin> set xs"
    and "length (t_post_order st) + length xs \<le> builder_len self"
  using assms dfs_ok_last [of self objects st] by (auto simp: ready_def fresh_in_def)

lemma ready_part:
  assumes "ready self objects (xs @ ys) st"
  shows "ready self objects xs st"
proof -
  note r = readyD [OF assms]
  have "lab st x \<notin> set xs" if "x < builder_len self" "x \<notin> set xs" for x
  proof (cases "x \<in> set ys")
    case True
    then show ?thesis using r(4) [of x] that by simp
  next
    case False
    then show ?thesis using r(6) [of x] that by simp
  qed
  then show ?thesis using r by (auto simp: ready_def fresh_in_def)
qed

text \<open>After the first part is processed, the rest is still untouched.\<close>

lemma ready_rest:
  assumes r: "ready self objects (xs @ ys) st" and p: "processed self objects xs l st st'" and l: "l \<notin> set ys"
    and t: "\<And>S. S \<subseteq> {..< builder_len self} \<Longrightarrow> S \<inter> set xs = {} \<Longrightarrow> l \<notin> S \<Longrightarrow> takes self objects xs False S st st'"
  shows "ready self objects ys st'"
proof -
  note rd = readyD [OF r]
  have lab': "lab st' x = (if x \<in> set xs then l else lab st x)" if "x < builder_len self" for x
    using p that by (simp add: processed_def)
  have disj: "set xs \<inter> set ys = {}" using rd(2) by auto
  have y: "lab st' y = y \<and> t_delta st' ! y = 0" if "y \<in> set ys" for y
  proof
    have yn: "y < builder_len self" "y \<notin> set xs" using rd(3) [of y] that disj by auto
    then show "lab st' y = y" using lab' rd(4) [of y] that by simp
    have "takes self objects xs False {y} st st'" using t [of "{y}"] yn l that by auto
    moreover have "lab st prev \<notin> {y}" if "ob < length objects" "t_last_occurrence st ! ob = Some prev" for ob prev
      using rd(7) [OF that] rd(6) [of prev] \<open>y \<in> set ys\<close> by auto
    ultimately have "delta_sum st' {y} = delta_sum st {y}" by (rule no_takes)
    then show "t_delta st' ! y = 0" using rd(5) [of y] that by (simp add: delta_sum_def)
  qed
  have "lab st' x \<notin> set ys" if "x < builder_len self" "x \<notin> set ys" for x
    using lab' [OF that(1)] l rd(6) [of x] that by auto
  moreover have "prev \<notin> set ys" if "ob < length objects" "t_last_occurrence st' ! ob = Some prev" for ob prev
  proof (cases "occurrences self objects ob xs > 0")
    case True
    then show ?thesis using p that disj by (force simp: processed_def)
  next
    case False
    then have "t_last_occurrence st ! ob = Some prev" using p that by (simp add: processed_def)
    then show ?thesis using rd(7) [OF that(1)] by auto
  qed
  ultimately show ?thesis
    using rd(2,3,8) y p by (auto simp: ready_def fresh_in_def processed_def)
qed

lemma processedD:
  assumes "processed self objects xs l st st'"
  shows "dfs_ok self objects st'" and "t_post_order st' = t_post_order st @ xs"
    and "\<And>x. x < builder_len self \<Longrightarrow> lab st' x = (if x \<in> set xs then l else lab st x)"
    and "\<And>ob. ob < length objects \<Longrightarrow> occurrences self objects ob xs > 0 \<Longrightarrow>
      \<exists>x \<in> set xs. t_last_occurrence st' ! ob = Some x"
    and "\<And>ob. ob < length objects \<Longrightarrow> occurrences self objects ob xs = 0 \<Longrightarrow>
      t_last_occurrence st' ! ob = t_last_occurrence st ! ob"
proof -
  note p = assms [unfolded processed_def]
  show "dfs_ok self objects st'" "t_post_order st' = t_post_order st @ xs" using p by blast+
  show "lab st' x = (if x \<in> set xs then l else lab st x)" if "x < builder_len self" for x
    using p that by blast
  fix ob assume ob: "ob < length objects"
  then have "if occurrences self objects ob xs > 0 then \<exists>x \<in> set xs. t_last_occurrence st' ! ob = Some x
      else t_last_occurrence st' ! ob = t_last_occurrence st ! ob" using p by blast
  then show "occurrences self objects ob xs > 0 \<Longrightarrow> \<exists>x \<in> set xs. t_last_occurrence st' ! ob = Some x"
    "occurrences self objects ob xs = 0 \<Longrightarrow> t_last_occurrence st' ! ob = t_last_occurrence st ! ob"
    by simp_all
qed

lemma processed_append:
  assumes "processed self objects xs l st st1" and "processed self objects ys l st1 st2"
    and "set xs \<inter> set ys = {}"
  shows "processed self objects (xs @ ys) l st st2"
proof -
  note x = processedD [OF assms(1)] and y = processedD [OF assms(2)]
  have "if occurrences self objects ob (xs @ ys) > 0 then \<exists>x \<in> set (xs @ ys). t_last_occurrence st2 ! ob = Some x
      else t_last_occurrence st2 ! ob = t_last_occurrence st ! ob" if ob: "ob < length objects" for ob
  proof (cases "occurrences self objects ob ys")
    case 0
    then have "t_last_occurrence st2 ! ob = t_last_occurrence st1 ! ob" using y(5) ob by simp
    with 0 x(4,5) [OF ob] show ?thesis by auto
  next
    case (Suc k)
    with y(4) [OF ob] show ?thesis by auto
  qed
  moreover have "lab st2 z = (if z \<in> set (xs @ ys) then l else lab st z)" if "z < builder_len self" for z
    using x(3) y(3) that by simp
  ultimately show ?thesis unfolding processed_def using x(2) y(1,2) by (simp only: append_assoc) blast
qed

lemma seen_unseen:
  assumes p: "processed self objects xs l st st1" and r: "ready self objects xs st" and ob: "ob < length objects"
  shows "occurrences self objects ob xs > 0 \<Longrightarrow> last_in st1 ob S \<longleftrightarrow> l \<in> S"
    and "occurrences self objects ob xs = 0 \<Longrightarrow> last_in st1 ob S = last_in st ob S"
proof -
  have lab': "lab st1 x = (if x \<in> set xs then l else lab st x)" if "x < builder_len self" for x
    using p that by (simp add: processed_def)
  show "last_in st1 ob S \<longleftrightarrow> l \<in> S" if occ: "occurrences self objects ob xs > 0"
  proof -
    obtain x where "x \<in> set xs" "t_last_occurrence st1 ! ob = Some x"
      using processedD(4) [OF p ob occ] by blast
    then show ?thesis using lab' [of x] readyD(3) [OF r] by (simp add: last_in_def)
  qed
  show "last_in st1 ob S = last_in st ob S" if occ: "occurrences self objects ob xs = 0"
  proof -
    have same: "t_last_occurrence st1 ! ob = t_last_occurrence st ! ob" using p occ ob by (simp add: processed_def)
    have "lab st1 prev = lab st prev" if "t_last_occurrence st ! ob = Some prev" for prev
      using readyD(7) [OF r ob that] lab' by simp
    then show ?thesis by (auto simp: last_in_def same)
  qed
qed

lemma visit_specD:
  assumes "visit_spec self objects p t st st'"
  shows "processed self objects (post t) (case p of Some q \<Rightarrow> q | None \<Rightarrow> dt_root t) st st'"
    and "\<And>S. S \<subseteq> {..< builder_len self} \<Longrightarrow> nodes t \<subseteq> S \<or> S \<inter> nodes t = {} \<Longrightarrow>
      takes self objects (post t) (dt_root t \<in> S) S st st'"
    and "settled self objects t st'"
  using assms unfolding visit_spec_def by blast+

text \<open>The children of an open node, one after the other.\<close>

lemma visit_all_ok:
  assumes IH: "\<And>t p st. t \<in> set ts \<Longrightarrow> ready self objects (post t) st \<Longrightarrow>
      (\<And>q. p = Some q \<Longrightarrow> open_node self q (post t) st) \<Longrightarrow>
      \<exists>st'. visit self objects p t st = Some st' \<and> visit_spec self objects p t st st'"
    and r: "ready self objects (posts ts) st" and c: "open_node self c (posts ts) st"
  shows "\<exists>st'. visit_all self objects c ts st = Some st' \<and> processed self objects (posts ts) c st st'
    \<and> (\<forall>S \<subseteq> {..< builder_len self}. insert c (set (posts ts)) \<subseteq> S \<or> S \<inter> insert c (set (posts ts)) = {} \<longrightarrow>
         takes self objects (posts ts) (c \<in> S) S st st')
    \<and> (\<forall>t \<in> set ts. settled self objects t st')"
  using assms
proof (induction ts arbitrary: st)
  case Nil
  then show ?case by (simp add: processed_def ready_def takes_Nil)
next
  case (Cons t ts)
  let ?n = "builder_len self" and ?N = "set (posts ts)"
  have r: "ready self objects (post t @ posts ts) st" using Cons.prems(2) by simp
  have oc: "c < ?n" "c \<notin> nodes t" "c \<notin> ?N" "lab st c = c"
    using Cons.prems(3) by (auto simp: open_node_def)
  have rt: "ready self objects (post t) st" using ready_part [OF r] .
  have disj: "nodes t \<inter> ?N = {}" using readyD(2) [OF r] by auto
  obtain st1 where v1: "visit self objects (Some c) t st = Some st1" and s1: "visit_spec self objects (Some c) t st st1"
    using Cons.prems(1) [of t st "Some c"] rt oc by (auto simp: open_node_def)
  have p1: "processed self objects (post t) c st st1" using visit_specD(1) [OF s1] by simp
  have r1: "ready self objects (posts ts) st1"
  proof (rule ready_rest [OF r p1 oc(3)])
    fix S assume S: "S \<subseteq> {..< ?n}" "S \<inter> nodes t = {}" "c \<notin> S"
    then have "dt_root t \<notin> S" using root_in_post [of t] by blast
    then show "takes self objects (post t) False S st st1"
      using visit_specD(2) [OF s1 S(1)] S(2) by simp
  qed
  have "lab st1 c = c" using processedD(3) [OF p1 oc(1)] oc(2,4) by simp
  then have c1: "open_node self c (posts ts) st1" using oc by (simp add: open_node_def)
  obtain st2 where v2: "visit_all self objects c ts st1 = Some st2" and p2: "processed self objects (posts ts) c st1 st2"
    and t2: "\<And>S. S \<subseteq> {..< ?n} \<Longrightarrow> insert c ?N \<subseteq> S \<or> S \<inter> insert c ?N = {} \<Longrightarrow>
         takes self objects (posts ts) (c \<in> S) S st1 st2"
    and set2: "\<And>t. t \<in> set ts \<Longrightarrow> settled self objects t st2"
  proof -
    have "\<And>t p st. t \<in> set ts \<Longrightarrow> ready self objects (post t) st \<Longrightarrow>
        (\<And>q. p = Some q \<Longrightarrow> open_node self q (post t) st) \<Longrightarrow>
        \<exists>st'. visit self objects p t st = Some st' \<and> visit_spec self objects p t st st'"
      by (rule Cons.prems(1)) simp_all
    from Cons.IH [OF this r1 c1] obtain st2 where st2: "visit_all self objects c ts st1 = Some st2 \<and> processed self objects (posts ts) c st1 st2
      \<and> (\<forall>S \<subseteq> {..< ?n}. insert c ?N \<subseteq> S \<or> S \<inter> insert c ?N = {} \<longrightarrow> takes self objects (posts ts) (c \<in> S) S st1 st2)
      \<and> (\<forall>t \<in> set ts. settled self objects t st2)" ..
    show ?thesis
    proof (rule that)
      show "visit_all self objects c ts st1 = Some st2" "processed self objects (posts ts) c st1 st2"
        using st2 by simp_all
      show "settled self objects t st2" if "t \<in> set ts" for t using st2 that by blast
      fix S assume "S \<subseteq> {..< ?n}" "insert c ?N \<subseteq> S \<or> S \<inter> insert c ?N = {}"
      with st2 show "takes self objects (posts ts) (c \<in> S) S st1 st2" by blast
    qed
  qed
  have takes: "takes self objects (posts (t # ts)) (c \<in> S) S st st2"
    if S: "S \<subseteq> {..< ?n}" "insert c (set (posts (t # ts))) \<subseteq> S \<or> S \<inter> insert c (set (posts (t # ts))) = {}" for S
  proof -
    have "dt_root t \<in> S \<longleftrightarrow> c \<in> S" using S(2) root_in_post [of t] by auto
    moreover have "takes self objects (post t) (dt_root t \<in> S) S st st1"
      using visit_specD(2) [OF s1 S(1)] S(2) by auto
    ultimately have "takes self objects (post t) (c \<in> S) S st st1" by simp
    moreover have "takes self objects (posts ts) (c \<in> S) S st1 st2" using t2 [OF S(1)] S(2) by auto
    ultimately show ?thesis
      using seen_unseen [OF p1 rt] by (simp add: takes_append)
  qed
  have "settled self objects t st2"
    unfolding settled_def
  proof
    fix s assume s: "s \<in> set (subtrees t)"
    then have sub: "nodes s \<subseteq> nodes t" by (rule subtree_post)
    have S: "nodes s \<subseteq> {..< ?n}" "nodes s \<inter> insert c ?N = {}"
      using sub disj oc(2) readyD(3) [OF rt] by auto
    have "takes self objects (posts ts) False (nodes s) st1 st2" using t2 [OF S(1)] S(2) by auto
    moreover have "lab st1 prev \<notin> nodes s" if "ob < length objects" "t_last_occurrence st1 ! ob = Some prev" for ob prev
    proof -
      have "prev < ?n" using readyD(7) [OF r1 that] by simp
      then show ?thesis using processedD(3) [OF p1] readyD(6) [OF rt, of prev] sub oc(2) by auto
    qed
    ultimately have "delta_sum st2 (nodes s) = delta_sum st1 (nodes s)" by (rule no_takes)
    then show "delta_sum st2 (nodes s) = - repeated self objects (post s)"
      using visit_specD(3) [OF s1] s by (simp add: settled_def)
  qed
  then have "\<forall>u \<in> set (t # ts). settled self objects u st2" using set2 by simp
  moreover have "visit_all self objects c (t # ts) st = Some st2" using v1 v2 by simp
  moreover have "processed self objects (posts (t # ts)) c st st2"
    using processed_append [OF p1 p2 disj] by simp
  ultimately show ?case using takes by blast
qed

text \<open>Leaving the node.\<close>

lemma leave_ok:
  assumes ok: "dfs_ok self objects st" and objs: "objects_ok self objects" and c: "c < builder_len self"
    and room: "length (t_post_order st) < builder_len self" and lc: "lab st c = c"
    and p: "\<And>q. p = Some q \<Longrightarrow> q < builder_len self \<and> lab st q = q \<and> q \<noteq> c"
  defines "l \<equiv> (case p of Some q \<Rightarrow> q | None \<Rightarrow> c)"
  shows "\<exists>st'. leave self objects p c st = Some st' \<and> dfs_ok self objects st'
    \<and> t_post_order st' = t_post_order st @ [c]
    \<and> (\<forall>x < builder_len self. lab st' x = (if lab st x = c then l else lab st x))
    \<and> (\<forall>ob < length objects. t_last_occurrence st' ! ob
         = (if event self objects c = Some ob then Some c else t_last_occurrence st ! ob))
    \<and> (\<forall>S b. S \<subseteq> {..< builder_len self} \<longrightarrow> takes self objects [c] b S st st')"
proof -
  let ?n = "builder_len self"
  obtain st1 where st1: "record_occurrence self objects c st = Some st1"
    "uf.labelled (t_uf_parent st1) (t_ancestor st1)" "length (t_uf_parent st1) = ?n"
    "length (t_delta st1) = ?n" "length (t_last_occurrence st1) = length objects"
    and lab1: "\<And>x. x < ?n \<Longrightarrow> lab st1 x = lab st x"
    and last1: "\<And>ob. ob < length objects \<Longrightarrow> t_last_occurrence st1 ! ob
         = (if event self objects c = Some ob then Some c else t_last_occurrence st ! ob)"
    and d1: "\<And>x. x < ?n \<Longrightarrow> - (2 ^ 64 * int (length (t_post_order st) + 1)) \<le> t_delta st1 ! x \<and> t_delta st1 ! x \<le> 0"
    and t1: "\<And>S b. S \<subseteq> {..< ?n} \<Longrightarrow> takes self objects [c] b S st st1"
    using record_ok [OF ok objs c room] by blast
  have po1: "t_post_order st1 = t_post_order st" using record_occurrence_fields [OF st1(1)] by simp
  have n32: "?n < 2 ^ 32" using objs by (simp add: objects_ok_def)
  let ?st1 = "st1\<lparr>t_post_order := t_post_order st1 @ [c]\<rparr>"
  have labs: "lab ?st1 = lab st1" by (rule ext) (simp add: lab_def)
  obtain st2 where st2: "join_to p c ?st1 = Some st2" "uf.labelled (t_uf_parent st2) (t_ancestor st2)"
    "length (t_uf_parent st2) = ?n"
    and lab2: "\<And>x. x < ?n \<Longrightarrow> lab st2 x = (if lab st x = c then l else lab st x)"
  proof (cases p)
    case None
    then have "join_to p c ?st1 = Some ?st1" by (simp add: join_to_def)
    then show ?thesis using that [of ?st1] st1 lab1 None by (auto simp: labs l_def)
  next
    case (Some q)
    then have q: "q < ?n" "lab st q = q" "q \<noteq> c" using p by simp_all
    have "lab ?st1 c = c" "lab ?st1 q = q" using lab1 c q lc by (simp_all add: labs)
    then obtain s where "join_to (Some q) c ?st1 = Some s" "uf.labelled (t_uf_parent s) (t_ancestor s)"
      "length (t_uf_parent s) = ?n" "\<forall>y < ?n. lab s y = (if lab ?st1 y = c then q else lab ?st1 y)"
      using join_ok [of ?st1 ?n c q] st1(2,3) n32 c q by auto
    then show ?thesis using that [of s] lab1 Some by (simp add: labs l_def)
  qed
  have f2: "t_post_order st2 = t_post_order st @ [c]" "t_delta st2 = t_delta st1"
    "t_last_occurrence st2 = t_last_occurrence st1"
    using join_to_fields [OF st2(1)] po1 by simp_all
  have ln: "l < ?n" using p c by (auto simp: l_def split: option.split)
  have last_n: "prev < ?n" if "ob < length objects" "t_last_occurrence st1 ! ob = Some prev" for ob prev
    using last1 [OF that(1)] that(2) c dfs_ok_last [OF ok that(1)] by (auto split: if_splits)
  have lab_n: "lab st x < ?n" if "x < ?n" for x using ok that by (simp add: dfs_ok_def Let_def)
  have "dfs_ok self objects st2"
    unfolding dfs_ok_def Let_def
    using st2(2,3) st1(4,5) f2 lab2 ln lab_n last_n d1 by auto
  moreover have "takes self objects [c] b S st st2" if "S \<subseteq> {..< ?n}" for S b
    using t1 [OF that, of b] f2(2) by (simp add: takes_def delta_sum_def)
  ultimately show ?thesis using st1(1) st2(1) f2 lab2 last1 by (auto simp: leave_def)
qed

lemma mark_same:
  "lab (mark c st) = lab st" "t_post_order (mark c st) = t_post_order st"
  "t_delta (mark c st) = t_delta st" "t_last_occurrence (mark c st) = t_last_occurrence st"
  by (auto simp: mark_def lab_def)

lemma dfs_ok_mark: "dfs_ok self objects (mark c st) \<longleftrightarrow> dfs_ok self objects st"
  by (simp add: dfs_ok_def Let_def mark_same) (simp add: mark_def)

lemma ready_mark: "ready self objects xs (mark c st) \<longleftrightarrow> ready self objects xs st"
  by (simp add: ready_def fresh_in_def dfs_ok_mark mark_same)

lemma visit_ok:
  assumes objs: "objects_ok self objects" and "ready self objects (post t) st"
    and "\<And>q. p = Some q \<Longrightarrow> open_node self q (post t) st"
  shows "\<exists>st'. visit self objects p t st = Some st' \<and> visit_spec self objects p t st st'"
  using assms(2,3)
proof (induction t arbitrary: p st)
  case (DNode c ts)
  let ?n = "builder_len self" and ?N = "set (posts ts)" and ?l = "case p of Some q \<Rightarrow> q | None \<Rightarrow> c"
  let ?t = "DNode c ts"
  have r: "ready self objects (posts ts @ [c]) (mark c st)" using DNode.prems(1) by (simp add: ready_mark)
  note rd = readyD [OF r]
  have c: "c < ?n" "c \<notin> ?N" "lab (mark c st) c = c" using rd(2-4) by auto
  have oc: "open_node self c (posts ts) (mark c st)" using c by (simp add: open_node_def)
  have r1: "ready self objects (posts ts) (mark c st)" using ready_part [OF r] .
  have IH: "\<exists>st'. visit self objects p t st = Some st' \<and> visit_spec self objects p t st st'"
    if "t \<in> set ts" "ready self objects (post t) st" "\<And>q. p = Some q \<Longrightarrow> open_node self q (post t) st" for t p st
    using DNode.IH that by blast
  obtain st2 where st2: "visit_all self objects c ts (mark c st) = Some st2
      \<and> processed self objects (posts ts) c (mark c st) st2
      \<and> (\<forall>S \<subseteq> {..< ?n}. insert c ?N \<subseteq> S \<or> S \<inter> insert c ?N = {} \<longrightarrow> takes self objects (posts ts) (c \<in> S) S (mark c st) st2)
      \<and> (\<forall>t \<in> set ts. settled self objects t st2)"
    using visit_all_ok [OF IH r1 oc] ..
  then have v2: "visit_all self objects c ts (mark c st) = Some st2"
    and p2: "processed self objects (posts ts) c (mark c st) st2"
    and set2: "\<And>t. t \<in> set ts \<Longrightarrow> settled self objects t st2" by simp_all
  have t2: "takes self objects (posts ts) (c \<in> S) S (mark c st) st2"
    if "S \<subseteq> {..< ?n}" "insert c ?N \<subseteq> S \<or> S \<inter> insert c ?N = {}" for S using st2 that by blast
  note pd = processedD [OF p2]
  have lab2: "lab st2 x = (if x \<in> set (post ?t) then c else lab st x)" if "x < ?n" for x
    using pd(3) [OF that] c(3) by (auto simp: mark_same)
  have q: "q < ?n \<and> lab st2 q = q \<and> q \<noteq> c" if "p = Some q" for q
  proof -
    have "q < ?n" "q \<notin> set (post ?t)" "lab st q = q" using DNode.prems(2) [OF that] by (simp_all add: open_node_def)
    then show ?thesis using lab2 [of q] by auto
  qed
  have lc: "lab st2 c = c" using lab2 [OF c(1)] by simp
  have room: "length (t_post_order st2) < ?n" using pd(2) rd(8) by simp
  obtain st' where st': "leave self objects p c st2 = Some st'" "dfs_ok self objects st'"
    "t_post_order st' = t_post_order st2 @ [c]"
    and lab': "\<And>x. x < ?n \<Longrightarrow> lab st' x = (if lab st2 x = c then ?l else lab st2 x)"
    and last': "\<And>ob. ob < length objects \<Longrightarrow> t_last_occurrence st' ! ob
         = (if event self objects c = Some ob then Some c else t_last_occurrence st2 ! ob)"
    and t': "\<And>S b. S \<subseteq> {..< ?n} \<Longrightarrow> takes self objects [c] b S st2 st'"
    using leave_ok [OF pd(1) objs c(1) room lc q] by blast
  have out: "lab st x \<notin> set (post ?t)" if "x < ?n" "x \<notin> set (post ?t)" for x
    using readyD(6) [OF DNode.prems(1)] that by blast
  have labf: "lab st' x = (if x \<in> set (post ?t) then ?l else lab st x)" if "x < ?n" for x
    using lab' [OF that] lab2 [OF that] out [OF that] by auto
  have occ: "occurrences self objects ob (post ?t)
      = occurrences self objects ob (posts ts) + (if event self objects c = Some ob then 1 else 0)" for ob
    by (simp add: occurrences_single)
  have proc: "processed self objects (post ?t) ?l st st'"
    unfolding processed_def
  proof (intro conjI allI impI)
    show "dfs_ok self objects st'" by (rule st'(2))
    show "t_post_order st' = t_post_order st @ post ?t" using st'(3) pd(2) by (simp add: mark_same)
    show "lab st' x = (if x \<in> set (post ?t) then ?l else lab st x)" if "x < ?n" for x using labf [OF that] .
    show "if occurrences self objects ob (post ?t) > 0 then \<exists>x \<in> set (post ?t). t_last_occurrence st' ! ob = Some x
        else t_last_occurrence st' ! ob = t_last_occurrence st ! ob" if ob: "ob < length objects" for ob
    proof (cases "event self objects c = Some ob")
      case True
      then show ?thesis using last' [OF ob] occ [of ob] by simp
    next
      case False
      then have same: "t_last_occurrence st' ! ob = t_last_occurrence st2 ! ob" using last' [OF ob] by simp
      show ?thesis
      proof (cases "occurrences self objects ob (posts ts) > 0")
        case True
        then obtain x where "x \<in> ?N" "t_last_occurrence st2 ! ob = Some x" using pd(4) [OF ob] by blast
        then show ?thesis using same True occ [of ob] by auto
      next
        case no: False
        then show ?thesis using same pd(5) [OF ob] occ [of ob] False by (simp add: mark_same)
      qed
    qed
  qed
  have takes: "takes self objects (post ?t) (c \<in> S) S st st'"
    if S: "S \<subseteq> {..< ?n}" "nodes ?t \<subseteq> S \<or> S \<inter> nodes ?t = {}" for S
  proof -
    have "takes self objects (posts ts) (c \<in> S) S (mark c st) st2" using t2 [OF S(1)] S(2) by auto
    from takes_append [OF this t' [OF S(1)]]
    have "takes self objects (posts ts @ [c]) (c \<in> S) S (mark c st) st'"
      using seen_unseen [OF p2 r1] by blast
    then show ?thesis by (simp add: takes_def delta_sum_def last_in_def mark_same)
  qed
  have settled: "settled self objects ?t st'"
    unfolding settled_def
  proof
    fix s assume "s \<in> set (subtrees ?t)"
    then consider "s = ?t" | t where "t \<in> set ts" "s \<in> set (subtrees t)" by auto
    then show "delta_sum st' (nodes s) = - repeated self objects (post s)"
    proof cases
      case 1
      have N: "nodes ?t \<subseteq> {..< ?n}" using readyD(3) [OF DNode.prems(1)] by blast
      have "takes self objects (post ?t) True (nodes ?t) st st'" using takes [OF N] by simp
      moreover have "delta_sum st (nodes ?t) = 0"
        unfolding delta_sum_def using readyD(5) [OF DNode.prems(1)] by (intro sum.neutral) blast
      moreover have "\<not> last_in st ob (nodes ?t)" if "ob < length objects" for ob
        using readyD(7) [OF DNode.prems(1) that] out by (auto simp: last_in_def)
      then have "(\<Sum>ob < length objects. if occurrences self objects ob (post ?t) > 0 \<and> last_in st ob (nodes ?t)
          then weight_of objects ob else 0) = 0" by (intro sum.neutral) auto
      ultimately show ?thesis using 1 by (simp add: takes_def)
    next
      case 2
      then have sub: "nodes s \<subseteq> ?N" using subtree_post [of s t] by auto
      then have "nodes s \<subseteq> {..< ?n}" using rd(3) by auto
      then have "takes self objects [c] False (nodes s) st2 st'" by (rule t')
      moreover have "lab st2 prev \<notin> nodes s" if "ob < length objects" "t_last_occurrence st2 ! ob = Some prev" for ob prev
      proof -
        have "prev < ?n" using dfs_ok_last [OF pd(1) that] .
        then show ?thesis using lab2 out sub c(2) by auto
      qed
      ultimately have "delta_sum st' (nodes s) = delta_sum st2 (nodes s)" by (rule no_takes)
      then show ?thesis using set2 [OF 2(1)] 2(2) by (simp add: settled_def)
    qed
  qed
  have "visit self objects p ?t st = Some st'" using v2 st'(1) by simp
  moreover have "visit_spec self objects p ?t st st'"
    unfolding visit_spec_def dtree.sel using proc takes settled by blast
  ultimately show ?case by blast
qed

end
