(* ===== verification/Graph_Tree.thy ===== *)
theory Graph_Tree
  imports Tarjan
begin

text \<open>
  The directory tree a well-formed builder describes, and the traversal of the whole graph: it
  reaches every entry, lists children before their parents, does not fail, and leaves in the
  delta vector what the accounting needs.
\<close>

section \<open>The shape of the graph\<close>

text \<open>The part of the builder's invariant the aggregation keeps while it changes the entries.\<close>

definition shape :: "graph_builder \<Rightarrow> bool" where
  "shape self \<longleftrightarrow> ids_ok self \<and> root_ok self \<and> parents_ok self \<and> links_ok self"

lemma wf_tree_shape: "wf_tree self \<Longrightarrow> shape self"
  by (simp add: shape_def wf_tree_def)

function tree_of :: "graph_builder \<Rightarrow> nat \<Rightarrow> dtree" where
  "tree_of self i = DNode i (map (tree_of self) (filter (\<lambda>j. i < j \<and> j < builder_len self) (kids self i)))"
  by pat_completeness auto
termination
  by (relation "measure (\<lambda>(self, i). builder_len self - i)") auto

declare tree_of.simps [simp del]

lemma kids_after: "shape self \<Longrightarrow> j \<in> set (kids self i) \<Longrightarrow> i < j \<and> j < builder_len self \<and> parent_pos self j = i"
  using parent_pos_Some [of self j] kids_bound [of j self i] by (auto simp: shape_def kids_def)

lemma tree_of_kids:
  assumes "shape self"
  shows "tree_of self i = DNode i (map (tree_of self) (kids self i))"
proof -
  have "filter (\<lambda>j. i < j \<and> j < builder_len self) (kids self i) = kids self i"
    using kids_after [OF assms] by (simp add: filter_id_conv)
  then show ?thesis by (subst tree_of.simps) simp
qed

lemma root_tree_of [simp]: "dt_root (tree_of self i) = i"
  by (subst tree_of.simps) simp

lemma tree_induct [consumes 1, case_names node]:
  assumes "shape self" and "\<And>i. (\<And>j. j \<in> set (kids self i) \<Longrightarrow> P j) \<Longrightarrow> P i"
  shows "P i"
proof (induction "builder_len self - i" arbitrary: i rule: less_induct)
  case less
  show ?case
  proof (rule assms(2))
    fix j assume "j \<in> set (kids self i)"
    then have "i < j" "j < builder_len self" using kids_after [OF assms(1)] by simp_all
    then show "P j" using less by simp
  qed
qed

text \<open>The positions below an entry, the entry itself last.\<close>

definition subtree :: "graph_builder \<Rightarrow> nat \<Rightarrow> nat list" where
  "subtree self i = post (tree_of self i)"

lemma subtree_kids: "shape self \<Longrightarrow> subtree self i = concat (map (subtree self) (kids self i)) @ [i]"
  unfolding subtree_def [abs_def] by (subst tree_of_kids) (simp_all add: comp_def)

lemma self_in_subtree [simp]: "i \<in> set (subtree self i)"
  using root_in_post [of "tree_of self i"] by (simp add: subtree_def)

lemma subtree_mem:
  assumes "shape self" and "i < builder_len self" and "x \<in> set (subtree self i)"
  shows "i \<le> x \<and> x < builder_len self \<and> (x \<noteq> i \<longrightarrow> 0 < x \<and> parent_pos self x \<in> set (subtree self i))"
  using assms
proof (induction i arbitrary: x rule: tree_induct [OF assms(1)])
  case (1 i)
  show ?case
  proof (cases "x = i")
    case False
    then obtain j where j: "j \<in> set (kids self i)" "x \<in> set (subtree self j)"
      using 1(4) by (auto simp: subtree_kids [OF assms(1), of i])
    have jn: "i < j" "j < builder_len self" "parent_pos self j = i" using kids_after [OF assms(1) j(1)] by simp_all
    have IH: "j \<le> x" "x < builder_len self" "x \<noteq> j \<Longrightarrow> 0 < x \<and> parent_pos self x \<in> set (subtree self j)"
      using 1(1) [OF j(1) assms(1) jn(2) j(2)] by simp_all
    have "parent_pos self x \<in> set (subtree self i)"
      using IH(3) jn(3) j(1) by (cases "x = j") (auto simp: subtree_kids [OF assms(1), of i])
    then show ?thesis using IH jn by auto
  qed (use 1 in simp)
qed

lemma subtree_disjoint:
  assumes s: "shape self" and a: "a \<in> set (kids self i)" and b: "b \<in> set (kids self i)" and "a \<noteq> b"
  shows "set (subtree self a) \<inter> set (subtree self b) = {}"
proof -
  have ab: "i < a" "a < builder_len self" "parent_pos self a = i" "i < b" "b < builder_len self" "parent_pos self b = i"
    using kids_after [OF s] a b by blast+
  have "x \<in> set (subtree self a) \<Longrightarrow> x \<in> set (subtree self b) \<Longrightarrow> False" for x
  proof (induction x rule: less_induct)
    case (less x)
    note xa = subtree_mem [OF s ab(2) less.prems(1)] and xb = subtree_mem [OF s ab(5) less.prems(2)]
    consider "x = a" | "x = b" | "x \<noteq> a" "x \<noteq> b" by blast
    then show ?case
    proof cases
      case 1
      then have "i \<in> set (subtree self b)" using xb \<open>a \<noteq> b\<close> ab(3) by simp
      then show ?thesis using subtree_mem [OF s ab(5)] ab(4) by fastforce
    next
      case 2
      then have "i \<in> set (subtree self a)" using xa \<open>a \<noteq> b\<close> ab(6) by simp
      then show ?thesis using subtree_mem [OF s ab(2)] ab(1) by fastforce
    next
      case 3
      then have "parent_pos self x < x" using xa parent_pos_Some [of self x] s by (simp add: shape_def)
      then show ?thesis using less.IH 3 xa xb by blast
    qed
  qed
  then show ?thesis by blast
qed

lemma distinct_concat_map:
  assumes "distinct xs" and "\<And>x. x \<in> set xs \<Longrightarrow> distinct (f x)"
    and "\<And>x y. x \<in> set xs \<Longrightarrow> y \<in> set xs \<Longrightarrow> x \<noteq> y \<Longrightarrow> set (f x) \<inter> set (f y) = {}"
  shows "distinct (concat (map f xs))"
  using assms by (induction xs) fastforce+

lemma distinct_subtree:
  assumes s: "shape self" and "i < builder_len self"
  shows "distinct (subtree self i)"
  using assms(2)
proof (induction i rule: tree_induct [OF s])
  case (1 i)
  note node = this
  have "distinct (concat (map (subtree self) (kids self i)))"
  proof (rule distinct_concat_map)
    show "distinct (subtree self j)" if "j \<in> set (kids self i)" for j
      using node(1) [OF that] kids_after [OF s that] by simp
  qed (use subtree_disjoint [OF s] in simp_all)
  moreover have "i \<notin> set (subtree self j)" if "j \<in> set (kids self i)" for j
    using kids_after [OF s that] subtree_mem [OF s, of j i] by auto
  ultimately show ?case by (auto simp: subtree_kids [OF s, of i])
qed

lemma subtree_trans:
  assumes "shape self" and "j \<in> set (subtree self i)"
  shows "tree_of self j \<in> set (subtrees (tree_of self i)) \<and> set (subtree self j) \<subseteq> set (subtree self i)"
  using assms(2)
proof (induction i rule: tree_induct [OF assms(1)])
  case (1 i)
  show ?case
  proof (cases "j = i")
    case True
    then show ?thesis by (cases "tree_of self i") simp
  next
    case False
    then obtain k where k: "k \<in> set (kids self i)" "j \<in> set (subtree self k)"
      using 1(2) by (auto simp: subtree_kids [OF assms(1), of i])
    with 1(1) [OF k] show ?thesis
      by (auto simp: subtree_kids [OF assms(1), of i] tree_of_kids [OF assms(1), of i])
  qed
qed

text \<open>Every entry is below the root.\<close>

lemma subtree_root:
  assumes "shape self" and "x < builder_len self"
  shows "x \<in> set (subtree self 0)"
  using assms(2)
proof (induction x rule: less_induct)
  case (less x)
  show ?case
  proof (cases "x = 0")
    case False
    let ?p = "parent_pos self x"
    have p: "?p < x" using parent_pos_Some [of self x] False less.prems assms(1) by (simp add: shape_def)
    then have "?p \<in> set (subtree self 0)" using less by simp
    moreover have "x \<in> set (kids self ?p)" using False less.prems by (simp add: kids_def)
    then have "x \<in> set (subtree self ?p)"
      using self_in_subtree unfolding subtree_kids [OF assms(1), of ?p] by fastforce
    ultimately show ?thesis using subtree_trans [OF assms(1)] by blast
  qed simp
qed

lemma set_subtree_root:
  "shape self \<Longrightarrow> 0 < builder_len self \<Longrightarrow> set (subtree self 0) = {..< builder_len self}"
  using subtree_root subtree_mem [of self 0] by auto

lemma length_subtree_root: "shape self \<Longrightarrow> 0 < builder_len self \<Longrightarrow> length (subtree self 0) = builder_len self"
  using distinct_card [OF distinct_subtree [of self 0]] set_subtree_root [of self] by simp

section \<open>The links describe the tree\<close>

lemma linked_tree:
  assumes s: "shape self" and "i < builder_len self"
  shows "linked self (tree_of self i)"
  using assms(2)
proof (induction i rule: tree_induct [OF s])
  case (1 i)
  have "i < 2 ^ 32 - 1" using ids_len [of self] s 1(2) by (simp add: shape_def)
  moreover have "linked self (tree_of self j)" if "j \<in> set (kids self i)" for j
    using 1(1) [OF that] kids_after [OF s that] by simp
  moreover have "map dt_root (map (tree_of self) js) = js" for js by (induction js) simp_all
  ultimately show ?case
    using s 1(2) by (simp add: tree_of_kids [OF s, of i] shape_def links_ok_def list_all_iff)
qed

section \<open>The traversal of the graph\<close>

lemma labelled_init:
  assumes "n \<le> 2 ^ 32"
  shows "uf.labelled (uf_init n) (map word_of_nat [0..<n] :: u32 list)"
    and "x < n \<Longrightarrow> unat (uf.label (uf_init n) (map word_of_nat [0..<n] :: u32 list) x) = x"
proof -
  note u = uf_init_ok [OF assms]
  have l: "uf.label (uf_init n) (map word_of_nat [0..<n] :: u32 list) x = word_of_nat x" if "x < n" for x
    using u(3) [OF that] that by (simp add: uf.label_def)
  have inj: "unat (word_of_nat x :: u32) = x" if "x < n" for x
    using that assms by (simp add: unat_of_nat)
  show "unat (uf.label (uf_init n) (map word_of_nat [0..<n] :: u32 list) x) = x" if "x < n"
    using l [OF that] inj [OF that] by simp
  show "uf.labelled (uf_init n) (map word_of_nat [0..<n] :: u32 list)"
    unfolding uf.labelled_def
  proof (intro conjI allI impI)
    fix x y assume xy: "x < length (uf_init n)" "y < length (uf_init n)"
      "uf.label (uf_init n) (map word_of_nat [0..<n] :: u32 list) x = uf.label (uf_init n) (map word_of_nat [0..<n]) y"
    then have "x < n" "y < n" by (simp_all add: u(2))
    then have "(word_of_nat x :: u32) = word_of_nat y" using xy(3) l by simp
    then have "x = y" using inj \<open>x < n\<close> \<open>y < n\<close> by metis
    then show "uf_rep (uf_init n) x = uf_rep (uf_init n) y" by simp
  qed (simp_all add: u)
qed

lemma ready_init:
  assumes s: "shape self" and n: "0 < builder_len self"
  shows "ready self objects (subtree self 0) (dfs_init (builder_len self) (length objects))"
proof -
  let ?n = "builder_len self" and ?st = "dfs_init (builder_len self) (length objects)"
  have n32: "?n \<le> 2 ^ 32" using ids_len [of self] s by (simp add: shape_def)
  have f: "t_uf_parent ?st = uf_init ?n" "t_ancestor ?st = map word_of_nat [0..<?n]"
    "t_delta ?st = replicate ?n 0" "t_last_occurrence ?st = replicate (length objects) None" "t_post_order ?st = []"
    by (simp_all add: dfs_init_def)
  have lab: "lab ?st x = x" if "x < ?n" for x
    using labelled_init(2) [OF n32 that] by (simp add: lab_def f)
  have "dfs_ok self objects ?st"
    using labelled_init(1) [OF n32] lab uf_init_ok(2) [OF n32] by (simp add: dfs_ok_def Let_def f)
  then show ?thesis
    using lab set_subtree_root [OF s n] distinct_subtree [OF s n] length_subtree_root [OF s n]
    by (simp add: ready_def fresh_in_def f)
qed

lemma traverse_all_ok:
  assumes s: "shape self" and n: "0 < builder_len self" and objs: "objects_ok self objects"
  shows "\<exists>st. traverse_all self objects = Some st \<and> t_post_order st = subtree self 0
    \<and> length (t_delta st) = builder_len self
    \<and> (\<forall>i < builder_len self. delta_sum st (set (subtree self i)) = - repeated self objects (subtree self i))
    \<and> (\<forall>i < builder_len self. - (2 ^ 96) \<le> t_delta st ! i \<and> t_delta st ! i \<le> 0)"
proof -
  let ?n = "builder_len self" and ?st = "dfs_init (builder_len self) (length objects)" and ?t = "tree_of self 0"
  have r: "ready self objects (post ?t) ?st" using ready_init [OF s n] by (simp add: subtree_def)
  obtain st where st: "visit self objects None ?t ?st = Some st" and sp: "visit_spec self objects None ?t ?st st"
    using visit_ok [OF objs r, of None] by auto
  note vs = visit_specD [OF sp]
  have ok: "dfs_ok self objects st" and po: "t_post_order st = subtree self 0"
    using processedD(1,2) [OF vs(1)] by (simp_all add: dfs_init_def subtree_def)
  have lens: "length (t_visited ?st) = ?n" "length (b_first_child self) = ?n"
    using s by (simp_all add: dfs_init_def shape_def links_ok_def)
  have "\<forall>x \<in> set (post ?t). x < length (t_visited ?st) \<and> \<not> t_visited ?st ! x"
    using set_subtree_root [OF s n] by (simp add: subtree_def dfs_init_def)
  then have "traverse self objects (with_stack [(0, b_first_child self ! 0)] (mark 0 ?st)) = Some (with_stack [] st)"
    using traverse_visit [OF linked_tree [OF s n] _, of ?st objects "[]"] readyD(2) [OF r] st by simp
  then have start: "start_at self objects 0 ?st = Some (with_stack [] st)"
    using n lens by (simp add: start_at_def mark_def dfs_init_def)
  have "traverse_all self objects = Some (with_stack [] st)"
    using start po length_subtree_root [OF s n] by (simp add: traverse_all_def Let_def)
  moreover have "delta_sum st (set (subtree self i)) = - repeated self objects (subtree self i)" if "i < ?n" for i
    using vs(3) subtree_trans [OF s subtree_root [OF s that]] by (simp add: settled_def subtree_def)
  moreover have "- (2 ^ 96) \<le> t_delta st ! i \<and> t_delta st ! i \<le> 0" if "i < ?n" for i
  proof -
    have "- (2 ^ 64 * int ?n) \<le> t_delta st ! i \<and> t_delta st ! i \<le> 0"
      using ok that po length_subtree_root [OF s n] by (simp add: dfs_ok_def Let_def)
    moreover have "int ?n \<le> 2 ^ 32" using ids_len [of self] s by (simp add: shape_def)
    ultimately show ?thesis by simp
  qed
  moreover have "length (t_delta st) = ?n" using ok by (simp add: dfs_ok_def Let_def)
  ultimately show ?thesis using po by (intro exI [of _ "with_stack [] st"]) (simp add: delta_sum_def)
qed

end
