(* ===== verification/Sizes.thy ===== *)
theory Sizes
  imports Graph_Tree
begin

text \<open>
  Phases 3 and 4 of \<open>compute_aggregates\<close>: after the traversal, every entry gets the number of
  bytes its subtree occupies with each distinct object counted once, and the saturating sums of
  its children.
\<close>

section \<open>Entries change, the shape stays\<close>

definition same_shape :: "graph_builder \<Rightarrow> graph_builder \<Rightarrow> bool" where
  "same_shape self self' \<longleftrightarrow> builder_len self' = builder_len self
     \<and> (\<forall>i < builder_len self. c_id (b_entries self' ! i) = c_id (b_entries self ! i)
          \<and> c_parent_id (b_entries self' ! i) = c_parent_id (b_entries self ! i)
          \<and> c_kind (b_entries self' ! i) = c_kind (b_entries self ! i)
          \<and> c_name (b_entries self' ! i) = c_name (b_entries self ! i))
     \<and> b_is_dense self' = b_is_dense self \<and> b_id_to_idx self' = b_id_to_idx self
     \<and> b_first_child self' = b_first_child self \<and> b_last_child self' = b_last_child self
     \<and> b_next_sibling self' = b_next_sibling self \<and> b_dir_self_alloc self' = b_dir_self_alloc self"

lemma same_shape_refl [simp]: "same_shape self self"
  by (simp add: same_shape_def)

lemma same_shape_trans: "same_shape a b \<Longrightarrow> same_shape b c \<Longrightarrow> same_shape a c"
  by (simp add: same_shape_def)

lemma same_shapeD:
  assumes "same_shape self self'"
  shows "builder_len self' = builder_len self"
    and "\<And>i. i < builder_len self \<Longrightarrow> c_kind (b_entries self' ! i) = c_kind (b_entries self ! i)"
    and "\<And>i. i < builder_len self \<Longrightarrow> c_id (b_entries self' ! i) = c_id (b_entries self ! i)"
    and "b_next_sibling self' = b_next_sibling self" and "b_first_child self' = b_first_child self"
    and "b_dir_self_alloc self' = b_dir_self_alloc self"
  using assms by (simp_all add: same_shape_def)

lemma same_shape_update:
  assumes "c_id e' = c_id (b_entries self ! i)" and "c_parent_id e' = c_parent_id (b_entries self ! i)"
    and "c_kind e' = c_kind (b_entries self ! i)" and "c_name e' = c_name (b_entries self ! i)"
  shows "same_shape self (self\<lparr>b_entries := (b_entries self)[i := e']\<rparr>)"
proof -
  have "(b_entries self)[i := e'] ! j = (if j = i then e' else b_entries self ! j)" if "j < builder_len self" for j
    using that by (cases "j = i") simp_all
  note upd = this
  show ?thesis using assms by (auto simp: same_shape_def upd)
qed

lemma ids_ok_same: "same_shape self self' \<Longrightarrow> ids_ok self \<Longrightarrow> ids_ok self'"
  unfolding same_shape_def ids_ok_def dense_ids_def sparse_ids_def by (auto split: if_splits)

lemma get_idx_same: "same_shape self self' \<Longrightarrow> builder_get_idx self' = builder_get_idx self"
  by (rule ext) (simp add: same_shape_def builder_get_idx_def dense_idx_def)

lemma parent_pos_same: "same_shape self self' \<Longrightarrow> j < builder_len self \<Longrightarrow> parent_pos self' j = parent_pos self j"
  by (simp add: parent_pos_def get_idx_same) (simp add: same_shape_def)

lemma kids_same:
  assumes "same_shape self self'"
  shows "kids self' = kids self"
proof
  fix p
  have "filter (\<lambda>j. parent_pos self' j = p) [1..<builder_len self] = filter (\<lambda>j. parent_pos self j = p) [1..<builder_len self]"
    using parent_pos_same [OF assms] by (intro filter_cong) auto
  then show "kids self' p = kids self p" using assms by (simp add: kids_def same_shape_def)
qed

lemma shape_same:
  assumes ss: "same_shape self self'" and s: "shape self"
  shows "shape self'"
proof -
  note d = ss [unfolded same_shape_def]
  have "parents_ok self'"
    unfolding parents_ok_def get_idx_same [OF ss]
  proof (intro allI impI)
    fix j assume j: "0 < j \<and> j < builder_len self'"
    then have jn: "0 < j \<and> j < builder_len self" using d by simp
    then obtain p where "p < j" "builder_get_idx self (c_parent_id (b_entries self ! j)) = Some p"
      "c_kind (b_entries self ! p) = Directory" "c_id (b_entries self ! j) \<noteq> 1" "c_parent_id (b_entries self ! j) \<noteq> 0"
      using s unfolding shape_def parents_ok_def by blast
    then show "c_id (b_entries self' ! j) \<noteq> 1 \<and> c_parent_id (b_entries self' ! j) \<noteq> 0 \<and>
      (\<exists>p<j. builder_get_idx self (c_parent_id (b_entries self' ! j)) = Some p \<and> c_kind (b_entries self' ! p) = Directory)"
      using d jn by (intro conjI exI [of _ p]) auto
  qed
  moreover have "root_ok self'" using s d by (auto simp: shape_def root_ok_def)
  moreover have "links_ok self'" using s d kids_same [OF ss] by (simp add: shape_def links_ok_def)
  ultimately show ?thesis using s ids_ok_same [OF ss] by (simp add: shape_def)
qed

lemma subtree_same:
  assumes ss: "same_shape self self'" and s: "shape self"
  shows "subtree self' i = subtree self i"
proof (induction i rule: tree_induct [OF s])
  case (1 i)
  then have "map (subtree self') (kids self i) = map (subtree self) (kids self i)" by simp
  then show ?case
    by (simp only: subtree_kids [OF s, of i] subtree_kids [OF shape_same [OF ss s], of i] kids_same [OF ss])
qed

section \<open>Bytes of a set of entries\<close>

definition has_object :: "graph_builder \<Rightarrow> nat \<Rightarrow> bool" where
  "has_object self x \<longleftrightarrow> c_kind (b_entries self ! x) = File \<and> c_object_index (b_entries self ! x) \<noteq> NO_OBJECT"

definition object_at :: "graph_builder \<Rightarrow> nat \<Rightarrow> nat" where
  "object_at self x = unat (c_object_index (b_entries self ! x))"

text \<open>What an entry occupies apart from shared objects.\<close>

definition own_bytes :: "graph_builder \<Rightarrow> nat \<Rightarrow> nat" where
  "own_bytes self x = (case c_kind (b_entries self ! x) of
     Directory \<Rightarrow> unat (b_dir_self_alloc self ! x)
   | File \<Rightarrow> (if has_object self x then 0 else unat (opt_bytes (c_allocated_size (b_entries self ! x))))
   | Special \<Rightarrow> 0)"

text \<open>The bytes of a list of entries: every object among them once, and what each occupies alone.\<close>

definition distinct_bytes :: "graph_builder \<Rightarrow> object_record list \<Rightarrow> nat list \<Rightarrow> nat" where
  "distinct_bytes self objects xs =
     (\<Sum>ob \<in> set (map (object_at self) (filter (has_object self) xs)). unat (o_weight (objects ! ob)))
     + (\<Sum>x \<leftarrow> xs. own_bytes self x)"

text \<open>What an entry would occupy if objects were counted at each occurrence.\<close>

definition base_bytes :: "graph_builder \<Rightarrow> object_record list \<Rightarrow> nat \<Rightarrow> nat" where
  "base_bytes self objects x =
     own_bytes self x + (if has_object self x then unat (o_weight (objects ! object_at self x)) else 0)"

lemma event_object:
  "event self objects x = (if has_object self x \<and> 0 < unat (o_weight (objects ! object_at self x))
     then Some (object_at self x) else None)"
  by (simp add: event_def has_object_def object_at_def Let_def word_greater_zero_iff unat_gt_0)

lemma weight_nat: "weight_of objects ob = int (unat (o_weight (objects ! ob)))"
  by (simp add: weight_of_def)

lemma objects_bound:
  "objects_ok self objects \<Longrightarrow> x < builder_len self \<Longrightarrow> has_object self x \<Longrightarrow> object_at self x < length objects"
  by (simp add: objects_ok_def has_object_def object_at_def)

text \<open>Counting every occurrence and taking the repetitions back leaves each object once.\<close>

lemma sum_occurrences:
  assumes "objects_ok self objects" and "\<forall>x \<in> set xs. x < builder_len self"
  shows "(\<Sum>x \<leftarrow> xs. if has_object self x then unat (o_weight (objects ! object_at self x)) else 0)
    = (\<Sum>ob < length objects. unat (o_weight (objects ! ob)) * occurrences self objects ob xs)"
  using assms(2)
proof (induction xs)
  case (Cons x xs)
  let ?w = "\<lambda>ob. unat (o_weight (objects ! ob))" and ?m = "{..< length objects}"
  have "(\<Sum>ob \<in> ?m. ?w ob * occurrences self objects ob [x])
      = (if has_object self x then ?w (object_at self x) else 0)"
  proof -
    have "?w ob * occurrences self objects ob [x] = (if ob = object_at self x then (if has_object self x then ?w ob else 0) else 0)" for ob
      by (auto simp: occurrences_single event_object)
    then show ?thesis using objects_bound [OF assms(1), of x] Cons.prems by simp
  qed
  moreover have "occurrences self objects ob (x # xs) = occurrences self objects ob [x] + occurrences self objects ob xs" for ob
    by (simp add: occurrences_def)
  ultimately show ?case using Cons by (simp add: sum.distrib algebra_simps)
qed simp

lemma distinct_bytes_eq:
  assumes o: "objects_ok self objects" and xs: "\<forall>x \<in> set xs. x < builder_len self"
  shows "int (distinct_bytes self objects xs) = (\<Sum>x \<leftarrow> xs. int (base_bytes self objects x)) - repeated self objects xs"
proof -
  let ?w = "\<lambda>ob. unat (o_weight (objects ! ob))" and ?m = "{..< length objects}"
  let ?k = "\<lambda>ob. occurrences self objects ob xs"
  let ?O = "set (map (object_at self) (filter (has_object self) xs))"
  have base: "(\<Sum>x \<leftarrow> xs. base_bytes self objects x) = (\<Sum>x \<leftarrow> xs. own_bytes self x) + (\<Sum>ob \<in> ?m. ?w ob * ?k ob)"
    using sum_occurrences [OF o xs] by (simp add: base_bytes_def sum_list_addf)
  have sub: "?O \<subseteq> ?m" using objects_bound [OF o] xs by auto
  have pos: "?k ob > 0 \<longleftrightarrow> ob \<in> ?O \<and> 0 < ?w ob" for ob
    by (auto simp: occurrences_pos event_object split: if_splits)
  have "(\<Sum>ob \<in> ?O. ?w ob) = (\<Sum>ob \<in> ?m. if ob \<in> ?O then ?w ob else 0)"
    using sub by (simp add: sum.If_cases Int_absorb1)
  also have "int \<dots> = (\<Sum>ob \<in> ?m. int (?w ob * ?k ob) - weight_of objects ob * int (?k ob - 1))"
    unfolding of_nat_sum
  proof (rule sum.cong [OF refl])
    fix ob
    show "int (if ob \<in> ?O then ?w ob else 0) = int (?w ob * ?k ob) - weight_of objects ob * int (?k ob - 1)"
      using pos [of ob] by (cases "?k ob") (auto simp: weight_nat algebra_simps)
  qed
  also have "\<dots> = int (\<Sum>ob \<in> ?m. ?w ob * ?k ob) - repeated self objects xs"
    by (simp add: sum_subtractf repeated_def)
  finally have "int (\<Sum>ob \<in> ?O. ?w ob) = int (\<Sum>ob \<in> ?m. ?w ob * ?k ob) - repeated self objects xs" .
  moreover have "(\<Sum>x \<leftarrow> xs. int (base_bytes self objects x)) = int (\<Sum>x \<leftarrow> xs. base_bytes self objects x)"
    by (induction xs) simp_all
  ultimately show ?thesis unfolding distinct_bytes_def base by simp
qed

lemma distinct_bytes_mono:
  assumes "distinct xs" and "distinct ys" and "set xs \<subseteq> set ys"
  shows "distinct_bytes self objects xs \<le> distinct_bytes self objects ys"
proof -
  have "(\<Sum>x \<leftarrow> xs. own_bytes self x) \<le> (\<Sum>x \<leftarrow> ys. own_bytes self x)"
    using assms by (simp add: sum_list_distinct_conv_sum_set sum_mono2)
  moreover have "set (map (object_at self) (filter (has_object self) xs)) \<subseteq> set (map (object_at self) (filter (has_object self) ys))"
    using assms(3) by auto
  then have "(\<Sum>ob \<in> set (map (object_at self) (filter (has_object self) xs)). unat (o_weight (objects ! ob)))
    \<le> (\<Sum>ob \<in> set (map (object_at self) (filter (has_object self) ys)). unat (o_weight (objects ! ob)))"
    by (intro sum_mono2) auto
  ultimately show ?thesis by (simp add: distinct_bytes_def)
qed

section \<open>The recursion over the tree\<close>

text \<open>
  Given the deltas the traversal leaves, the distinct bytes of a subtree are those of the
  children's subtrees, the node's delta and what the node itself occupies.
\<close>

definition deltas_ok :: "graph_builder \<Rightarrow> object_record list \<Rightarrow> int list \<Rightarrow> bool" where
  "deltas_ok self objects delta \<longleftrightarrow> length delta = builder_len self
     \<and> (\<forall>i < builder_len self. (\<Sum>x \<in> set (subtree self i). delta ! x) = - repeated self objects (subtree self i))
     \<and> (\<forall>i < builder_len self. - (2 ^ 96) \<le> delta ! i \<and> delta ! i \<le> 0)"

abbreviation unique_bytes :: "graph_builder \<Rightarrow> object_record list \<Rightarrow> nat \<Rightarrow> nat" where
  "unique_bytes self objects i \<equiv> distinct_bytes self objects (subtree self i)"

lemma unique_bytes_step:
  assumes s: "shape self" and o: "objects_ok self objects" and d: "deltas_ok self objects delta" and i: "i < builder_len self"
  shows "int (unique_bytes self objects i) =
    (\<Sum>k \<leftarrow> kids self i. int (unique_bytes self objects k)) + delta ! i + int (base_bytes self objects i)"
proof -
  let ?f = "\<lambda>x. int (base_bytes self objects x) + delta ! x"
  have U: "int (unique_bytes self objects j) = (\<Sum>x \<leftarrow> subtree self j. ?f x)" if "j < builder_len self" for j
  proof -
    have "(\<Sum>x \<leftarrow> subtree self j. delta ! x) = (\<Sum>x \<in> set (subtree self j). delta ! x)"
      using distinct_subtree [OF s that] by (simp add: sum_list_distinct_conv_sum_set)
    also have "\<dots> = - repeated self objects (subtree self j)" using d that by (simp add: deltas_ok_def)
    finally show ?thesis
      using distinct_bytes_eq [OF o, of "subtree self j"] subtree_mem [OF s that]
      by (simp add: sum_list_addf)
  qed
  have "(\<Sum>x \<leftarrow> concat (map (subtree self) ks). ?f x) = (\<Sum>k \<leftarrow> ks. \<Sum>x \<leftarrow> subtree self k. ?f x)" for ks
    by (induction ks) simp_all
  moreover have "(\<Sum>k \<leftarrow> kids self i. int (unique_bytes self objects k)) = (\<Sum>k \<leftarrow> kids self i. \<Sum>x \<leftarrow> subtree self k. ?f x)"
    using U kids_after [OF s] by (intro arg_cong [where f = sum_list] map_cong) auto
  ultimately show ?thesis using U [OF i] by (simp add: subtree_kids [OF s, of i])
qed

lemma leaf_kids:
  assumes s: "shape self" and i: "i < builder_len self" and "c_kind (b_entries self ! i) \<noteq> Directory"
  shows "kids self i = []"
proof (rule ccontr)
  assume "kids self i \<noteq> []"
  then obtain j where j: "j \<in> set (kids self i)" by (metis list.set_intros(1) neq_Nil_conv)
  then have "0 < j" "j < builder_len self" "parent_pos self j = i" using kids_bound kids_after [OF s j] by blast+
  then show False using parent_pos_Some [of self j] s assms(3) by (simp add: shape_def)
qed

lemma unique_bytes_leaf:
  assumes s: "shape self" and "i < builder_len self" and "c_kind (b_entries self ! i) \<noteq> Directory"
  shows "unique_bytes self objects i = base_bytes self objects i"
  using leaf_kids [OF assms]
  by (simp add: subtree_kids [OF s, of i] distinct_bytes_def base_bytes_def)

end
