(* ===== verification/Size_Phases.thy ===== *)
theory Size_Phases
  imports Sizes Builder_Spec
begin

text \<open>
  Phases 3 and 4 of \<open>compute_aggregates\<close> run through and establish, for every entry, the
  distinct bytes of its subtree and, for every directory, the saturating sums of its children.
\<close>

section \<open>Loops that update one entry at a time\<close>

definition upd :: "nat \<Rightarrow> (compact_entry \<Rightarrow> compact_entry) \<Rightarrow> graph_builder \<Rightarrow> graph_builder" where
  "upd i f self = self\<lparr>b_entries := (b_entries self)[i := f (b_entries self ! i)]\<rparr>"

definition entries_map :: "(nat \<Rightarrow> compact_entry \<Rightarrow> compact_entry) \<Rightarrow> graph_builder \<Rightarrow> graph_builder" where
  "entries_map f self = self\<lparr>b_entries := map (\<lambda>i. f i (b_entries self ! i)) [0..<builder_len self]\<rparr>"

lemma entries_map_nth [simp]:
  "i < builder_len self \<Longrightarrow> b_entries (entries_map f self) ! i = f i (b_entries self ! i)"
  "builder_len (entries_map f self) = builder_len self"
  by (simp_all add: entries_map_def)

lemma upd_entries_map:
  assumes "y < builder_len self" and "y \<notin> B"
  shows "upd y (f y) (entries_map (\<lambda>j. if j \<in> B then f j else (\<lambda>e. e)) self)
    = entries_map (\<lambda>j. if j \<in> insert y B then f j else (\<lambda>e. e)) self"
proof -
  let ?e = "b_entries self" and ?n = "builder_len self"
  have "(map (\<lambda>i. (if i \<in> B then f i else (\<lambda>e. e)) (?e ! i)) [0..<?n])[y := f y (?e ! y)]
      = map (\<lambda>i. (if i \<in> insert y B then f i else (\<lambda>e. e)) (?e ! i)) [0..<?n]"
    using assms by (intro nth_equalityI) (auto simp: nth_list_update)
  then show ?thesis using assms by (simp add: upd_def entries_map_def)
qed

lemma fold_pointwise:
  assumes "distinct xs" and "\<forall>i \<in> set xs. i < builder_len self"
    and step: "\<And>s i B. i \<in> set xs \<Longrightarrow> s = entries_map (\<lambda>j. if j \<in> B then f j else (\<lambda>e. e)) self \<Longrightarrow> i \<notin> B \<Longrightarrow>
      step s i = Some (upd i (f i) s)"
  shows "fold_opt step self xs = Some (entries_map (\<lambda>j. if j \<in> set xs then f j else (\<lambda>e. e)) self)"
proof -
  let ?s = "\<lambda>B. entries_map (\<lambda>j. if j \<in> B then f j else (\<lambda>e. e)) self"
  have "\<exists>s'. fold_opt step self xs = Some s' \<and> s' = ?s (set xs)"
  proof (rule fold_opt_invariant [where I = "\<lambda>ys s. s = ?s (set ys)"])
    show "self = ?s (set [])" by (simp add: entries_map_def map_nth)
    fix ys y zs s assume xs: "xs = ys @ y # zs" and s: "s = ?s (set ys)"
    have y: "y \<in> set xs" "y \<notin> set ys" "y < builder_len self" using xs assms(1,2) by auto
    have "upd y (f y) s = ?s (set (ys @ [y]))"
      unfolding s using upd_entries_map [OF y(3,2), of f] by (simp only: set_append list.set Un_insert_right Un_empty_right)
    then show "\<exists>s'. step s y = Some s' \<and> s' = ?s (set (ys @ [y]))" using step [OF y(1) s y(2)] by simp
  qed
  then show ?thesis by simp
qed

section \<open>Phase 3\<close>

definition leaf_unique :: "object_record list \<Rightarrow> compact_entry \<Rightarrow> compact_entry" where
  "leaf_unique objects e = (case c_kind e of
     File \<Rightarrow> e\<lparr>c_unique_allocated_bytes := (if c_object_index e \<noteq> NO_OBJECT
       then o_weight (objects ! unat (c_object_index e)) else opt_bytes (c_allocated_size e))\<rparr>
   | Special \<Rightarrow> e\<lparr>c_unique_allocated_bytes := 0\<rparr>
   | Directory \<Rightarrow> e)"

lemma leaf_unique_fields [simp]:
  "c_id (leaf_unique objects e) = c_id e" "c_parent_id (leaf_unique objects e) = c_parent_id e"
  "c_kind (leaf_unique objects e) = c_kind e" "c_name (leaf_unique objects e) = c_name e"
  "c_object_index (leaf_unique objects e) = c_object_index e"
  "c_allocated_size (leaf_unique objects e) = c_allocated_size e"
  "c_logical_size (leaf_unique objects e) = c_logical_size e"
  "c_referenced_allocated_bytes (leaf_unique objects e) = c_referenced_allocated_bytes e"
  "c_known_subtotal_allocated_bytes (leaf_unique objects e) = c_known_subtotal_allocated_bytes e"
  "c_allocated_size_known (leaf_unique objects e) = c_allocated_size_known e"
  by (simp_all add: leaf_unique_def split: entry_kind.split)

lemma same_shape_map:
  assumes "\<And>i e. c_id (f i e) = c_id e \<and> c_parent_id (f i e) = c_parent_id e \<and> c_kind (f i e) = c_kind e \<and> c_name (f i e) = c_name e"
  shows "same_shape self (entries_map f self)"
  using assms by (simp add: same_shape_def) (simp add: entries_map_def)

lemma phase3:
  assumes o: "objects_ok self objects" and "distinct xs" and "set xs = {..< builder_len self}"
  shows "fold_opt (set_leaf_unique objects) self xs = Some (entries_map (\<lambda>_. leaf_unique objects) self)"
proof -
  have "fold_opt (set_leaf_unique objects) self xs
      = Some (entries_map (\<lambda>j. if j \<in> set xs then leaf_unique objects else (\<lambda>e. e)) self)"
  proof (rule fold_pointwise [OF assms(2)])
    show "\<forall>i \<in> set xs. i < builder_len self" using assms(3) by auto
    fix s i B assume i: "i \<in> set xs" "i \<notin> B" and s: "s = entries_map (\<lambda>j. if j \<in> B then leaf_unique objects else (\<lambda>e. e)) self"
    have n: "i < builder_len self" "i < builder_len s" using i assms(3) s by auto
    have e: "b_entries s ! i = b_entries self ! i" using i n s by simp
    have "c_kind (b_entries self ! i) = File \<Longrightarrow> c_object_index (b_entries self ! i) \<noteq> NO_OBJECT \<Longrightarrow>
        unat (c_object_index (b_entries self ! i)) < length objects"
      using o n(1) by (simp add: objects_ok_def)
    then show "set_leaf_unique objects s i = Some (upd i (leaf_unique objects) s)"
      using n e list_update_id [of "b_entries s" i] by (cases "c_kind (b_entries self ! i)")
        (auto simp: set_leaf_unique_def upd_def leaf_unique_def opt_bytes_def)
  qed
  moreover have "entries_map (\<lambda>j. if j \<in> set xs then leaf_unique objects else (\<lambda>e. e)) self
      = entries_map (\<lambda>_. leaf_unique objects) self"
    using assms(3) by (simp add: entries_map_def cong: map_cong)
  ultimately show ?thesis by simp
qed

section \<open>Sums over the children\<close>

definition add_child_sums :: "compact_entry \<Rightarrow> child_sums \<Rightarrow> child_sums" where
  "add_child_sums child sums =
     \<lparr>cs_logical = saturating_add (cs_logical sums) (opt_bytes (c_logical_size child)),
      cs_referenced = saturating_add (cs_referenced sums) (c_referenced_allocated_bytes child),
      cs_known_subtotal = saturating_add (cs_known_subtotal sums) (c_known_subtotal_allocated_bytes child),
      cs_unique = cs_unique sums + uint (c_unique_allocated_bytes child),
      cs_all_known = (cs_all_known sums \<and> c_allocated_size_known child
        \<and> \<not> (c_kind child = File \<and> c_allocated_size child = None))\<rparr>"

definition total_sums :: "graph_builder \<Rightarrow> u64 \<Rightarrow> nat list \<Rightarrow> child_sums" where
  "total_sums self a js =
     \<lparr>cs_logical = foldl saturating_add 0 (map (\<lambda>j. opt_bytes (c_logical_size (b_entries self ! j))) js),
      cs_referenced = foldl saturating_add a (map (\<lambda>j. c_referenced_allocated_bytes (b_entries self ! j)) js),
      cs_known_subtotal = foldl saturating_add a (map (\<lambda>j. c_known_subtotal_allocated_bytes (b_entries self ! j)) js),
      cs_unique = (\<Sum>j \<leftarrow> js. uint (c_unique_allocated_bytes (b_entries self ! j))),
      cs_all_known = (\<forall>j \<in> set js. c_allocated_size_known (b_entries self ! j)
        \<and> \<not> (c_kind (b_entries self ! j) = File \<and> c_allocated_size (b_entries self ! j) = None))\<rparr>"

lemma total_sums_snoc:
  "total_sums self a (js @ [j]) = add_child_sums (b_entries self ! j) (total_sums self a js)"
  by (auto simp: total_sums_def add_child_sums_def)

lemma uint_u64: "0 \<le> uint (w :: u64) \<and> uint w < 2 ^ 64"
  using unsigned_less [of w, where 'a = int] by simp

lemma unique_sum_bound:
  "0 \<le> (\<Sum>j \<leftarrow> js. uint (f j :: u64)) \<and> (\<Sum>j \<leftarrow> js. uint (f j)) \<le> 2 ^ 64 * int (length js)"
proof (induction js)
  case (Cons j js)
  have "0 \<le> uint (f j)" "uint (f j) < 2 ^ 64" using uint_u64 by blast+
  with Cons show ?case by (simp add: algebra_simps)
qed simp

lemma sum_children_chain:
  assumes "chain (b_next_sibling self) w js" and "\<forall>j \<in> set (iis @ js). j < builder_len self"
    and "length (b_next_sibling self) = builder_len self" and "length (iis @ js) < 2 ^ 32"
  shows "sum_children self w (total_sums self a iis) = Some (total_sums self a (iis @ js))"
  using assms
proof (induction js arbitrary: w iis)
  case Nil
  then show ?case by (subst sum_children.simps) simp
next
  case (Cons j js)
  have j: "w = word_of_nat j" "j < builder_len self" "j < 2 ^ 32 - 1" "chain (b_next_sibling self) (b_next_sibling self ! j) js"
    using Cons.prems by simp_all
  then have u: "unat w = j" "w \<noteq> u32_max"
    by (auto simp: unat_of_nat) (metis (no_types) chain.simps(2) chain_first list.distinct(1) Cons.prems(1) j(1))
  have "0 \<le> cs_unique (total_sums self a (iis @ [j])) \<and> cs_unique (total_sums self a (iis @ [j])) \<le> 2 ^ 64 * int (length (iis @ [j]))"
    unfolding total_sums_def using unique_sum_bound [of "\<lambda>j. c_unique_allocated_bytes (b_entries self ! j)" "iis @ [j]"] by simp
  moreover have "2 ^ 64 * int (length (iis @ [j])) \<le> 2 ^ 64 * 2 ^ 32" using Cons.prems(4) by simp
  ultimately have "i128 (cs_unique (total_sums self a (iis @ [j]))) = Some (cs_unique (total_sums self a (iis @ [j])))"
    by (simp add: i128_def)
  then have "add_child (b_entries self ! j) (total_sums self a iis) = Some (total_sums self a (iis @ [j]))"
    by (simp add: add_child_def total_sums_snoc add_child_sums_def opt_bytes_def)
  moreover have "sum_children self (b_next_sibling self ! j) (total_sums self a (iis @ [j])) = Some (total_sums self a ((iis @ [j]) @ js))"
    using Cons.prems j by (intro Cons.IH) auto
  ultimately show ?case using j u Cons.prems(3) by (subst sum_children.simps) simp
qed

section \<open>Phase 4\<close>

text \<open>What a directory's entry becomes, given its children's final entries.\<close>

definition directory_sums :: "graph_builder \<Rightarrow> nat \<Rightarrow> child_sums" where
  "directory_sums self i = total_sums self (b_dir_self_alloc self ! i) (kids self i)"

definition settled_directory :: "int list \<Rightarrow> graph_builder \<Rightarrow> nat \<Rightarrow> compact_entry \<Rightarrow> compact_entry" where
  "settled_directory delta self i e =
     (let sums = directory_sums self i
      in e\<lparr>c_logical_size := Some (cs_logical sums),
           c_referenced_allocated_bytes := cs_referenced sums,
           c_known_subtotal_allocated_bytes := cs_known_subtotal sums,
           c_allocated_size := Some (cs_referenced sums),
           c_allocated_size_known := cs_all_known sums,
           c_unique_allocated_bytes := word_of_int (cs_unique sums + delta ! i + uint (b_dir_self_alloc self ! i))\<rparr>)"

lemma total_sums_cong:
  assumes "\<forall>j \<in> set js. b_entries self' ! j = b_entries self ! j"
  shows "total_sums self' a js = total_sums self a js"
  using assms by (simp add: total_sums_def cong: map_cong)

text \<open>Every entry comes after its children.\<close>

primrec children_first :: "graph_builder \<Rightarrow> nat set \<Rightarrow> nat list \<Rightarrow> bool" where
  "children_first self A [] = True"
| "children_first self A (x # xs) = (set (kids self x) \<subseteq> A \<and> children_first self (insert x A) xs)"

lemma children_first_append [simp]:
  "children_first self A (xs @ ys) = (children_first self A xs \<and> children_first self (A \<union> set xs) ys)"
  by (induction xs arbitrary: A) simp_all

lemma children_first_mono: "children_first self A xs \<Longrightarrow> A \<subseteq> B \<Longrightarrow> children_first self B xs"
proof (induction xs arbitrary: A B)
  case (Cons x xs)
  then have "insert x A \<subseteq> insert x B" by blast
  with Cons show ?case by auto
qed simp

lemma children_first_concat:
  assumes "\<And>x. x \<in> set xs \<Longrightarrow> children_first self {} (f x)"
  shows "children_first self A (concat (map f xs))"
  using assms
proof (induction xs arbitrary: A)
  case (Cons x xs)
  have "children_first self A (f x)" by (rule children_first_mono [OF Cons.prems]) simp_all
  moreover have "children_first self B (concat (map f xs))" for B using Cons by simp
  ultimately show ?case by simp
qed simp

lemma subtree_children_first:
  assumes s: "shape self"
  shows "children_first self {} (subtree self i)"
proof (induction i rule: tree_induct [OF s])
  case (1 i)
  have "children_first self {} (concat (map (subtree self) (kids self i)))"
    by (rule children_first_concat) (rule 1)
  moreover have "set (kids self i) \<subseteq> set (concat (map (subtree self) (kids self i)))"
    by (auto intro!: bexI self_in_subtree)
  ultimately show ?case by (simp add: subtree_kids [OF s, of i])
qed

lemma subtree_split_kids:
  assumes "shape self" and "subtree self 0 = ys @ y # zs"
  shows "set (kids self y) \<subseteq> set ys"
  using subtree_children_first [OF assms(1), of 0] assms(2) by simp

lemma kids_lt: "j \<in> set (kids self i) \<Longrightarrow> j < builder_len self"
  by (auto simp: kids_def)

lemma length_kids: "length (kids self i) \<le> builder_len self"
  using length_filter_le [of "\<lambda>j. parent_pos self j = i" "[1..<builder_len self]"] by (simp add: kids_def)

lemma sum_children_kids:
  assumes "shape self" and "i < builder_len self"
  shows "sum_children self (b_first_child self ! i) (total_sums self a []) = Some (total_sums self a (kids self i))"
proof -
  have "length (kids self i) < 2 ^ 32"
    using length_kids [of self i] ids_len [of self] assms(1) by (simp add: shape_def)
  then show ?thesis
    using sum_children_chain [of self "b_first_child self ! i" "kids self i" "[]" a] assms kids_lt [of _ self i]
    by (simp add: shape_def links_ok_def)
qed

text \<open>One step of phase 4, once the children have their distinct bytes.\<close>

lemma aggregate_directory_ok:
  assumes s: "shape self" and i: "i < builder_len self" and l: "length delta = builder_len self"
    and d: "c_kind (b_entries self ! i) = Directory"
    and b: "- (2 ^ 96) \<le> delta ! i \<and> delta ! i \<le> 0"
    and nn: "0 \<le> cs_unique (directory_sums self i) + delta ! i + uint (b_dir_self_alloc self ! i)"
  shows "aggregate_directory delta self i = Some (upd i (settled_directory delta self i) self)"
proof -
  let ?a = "b_dir_self_alloc self ! i" and ?n = "cs_unique (directory_sums self i)"
  have lens: "length (b_dir_self_alloc self) = builder_len self" "length (b_first_child self) = builder_len self"
    using s by (simp_all add: shape_def links_ok_def)
  have "length (kids self i) < 2 ^ 32"
    using length_kids [of self i] ids_len [of self] s by (simp add: shape_def)
  then have "0 \<le> ?n" "?n < 2 ^ 97"
    using unique_sum_bound [of "\<lambda>j. c_unique_allocated_bytes (b_entries self ! j)" "kids self i"]
    by (simp_all add: directory_sums_def total_sums_def)
  then have 1: "i128 (?n + delta ! i) = Some (?n + delta ! i)"
    and 2: "i128 (?n + delta ! i + uint ?a) = Some (?n + delta ! i + uint ?a)"
    using b uint_u64 [of ?a] by (simp_all add: i128_def, linarith+)
  have t: "total_sums self ?a [] =
      \<lparr>cs_logical = 0, cs_referenced = ?a, cs_known_subtotal = ?a, cs_unique = 0, cs_all_known = True\<rparr>"
    by (simp add: total_sums_def)
  have sums: "sum_children self (b_first_child self ! i)
      \<lparr>cs_logical = 0, cs_referenced = ?a, cs_known_subtotal = ?a, cs_unique = 0, cs_all_known = True\<rparr>
      = Some (directory_sums self i)"
    using sum_children_kids [OF s i, of ?a] by (simp only: t directory_sums_def)
  have "get_at (b_dir_self_alloc self) i = Some ?a" "get_at (b_first_child self) i = Some (b_first_child self ! i)"
    "get_at delta i = Some (delta ! i)" "get_at (b_entries self) i = Some (b_entries self ! i)"
    using lens l i by simp_all
  then show ?thesis
    using 1 2 nn d sums by (simp add: aggregate_directory_def upd_def settled_directory_def Let_def)
qed

lemma aggregate_leaf:
  "i < builder_len self \<Longrightarrow> c_kind (b_entries self ! i) \<noteq> Directory \<Longrightarrow> aggregate_directory delta self i = Some self"
  by (simp add: aggregate_directory_def)

end
