(* ===== verification/Accounting.thy ===== *)
theory Accounting
  imports Size_Phases
begin

text \<open>
  Phase 4 of \<open>compute_aggregates\<close> as a whole: children come first, so every directory finds its
  children settled; the number of distinct bytes of every subtree is exact, and no step of the
  loop fails.
\<close>

section \<open>The loop\<close>

definition settled_after :: "graph_builder \<Rightarrow> object_record list \<Rightarrow> int list \<Rightarrow> nat list \<Rightarrow> graph_builder \<Rightarrow> bool" where
  "settled_after g objects delta ys s \<longleftrightarrow> same_shape g s
     \<and> (\<forall>i < builder_len g. i \<notin> set ys \<or> c_kind (b_entries g ! i) \<noteq> Directory
          \<longrightarrow> b_entries s ! i = leaf_unique objects (b_entries g ! i))
     \<and> (\<forall>i \<in> set ys. unat (c_unique_allocated_bytes (b_entries s ! i)) = unique_bytes g objects i)
     \<and> (\<forall>i \<in> set ys. c_kind (b_entries g ! i) = Directory
          \<longrightarrow> b_entries s ! i = settled_directory delta s i (b_entries g ! i))"

lemma settled_directory_cong:
  assumes "same_shape s s'" and "\<forall>j \<in> set (kids s i). b_entries s' ! j = b_entries s ! j"
  shows "settled_directory delta s' i e = settled_directory delta s i e"
  using total_sums_cong [OF assms(2)] kids_same [OF assms(1)] same_shapeD(6) [OF assms(1)]
  by (simp add: settled_directory_def directory_sums_def)

lemma leaf_unique_base:
  assumes "c_kind (b_entries g ! i) \<noteq> Directory"
  shows "unat (c_unique_allocated_bytes (leaf_unique objects (b_entries g ! i))) = base_bytes g objects i"
  using assms by (cases "c_kind (b_entries g ! i)")
    (simp_all add: leaf_unique_def base_bytes_def own_bytes_def has_object_def object_at_def)

lemma settled_fields [simp]:
  "c_id (settled_directory delta s i e) = c_id e" "c_parent_id (settled_directory delta s i e) = c_parent_id e"
  "c_kind (settled_directory delta s i e) = c_kind e" "c_name (settled_directory delta s i e) = c_name e"
  "c_object_index (settled_directory delta s i e) = c_object_index e"
  by (simp_all add: settled_directory_def Let_def)

lemma unique_fits:
  assumes s: "shape g" and fits: "unique_bytes g objects 0 < 2 ^ 64" and i: "i < builder_len g"
  shows "unique_bytes g objects i < 2 ^ 64"
proof -
  have n: "0 < builder_len g" using i by linarith
  have "unique_bytes g objects i \<le> unique_bytes g objects 0"
    using distinct_subtree [OF s i] distinct_subtree [OF s n] subtree_trans [OF s subtree_root [OF s i]]
    by (intro distinct_bytes_mono) simp_all
  then show ?thesis using fits by simp
qed

lemma net_unique:
  assumes s: "shape g" and o: "objects_ok g objects" and d: "deltas_ok g objects delta"
    and a: "settled_after g objects delta ys t" and k: "set (kids g i) \<subseteq> set ys"
    and i: "i < builder_len g" and dir: "c_kind (b_entries g ! i) = Directory"
  shows "cs_unique (directory_sums t i) + delta ! i + uint (b_dir_self_alloc t ! i) = int (unique_bytes g objects i)"
proof -
  have ss: "same_shape g t" using a by (simp add: settled_after_def)
  have "uint (c_unique_allocated_bytes (b_entries t ! j)) = int (unique_bytes g objects j)" if "j \<in> set (kids g i)" for j
  proof -
    have "unat (c_unique_allocated_bytes (b_entries t ! j)) = unique_bytes g objects j"
      using a k that unfolding settled_after_def by blast
    then show ?thesis by (metis uint_nat)
  qed
  then have "cs_unique (directory_sums t i) = (\<Sum>k \<leftarrow> kids g i. int (unique_bytes g objects k))"
    unfolding directory_sums_def total_sums_def kids_same [OF ss] by (simp cong: map_cong)
  moreover have "int (base_bytes g objects i) = uint (b_dir_self_alloc t ! i)"
    using dir same_shapeD(6) [OF ss] by (simp add: base_bytes_def own_bytes_def has_object_def)
  ultimately show ?thesis using unique_bytes_step [OF s o d i] by simp
qed

lemma settle_step:
  assumes s: "shape g" and o: "objects_ok g objects" and d: "deltas_ok g objects delta"
    and fits: "unique_bytes g objects 0 < 2 ^ 64"
    and split: "subtree g 0 = ys @ y # zs" and n: "0 < builder_len g" and a: "settled_after g objects delta ys t"
  shows "\<exists>t'. aggregate_directory delta t y = Some t' \<and> settled_after g objects delta (ys @ [y]) t'"
proof -
  have ss: "same_shape g t" using a by (simp add: settled_after_def)
  have y: "y < builder_len g" using set_subtree_root [OF s n] split by auto
  have yt: "y < builder_len t" using same_shapeD(1) [OF ss] y by simp
  have fresh: "y \<notin> set ys" using distinct_subtree [OF s n] split by simp
  have kys: "set (kids g y) \<subseteq> set ys" by (rule subtree_split_kids [OF s split])
  have kind: "c_kind (b_entries t ! y) = c_kind (b_entries g ! y)" using same_shapeD(2) [OF ss y] .
  have yent: "b_entries t ! y = leaf_unique objects (b_entries g ! y)"
    using a fresh y unfolding settled_after_def by blast
  show ?thesis
  proof (cases "c_kind (b_entries g ! y) = Directory")
    case False
    have "unique_bytes g objects y = base_bytes g objects y" by (rule unique_bytes_leaf [OF s y False])
    then have "unat (c_unique_allocated_bytes (b_entries t ! y)) = unique_bytes g objects y"
      using leaf_unique_base [OF False] yent by simp
    then have "settled_after g objects delta (ys @ [y]) t"
      using a False by (simp add: settled_after_def)
    then show ?thesis using aggregate_leaf [OF yt] False kind by simp
  next
    case True
    let ?e = "settled_directory delta t y (b_entries t ! y)"
    let ?t = "upd y (settled_directory delta t y) t"
    have yg: "b_entries t ! y = b_entries g ! y" using yent True by (simp add: leaf_unique_def)
    note net = net_unique [OF s o d a kys y True]
    have step: "aggregate_directory delta t y = Some ?t"
      using d True kind net y same_shapeD(1) [OF ss]
      by (intro aggregate_directory_ok shape_same [OF ss s] yt) (simp_all add: deltas_ok_def)
    have tt: "same_shape t ?t" unfolding upd_def by (rule same_shape_update) simp_all
    have ent: "b_entries ?t ! j = (if j = y then ?e else b_entries t ! j)" if "j < builder_len g" for j
      using that same_shapeD(1) [OF ss] by (simp add: upd_def nth_list_update)
    have kt: "kids t = kids g" by (rule kids_same [OF ss])
    have sd: "settled_directory delta ?t i e = settled_directory delta t i e" if "y \<notin> set (kids g i)" for i e
    proof (rule settled_directory_cong [OF tt])
      show "\<forall>j \<in> set (kids t i). b_entries ?t ! j = b_entries t ! j"
        using that kids_lt ent unfolding kt by (metis (no_types))
    qed
    have sub: "y \<notin> set (kids g i)" if "i \<in> set ys" for i
    proof -
      obtain us vs where ys: "ys = us @ i # vs" using \<open>i \<in> set ys\<close> by (auto simp: in_set_conv_decomp)
      then have "set (kids g i) \<subseteq> set us" using split by (intro subtree_split_kids [OF s]) simp
      then show ?thesis using ys fresh by auto
    qed
    have yy: "y \<notin> set (kids g y)" using kys fresh by blast
    have ysn: "i < builder_len g" if "i \<in> set ys" for i using set_subtree_root [OF s n] split that by auto
    have "settled_after g objects delta (ys @ [y]) ?t"
      unfolding settled_after_def
    proof (intro conjI)
      show "same_shape g ?t" using same_shape_trans [OF ss tt] .
      show "\<forall>i < builder_len g. i \<notin> set (ys @ [y]) \<or> c_kind (b_entries g ! i) \<noteq> Directory
          \<longrightarrow> b_entries ?t ! i = leaf_unique objects (b_entries g ! i)"
        using a True ent by (auto simp: settled_after_def)
      have "c_unique_allocated_bytes ?e = word_of_int (int (unique_bytes g objects y))"
        by (simp only: settled_directory_def Let_def net) simp
      then have "unat (c_unique_allocated_bytes ?e) = unique_bytes g objects y"
        using unique_fits [OF s fits y] by (simp add: unat_of_nat)
      moreover have "unat (c_unique_allocated_bytes (b_entries ?t ! i)) = unique_bytes g objects i" if "i \<in> set ys" for i
        using a that fresh ent [OF ysn [OF that]] by (auto simp: settled_after_def)
      ultimately show "\<forall>i \<in> set (ys @ [y]). unat (c_unique_allocated_bytes (b_entries ?t ! i)) = unique_bytes g objects i"
        using ent [OF y] by auto
      have "b_entries ?t ! i = settled_directory delta ?t i (b_entries g ! i)"
        if "i \<in> set ys" "c_kind (b_entries g ! i) = Directory" for i
      proof -
        have "i \<noteq> y" using that fresh by auto
        then have "b_entries ?t ! i = b_entries t ! i" using ent [OF ysn [OF that(1)]] by simp
        also have "\<dots> = settled_directory delta t i (b_entries g ! i)" using a that by (simp add: settled_after_def)
        finally show ?thesis using sd [OF sub [OF that(1)]] by simp
      qed
      moreover have "b_entries ?t ! y = settled_directory delta ?t y (b_entries g ! y)"
        using ent [OF y] sd [OF yy] yg by simp
      ultimately show "\<forall>i \<in> set (ys @ [y]). c_kind (b_entries g ! i) = Directory
          \<longrightarrow> b_entries ?t ! i = settled_directory delta ?t i (b_entries g ! i)" by auto
    qed
    with step show ?thesis by blast
  qed
qed

lemma phase4:
  assumes s: "shape g" and o: "objects_ok g objects" and d: "deltas_ok g objects delta"
    and fits: "unique_bytes g objects 0 < 2 ^ 64"
    and n: "0 < builder_len g"
  shows "\<exists>t. fold_opt (aggregate_directory delta) (entries_map (\<lambda>_. leaf_unique objects) g) (subtree g 0) = Some t
    \<and> settled_after g objects delta (subtree g 0) t"
proof (rule fold_opt_invariant)
  show "settled_after g objects delta [] (entries_map (\<lambda>_. leaf_unique objects) g)"
    unfolding settled_after_def by (simp add: same_shape_map)
  show "\<exists>t'. aggregate_directory delta t y = Some t' \<and> settled_after g objects delta (ys @ [y]) t'"
    if "subtree g 0 = ys @ y # zs" and "settled_after g objects delta ys t" for ys y zs t
    using settle_step [OF s o d fits that(1) n that(2)] .
qed

end
