(* ===== verification/Objects.thy ===== *)
theory Objects
  imports Size_Phases
begin

text \<open>
  Phase 1 of \<open>compute_aggregates\<close>: the observed identities become object records. In whatever
  order the hash maps are iterated, no lookup fails, every object belongs to one group of
  entries, and the entries of a group are exactly the aliases of one identity.
\<close>

section \<open>Updates through identifiers\<close>

definition entry_pos :: "graph_builder \<Rightarrow> u32 \<Rightarrow> nat" where
  "entry_pos self eid = the (builder_get_idx self eid)"

lemma kind_at_pos:
  assumes "ids_ok self" and "kind_at self k eid"
  shows "entry_pos self eid < builder_len self \<and> c_id (b_entries self ! entry_pos self eid) = eid
    \<and> c_kind (b_entries self ! entry_pos self eid) = k"
proof -
  obtain i where i: "builder_get_idx self eid = Some i" "i < builder_len self" "c_kind (b_entries self ! i) = k"
    using assms(2) by (auto simp: kind_at_def)
  moreover have "c_id (b_entries self ! i) = eid" using i(1) builder_idx_iff [OF assms(1)] by blast
  ultimately show ?thesis by (simp add: entry_pos_def)
qed

lemma entry_index_pos:
  assumes ids: "ids_ok self" and "builder_get_idx self eid = Some i"
  shows "entry_index self eid = Some i"
proof (cases "b_is_dense self")
  case True
  then have e: "eid \<noteq> 0" "unat eid \<le> builder_len self" "i = unat eid - 1"
    using assms(2) by (auto simp: builder_get_idx_def dense_idx_def split: if_splits)
  then have "unat (eid - 1) = unat eid - 1" by (simp add: unat_minus_one)
  with e True show ?thesis by (simp add: entry_index_def)
qed (use assms(2) in \<open>simp add: entry_index_def builder_get_idx_def sparse_idx_def\<close>)

lemma entry_pos_index:
  assumes "ids_ok self" and "kind_at self k eid"
  shows "entry_index self eid = Some (entry_pos self eid)"
  using entry_index_pos [OF assms(1)] assms by (auto simp: kind_at_def entry_pos_def)

lemma entry_pos_inj:
  assumes "ids_ok self" and "\<forall>eid \<in> set eids. \<exists>k. kind_at self k eid" and "distinct eids"
  shows "distinct (map (entry_pos self) eids)"
proof -
  have "inj_on (entry_pos self) (set eids)"
    by (rule inj_on_inverseI [where g = "\<lambda>i. c_id (b_entries self ! i)"])
      (use kind_at_pos [OF assms(1)] assms(2) in blast)
  then show ?thesis using assms(3) by (simp add: distinct_map)
qed

text \<open>The aggregation's first phase changes an entry's object index and its known flag only.\<close>

definition same_evidence :: "graph_builder \<Rightarrow> graph_builder \<Rightarrow> bool" where
  "same_evidence self s \<longleftrightarrow> same_shape self s \<and> b_file_link_counts s = b_file_link_counts self
     \<and> b_root_target s = b_root_target self \<and> b_terminal s = b_terminal self \<and> b_gaps s = b_gaps self
     \<and> (\<forall>i < builder_len self. b_entries s ! i = (b_entries self ! i)
          \<lparr>c_object_index := c_object_index (b_entries s ! i),
           c_allocated_size_known := c_allocated_size_known (b_entries s ! i)\<rparr>)"

lemma same_evidence_refl [simp]: "same_evidence self self"
  by (simp add: same_evidence_def)

lemma same_evidence_shape: "same_evidence self s \<Longrightarrow> same_shape self s"
  by (simp add: same_evidence_def)

lemma same_evidence_trans:
  assumes "same_evidence a b" and "same_evidence b c"
  shows "same_evidence a c"
proof -
  have "b_entries c ! i = (b_entries a ! i)\<lparr>c_object_index := c_object_index (b_entries c ! i),
      c_allocated_size_known := c_allocated_size_known (b_entries c ! i)\<rparr>" if "i < builder_len a" for i
  proof -
    have "i < builder_len b" using assms(1) that by (simp add: same_evidence_def same_shape_def)
    then have c: "b_entries c ! i = (b_entries b ! i)\<lparr>c_object_index := c_object_index (b_entries c ! i),
        c_allocated_size_known := c_allocated_size_known (b_entries c ! i)\<rparr>"
      using assms(2) by (simp add: same_evidence_def)
    have b: "b_entries b ! i = (b_entries a ! i)\<lparr>c_object_index := c_object_index (b_entries b ! i),
        c_allocated_size_known := c_allocated_size_known (b_entries b ! i)\<rparr>"
      using assms(1) that by (simp add: same_evidence_def)
    show ?thesis by (subst c, subst b) simp
  qed
  then show ?thesis
    using assms same_shape_trans unfolding same_evidence_def by auto
qed

lemma same_evidence_fields:
  assumes "same_evidence self s" and "i < builder_len self"
  shows "c_allocated_size (b_entries s ! i) = c_allocated_size (b_entries self ! i)"
    and "c_logical_size (b_entries s ! i) = c_logical_size (b_entries self ! i)"
    and "c_referenced_allocated_bytes (b_entries s ! i) = c_referenced_allocated_bytes (b_entries self ! i)"
    and "c_known_subtotal_allocated_bytes (b_entries s ! i) = c_known_subtotal_allocated_bytes (b_entries self ! i)"
    and "c_kind (b_entries s ! i) = c_kind (b_entries self ! i)" and "c_id (b_entries s ! i) = c_id (b_entries self ! i)"
proof -
  have "b_entries s ! i = (b_entries self ! i)\<lparr>c_object_index := c_object_index (b_entries s ! i),
      c_allocated_size_known := c_allocated_size_known (b_entries s ! i)\<rparr>"
    using assms by (simp add: same_evidence_def)
  note e = this
  show "c_allocated_size (b_entries s ! i) = c_allocated_size (b_entries self ! i)" by (subst e) simp
  show "c_logical_size (b_entries s ! i) = c_logical_size (b_entries self ! i)" by (subst e) simp
  show "c_referenced_allocated_bytes (b_entries s ! i) = c_referenced_allocated_bytes (b_entries self ! i)" by (subst e) simp
  show "c_known_subtotal_allocated_bytes (b_entries s ! i) = c_known_subtotal_allocated_bytes (b_entries self ! i)" by (subst e) simp
  show "c_kind (b_entries s ! i) = c_kind (b_entries self ! i)" by (subst e) simp
  show "c_id (b_entries s ! i) = c_id (b_entries self ! i)" by (subst e) simp
qed

text \<open>An update of all entries of a group.\<close>

definition on_group :: "nat list \<Rightarrow> (compact_entry \<Rightarrow> compact_entry) \<Rightarrow> graph_builder \<Rightarrow> graph_builder" where
  "on_group ps f self = entries_map (\<lambda>j. if j \<in> set ps then f else (\<lambda>e. e)) self"

lemma on_group_nth:
  "i < builder_len self \<Longrightarrow> b_entries (on_group ps f self) ! i = (if i \<in> set ps then f (b_entries self ! i) else b_entries self ! i)"
  by (simp add: on_group_def)

lemma on_group_Nil [simp]: "on_group [] f self = self"
  by (simp add: on_group_def entries_map_def map_nth)

lemma on_group_Cons:
  assumes "p < builder_len self" and "p \<notin> set ps"
  shows "on_group (p # ps) f self = on_group ps f (upd p f self)"
proof -
  have "b_entries (on_group (p # ps) f self) = b_entries (on_group ps f (upd p f self))"
    using assms by (intro nth_equalityI) (auto simp: on_group_def entries_map_def upd_def nth_list_update)
  moreover have "on_group (p # ps) f self = (on_group ps f (upd p f self))\<lparr>b_entries := b_entries (on_group (p # ps) f self)\<rparr>"
    by (simp add: on_group_def entries_map_def upd_def)
  ultimately show ?thesis by simp
qed

lemma on_group_evidence:
  assumes "\<And>e. f e = e\<lparr>c_object_index := c_object_index (f e), c_allocated_size_known := c_allocated_size_known (f e)\<rparr>"
  shows "same_evidence self (on_group ps f self)"
proof -
  have f: "c_id (f e) = c_id e \<and> c_parent_id (f e) = c_parent_id e \<and> c_kind (f e) = c_kind e \<and> c_name (f e) = c_name e" for e
    by (subst (1 2 3 4) assms) simp
  have "same_shape self (on_group ps f self)"
    unfolding on_group_def by (rule same_shape_map) (simp add: f)
  then show ?thesis
    using assms by (auto simp: same_evidence_def on_group_nth) (simp_all add: on_group_def entries_map_def)
qed

lemma get_idx_upd:
  assumes "\<And>e. c_id (f e) = c_id e"
  shows "builder_get_idx (upd p f self) = builder_get_idx self"
  by (rule ext) (simp add: builder_get_idx_def dense_idx_def upd_def)

lemma entry_pos_upd: "(\<And>e. c_id (f e) = c_id e) \<Longrightarrow> entry_pos (upd p f self) = entry_pos self"
  by (rule ext) (simp add: entry_pos_def get_idx_upd)

lemma fold_update_entry:
  assumes "\<And>e. c_id (f e) = c_id e" and "ids_ok self" and "\<forall>eid \<in> set eids. \<exists>k. kind_at self k eid" and "distinct eids"
  shows "fold_opt (update_entry f) self eids = Some (on_group (map (entry_pos self) eids) f self)"
  using assms(2-)
proof (induction eids arbitrary: self)
  case (Cons eid eids)
  let ?p = "entry_pos self eid" and ?s = "upd (entry_pos self eid) f self"
  obtain k where k: "kind_at self k eid" using Cons.prems(2) by auto
  have p: "?p < builder_len self" using kind_at_pos [OF Cons.prems(1) k] by simp
  have u: "update_entry f self eid = Some ?s"
    using entry_pos_index [OF Cons.prems(1) k] p by (simp add: update_entry_def upd_def)
  have idx: "builder_get_idx ?s = builder_get_idx self" by (rule get_idx_upd [OF assms(1)])
  have es: "c_id (b_entries ?s ! i) = c_id (b_entries self ! i)" if "i < builder_len self" for i
    using that assms(1) by (cases "i = ?p") (simp_all add: upd_def)
  have len: "builder_len ?s = builder_len self" "b_is_dense ?s = b_is_dense self" "b_id_to_idx ?s = b_id_to_idx self"
    by (simp_all add: upd_def)
  have ids: "ids_ok ?s"
    using Cons.prems(1) es unfolding ids_ok_def dense_ids_def sparse_ids_def len by (auto split: if_splits)
  have "\<exists>k. kind_at ?s k e" if e: "e \<in> set eids" for e
  proof -
    obtain k' i where "builder_get_idx self e = Some i" "i < builder_len self"
      using Cons.prems(2) e by (auto simp: kind_at_def)
    then show ?thesis by (auto simp: kind_at_def idx len)
  qed
  then have "fold_opt (update_entry f) ?s eids = Some (on_group (map (entry_pos ?s) eids) f ?s)"
    using Cons.IH [OF ids] Cons.prems(3) by simp
  moreover have "entry_pos ?s = entry_pos self" by (rule entry_pos_upd [OF assms(1)])
  moreover have "?p \<notin> set (map (entry_pos self) eids)"
    using entry_pos_inj [OF Cons.prems] by simp
  ultimately show ?case using u on_group_Cons [OF p, of "map (entry_pos self) eids" f] by simp
qed simp

section \<open>Groups of entries\<close>

text \<open>The \<open>k\<close>-th group of positions holds the aliases of the \<open>k\<close>-th object.\<close>

definition assigned :: "graph_builder \<Rightarrow> nat list list \<Rightarrow> bool" where
  "assigned s owners \<longleftrightarrow> distinct (concat owners) \<and> [] \<notin> set owners
     \<and> (\<forall>x \<in> set (concat owners). x < builder_len s)
     \<and> (\<forall>k < length owners. \<forall>x \<in> set (owners ! k). c_object_index (b_entries s ! x) = word_of_nat k)
     \<and> (\<forall>x < builder_len s. x \<notin> set (concat owners) \<longrightarrow> c_object_index (b_entries s ! x) = NO_OBJECT)"

lemma length_concat_ge: "[] \<notin> set xss \<Longrightarrow> length xss \<le> length (concat xss)"
proof (induction xss)
  case (Cons xs xss)
  then have "1 \<le> length xs" by (cases xs) auto
  with Cons show ?case by auto
qed simp

lemma assigned_length:
  assumes "assigned s owners"
  shows "length owners \<le> length (concat owners)" and "length (concat owners) \<le> builder_len s"
proof -
  show "length owners \<le> length (concat owners)" using assms by (intro length_concat_ge) (simp add: assigned_def)
  have "set (concat owners) \<subseteq> {..< builder_len s}" using assms by (auto simp: assigned_def)
  then have "card (set (concat owners)) \<le> builder_len s" using card_mono [of "{..< builder_len s}"] by simp
  moreover have "distinct (concat owners)" using assms by (simp add: assigned_def)
  ultimately show "length (concat owners) \<le> builder_len s" by (simp only: distinct_card)
qed

lemma assigned_group:
  assumes a: "assigned s owners" and ps: "ps \<noteq> []" "distinct ps" "\<forall>x \<in> set ps. x < builder_len s \<and> x \<notin> set (concat owners)"
    and f: "\<And>e. c_object_index (f e) = word_of_nat (length owners)"
  shows "assigned (on_group ps f s) (owners @ [ps])"
proof -
  have n: "builder_len (on_group ps f s) = builder_len s" by (simp add: on_group_def)
  have same: "b_entries (on_group ps f s) ! x = b_entries s ! x" if "x < builder_len s" "x \<notin> set ps" for x
    using that by (simp add: on_group_nth)
  have old: "c_object_index (b_entries (on_group ps f s) ! x) = word_of_nat k" if "k < length owners" "x \<in> set (owners ! k)" for k x
  proof -
    have "x \<in> set (concat owners)" using that by (auto intro: nth_mem)
    then have "x < builder_len s" "x \<notin> set ps" using a ps(3) by (auto simp: assigned_def)
    then show ?thesis using a that same by (simp add: assigned_def)
  qed
  have new: "c_object_index (b_entries (on_group ps f s) ! x) = word_of_nat (length owners)" if "x \<in> set ps" for x
    using that ps(3) by (simp add: on_group_nth f)
  show ?thesis
    unfolding assigned_def
  proof (intro conjI)
    show "\<forall>k < length (owners @ [ps]). \<forall>x \<in> set ((owners @ [ps]) ! k). c_object_index (b_entries (on_group ps f s) ! x) = word_of_nat k"
      using old new by (auto simp: less_Suc_eq nth_append)
    show "\<forall>x < builder_len (on_group ps f s). x \<notin> set (concat (owners @ [ps])) \<longrightarrow> c_object_index (b_entries (on_group ps f s) ! x) = NO_OBJECT"
      using a same n by (auto simp: assigned_def)
    show "distinct (concat (owners @ [ps]))" using a ps by (auto simp: assigned_def)
    show "[] \<notin> set (owners @ [ps])" using a ps(1) by (auto simp: assigned_def)
    show "\<forall>x \<in> set (concat (owners @ [ps])). x < builder_len (on_group ps f s)" using a ps(3) n by (auto simp: assigned_def)
  qed
qed

lemma index_small:
  assumes "k < n" and "n < 2 ^ 32"
  shows "unat (word_of_nat k :: u32) = k \<and> (word_of_nat k :: u32) \<noteq> NO_OBJECT"
proof -
  have u: "unat (word_of_nat k :: u32) = k" using assms by (simp add: unat_of_nat)
  moreover have "unat NO_OBJECT = 2 ^ 32 - 1" by (simp add: NO_OBJECT_def)
  ultimately show ?thesis using assms by auto
qed

text \<open>Two entries share an object exactly when they are in one group.\<close>

lemma assigned_object:
  assumes a: "assigned s owners" and "builder_len s < 2 ^ 32" and k: "k < length owners" "x \<in> set (owners ! k)"
  shows "c_object_index (b_entries s ! x) = word_of_nat k \<and> unat (c_object_index (b_entries s ! x)) = k
    \<and> c_object_index (b_entries s ! x) \<noteq> NO_OBJECT"
  using index_small [of k "builder_len s"] assigned_length [OF a] assms by (simp add: assigned_def)

lemma assigned_cases:
  assumes a: "assigned s owners" and n: "builder_len s < 2 ^ 32" and x: "x < builder_len s"
    and i: "c_object_index (b_entries s ! x) \<noteq> NO_OBJECT"
  obtains k where "k < length owners" "x \<in> set (owners ! k)" "unat (c_object_index (b_entries s ! x)) = k"
proof -
  have "x \<in> set (concat owners)" using a x i by (auto simp: assigned_def)
  then obtain xs where "xs \<in> set owners" "x \<in> set xs" by auto
  then obtain k where "k < length owners" "x \<in> set (owners ! k)" by (metis in_set_conv_nth)
  then show ?thesis using that assigned_object [OF a n] by blast
qed

section \<open>The evidence of one object\<close>

definition known_allocs :: "graph_builder \<Rightarrow> u32 list \<Rightarrow> u64 list" where
  "known_allocs self eids =
     concat (map (\<lambda>eid. case c_allocated_size (b_entries self ! entry_pos self eid) of None \<Rightarrow> [] | Some a \<Rightarrow> [a]) eids)"

definition least_alloc :: "u64 list \<Rightarrow> u64 option" where
  "least_alloc as = (if as = [] then None else Some (Min (set as)))"

definition alloc_summary :: "u64 list \<Rightarrow> u64 option \<times> bool \<times> u64 option" where
  "alloc_summary as = (least_alloc as, (\<exists>a \<in> set as. a \<noteq> hd as), if as = [] then None else Some (hd as))"

lemma least_alloc_snoc: "least_alloc (as @ [a]) = Some (case least_alloc as of None \<Rightarrow> a | Some m \<Rightarrow> min m a)"
proof (cases "as = []")
  case False
  have "set (as @ [a]) = insert a (set as)" by simp
  then show ?thesis using False by (simp only: least_alloc_def) (simp add: min.commute)
qed (simp add: least_alloc_def)

lemma alloc_summary_snoc:
  "alloc_summary (as @ [a]) =
     (Some (case least_alloc as of None \<Rightarrow> a | Some m \<Rightarrow> min m a),
      (\<exists>b \<in> set as. b \<noteq> hd as) \<or> (as \<noteq> [] \<and> hd as \<noteq> a), Some (if as = [] then a else hd as))"
proof (cases "as = []")
  case True
  then show ?thesis by (simp add: alloc_summary_def least_alloc_def)
next
  case False
  then show ?thesis by (auto simp: alloc_summary_def least_alloc_snoc)
qed

lemma alloc_fold:
  assumes "ids_ok self" and "\<forall>eid \<in> set eids. \<exists>k. kind_at self k eid"
  shows "fold_opt (alloc_step self) (None, False, None) eids = Some (alloc_summary (known_allocs self eids))"
  using assms(2)
proof (induction eids rule: rev_induct)
  case Nil
  then show ?case by (simp add: alloc_summary_def known_allocs_def least_alloc_def)
next
  case (snoc eid eids)
  obtain k where k: "kind_at self k eid" using snoc.prems by auto
  have e: "entry_at self eid = Some (b_entries self ! entry_pos self eid)"
    using entry_pos_index [OF assms(1) k] kind_at_pos [OF assms(1) k] by (simp add: entry_at_def)
  have "alloc_step self (alloc_summary (known_allocs self eids)) eid
      = Some (alloc_summary (known_allocs self (eids @ [eid])))"
  proof (cases "c_allocated_size (b_entries self ! entry_pos self eid)")
    case None
    then show ?thesis by (simp add: alloc_step_def e known_allocs_def alloc_summary_def)
  next
    case (Some a)
    then have "known_allocs self (eids @ [eid]) = known_allocs self eids @ [a]" by (simp add: known_allocs_def)
    with Some show ?thesis
      by (cases "known_allocs self eids = []") (auto simp: alloc_step_def e alloc_summary_snoc alloc_summary_def least_alloc_def min.commute)
  qed
  with snoc show ?case by (simp add: fold_opt_append)
qed

definition bucket_weight :: "graph_builder \<Rightarrow> u32 list \<Rightarrow> u64" where
  "bucket_weight self eids = opt_bytes (least_alloc (known_allocs self eids))"

definition bucket_status :: "graph_builder \<Rightarrow> u32 list \<Rightarrow> external_reference_status" where
  "bucket_status self eids =
     (let (resolved_link, has_link_conflict, _) = resolve_links (b_file_link_counts self) eids
      in if has_link_conflict then InconsistentEvidence else derive resolved_link (word_of_nat (length eids)))"

definition bucket_object :: "graph_builder \<Rightarrow> object_identity \<times> u32 list \<Rightarrow> object_record" where
  "bucket_object self obj =
     \<lparr>o_identity = Some (fst obj), o_observed_alias_count = word_of_nat (length (snd obj)),
      o_total_link_count = fst (resolve_links (b_file_link_counts self) (snd obj)),
      o_external_reference_status = bucket_status self (snd obj), o_weight = bucket_weight self (snd obj)\<rparr>"

section \<open>The steps of phase 1\<close>

definition dir_object :: "u32 \<times> object_identity \<Rightarrow> object_record" where
  "dir_object dir = \<lparr>o_identity = Some (snd dir), o_observed_alias_count = 1, o_total_link_count = NotApplicable,
     o_external_reference_status = StatusNotApplicable, o_weight = 0\<rparr>"

definition link_of :: "graph_builder \<Rightarrow> nat \<Rightarrow> u32 value_knowledge" where
  "link_of self i = (case b_file_link_counts self (c_id (b_entries self ! i)) of None \<Rightarrow> NotObserved | Some l \<Rightarrow> l)"

definition solo_object :: "graph_builder \<Rightarrow> nat \<Rightarrow> object_record" where
  "solo_object self i = \<lparr>o_identity = None, o_observed_alias_count = 1, o_total_link_count = link_of self i,
     o_external_reference_status = derive (link_of self i) 1, o_weight = opt_bytes (c_allocated_size (b_entries self ! i))\<rparr>"

definition phase1 :: "graph_builder \<Rightarrow> nat list list \<Rightarrow> object_record list \<Rightarrow> aggregation \<Rightarrow> bool" where
  "phase1 self owners objs ag \<longleftrightarrow> same_evidence self (ag_self ag) \<and> assigned (ag_self ag) owners
     \<and> ag_objects ag = objs \<and> length objs = length owners"

lemma kind_at_same:
  assumes "same_evidence self s"
  shows "kind_at s k eid = kind_at self k eid" and "entry_pos s = entry_pos self"
proof -
  note ss = same_evidence_shape [OF assms]
  have idx: "builder_get_idx s = builder_get_idx self" by (rule get_idx_same [OF ss])
  show "entry_pos s = entry_pos self" by (rule ext) (simp only: entry_pos_def idx)
  show "kind_at s k eid = kind_at self k eid"
    using same_shapeD(1,2) [OF ss] by (auto simp: kind_at_def idx)
qed

lemma known_allocs_same:
  assumes se: "same_evidence self s" and ids: "ids_ok self" and "\<forall>eid \<in> set eids. kind_at self File eid"
  shows "known_allocs s eids = known_allocs self eids"
proof -
  have "c_allocated_size (b_entries s ! entry_pos self eid) = c_allocated_size (b_entries self ! entry_pos self eid)"
    if "eid \<in> set eids" for eid
    using same_evidence_fields(1) [OF se] kind_at_pos [OF ids] assms(3) that by blast
  then show ?thesis unfolding known_allocs_def kind_at_same(2) [OF se] by (simp cong: map_cong)
qed

lemma same_evidence_flag [simp]:
  "same_evidence self (s\<lparr>b_allocated_bytes_known := v\<rparr>) = same_evidence self s"
  by (simp add: same_evidence_def same_shape_def)

lemma assigned_flag [simp]: "assigned (s\<lparr>b_allocated_bytes_known := v\<rparr>) owners = assigned s owners"
  by (simp add: assigned_def)

lemma assigned_known:
  assumes "assigned s owners" and "\<And>e. c_object_index (f e) = c_object_index e"
  shows "assigned (on_group ps f s) owners"
proof -
  have "c_object_index (b_entries (on_group ps f s) ! i) = c_object_index (b_entries s ! i)" if "i < builder_len s" for i
    using that assms(2) by (simp add: on_group_nth)
  note u = this
  have n: "builder_len (on_group ps f s) = builder_len s" by (simp add: on_group_def)
  have "x < builder_len s" if "k < length owners" "x \<in> set (owners ! k)" for k x
    using assms(1) that by (auto simp: assigned_def intro: nth_mem)
  then show ?thesis using assms(1) u n unfolding assigned_def by auto
qed

lemma normalize_object_ok:
  assumes p: "phase1 self owners objs ag" and ids: "ids_ok self" and ne: "eids \<noteq> []" and d: "distinct eids"
    and k: "\<forall>eid \<in> set eids. kind_at self File eid"
    and fresh: "\<forall>x \<in> set (map (entry_pos self) eids). x \<notin> set (concat owners)"
  shows "\<exists>ag'. normalize_object ag (oid, eids) = Some ag'
    \<and> phase1 self (owners @ [map (entry_pos self) eids]) (objs @ [bucket_object self (oid, eids)]) ag'"
proof -
  let ?s = "ag_self ag" and ?ps = "map (entry_pos self) eids" and ?m = "length owners"
  let ?known = "\<lambda>e. e\<lparr>c_allocated_size_known := False\<rparr>" and ?own = "\<lambda>e. e\<lparr>c_object_index := word_of_nat ?m\<rparr>"
  have se: "same_evidence self ?s" and a: "assigned ?s owners" and objs: "ag_objects ag = objs" "length objs = ?m"
    using p by (simp_all add: phase1_def)
  obtain resolved conflict first where links: "resolve_links (b_file_link_counts self) eids = (resolved, conflict, first)"
    by (metis surj_pair)
  have lc: "b_file_link_counts ?s = b_file_link_counts self" using se by (simp add: same_evidence_def)
  have ids': "ids_ok t" if "same_evidence self t" for t using ids_ok_same [OF same_evidence_shape [OF that] ids] .
  have kinds: "\<forall>eid \<in> set eids. \<exists>k. kind_at t k eid" if "same_evidence self t" for t
    using k kind_at_same(1) [OF that] by blast
  have upd: "fold_opt (update_entry f) t eids = Some (on_group ?ps f t)"
    if "same_evidence self t" and "\<And>e. c_id (f e) = c_id e" for t f
    using fold_update_entry [OF that(2) ids' [OF that(1)] kinds [OF that(1)] d] kind_at_same(2) [OF that(1)] by simp
  have ps: "?ps \<noteq> []" "distinct ?ps" "\<forall>x \<in> set ?ps. x < builder_len self \<and> x \<notin> set (concat owners)"
    using ne entry_pos_inj [OF ids _ d] k fresh kind_at_pos [OF ids] by auto
  obtain least diff hd' where summary: "alloc_summary (known_allocs self eids) = (least, diff, hd')" by (metis surj_pair)
  have least: "least = least_alloc (known_allocs self eids)" using summary by (simp add: alloc_summary_def)
  have allocs: "fold_opt (alloc_step ?s) (None, False, None) eids = Some (least, diff, hd')"
    using alloc_fold [OF ids' [OF se] kinds [OF se]] known_allocs_same [OF se ids k] summary by simp
  define t where "t = (if diff then (on_group ?ps ?known ?s)\<lparr>b_allocated_bytes_known := False\<rparr> else ?s)"
  have t: "same_evidence self t" "assigned t owners"
  proof -
    have "same_evidence ?s (on_group ?ps ?known ?s)" by (rule on_group_evidence) simp
    then show "same_evidence self t" using same_evidence_trans [OF se] se by (simp add: t_def)
    show "assigned t owners" using assigned_known [OF a, of ?known ?ps] a by (simp add: t_def)
  qed
  have n: "builder_len t = builder_len self" using same_shapeD(1) [OF same_evidence_shape [OF t(1)]] .
  have known: "(if diff then map_option (\<lambda>self. self\<lparr>b_allocated_bytes_known := False\<rparr>) (fold_opt (update_entry ?known) ?s eids)
      else Some ?s) = Some t"
    using upd [OF se, of ?known] by (simp add: t_def)
  have own: "fold_opt (update_entry ?own) t eids = Some (on_group ?ps ?own t)" by (rule upd [OF t(1)]) simp
  have "same_evidence t (on_group ?ps ?own t)" by (rule on_group_evidence) simp
  then have "same_evidence self (on_group ?ps ?own t)" by (rule same_evidence_trans [OF t(1)])
  moreover have "assigned (on_group ?ps ?own t) (owners @ [?ps])"
    using ps n by (intro assigned_group [OF t(2)]) simp_all
  ultimately have "phase1 self (owners @ [?ps]) (objs @ [bucket_object self (oid, eids)])
      \<lparr>ag_self = on_group ?ps ?own t, ag_objects = objs @ [bucket_object self (oid, eids)], ag_indeterminate = w\<rparr>" for w
    using objs by (simp add: phase1_def)
  moreover have "\<exists>w. normalize_object ag (oid, eids) = Some
      \<lparr>ag_self = on_group ?ps ?own t, ag_objects = objs @ [bucket_object self (oid, eids)], ag_indeterminate = w\<rparr>"
    using allocs known own objs by (simp add: normalize_object_def links lc bucket_object_def
        bucket_status_def bucket_weight_def opt_bytes_def least Let_def)
  ultimately show ?thesis by blast
qed

lemma phase1_upd:
  assumes p: "phase1 self owners objs ag" and i: "i < builder_len self" "i \<notin> set (concat owners)"
  shows "phase1 self (owners @ [[i]]) (objs @ [ob]) (ag\<lparr>ag_self := on_group [i] (\<lambda>e. e\<lparr>c_object_index := word_of_nat (length objs)\<rparr>) (ag_self ag),
    ag_objects := objs @ [ob]\<rparr>)"
proof -
  let ?f = "\<lambda>e. e\<lparr>c_object_index := word_of_nat (length objs)\<rparr>"
  have se: "same_evidence self (ag_self ag)" using p by (simp add: phase1_def)
  have n: "builder_len (ag_self ag) = builder_len self" by (rule same_shapeD(1) [OF same_evidence_shape [OF se]])
  have "same_evidence (ag_self ag) (on_group [i] ?f (ag_self ag))" by (rule on_group_evidence) simp
  then have "same_evidence self (on_group [i] ?f (ag_self ag))" by (rule same_evidence_trans [OF se])
  moreover have "assigned (on_group [i] ?f (ag_self ag)) (owners @ [[i]])"
    using p i n by (intro assigned_group) (simp_all add: phase1_def)
  ultimately show ?thesis using p by (simp add: phase1_def)
qed

lemma on_group_single: "i < builder_len s \<Longrightarrow> on_group [i] f s = upd i f s"
  using on_group_Cons [of i s "[]" f] by simp

lemma normalize_directory_ok:
  assumes p: "phase1 self owners objs ag" and ids: "ids_ok self" and k: "kind_at self Directory eid"
    and fresh: "entry_pos self eid \<notin> set (concat owners)"
  shows "\<exists>ag'. normalize_directory ag (eid, oid) = Some ag'
    \<and> phase1 self (owners @ [[entry_pos self eid]]) (objs @ [dir_object (eid, oid)]) ag'"
proof -
  let ?f = "\<lambda>e. e\<lparr>c_object_index := word_of_nat (length objs)\<rparr>" and ?s = "ag_self ag"
  have se: "same_evidence self ?s" and objs: "ag_objects ag = objs" using p by (simp_all add: phase1_def)
  have ids': "ids_ok ?s" by (rule ids_ok_same [OF same_evidence_shape [OF se] ids])
  have k': "kind_at ?s Directory eid" using k kind_at_same(1) [OF se] by simp
  have pos: "entry_pos self eid < builder_len self" using kind_at_pos [OF ids k] by simp
  have "fold_opt (update_entry ?f) ?s [eid] = Some (on_group (map (entry_pos ?s) [eid]) ?f ?s)"
    using k' by (intro fold_update_entry ids') auto
  then have "update_entry ?f ?s eid = Some (on_group [entry_pos self eid] ?f ?s)"
    using kind_at_same(2) [OF se] by (cases "update_entry ?f ?s eid") simp_all
  then have "normalize_directory ag (eid, oid) = Some (ag\<lparr>ag_self := on_group [entry_pos self eid] ?f ?s,
      ag_objects := objs @ [dir_object (eid, oid)]\<rparr>)"
    using objs by (simp add: normalize_directory_def dir_object_def Let_def)
  then show ?thesis using phase1_upd [OF p pos fresh] by blast
qed

text \<open>The files that get an object of their own: no identity, but some link evidence.\<close>

definition solo :: "graph_builder \<Rightarrow> nat list list \<Rightarrow> nat \<Rightarrow> bool" where
  "solo self owners i \<longleftrightarrow> c_kind (b_entries self ! i) = File \<and> i \<notin> set (concat owners) \<and> link_of self i \<noteq> NotObserved"

lemma normalize_identityless_ok:
  assumes p: "phase1 self owners objs ag" and i: "i < builder_len self" and n: "builder_len self < 2 ^ 32"
  shows "\<exists>ag'. normalize_identityless ag i = Some ag'
    \<and> phase1 self (owners @ (if solo self owners i then [[i]] else [])) (objs @ (if solo self owners i then [solo_object self i] else [])) ag'"
proof -
  let ?s = "ag_self ag"
  have se: "same_evidence self ?s" and a: "assigned ?s owners" and objs: "ag_objects ag = objs"
    using p by (simp_all add: phase1_def)
  have nn: "builder_len ?s = builder_len self" by (rule same_shapeD(1) [OF same_evidence_shape [OF se]])
  note same = same_evidence_fields [OF se i]
  have link: "(case b_file_link_counts ?s (c_id (b_entries ?s ! i)) of None \<Rightarrow> NotObserved | Some l \<Rightarrow> l) = link_of self i"
    using se same(6) by (simp add: link_of_def same_evidence_def)
  have idx: "c_object_index (b_entries ?s ! i) = NO_OBJECT \<longleftrightarrow> i \<notin> set (concat owners)"
  proof
    assume e: "c_object_index (b_entries ?s ! i) = NO_OBJECT"
    show "i \<notin> set (concat owners)"
    proof
      assume "i \<in> set (concat owners)"
      then obtain xs where "xs \<in> set owners" "i \<in> set xs" by auto
      then obtain k where "k < length owners" "i \<in> set (owners ! k)" by (metis in_set_conv_nth)
      then have "c_object_index (b_entries ?s ! i) \<noteq> NO_OBJECT" using assigned_object [OF a] n nn by metis
      then show False using e by simp
    qed
  qed (use a i nn in \<open>simp add: assigned_def\<close>)
  have p': "phase1 self owners objs (ag\<lparr>ag_indeterminate := w\<rparr>)" for w using p by (simp add: phase1_def)
  show ?thesis
  proof (cases "solo self owners i")
    case True
    then have s: "c_kind (b_entries ?s ! i) = File" "c_object_index (b_entries ?s ! i) = NO_OBJECT" "link_of self i \<noteq> NotObserved"
      "i \<notin> set (concat owners)"
      using same(5) idx by (simp_all add: solo_def)
    let ?w = "if derive (link_of self i) 1 = Indeterminate then ag_indeterminate ag + 1 else ag_indeterminate ag"
    let ?f = "\<lambda>e. e\<lparr>c_object_index := word_of_nat (length objs)\<rparr>"
    have g: "on_group [i] ?f ?s = upd i ?f ?s" using i nn by (intro on_group_single) simp
    have "normalize_identityless ag i = Some (ag\<lparr>ag_indeterminate := ?w, ag_self := on_group [i] ?f ?s,
        ag_objects := objs @ [solo_object self i]\<rparr>)"
      using s i nn objs by (simp add: normalize_identityless_def link solo_object_def same(1) g upd_def opt_bytes_def Let_def)
    moreover have "phase1 self (owners @ [[i]]) (objs @ [solo_object self i]) (ag\<lparr>ag_indeterminate := ?w, ag_self := on_group [i] ?f ?s,
        ag_objects := objs @ [solo_object self i]\<rparr>)"
      using phase1_upd [OF p' [of ?w] i s(4), of "solo_object self i"] by simp
    ultimately show ?thesis using True by auto
  next
    case False
    have "\<exists>w. normalize_identityless ag i = Some (ag\<lparr>ag_indeterminate := w\<rparr>)"
    proof (cases "c_kind (b_entries ?s ! i) = File \<and> c_object_index (b_entries ?s ! i) = NO_OBJECT")
      case True
      then have "link_of self i = NotObserved" using False idx same(5) by (simp add: solo_def)
      then have "normalize_identityless ag i = Some (ag\<lparr>ag_indeterminate :=
          if derive NotObserved 1 = Indeterminate then ag_indeterminate ag + 1 else ag_indeterminate ag\<rparr>)"
        using True i nn by (simp add: normalize_identityless_def link Let_def)
      then show ?thesis by blast
    next
      case other: False
      have "normalize_identityless ag i = Some ag" using other i nn by (auto simp: normalize_identityless_def Let_def)
      then show ?thesis by (intro exI [of _ "ag_indeterminate ag"]) simp
    qed
    then show ?thesis using False p' by auto
  qed
qed

section \<open>Phase 1 as a whole\<close>

definition file_owner :: "graph_builder \<Rightarrow> object_identity \<times> u32 list \<Rightarrow> nat list" where
  "file_owner self obj = map (entry_pos self) (snd obj)"

definition dir_owner :: "graph_builder \<Rightarrow> u32 \<times> object_identity \<Rightarrow> nat list" where
  "dir_owner self dir = [entry_pos self (fst dir)]"

definition observed_owners :: "graph_builder \<Rightarrow> (object_identity \<times> u32 list) list \<Rightarrow> (u32 \<times> object_identity) list \<Rightarrow> nat list list" where
  "observed_owners self fs ds = map (file_owner self) fs @ map (dir_owner self) ds"

definition solo_positions :: "graph_builder \<Rightarrow> nat list list \<Rightarrow> nat list" where
  "solo_positions self owners = filter (solo self owners) [0..<builder_len self]"

definition all_owners :: "graph_builder \<Rightarrow> (object_identity \<times> u32 list) list \<Rightarrow> (u32 \<times> object_identity) list \<Rightarrow> nat list list" where
  "all_owners self fs ds = observed_owners self fs ds @ map (\<lambda>i. [i]) (solo_positions self (observed_owners self fs ds))"

definition all_objects :: "graph_builder \<Rightarrow> (object_identity \<times> u32 list) list \<Rightarrow> (u32 \<times> object_identity) list \<Rightarrow> object_record list" where
  "all_objects self fs ds = map (bucket_object self) fs @ map dir_object ds
     @ map (solo_object self) (solo_positions self (observed_owners self fs ds))"

text \<open>What the ingestion guarantees of the two maps, in any order.\<close>

definition identity_maps :: "graph_builder \<Rightarrow> (object_identity \<times> u32 list) list \<Rightarrow> (u32 \<times> object_identity) list \<Rightarrow> bool" where
  "identity_maps self fs ds \<longleftrightarrow> distinct (concat (map snd fs)) \<and> (\<forall>obj \<in> set fs. snd obj \<noteq> [])
     \<and> (\<forall>eid \<in> set (concat (map snd fs)). kind_at self File eid)
     \<and> distinct (map fst ds) \<and> (\<forall>eid \<in> set (map fst ds). kind_at self Directory eid)"

lemma distinct_concat_perm:
  assumes "mset xss = mset yss"
  shows "distinct (concat xss) = distinct (concat yss)"
proof -
  have "mset (concat zs) = \<Sum>\<^sub># (image_mset mset (mset zs))" for zs :: "'a list list" by (induction zs) simp_all
  then have "mset (concat xss) = mset (concat yss)" using assms by simp
  then show ?thesis by (metis mset_eq_imp_distinct_iff)
qed

lemma identity_maps_perm:
  assumes "wf_builder self" and f: "mset fs = mset (b_file_object_map self)" and d: "mset ds = mset (b_dir_object_ids self)"
  shows "identity_maps self fs ds"
proof -
  have "mset (map snd fs) = mset (map snd (b_file_object_map self))" using f by simp
  note distinct_concat_perm [OF this]
  then have "distinct (concat (map snd fs))" using assms(1) by (simp add: wf_builder_def maps_ok_def)
  moreover have "mset (map fst ds) = mset (map fst (b_dir_object_ids self))" using d by simp
  note mset_eq_imp_distinct_iff [OF this]
  then have "distinct (map fst ds)" using assms(1) by (simp add: wf_builder_def maps_ok_def)
  ultimately show ?thesis
    using assms(1) mset_eq_setD [OF f] mset_eq_setD [OF d]
    by (simp add: identity_maps_def wf_builder_def maps_ok_def) (auto simp: split_beta)
qed

lemma observed_owners_distinct:
  assumes ids: "ids_ok self" and m: "identity_maps self fs ds"
  shows "distinct (concat (observed_owners self fs ds))"
proof -
  have "concat (map (file_owner self) fs) = map (entry_pos self) (concat (map snd fs))"
    by (induction fs) (simp_all add: file_owner_def)
  moreover have "distinct (map (entry_pos self) (concat (map snd fs)))"
    using m by (intro entry_pos_inj [OF ids]) (auto simp: identity_maps_def)
  moreover have "concat (map (dir_owner self) ds) = map (entry_pos self) (map fst ds)"
    by (induction ds) (simp_all add: dir_owner_def)
  moreover have "distinct (map (entry_pos self) (map fst ds))"
    using m by (intro entry_pos_inj [OF ids]) (auto simp: identity_maps_def)
  moreover have "entry_pos self e \<noteq> entry_pos self e'" if "e \<in> set (concat (map snd fs))" "e' \<in> set (map fst ds)" for e e'
    using kind_at_pos [OF ids, of File e] kind_at_pos [OF ids, of Directory e'] m that
    by (auto simp: identity_maps_def)
  ultimately show ?thesis unfolding observed_owners_def concat_append distinct_append by fastforce
qed

lemma distinct_concat_middle: "distinct (concat (as @ b # cs)) \<Longrightarrow> set (concat as) \<inter> set b = {}"
  by simp blast

lemma phase1_files:
  assumes ids: "ids_ok self" and m: "identity_maps self fs ds" and p: "phase1 self [] [] ag"
  shows "\<exists>ag'. fold_opt normalize_object ag fs = Some ag'
    \<and> phase1 self (map (file_owner self) fs) (map (bucket_object self) fs) ag'"
proof (rule fold_opt_invariant)
  show "phase1 self (map (file_owner self) []) (map (bucket_object self) []) ag" using p by simp
  fix ys y zs a assume split: "fs = ys @ y # zs" and pa: "phase1 self (map (file_owner self) ys) (map (bucket_object self) ys) a"
  have dist: "distinct (concat (observed_owners self fs ds))" by (rule observed_owners_distinct [OF ids m])
  obtain oid eids where y: "y = (oid, eids)" by fastforce
  have "eids \<noteq> []" "distinct eids" "\<forall>eid \<in> set eids. kind_at self File eid"
    using m split y by (auto simp: identity_maps_def)
  moreover have "\<forall>x \<in> set (map (entry_pos self) eids). x \<notin> set (concat (map (file_owner self) ys))"
  proof -
    have "observed_owners self fs ds = map (file_owner self) ys @ file_owner self y # (map (file_owner self) zs @ map (dir_owner self) ds)"
      by (simp add: observed_owners_def split)
    then have "set (concat (map (file_owner self) ys)) \<inter> set (file_owner self y) = {}"
      using dist distinct_concat_middle by metis
    then show ?thesis unfolding y file_owner_def [of self "(oid, eids)"] snd_conv by blast
  qed
  ultimately have "\<exists>a'. normalize_object a (oid, eids) = Some a' \<and> phase1 self (map (file_owner self) ys @ [map (entry_pos self) eids])
      (map (bucket_object self) ys @ [bucket_object self (oid, eids)]) a'"
    by (rule normalize_object_ok [OF pa ids])
  then show "\<exists>a'. normalize_object a y = Some a' \<and> phase1 self (map (file_owner self) (ys @ [y])) (map (bucket_object self) (ys @ [y])) a'"
    by (simp add: y file_owner_def)
qed

lemma phase1_dirs:
  assumes ids: "ids_ok self" and m: "identity_maps self fs ds"
    and p: "phase1 self (map (file_owner self) fs) (map (bucket_object self) fs) ag"
  shows "\<exists>ag'. fold_opt normalize_directory ag ds = Some ag'
    \<and> phase1 self (map (file_owner self) fs @ map (dir_owner self) ds) (map (bucket_object self) fs @ map dir_object ds) ag'"
proof (rule fold_opt_invariant)
  show "phase1 self (map (file_owner self) fs @ map (dir_owner self) []) (map (bucket_object self) fs @ map dir_object []) ag"
    using p by simp
  fix ys y zs a assume split: "ds = ys @ y # zs"
    and pa: "phase1 self (map (file_owner self) fs @ map (dir_owner self) ys) (map (bucket_object self) fs @ map dir_object ys) a"
  have dist: "distinct (concat (observed_owners self fs ds))" by (rule observed_owners_distinct [OF ids m])
  obtain eid oid where y: "y = (eid, oid)" by fastforce
  have "kind_at self Directory eid" using m split y by (auto simp: identity_maps_def)
  moreover have "entry_pos self eid \<notin> set (concat (map (file_owner self) fs @ map (dir_owner self) ys))"
    using dist unfolding split y observed_owners_def map_append concat_append distinct_append
    by (auto simp: dir_owner_def)
  ultimately have "\<exists>a'. normalize_directory a (eid, oid) = Some a'
      \<and> phase1 self ((map (file_owner self) fs @ map (dir_owner self) ys) @ [[entry_pos self eid]])
          ((map (bucket_object self) fs @ map dir_object ys) @ [dir_object (eid, oid)]) a'"
    by (rule normalize_directory_ok [OF pa ids])
  then show "\<exists>a'. normalize_directory a y = Some a' \<and> phase1 self (map (file_owner self) fs @ map (dir_owner self) (ys @ [y]))
      (map (bucket_object self) fs @ map dir_object (ys @ [y])) a'"
    by (simp add: y dir_owner_def)
qed

lemma phase1_identityless:
  assumes n: "builder_len self < 2 ^ 32" and p: "phase1 self owners objs ag"
  shows "\<exists>ag'. fold_opt normalize_identityless ag [0..<builder_len self] = Some ag'
    \<and> phase1 self (owners @ map (\<lambda>i. [i]) (solo_positions self owners)) (objs @ map (solo_object self) (solo_positions self owners)) ag'"
  unfolding solo_positions_def
proof (rule fold_opt_invariant)
  show "phase1 self (owners @ map (\<lambda>i. [i]) (filter (solo self owners) [])) (objs @ map (solo_object self) (filter (solo self owners) [])) ag"
    using p by simp
  fix ys y zs a assume split: "[0..<builder_len self] = ys @ y # zs"
    and pa: "phase1 self (owners @ map (\<lambda>i. [i]) (filter (solo self owners) ys)) (objs @ map (solo_object self) (filter (solo self owners) ys)) a"
  have "distinct (ys @ y # zs)" "y \<in> set [0..<builder_len self]" unfolding split [symmetric] by (simp, simp add: split)
  then have y: "y < builder_len self" "y \<notin> set ys" by auto
  have "solo self (owners @ map (\<lambda>i. [i]) (filter (solo self owners) ys)) y = solo self owners y"
    using y by (auto simp: solo_def)
  with normalize_identityless_ok [OF pa y(1) n]
  show "\<exists>a'. normalize_identityless a y = Some a' \<and> phase1 self (owners @ map (\<lambda>i. [i]) (filter (solo self owners) (ys @ [y])))
      (objs @ map (solo_object self) (filter (solo self owners) (ys @ [y]))) a'"
    by (cases "solo self owners y") simp_all
qed

lemma attribute_streams_ok:
  assumes p: "phase1 self owners objs ag" and "\<forall>(i, s) \<in> set pending. i < builder_len self"
  shows "\<exists>s. fold_opt attribute_stream (ag_self ag) pending = Some s \<and> phase1 self owners objs (ag\<lparr>ag_self := s\<rparr>)"
proof (rule fold_opt_invariant)
  show "phase1 self owners objs (ag\<lparr>ag_self := ag_self ag\<rparr>)" using p by simp
  fix ys y zs s assume split: "pending = ys @ y # zs" and ps: "phase1 self owners objs (ag\<lparr>ag_self := s\<rparr>)"
  obtain i b where y: "y = (i, b)" by fastforce
  have "i < builder_len self" using assms(2) split y by auto
  then have i: "i < builder_len s"
    using ps same_shapeD(1) [OF same_evidence_shape, of self s] by (simp add: phase1_def)
  have "same_evidence self (s\<lparr>b_object_streams := m\<rparr>) = same_evidence self s" for m
    by (simp add: same_evidence_def same_shape_def)
  moreover have "assigned (s\<lparr>b_object_streams := m\<rparr>) owners = assigned s owners" for m by (simp add: assigned_def)
  ultimately have "phase1 self owners objs (ag\<lparr>ag_self := s\<lparr>b_object_streams := m\<rparr>\<rparr>)" for m
    using ps by (simp add: phase1_def)
  then show "\<exists>s'. attribute_stream s y = Some s' \<and> phase1 self owners objs (ag\<lparr>ag_self := s'\<rparr>)"
    using i ps by (simp add: attribute_stream_def y Let_def)
qed

lemma resolve_objects_ok:
  assumes wf: "wf_builder self" and f: "mset (files_order (b_file_object_map self)) = mset (b_file_object_map self)"
    and d: "mset (dirs_order (b_dir_object_ids self)) = mset (b_dir_object_ids self)"
  defines "fs \<equiv> files_order (b_file_object_map self)" and "ds \<equiv> dirs_order (b_dir_object_ids self)"
  shows "\<exists>ag. resolve_objects files_order dirs_order self = Some ag \<and> phase1 self (all_owners self fs ds) (all_objects self fs ds) ag"
proof -
  let ?ag0 = "\<lparr>ag_self = self\<lparr>b_file_object_map := [], b_dir_object_ids := [], b_pending_streams := []\<rparr>,
      ag_objects = [], ag_indeterminate = 0\<rparr>"
  have ids: "ids_ok self" using wf by (simp add: wf_builder_def wf_tree_def)
  have m: "identity_maps self fs ds" using identity_maps_perm [OF wf] f d by (simp add: fs_def ds_def)
  have "\<forall>i < builder_len self. c_object_index (b_entries self ! i) = NO_OBJECT"
    using wf by (simp add: wf_builder_def wf_tree_def entries_ok_def entry_ok_def)
  then have "phase1 self [] [] ?ag0"
    by (simp add: phase1_def same_evidence_def same_shape_def assigned_def)
  then obtain a1 where a1: "fold_opt normalize_object ?ag0 fs = Some a1"
    "phase1 self (map (file_owner self) fs) (map (bucket_object self) fs) a1"
    using phase1_files [OF ids m] by blast
  then obtain a2 where a2: "fold_opt normalize_directory a1 ds = Some a2"
    "phase1 self (observed_owners self fs ds) (map (bucket_object self) fs @ map dir_object ds) a2"
    using phase1_dirs [OF ids m] unfolding observed_owners_def by blast
  then obtain a3 where a3: "fold_opt normalize_identityless a2 [0..<builder_len self] = Some a3"
    "phase1 self (all_owners self fs ds) (all_objects self fs ds) a3"
    using phase1_identityless [OF ids_len [OF ids]] unfolding all_owners_def all_objects_def append_assoc [symmetric] by blast
  have "\<forall>(i, s) \<in> set (b_pending_streams self). i < builder_len self"
    using wf by (simp add: wf_builder_def maps_ok_def)
  then obtain s where s: "fold_opt attribute_stream (ag_self a3) (b_pending_streams self) = Some s"
    "phase1 self (all_owners self fs ds) (all_objects self fs ds) (a3\<lparr>ag_self := s\<rparr>)"
    using attribute_streams_ok [OF a3(2)] by blast
  have "resolve_objects files_order dirs_order self = Some (a3\<lparr>ag_self := s\<rparr>)"
    using a1(1) a2(1) a3(1) s(1) by (simp add: resolve_objects_def fs_def [symmetric] ds_def [symmetric] Let_def)
  then show ?thesis using s(2) by blast
qed

end
