(* ===== verification/Child_Order.thy ===== *)
theory Child_Order
  imports Size_Phases
begin

text \<open>
  Phase 5 of \<open>compute_aggregates\<close>: the children of all directories end up in one vector, each
  directory's children contiguous and sorted.
\<close>

section \<open>The order of siblings\<close>

lemma child_le_total: "child_le f a b \<or> child_le f b a"
proof -
  have "c_name a = c_name b \<or> str_less (c_name a) (c_name b) \<or> str_less (c_name b) (c_name a)"
    and "f (c_name a) = f (c_name b) \<or> str_less (f (c_name a)) (f (c_name b)) \<or> str_less (f (c_name b)) (f (c_name a))"
    by (rule str_less_total)+
  then show ?thesis by (auto simp: child_le_def Let_def not_less_iff_gr_or_eq)
qed

lemma child_le_trans:
  assumes "child_le f a b" and "child_le f b c"
  shows "child_le f a c"
proof -
  note t = str_less_trans [of "c_name a" "c_name b" "c_name c"] str_less_trans [of "f (c_name a)" "f (c_name b)" "f (c_name c)"]
  have na: "\<not> (str_less s u \<and> str_less u s)" for s u using str_less_trans [of s u s] by auto
  show ?thesis
    using assms t na [of "c_name a" "c_name b"] na [of "f (c_name a)" "f (c_name b)"]
    unfolding child_le_def Let_def by (auto split: if_splits dest: order_trans less_trans)
qed

section \<open>Collecting and sorting\<close>

definition child_ids :: "graph_builder \<Rightarrow> nat \<Rightarrow> u32 list" where
  "child_ids self i = map (\<lambda>j. c_id (b_entries self ! j)) (kids self i)"

definition id_le :: "(string \<Rightarrow> string) \<Rightarrow> graph_builder \<Rightarrow> u32 \<Rightarrow> u32 \<Rightarrow> bool" where
  "id_le f self a b = child_le f (the (entry_at self a)) (the (entry_at self b))"

definition sorted_children :: "(string \<Rightarrow> string) \<Rightarrow> graph_builder \<Rightarrow> nat \<Rightarrow> u32 list" where
  "sorted_children f self i = sort_by (id_le f self) (child_ids self i)"

lemma collect_children_chain:
  assumes "chain (b_next_sibling self) w js" and "\<forall>j \<in> set js. j < builder_len self"
    and "length (b_next_sibling self) = builder_len self"
  shows "collect_children self w acc = Some (acc @ map (\<lambda>j. c_id (b_entries self ! j)) js)"
  using assms
proof (induction js arbitrary: w acc)
  case Nil
  then show ?case by (subst collect_children.simps) simp
next
  case (Cons j js)
  have j: "w = word_of_nat j" "j < builder_len self" "j < 2 ^ 32 - 1" "chain (b_next_sibling self) (b_next_sibling self ! j) js"
    using Cons.prems by simp_all
  have "w \<noteq> u32_max" using chain_first [OF Cons.prems(1)] by simp
  moreover have "unat w = j" using j by (simp add: unat_of_nat)
  ultimately show ?case
    using Cons.IH [OF j(4), of "acc @ [c_id (b_entries self ! j)]"] Cons.prems(2,3) j(2)
    by (subst collect_children.simps) simp
qed

lemma collect_kids:
  "shape self \<Longrightarrow> i < builder_len self \<Longrightarrow> collect_children self (b_first_child self ! i) [] = Some (child_ids self i)"
  using collect_children_chain [of self "b_first_child self ! i" "kids self i" "[]"] kids_lt [of _ self i]
  by (simp add: shape_def links_ok_def child_ids_def)

lemma entry_at_id:
  assumes "ids_ok self" and "j < builder_len self"
  shows "entry_at self (c_id (b_entries self ! j)) = Some (b_entries self ! j)"
proof -
  have b: "builder_get_idx self (c_id (b_entries self ! j)) = Some j" using assms by (simp add: builder_idx_iff)
  have "entry_index self (c_id (b_entries self ! j)) = Some j"
  proof (cases "b_is_dense self")
    case True
    then have "c_id (b_entries self ! j) \<noteq> 0" "j = unat (c_id (b_entries self ! j)) - 1"
      using b by (auto simp: builder_get_idx_def dense_idx_def split: if_splits)
    with True show ?thesis by (simp add: entry_index_def unat_minus_one)
  qed (use b in \<open>simp add: entry_index_def builder_get_idx_def sparse_idx_def\<close>)
  then show ?thesis using assms(2) by (simp add: entry_at_def)
qed

lemma sort_children_ok:
  assumes "shape self"
  shows "sort_children f self (child_ids self i) = Some (sorted_children f self i)"
proof -
  have "entry_at self eid \<noteq> None" if "eid \<in> set (child_ids self i)" for eid
    using that entry_at_id [of self] kids_lt [of _ self i] assms by (auto simp: child_ids_def shape_def)
  then show ?thesis by (simp add: sort_children_def sorted_children_def id_le_def [abs_def])
qed

lemma sorted_children_sorted: "sorted_wrt (id_le f self) (sorted_children f self i)"
  unfolding sorted_children_def
  by (rule sorted_sort_by [where A = UNIV]) (use child_le_total child_le_trans in \<open>auto simp: id_le_def\<close>)

lemma length_sorted_children [simp]: "length (sorted_children f self i) = length (kids self i)"
  by (simp add: sorted_children_def child_ids_def)

section \<open>Placing the children\<close>

text \<open>Phase 5 changes where an entry's children are, nothing else.\<close>

definition same_sizes :: "graph_builder \<Rightarrow> graph_builder \<Rightarrow> bool" where
  "same_sizes self s \<longleftrightarrow> same_shape self s
     \<and> (\<forall>i < builder_len self. b_entries s ! i = (b_entries self ! i)
          \<lparr>c_child_start := c_child_start (b_entries s ! i), c_child_count := c_child_count (b_entries s ! i)\<rparr>)"

definition slot :: "(string \<Rightarrow> string) \<Rightarrow> graph_builder \<Rightarrow> nat \<Rightarrow> u32 list" where
  "slot f self i = (if c_kind (b_entries self ! i) = Directory then sorted_children f self i else [])"

definition slots :: "(string \<Rightarrow> string) \<Rightarrow> graph_builder \<Rightarrow> nat \<Rightarrow> u32 list" where
  "slots f self m = concat (map (slot f self) [0..<m])"

definition placed :: "(string \<Rightarrow> string) \<Rightarrow> graph_builder \<Rightarrow> nat \<Rightarrow> compact_entry \<Rightarrow> compact_entry" where
  "placed f self i e = (if c_kind e = Directory
     then e\<lparr>c_child_start := word_of_nat (length (slots f self i)), c_child_count := word_of_nat (length (slot f self i))\<rparr>
     else e\<lparr>c_child_start := 0, c_child_count := 0\<rparr>)"

definition placed_upto :: "(string \<Rightarrow> string) \<Rightarrow> graph_builder \<Rightarrow> nat \<Rightarrow> graph_builder" where
  "placed_upto f self m = entries_map (\<lambda>j. if j < m then placed f self j else (\<lambda>e. e)) self"

lemma placed_fields [simp]:
  "c_id (placed f self i e) = c_id e" "c_parent_id (placed f self i e) = c_parent_id e"
  "c_kind (placed f self i e) = c_kind e" "c_name (placed f self i e) = c_name e"
  "c_logical_size (placed f self i e) = c_logical_size e"
  by (simp_all add: placed_def)

lemma placed_shape: "same_shape self (placed_upto f self m)"
  unfolding placed_upto_def by (rule same_shape_map) simp

lemma child_le_placed:
  assumes "c_id a' = c_id a" "c_kind a' = c_kind a" "c_name a' = c_name a" "c_logical_size a' = c_logical_size a"
    and "c_id b' = c_id b" "c_kind b' = c_kind b" "c_name b' = c_name b" "c_logical_size b' = c_logical_size b"
  shows "child_le f a' b' = child_le f a b"
  by (simp add: child_le_def assms)

lemma sort_by_cong:
  assumes "\<And>x y. x \<in> set xs \<Longrightarrow> y \<in> set xs \<Longrightarrow> le x y = le' x y"
  shows "sort_by le xs = sort_by le' xs"
  using assms
proof (induction xs)
  case (Cons x xs)
  have "set ys \<subseteq> set (x # xs) \<Longrightarrow> insert_by le x ys = insert_by le' x ys" for ys
    using Cons.prems by (induction ys) auto
  from this [of "sort_by le' xs"] Cons show ?case by (auto simp: sort_by_def set_sort_by [unfolded sort_by_def])
qed (simp add: sort_by_def)

lemma sorted_children_placed:
  assumes s: "shape self"
  shows "sorted_children f (placed_upto f self m) i = sorted_children f self i"
proof -
  let ?t = "placed_upto f self m"
  have ids: "ids_ok self" "ids_ok ?t" using s shape_same [OF placed_shape s] by (simp_all add: shape_def)
  have ent: "b_entries ?t ! j = (if j < m then placed f self j else (\<lambda>e. e)) (b_entries self ! j)"
    and id: "c_id (b_entries ?t ! j) = c_id (b_entries self ! j)" if "j < builder_len self" for j
    using that by (simp_all add: placed_upto_def)
  have n: "builder_len ?t = builder_len self" by (simp add: placed_upto_def)
  have k: "kids ?t = kids self" by (rule kids_same [OF placed_shape])
  have ci: "child_ids ?t i = child_ids self i" unfolding child_ids_def k using id kids_lt by (auto intro!: map_cong)
  have et: "entry_at ?t (c_id (b_entries self ! j)) = Some (b_entries ?t ! j)" if "j < builder_len self" for j
    using entry_at_id [OF ids(2), of j] that unfolding n id [OF that] .
  have "id_le f ?t x y = id_le f self x y" if xy: "x \<in> set (child_ids self i)" "y \<in> set (child_ids self i)" for x y
  proof -
    obtain a b where a: "a < builder_len self" "x = c_id (b_entries self ! a)" and b: "b < builder_len self" "y = c_id (b_entries self ! b)"
      using xy kids_lt [of _ self i] by (auto simp: child_ids_def)
    show ?thesis unfolding id_le_def a(2) b(2) et [OF a(1)] et [OF b(1)] entry_at_id [OF ids(1) a(1)] entry_at_id [OF ids(1) b(1)]
        option.sel by (rule child_le_placed) (simp_all add: ent a(1) b(1))
  qed
  then show ?thesis unfolding sorted_children_def ci by (rule sort_by_cong)
qed

lemma place_children_step:
  assumes s: "shape self" and m: "m < builder_len self"
  shows "place_children f (placed_upto f self m, slots f self m) m = Some (placed_upto f self (Suc m), slots f self (Suc m))"
proof -
  let ?t = "placed_upto f self m"
  have n: "builder_len ?t = builder_len self" by (simp add: placed_upto_def)
  have e: "b_entries ?t ! m = b_entries self ! m" using m by (simp add: placed_upto_def)
  have st: "shape ?t" by (rule shape_same [OF placed_shape s])
  have upd: "?t\<lparr>b_entries := (b_entries ?t)[m := placed f self m (b_entries self ! m)]\<rparr> = placed_upto f self (Suc m)"
  proof -
    have "(b_entries ?t)[m := placed f self m (b_entries self ! m)] = b_entries (placed_upto f self (Suc m))"
      using m by (intro nth_equalityI) (auto simp: placed_upto_def nth_list_update less_Suc_eq)
    then show ?thesis by (simp add: placed_upto_def entries_map_def)
  qed
  have "length (b_first_child ?t) = builder_len self" using st n by (simp add: shape_def links_ok_def)
  then have fc: "get_at (b_first_child ?t) m = Some (b_first_child ?t ! m)" using m by simp
  have c: "collect_children ?t (b_first_child ?t ! m) [] = Some (child_ids ?t m)" using collect_kids [OF st] m n by simp
  have so: "sort_children f ?t (child_ids ?t m) = Some (sorted_children f self m)"
    using sort_children_ok [OF st] sorted_children_placed [OF s] by simp
  show ?thesis
  proof (cases "c_kind (b_entries self ! m) = Directory")
    case True
    then have pl: "placed f self m (b_entries self ! m) = (b_entries self ! m)\<lparr>c_child_start := word_of_nat (length (slots f self m)),
        c_child_count := word_of_nat (length (sorted_children f self m))\<rparr>"
      by (simp add: placed_def slot_def)
    show ?thesis
      using True m n e fc c so upd by (simp add: place_children_def pl slots_def slot_def)
  next
    case False
    then have pl: "placed f self m (b_entries self ! m) = (b_entries self ! m)\<lparr>c_child_start := 0, c_child_count := 0\<rparr>"
      by (simp add: placed_def)
    show ?thesis using False m n e upd by (simp add: place_children_def pl slots_def slot_def)
  qed
qed

lemma phase5:
  assumes s: "shape self" and "m \<le> builder_len self"
  shows "fold_opt (place_children f) (self, []) [0..<m] = Some (placed_upto f self m, slots f self m)"
  using assms(2)
proof (induction m)
  case 0
  then show ?case by (simp add: placed_upto_def slots_def entries_map_def map_nth)
next
  case (Suc m)
  then show ?case using place_children_step [OF s, of m f] by (simp add: fold_opt_append)
qed

text \<open>No position is the child of two directories, so the vector never outgrows the entries.\<close>

lemma slots_length:
  assumes "shape self"
  shows "length (slots f self m) \<le> builder_len self"
proof -
  have "distinct (concat (map (kids self) [0..<m]))"
    by (rule distinct_concat_map) (auto simp: kids_def)
  moreover have "set (concat (map (kids self) [0..<m])) \<subseteq> {..< builder_len self}" using kids_lt by auto
  then have "card (set (concat (map (kids self) [0..<m]))) \<le> builder_len self"
    using card_mono [of "{..< builder_len self}"] by simp
  ultimately have "length (concat (map (kids self) [0..<m])) \<le> builder_len self" by (simp only: distinct_card)
  moreover have "length (slots f self m) \<le> length (concat (map (kids self) [0..<m]))"
    unfolding slots_def by (induction m) (simp_all add: slot_def)
  ultimately show ?thesis by simp
qed

text \<open>A directory's children are the slice its entry names.\<close>

lemma slots_slice:
  assumes "i < m"
  shows "take (length (slot f self i)) (drop (length (slots f self i)) (slots f self m)) = slot f self i"
proof -
  have "m = i + (m - i)" using assms by simp
  then have "[0..<m] = [0..<i] @ [i..<m]" using upt_add_eq_append [of 0 i "m - i"] by simp
  also have "[i..<m] = i # [Suc i..<m]" using assms by (rule upt_conv_Cons)
  finally have "[0..<m] = [0..<i] @ i # [Suc i..<m]" .
  then have "slots f self m = slots f self i @ slot f self i @ concat (map (slot f self) [Suc i..<m])"
    by (simp add: slots_def)
  then show ?thesis by simp
qed

end
