(* ===== verification/Totals.thy ===== *)
theory Totals
  imports Accounting Objects Child_Order
begin

text \<open>
  \<open>compute_aggregates\<close> as a whole, stated over what was observed: it returns for every builder the
  ingestion can produce, the unique bytes of an entry count every observed identity of its
  subtree once, and the other sums are the saturated sums of the subtree.
\<close>

section \<open>Unique bytes of the observations\<close>

definition bucketed :: "graph_builder \<Rightarrow> nat \<Rightarrow> bool" where
  "bucketed self x \<longleftrightarrow> (\<exists>obj \<in> set (b_file_object_map self). x \<in> set (file_owner self obj))"

text \<open>What an entry occupies that no identity accounts for.\<close>

definition plain_bytes :: "graph_builder \<Rightarrow> nat \<Rightarrow> nat" where
  "plain_bytes self x = (case c_kind (b_entries self ! x) of
     Directory \<Rightarrow> unat (b_dir_self_alloc self ! x)
   | File \<Rightarrow> (if bucketed self x then 0 else unat (opt_bytes (c_allocated_size (b_entries self ! x))))
   | Special \<Rightarrow> 0)"

text \<open>
  Every identity with an alias among the positions counts once, with its smallest known
  allocation; every other entry counts for itself.
\<close>

definition observed_unique :: "graph_builder \<Rightarrow> nat list \<Rightarrow> nat" where
  "observed_unique self xs =
     (\<Sum>obj \<leftarrow> filter (\<lambda>obj. set (file_owner self obj) \<inter> set xs \<noteq> {}) (b_file_object_map self).
        unat (bucket_weight self (snd obj)))
     + (\<Sum>x \<leftarrow> xs. plain_bytes self x)"

lemma sum_list_perm: "mset xs = mset ys \<Longrightarrow> (\<Sum>x \<leftarrow> filter P xs. h x) = (\<Sum>x \<leftarrow> filter P ys. (h x :: nat))"
  by (metis mset_filter mset_map sum_mset_sum_list)

lemma sum_if_mem:
  assumes "distinct xs" and "distinct ys"
  shows "(\<Sum>x \<leftarrow> xs. if x \<in> set ys then h x else 0) = (\<Sum>y \<leftarrow> ys. if y \<in> set xs then h y else (0::nat))"
proof -
  have "(\<Sum>x \<leftarrow> xs. if x \<in> set ys then h x else 0) = (\<Sum>x \<in> set xs \<inter> set ys. h x)"
    using assms(1) by (simp add: sum_list_distinct_conv_sum_set sum.inter_restrict)
  also have "\<dots> = (\<Sum>x \<in> set ys \<inter> set xs. h x)" by (simp only: Int_commute)
  also have "\<dots> = (\<Sum>y \<leftarrow> ys. if y \<in> set xs then h y else 0)"
    using assms(2) by (simp add: sum_list_distinct_conv_sum_set sum.inter_restrict)
  finally show ?thesis .
qed

lemma sum_list_filter_if: "(\<Sum>x \<leftarrow> filter P xs. h x) = (\<Sum>x \<leftarrow> xs. if P x then h x else (0::nat))"
  by (induction xs) simp_all

lemma sum_list_zip_nth:
  assumes "length xs = length ys"
  shows "(\<Sum>(x, y) \<leftarrow> zip xs ys. h x y) = (\<Sum>k < length xs. h (xs ! k) (ys ! k :: 'b) :: nat)"
  using assms
proof (induction xs ys rule: list_induct2)
  case (Cons x xs y ys)
  then show ?case by (simp add: sum.lessThan_Suc_shift del: sum.lessThan_Suc)
qed simp

definition group_bytes :: "graph_builder \<Rightarrow> nat list \<Rightarrow> nat list \<Rightarrow> object_record \<Rightarrow> nat" where
  "group_bytes self xs ps ob = (if \<exists>x \<in> set ps. x \<in> set xs \<and> c_kind (b_entries self ! x) = File then unat (o_weight ob) else 0)"

lemma phase1_graph:
  assumes p: "phase1 self owners objs ag" and s: "shape self"
  shows "shape (ag_self ag)" and "builder_len (ag_self ag) = builder_len self" and "builder_len self < 2 ^ 32"
    and "objects_ok (ag_self ag) objs"
    and "x < builder_len self \<Longrightarrow> has_object (ag_self ag) x \<longleftrightarrow> c_kind (b_entries self ! x) = File \<and> x \<in> set (concat owners)"
    and "k < length owners \<Longrightarrow> x \<in> set (owners ! k) \<Longrightarrow> x < builder_len self \<and> object_at (ag_self ag) x = k"
proof -
  let ?g = "ag_self ag"
  have se: "same_evidence self ?g" and a: "assigned ?g owners" and len: "length objs = length owners"
    using p by (simp_all add: phase1_def)
  note ss = same_evidence_shape [OF se]
  show "shape ?g" by (rule shape_same [OF ss s])
  show n: "builder_len ?g = builder_len self" by (rule same_shapeD(1) [OF ss])
  show n32: "builder_len self < 2 ^ 32" using s ids_len by (simp add: shape_def)
  then have g32: "builder_len ?g < 2 ^ 32" by (simp only: n)
  show "objects_ok ?g objs"
    unfolding objects_ok_def
  proof (intro conjI allI impI)
    show "builder_len ?g < 2 ^ 32" by (rule g32)
    fix i assume "i < builder_len ?g" and "c_kind (b_entries ?g ! i) = File \<and> c_object_index (b_entries ?g ! i) \<noteq> NO_OBJECT"
    then show "unat (c_object_index (b_entries ?g ! i)) < length objs"
      using assigned_cases [OF a g32] len by metis
  qed
  show k: "x < builder_len self \<and> object_at ?g x = k" if "k < length owners" "x \<in> set (owners ! k)"
  proof -
    have "x \<in> set (concat owners)" using that by (auto intro: nth_mem)
    then have "x < builder_len ?g" using a unfolding assigned_def by blast
    moreover have "object_at ?g x = k" unfolding object_at_def using assigned_object [OF a g32 that] by blast
    ultimately show ?thesis by (simp only: n)
  qed
  show "has_object ?g x \<longleftrightarrow> c_kind (b_entries self ! x) = File \<and> x \<in> set (concat owners)" if x: "x < builder_len self"
  proof -
    have "c_object_index (b_entries ?g ! x) \<noteq> NO_OBJECT \<longleftrightarrow> x \<in> set (concat owners)"
    proof
      assume "c_object_index (b_entries ?g ! x) \<noteq> NO_OBJECT"
      then show "x \<in> set (concat owners)" using a x n by (auto simp: assigned_def)
    next
      assume "x \<in> set (concat owners)"
      then obtain xs where "xs \<in> set owners" "x \<in> set xs" by auto
      then obtain k where "k < length owners" "x \<in> set (owners ! k)" by (metis in_set_conv_nth)
      then show "c_object_index (b_entries ?g ! x) \<noteq> NO_OBJECT" using assigned_object [OF a g32] by metis
    qed
    then show ?thesis using same_shapeD(2) [OF ss x] by (simp add: has_object_def)
  qed
qed

lemma object_bytes_groups:
  assumes p: "phase1 self owners objs ag" and s: "shape self" and xs: "\<forall>x \<in> set xs. x < builder_len self"
  shows "(\<Sum>ob \<in> set (map (object_at (ag_self ag)) (filter (has_object (ag_self ag)) xs)). unat (o_weight (objs ! ob)))
    = (\<Sum>(ps, ob) \<leftarrow> zip owners objs. group_bytes self xs ps ob)"
proof -
  let ?g = "ag_self ag"
  let ?K = "{k. k < length owners \<and> (\<exists>x \<in> set (owners ! k). x \<in> set xs \<and> c_kind (b_entries self ! x) = File)}"
  note g = phase1_graph [OF p s]
  have "set (map (object_at ?g) (filter (has_object ?g) xs)) = ?K"
  proof (intro equalityI subsetI)
    fix k assume "k \<in> set (map (object_at ?g) (filter (has_object ?g) xs))"
    then obtain x where x: "x \<in> set xs" "has_object ?g x" "k = object_at ?g x" by auto
    then have f: "c_kind (b_entries self ! x) = File" "x \<in> set (concat owners)" using g(5) xs by blast+
    then obtain ps where "ps \<in> set owners" "x \<in> set ps" by auto
    then obtain j where j: "j < length owners" "x \<in> set (owners ! j)" by (metis in_set_conv_nth)
    then show "k \<in> ?K" using g(6) [OF j] x f by auto
  next
    fix k assume "k \<in> ?K"
    then obtain x where x: "k < length owners" "x \<in> set (owners ! k)" "x \<in> set xs" "c_kind (b_entries self ! x) = File" by auto
    then have "has_object ?g x" "object_at ?g x = k" using g(5) g(6) [OF x(1,2)] by (auto intro: nth_mem)
    then show "k \<in> set (map (object_at ?g) (filter (has_object ?g) xs))" using x(3) by force
  qed
  moreover have "(\<Sum>ob \<in> ?K. unat (o_weight (objs ! ob))) = (\<Sum>k < length owners. group_bytes self xs (owners ! k) (objs ! k))"
    unfolding group_bytes_def by (rule sum.mono_neutral_cong_left) auto
  moreover have "length owners = length objs" using p by (simp add: phase1_def)
  ultimately show ?thesis using sum_list_zip_nth [of owners objs "group_bytes self xs"] by simp
qed

lemma distinct_bytes_observed:
  assumes p: "phase1 self (all_owners self fs ds) (all_objects self fs ds) ag" and s: "shape self"
    and m: "identity_maps self fs ds" and f: "mset fs = mset (b_file_object_map self)"
    and d: "distinct xs" and xs: "\<forall>x \<in> set xs. x < builder_len self"
  shows "distinct_bytes (ag_self ag) (all_objects self fs ds) xs = observed_unique self xs"
proof -
  let ?g = "ag_self ag" and ?sol = "solo_positions self (observed_owners self fs ds)"
  let ?a = "\<lambda>x. unat (opt_bytes (c_allocated_size (b_entries self ! x)))"
  have ids: "ids_ok self" using s by (simp add: shape_def)
  note g = phase1_graph [OF p s]
  have se: "same_evidence self ?g" using p by (simp add: phase1_def)
  have fkind: "c_kind (b_entries self ! x) = File" if "obj \<in> set fs" "x \<in> set (file_owner self obj)" for obj x
    using that m kind_at_pos [OF ids, of File] by (auto simp: file_owner_def identity_maps_def)
  have dkind: "c_kind (b_entries self ! x) = Directory" if "y \<in> set ds" "x \<in> set (dir_owner self y)" for y x
    using that m kind_at_pos [OF ids, of Directory] by (auto simp: dir_owner_def identity_maps_def)
  have solo: "c_kind (b_entries self ! i) = File \<and> i < builder_len self \<and> i \<notin> set (concat (observed_owners self fs ds))" if "i \<in> set ?sol" for i
    using that by (auto simp: solo_positions_def solo_def)
  have "(\<Sum>(ps, ob) \<leftarrow> zip (map (file_owner self) fs) (map (bucket_object self) fs). group_bytes self xs ps ob)
      = (\<Sum>obj \<leftarrow> filter (\<lambda>obj. set (file_owner self obj) \<inter> set xs \<noteq> {}) fs. unat (bucket_weight self (snd obj)))"
  proof -
    have "group_bytes self xs (file_owner self obj) (bucket_object self obj)
        = (if set (file_owner self obj) \<inter> set xs \<noteq> {} then unat (bucket_weight self (snd obj)) else 0)" if "obj \<in> set fs" for obj
      using fkind [OF that] by (auto simp: group_bytes_def bucket_object_def)
    then show ?thesis
      by (simp add: zip_map_map zip_same_conv_map comp_def sum_list_filter_if cong: map_cong)
  qed
  moreover have "(\<Sum>(ps, ob) \<leftarrow> zip (map (dir_owner self) ds) (map dir_object ds). group_bytes self xs ps ob) = 0"
    by (induction ds) (simp_all add: group_bytes_def dir_object_def)
  moreover have "(\<Sum>(ps, ob) \<leftarrow> zip (map (\<lambda>i. [i]) ?sol) (map (solo_object self) ?sol). group_bytes self xs ps ob)
      = (\<Sum>x \<leftarrow> xs. if x \<in> set ?sol then ?a x else 0)"
  proof -
    have "group_bytes self xs [i] (solo_object self i) = (if i \<in> set xs then ?a i else 0)" if "i \<in> set ?sol" for i
      using solo [OF that] by (simp add: group_bytes_def solo_object_def)
    moreover have "distinct ?sol" by (simp add: solo_positions_def)
    ultimately show ?thesis
      using sum_if_mem [OF d, of ?sol ?a] by (simp add: zip_map_map zip_same_conv_map comp_def cong: map_cong)
  qed
  moreover have "plain_bytes self x = own_bytes ?g x + (if x \<in> set ?sol then ?a x else 0)" if x: "x \<in> set xs" for x
  proof -
    have xn: "x < builder_len self" using xs x by blast
    have fb: "bucketed self x \<longleftrightarrow> (\<exists>obj \<in> set fs. x \<in> set (file_owner self obj))"
      unfolding bucketed_def using mset_eq_setD [OF f] by simp
    have fields: "c_kind (b_entries ?g ! x) = c_kind (b_entries self ! x)" "c_allocated_size (b_entries ?g ! x) = c_allocated_size (b_entries self ! x)"
      "b_dir_self_alloc ?g = b_dir_self_alloc self"
      using same_evidence_fields(1,5) [OF se xn] same_shapeD(6) [OF same_evidence_shape [OF se]] by simp_all
    show ?thesis
    proof (cases "c_kind (b_entries self ! x)")
      case File
      have "x \<notin> set (concat (map (dir_owner self) ds))" using dkind File by auto
      then have ob: "x \<in> set (concat (observed_owners self fs ds)) \<longleftrightarrow> bucketed self x"
        unfolding observed_owners_def fb by auto
      have "set (concat (map (\<lambda>i. [i]) ys)) = set ys" for ys :: "nat list" by auto
      then have "has_object ?g x \<longleftrightarrow> bucketed self x \<or> x \<in> set ?sol"
        using g(5) [OF xn] File ob unfolding all_owners_def concat_append set_append by simp
      moreover have "bucketed self x \<Longrightarrow> x \<notin> set ?sol" using solo ob by blast
      ultimately show ?thesis using File fields by (auto simp: plain_bytes_def own_bytes_def)
    qed (use solo fields in \<open>auto simp: plain_bytes_def own_bytes_def\<close>)
  qed
  then have "(\<Sum>x \<leftarrow> xs. plain_bytes self x) = (\<Sum>x \<leftarrow> xs. own_bytes ?g x) + (\<Sum>x \<leftarrow> xs. if x \<in> set ?sol then ?a x else 0)"
    by (simp add: sum_list_addf cong: map_cong)
  ultimately show ?thesis
    using object_bytes_groups [OF p s xs] sum_list_perm [OF f]
    by (simp add: distinct_bytes_def observed_unique_def all_owners_def all_objects_def observed_owners_def)
qed

section \<open>All phases together\<close>

text \<open>Sums of directories over their children's final entries; leaves keep what was observed.\<close>

definition sums_ok :: "graph_builder \<Rightarrow> graph_builder \<Rightarrow> bool" where
  "sums_ok self final \<longleftrightarrow> (\<forall>i < builder_len self.
     (if c_kind (b_entries self ! i) = Directory
      then c_logical_size (b_entries final ! i) = Some (cs_logical (directory_sums final i))
        \<and> c_referenced_allocated_bytes (b_entries final ! i) = cs_referenced (directory_sums final i)
        \<and> c_known_subtotal_allocated_bytes (b_entries final ! i) = cs_known_subtotal (directory_sums final i)
        \<and> c_allocated_size (b_entries final ! i) = Some (cs_referenced (directory_sums final i))
        \<and> c_allocated_size_known (b_entries final ! i) = cs_all_known (directory_sums final i)
      else c_logical_size (b_entries final ! i) = c_logical_size (b_entries self ! i)
        \<and> c_allocated_size (b_entries final ! i) = c_allocated_size (b_entries self ! i)
        \<and> c_referenced_allocated_bytes (b_entries final ! i) = c_referenced_allocated_bytes (b_entries self ! i)
        \<and> c_known_subtotal_allocated_bytes (b_entries final ! i) = c_known_subtotal_allocated_bytes (b_entries self ! i)))"

definition children_ok :: "(string \<Rightarrow> string) \<Rightarrow> graph_builder \<Rightarrow> u32 list \<Rightarrow> bool" where
  "children_ok f final children \<longleftrightarrow> (\<forall>i < builder_len final. c_kind (b_entries final ! i) = Directory \<longrightarrow>
     take (unat (c_child_count (b_entries final ! i))) (drop (unat (c_child_start (b_entries final ! i))) children)
       = sorted_children f final i
     \<and> unat (c_child_start (b_entries final ! i)) + unat (c_child_count (b_entries final ! i)) \<le> length children)
   \<and> (\<forall>i < builder_len final. c_kind (b_entries final ! i) \<noteq> Directory \<longrightarrow> c_child_count (b_entries final ! i) = 0)"

text \<open>The object of every observed identity, in whatever position.\<close>

definition objects_of :: "graph_builder \<Rightarrow> graph_builder \<Rightarrow> object_record list \<Rightarrow> bool" where
  "objects_of self final objects \<longleftrightarrow>
     (\<forall>obj \<in> set (b_file_object_map self). \<exists>k < length objects. objects ! k = bucket_object self obj
        \<and> (\<forall>x < builder_len self. object_at final x = k \<and> c_object_index (b_entries final ! x) \<noteq> NO_OBJECT \<longleftrightarrow> x \<in> set (file_owner self obj)))
     \<and> (\<forall>x < builder_len self. c_object_index (b_entries final ! x) \<noteq> NO_OBJECT \<longrightarrow> object_at final x < length objects)"

lemma placed_all:
  "i < builder_len s \<Longrightarrow> b_entries (placed_upto f s (builder_len s)) ! i = placed f s i (b_entries s ! i)"
  "builder_len (placed_upto f s m) = builder_len s"
  by (simp_all add: placed_upto_def)

lemma directory_sums_placed:
  "directory_sums (placed_upto f s (builder_len s)) i = directory_sums s i"
proof -
  let ?t = "placed_upto f s (builder_len s)"
  have k: "kids ?t = kids s" by (rule kids_same [OF placed_shape])
  have a: "b_dir_self_alloc ?t = b_dir_self_alloc s" by (rule same_shapeD(6) [OF placed_shape])
  have e: "b_entries ?t ! j = placed f s j (b_entries s ! j)" if "j \<in> set (kids s i)" for j
    by (rule placed_all(1) [OF kids_lt [OF that]])
  have p: "c_logical_size (placed f s j e) = c_logical_size e" "c_referenced_allocated_bytes (placed f s j e) = c_referenced_allocated_bytes e"
    "c_known_subtotal_allocated_bytes (placed f s j e) = c_known_subtotal_allocated_bytes e"
    "c_unique_allocated_bytes (placed f s j e) = c_unique_allocated_bytes e" "c_kind (placed f s j e) = c_kind e"
    "c_allocated_size (placed f s j e) = c_allocated_size e" "c_allocated_size_known (placed f s j e) = c_allocated_size_known e" for j e
    by (simp_all add: placed_def)
  show ?thesis unfolding directory_sums_def total_sums_def k a by (simp add: e p cong: map_cong)
qed

lemma word_len: "m < 2 ^ 32 \<Longrightarrow> unat (word_of_nat m :: u32) = m"
  by (simp add: unat_of_nat)

lemma children_placed:
  assumes s: "shape s"
  shows "children_ok f (placed_upto f s (builder_len s)) (slots f s (builder_len s))"
proof -
  let ?n = "builder_len s" and ?t = "placed_upto f s (builder_len s)" and ?c = "slots f s (builder_len s)"
  have n32: "?n < 2 ^ 32" using s ids_len by (simp add: shape_def)
  have "take (unat (c_child_count (b_entries ?t ! i))) (drop (unat (c_child_start (b_entries ?t ! i))) ?c) = sorted_children f ?t i
      \<and> unat (c_child_start (b_entries ?t ! i)) + unat (c_child_count (b_entries ?t ! i)) \<le> length ?c"
    if i: "i < ?n" and d: "c_kind (b_entries s ! i) = Directory" for i
  proof -
    have "length (slots f s i) < 2 ^ 32" "length (slot f s i) < 2 ^ 32"
      using slots_length [OF s, of f i] length_kids [of s i] n32 by (simp_all add: slot_def)
    then have u: "unat (c_child_start (b_entries ?t ! i)) = length (slots f s i)" "unat (c_child_count (b_entries ?t ! i)) = length (slot f s i)"
      unfolding placed_all(1) [OF i] using d by (simp_all add: placed_def word_len)
    have "slot f s i = sorted_children f ?t i" using d sorted_children_placed [OF s] by (simp add: slot_def)
    moreover have "length (slots f s i) + length (slot f s i) \<le> length ?c"
    proof -
      have "length (slots f s (Suc i)) \<le> length (slots f s m)" if "Suc i \<le> m" for m
        using that by (induction m rule: dec_induct) (simp_all add: slots_def)
      from this [of ?n] show ?thesis using i by (simp add: slots_def)
    qed
    ultimately show ?thesis unfolding u using slots_slice [OF i, of f s] by simp
  qed
  moreover have "c_child_count (b_entries ?t ! i) = 0" if "i < ?n" "c_kind (b_entries s ! i) \<noteq> Directory" for i
    unfolding placed_all(1) [OF that(1)] using that(2) by (simp add: placed_def)
  moreover have "c_kind (b_entries ?t ! i) = c_kind (b_entries s ! i)" if "i < ?n" for i
    using placed_all(1) [OF that, of f] by simp
  ultimately show ?thesis unfolding children_ok_def placed_all(2) by simp
qed

lemma objects_of_phase1:
  assumes p: "phase1 self (all_owners self fs ds) (all_objects self fs ds) ag" and s: "shape self"
    and f: "set fs = set (b_file_object_map self)"
    and same: "\<forall>x < builder_len self. c_object_index (b_entries final ! x) = c_object_index (b_entries (ag_self ag) ! x)"
  shows "objects_of self final (all_objects self fs ds)"
proof -
  let ?ow = "all_owners self fs ds" and ?ob = "all_objects self fs ds" and ?g = "ag_self ag"
  have a: "assigned ?g ?ow" and len: "length ?ob = length ?ow" using p by (simp_all add: phase1_def)
  note g = phase1_graph [OF p s]
  have g32: "builder_len ?g < 2 ^ 32" using g(2,3) by simp
  have at: "object_at final x = object_at ?g x" if "x < builder_len self" for x
    using same that by (simp add: object_at_def)
  have idx: "c_object_index (b_entries ?g ! x) \<noteq> NO_OBJECT \<and> object_at ?g x = k \<longleftrightarrow> x \<in> set (?ow ! k)"
    if k: "k < length ?ow" and x: "x < builder_len self" for k x
  proof
    assume e: "c_object_index (b_entries ?g ! x) \<noteq> NO_OBJECT \<and> object_at ?g x = k"
    then obtain j where "j < length ?ow" "x \<in> set (?ow ! j)" "unat (c_object_index (b_entries ?g ! x)) = j"
      using assigned_cases [OF a g32, of x] x g(2) by metis
    then show "x \<in> set (?ow ! k)" using e by (simp add: object_at_def)
  next
    assume "x \<in> set (?ow ! k)"
    from assigned_object [OF a g32 k this] show "c_object_index (b_entries ?g ! x) \<noteq> NO_OBJECT \<and> object_at ?g x = k"
      unfolding object_at_def by blast
  qed
  have "\<exists>k < length ?ob. ?ob ! k = bucket_object self obj
      \<and> (\<forall>x < builder_len self. object_at final x = k \<and> c_object_index (b_entries final ! x) \<noteq> NO_OBJECT \<longleftrightarrow> x \<in> set (file_owner self obj))"
    if obj: "obj \<in> set (b_file_object_map self)" for obj
  proof -
    obtain k where k: "k < length fs" "fs ! k = obj" using obj f by (metis in_set_conv_nth)
    then have "?ob ! k = bucket_object self obj" "?ow ! k = file_owner self obj" "k < length ?ow"
      by (simp_all add: all_objects_def all_owners_def observed_owners_def nth_append)
    then show ?thesis using idx [of k] same at len by (intro exI [of _ k]) auto
  qed
  moreover have "object_at final x < length ?ob" if "x < builder_len self" "c_object_index (b_entries final ! x) \<noteq> NO_OBJECT" for x
    using assigned_cases [OF a g32, of x] that same g(2) at len by (metis object_at_def)
  ultimately show ?thesis unfolding objects_of_def by blast
qed

lemma observed_unique_subtree:
  assumes p: "phase1 self (all_owners self fs ds) (all_objects self fs ds) ag" and s: "shape self"
    and m: "identity_maps self fs ds" and f: "mset fs = mset (b_file_object_map self)" and i: "i < builder_len self"
  shows "unique_bytes (ag_self ag) (all_objects self fs ds) i = observed_unique self (subtree self i)"
proof -
  have "same_shape self (ag_self ag)" using p by (simp add: phase1_def same_evidence_shape)
  then have "subtree (ag_self ag) i = subtree self i" by (rule subtree_same [OF _ s])
  then show ?thesis
    using distinct_bytes_observed [OF p s m f distinct_subtree [OF s i]] subtree_mem [OF s i] by simp
qed

lemma settled_sums:
  assumes se: "same_evidence self g" and st: "settled_after g objs delta ys t" and all: "set ys = {..< builder_len g}"
  shows "sums_ok self (placed_upto f t (builder_len t))"
  unfolding sums_ok_def
proof (intro allI impI)
  let ?final = "placed_upto f t (builder_len t)"
  fix i assume i: "i < builder_len self"
  have ng: "builder_len g = builder_len self" by (rule same_shapeD(1) [OF same_evidence_shape [OF se]])
  have sg: "same_shape g t" using st by (simp add: settled_after_def)
  have nt: "i < builder_len t" using same_shapeD(1) [OF sg] ng i by simp
  note ev = same_evidence_fields [OF se i]
  note e = placed_all(1) [OF nt, of f]
  show "if c_kind (b_entries self ! i) = Directory
      then c_logical_size (b_entries ?final ! i) = Some (cs_logical (directory_sums ?final i))
        \<and> c_referenced_allocated_bytes (b_entries ?final ! i) = cs_referenced (directory_sums ?final i)
        \<and> c_known_subtotal_allocated_bytes (b_entries ?final ! i) = cs_known_subtotal (directory_sums ?final i)
        \<and> c_allocated_size (b_entries ?final ! i) = Some (cs_referenced (directory_sums ?final i))
        \<and> c_allocated_size_known (b_entries ?final ! i) = cs_all_known (directory_sums ?final i)
      else c_logical_size (b_entries ?final ! i) = c_logical_size (b_entries self ! i)
        \<and> c_allocated_size (b_entries ?final ! i) = c_allocated_size (b_entries self ! i)
        \<and> c_referenced_allocated_bytes (b_entries ?final ! i) = c_referenced_allocated_bytes (b_entries self ! i)
        \<and> c_known_subtotal_allocated_bytes (b_entries ?final ! i) = c_known_subtotal_allocated_bytes (b_entries self ! i)"
  proof (cases "c_kind (b_entries self ! i) = Directory")
    case True
    then have "b_entries t ! i = settled_directory delta t i (b_entries g ! i)"
      using st all i ng ev(5) by (simp add: settled_after_def)
    then show ?thesis unfolding directory_sums_placed e using True ev(5)
      by (simp add: placed_def settled_directory_def Let_def)
  next
    case False
    then have "b_entries t ! i = leaf_unique objs (b_entries g ! i)"
      using st i ng ev(5) by (simp add: settled_after_def)
    then show ?thesis unfolding e using False ev by (simp add: placed_def)
  qed
qed

theorem compute_aggregates_spec:
  assumes wf: "wf_builder self" and n: "b_entries self \<noteq> []"
    and fo: "mset (files_order (b_file_object_map self)) = mset (b_file_object_map self)"
    and do: "mset (dirs_order (b_dir_object_ids self)) = mset (b_dir_object_ids self)"
    and fits: "observed_unique self (subtree self 0) < 2 ^ 64"
  shows "\<exists>final objects children indeterminate.
    compute_aggregates files_order dirs_order f self = Some (final, objects, children, indeterminate)
    \<and> same_shape self final \<and> sums_ok self final \<and> children_ok f final children \<and> objects_of self final objects
    \<and> (\<forall>i < builder_len self. unat (c_unique_allocated_bytes (b_entries final ! i)) = observed_unique self (subtree self i))"
proof -
  define fs where "fs = files_order (b_file_object_map self)"
  define ds where "ds = dirs_order (b_dir_object_ids self)"
  let ?n = "builder_len self"
  have s: "shape self" using wf by (simp add: wf_builder_def wf_tree_shape)
  have m: "identity_maps self fs ds" using identity_maps_perm [OF wf] fo do by (simp add: fs_def ds_def)
  have fm: "mset fs = mset (b_file_object_map self)" using fo by (simp add: fs_def)
  have n0: "0 < ?n" using n by simp
  obtain ag where r: "resolve_objects files_order dirs_order self = Some ag"
    and p: "phase1 self (all_owners self fs ds) (all_objects self fs ds) ag"
    using resolve_objects_ok [of self files_order dirs_order, OF wf fo do] unfolding fs_def ds_def by blast
  define g where "g = ag_self ag"
  define objs where "objs = all_objects self fs ds"
  note pg = phase1_graph [OF p s, folded g_def objs_def]
  have objs: "ag_objects ag = objs" and se: "same_evidence self g" using p by (simp_all add: phase1_def g_def objs_def)
  have gn: "0 < builder_len g" using pg(2) n0 by simp
  obtain st where st: "traverse_all g objs = Some st" "t_post_order st = subtree g 0" "length (t_delta st) = builder_len g"
    "\<forall>i < builder_len g. delta_sum st (set (subtree g i)) = - repeated g objs (subtree g i)"
    "\<forall>i < builder_len g. - (2 ^ 96) \<le> t_delta st ! i \<and> t_delta st ! i \<le> 0"
    using traverse_all_ok [OF pg(1) gn pg(4)] by blast
  have d: "deltas_ok g objs (t_delta st)" using st(3-5) by (simp add: deltas_ok_def delta_sum_def)
  have u: "unique_bytes g objs i = observed_unique self (subtree self i)" if "i < ?n" for i
    using observed_unique_subtree [OF p s m fm that] by (simp add: g_def objs_def)
  have all: "set (subtree g 0) = {..< builder_len g}" by (rule set_subtree_root [OF pg(1) gn])
  have p3: "fold_opt (set_leaf_unique objs) g (subtree g 0) = Some (entries_map (\<lambda>_. leaf_unique objs) g)"
    by (rule phase3 [OF pg(4) distinct_subtree [OF pg(1) gn] all])
  obtain t where t: "fold_opt (aggregate_directory (t_delta st)) (entries_map (\<lambda>_. leaf_unique objs) g) (subtree g 0) = Some t"
    and ts: "settled_after g objs (t_delta st) (subtree g 0) t"
    using phase4 [OF pg(1,4) d _ gn] u [OF n0] fits by auto
  have sg: "same_shape g t" using ts by (simp add: settled_after_def)
  have sh: "shape t" by (rule shape_same [OF sg pg(1)])
  have tn: "builder_len t = ?n" using same_shapeD(1) [OF sg] pg(2) by simp
  let ?final = "placed_upto f t (builder_len t)"
  have p5: "fold_opt (place_children f) (t, []) [0..<builder_len t] = Some (?final, slots f t (builder_len t))"
    by (rule phase5 [OF sh]) simp
  have "compute_aggregates files_order dirs_order f self = Some (?final, objs, slots f t (builder_len t), ag_indeterminate ag)"
    using n r st(1,2) p3 t p5 by (simp add: compute_aggregates_def objs g_def [symmetric])
  moreover have "same_shape self ?final"
    using same_shape_trans [OF same_shape_trans [OF same_evidence_shape [OF se] sg] placed_shape] .
  moreover have "sums_ok self ?final" by (rule settled_sums [OF se ts all])
  moreover have "children_ok f ?final (slots f t (builder_len t))" by (rule children_placed [OF sh])
  moreover have fields: "c_object_index (b_entries ?final ! x) = c_object_index (b_entries g ! x)
      \<and> unat (c_unique_allocated_bytes (b_entries ?final ! x)) = observed_unique self (subtree self x)" if x: "x < ?n" for x
  proof -
    have xt: "x < builder_len t" "x < builder_len g" using x tn pg(2) by simp_all
    have "c_object_index (b_entries t ! x) = c_object_index (b_entries g ! x)"
    proof (cases "c_kind (b_entries g ! x) = Directory")
      case True
      then have "b_entries t ! x = settled_directory (t_delta st) t x (b_entries g ! x)" using ts all xt by (simp add: settled_after_def)
      then show ?thesis by simp
    next
      case False
      then have "b_entries t ! x = leaf_unique objs (b_entries g ! x)" using ts xt by (simp add: settled_after_def)
      then show ?thesis by simp
    qed
    moreover have "unat (c_unique_allocated_bytes (b_entries t ! x)) = unique_bytes g objs x"
      using ts all xt by (simp add: settled_after_def)
    ultimately show ?thesis unfolding placed_all(1) [OF xt(1)] using u [OF x] by (simp add: placed_def)
  qed
  moreover have "objects_of self ?final objs"
    unfolding objs_def using fields mset_eq_setD [OF fm] by (intro objects_of_phase1 [OF p s]) (simp_all add: g_def)
  ultimately show ?thesis by blast
qed

section \<open>Saturated sums\<close>

lemma min_sum_list:
  "min (a + (\<Sum>k \<leftarrow> ks. min (h k) M)) M = min (a + (\<Sum>k \<leftarrow> ks. h k)) (M :: nat)"
proof (induction ks arbitrary: a)
  case (Cons k ks)
  have "min (a + min (h k) M + (\<Sum>k \<leftarrow> ks. min (h k) M)) M = min (a + min (h k) M + (\<Sum>k \<leftarrow> ks. h k)) M"
    by (rule Cons)
  then show ?case by (simp add: add.assoc)
qed simp

lemma saturated_subtree:
  assumes s: "shape self" and i: "i < builder_len self"
    and dir: "\<And>i. i < builder_len self \<Longrightarrow> c_kind (b_entries self ! i) = Directory \<Longrightarrow>
      unat (w i) = min (h i + (\<Sum>k \<leftarrow> kids self i. unat (w k))) (2 ^ 64 - 1)"
    and leaf: "\<And>i. i < builder_len self \<Longrightarrow> c_kind (b_entries self ! i) \<noteq> Directory \<Longrightarrow> unat (w i :: u64) = h i"
  shows "unat (w i) = min (\<Sum>x \<leftarrow> subtree self i. h x) (2 ^ 64 - 1)"
  using i
proof (induction i rule: tree_induct [OF s])
  case (1 i)
  show ?case
  proof (cases "c_kind (b_entries self ! i) = Directory")
    case True
    have "unat (w k) = min (\<Sum>x \<leftarrow> subtree self k. h x) (2 ^ 64 - 1)" if "k \<in> set (kids self i)" for k
      using 1(1) [OF that] kids_lt [OF that] by blast
    then have "(\<Sum>k \<leftarrow> kids self i. unat (w k)) = (\<Sum>k \<leftarrow> kids self i. min (\<Sum>x \<leftarrow> subtree self k. h x) (2 ^ 64 - 1))"
      by (simp cong: map_cong)
    then have "unat (w i) = min (h i + (\<Sum>k \<leftarrow> kids self i. \<Sum>x \<leftarrow> subtree self k. h x)) (2 ^ 64 - 1)"
      using dir [OF 1(2) True] min_sum_list [where a = "h i" and ks = "kids self i" and M = "2 ^ 64 - 1"] by simp
    moreover have "(\<Sum>x \<leftarrow> concat (map (subtree self) ks). h x) = (\<Sum>k \<leftarrow> ks. \<Sum>x \<leftarrow> subtree self k. h x)" for ks
      by (induction ks) simp_all
    ultimately show ?thesis by (simp add: subtree_kids [OF s, of i] add.commute)
  next
    case False
    have "unat (w i) < 2 ^ 64" using unsigned_less [of "w i"] by simp
    then show ?thesis using leaf [OF 1(2) False] leaf_kids [OF s 1(2) False] by (simp add: subtree_kids [OF s, of i])
  qed
qed

end
