(* ===== verification/Graph_Queries.thy ===== *)
theory Graph_Queries
  imports Totals Protobuf
begin

text \<open>
  The queries of \<open>DirectoryGraph\<close> (\<^verbatim>\<open>crates/pigtree-engine/src/graph.rs\<close>). A query that could
  panic (an index or a slice out of bounds) or loop has \<open>None\<close> as its result there.
\<close>

section \<open>Entries\<close>

record graph_entry =
  e_id :: u32
  e_parent_id :: u32
  e_name :: string
  e_kind :: entry_kind
  e_logical_size :: "u64 option"
  e_allocated_size :: "u64 option"
  e_allocated_size_known :: bool
  e_referenced_allocated_bytes :: u64
  e_unique_allocated_bytes :: u64
  e_known_subtotal_allocated_bytes :: u64
  e_object_id :: "object_identity option"
  e_observed_alias_count :: u32
  e_total_link_count :: "u32 value_knowledge"
  e_external_reference_status :: external_reference_status
  e_file_attributes :: u32
  e_reparse_tag :: u32
  e_creation_time_utc_ms :: u64
  e_last_write_time_utc_ms :: u64
  e_last_access_time_utc_ms :: u64
  e_children :: "u32 list"

datatype graph_query_error = ParentNotFound u32 | QueryParentNotDirectory u32

text \<open>\<open>&v[start..start + count]\<close>.\<close>

definition slice_at :: "'a list \<Rightarrow> nat \<Rightarrow> nat \<Rightarrow> 'a list option" where
  "slice_at xs start n = (if start + n \<le> length xs then Some (take n (drop start xs)) else None)"

definition children_of :: "directory_graph \<Rightarrow> compact_entry \<Rightarrow> u32 list option" where
  "children_of g compact =
     (if c_child_count compact = 0 then Some []
      else slice_at (dg_all_children g) (unat (c_child_start compact)) (unat (c_child_count compact)))"

definition project_graph_entry :: "directory_graph \<Rightarrow> compact_entry \<Rightarrow> graph_entry option" where
  "project_graph_entry g compact = do {
     children \<leftarrow> children_of g compact;
     (object_id, observed_alias_count, total_link_count, external_reference_status) \<leftarrow>
       (if c_object_index compact \<noteq> NO_OBJECT
        then do {
          obj \<leftarrow> get_at (dg_objects g) (unat (c_object_index compact));
          Some (o_identity obj, o_observed_alias_count obj, o_total_link_count obj, o_external_reference_status obj)
        }
        else Some (case c_kind compact of
            Directory \<Rightarrow> (None, 1, NotApplicable, StatusNotApplicable)
          | Special \<Rightarrow> (None, 1, NotApplicable, StatusNotApplicable)
          | File \<Rightarrow> (None, 1, NotObserved, derive NotObserved 1)));
     Some \<lparr>e_id = c_id compact, e_parent_id = c_parent_id compact, e_name = c_name compact, e_kind = c_kind compact,
           e_logical_size = c_logical_size compact, e_allocated_size = c_allocated_size compact,
           e_allocated_size_known = c_allocated_size_known compact,
           e_referenced_allocated_bytes = c_referenced_allocated_bytes compact,
           e_unique_allocated_bytes = c_unique_allocated_bytes compact,
           e_known_subtotal_allocated_bytes = c_known_subtotal_allocated_bytes compact,
           e_object_id = object_id, e_observed_alias_count = observed_alias_count,
           e_total_link_count = total_link_count, e_external_reference_status = external_reference_status,
           e_file_attributes = c_file_attributes compact, e_reparse_tag = c_reparse_tag compact,
           e_creation_time_utc_ms = c_creation_time_utc_ms compact,
           e_last_write_time_utc_ms = c_last_write_time_utc_ms compact,
           e_last_access_time_utc_ms = c_last_access_time_utc_ms compact, e_children = children\<rparr>
   }"

definition graph_entry_of :: "directory_graph \<Rightarrow> u32 \<Rightarrow> graph_entry option option" where
  "graph_entry_of g eid = (case storage_get (dg_storage g) eid of
     None \<Rightarrow> Some None
   | Some compact \<Rightarrow> map_option Some (project_graph_entry g compact))"

definition try_root :: "directory_graph \<Rightarrow> graph_entry option option" where
  "try_root g = graph_entry_of g (dg_root_id g)"

definition streams_for_entry :: "directory_graph \<Rightarrow> u32 \<Rightarrow> stream_breakdown list" where
  "streams_for_entry g entry_id = (case storage_get (dg_storage g) entry_id of
     Some compact \<Rightarrow>
       if c_object_index compact \<noteq> NO_OBJECT
       then (case dg_object_streams g (c_object_index compact) of None \<Rightarrow> [] | Some v \<Rightarrow> v)
       else []
   | None \<Rightarrow> [])"

section \<open>Totals of the root\<close>

definition graph_referenced_bytes :: "directory_graph \<Rightarrow> u64" where
  "graph_referenced_bytes g = (case storage_get (dg_storage g) (dg_root_id g) of
     Some r \<Rightarrow> c_referenced_allocated_bytes r | None \<Rightarrow> 0)"

definition graph_unique_bytes :: "directory_graph \<Rightarrow> u64" where
  "graph_unique_bytes g = (case storage_get (dg_storage g) (dg_root_id g) of
     Some r \<Rightarrow> c_unique_allocated_bytes r | None \<Rightarrow> 0)"

definition graph_known_subtotal_bytes :: "directory_graph \<Rightarrow> u64" where
  "graph_known_subtotal_bytes g = (case storage_get (dg_storage g) (dg_root_id g) of
     Some r \<Rightarrow> c_known_subtotal_allocated_bytes r | None \<Rightarrow> 0)"

definition graph_logical_bytes :: "directory_graph \<Rightarrow> u64" where
  "graph_logical_bytes g = (case Option.bind (storage_get (dg_storage g) (dg_root_id g)) c_logical_size of
     Some l \<Rightarrow> l | None \<Rightarrow> 0)"

section \<open>Display paths\<close>

text \<open>The names from an entry to the root, \<open>Some None\<close> if a parent cannot be resolved.\<close>

partial_function (option) names_to_root :: "directory_graph \<Rightarrow> compact_entry \<Rightarrow> string list \<Rightarrow> string list option option" where
  "names_to_root g current names =
     (if c_parent_id current = 0 then Some (Some (names @ [c_name current]))
      else (case storage_get (dg_storage g) (c_parent_id current) of
          None \<Rightarrow> Some None
        | Some parent \<Rightarrow> names_to_root g parent (names @ [c_name current])))"

definition join_names :: "string list \<Rightarrow> string option" where
  "join_names names =
     (if names = [] then None
      else let root = last names;
               path = (if ends_with root backslash then root else root @ [backslash]);
               path = foldl (\<lambda>path name. path @ name @ [backslash]) path (tl (rev names))
           in Some (butlast path))"

definition display_path :: "directory_graph \<Rightarrow> u32 \<Rightarrow> string option option" where
  "display_path g eid = (case storage_get (dg_storage g) eid of
     None \<Rightarrow> Some None
   | Some current \<Rightarrow> do {
       names \<leftarrow> names_to_root g current [];
       Some (Option.bind names join_names)
     })"

section \<open>Hard links\<close>

definition relevant_object :: "object_record \<Rightarrow> bool" where
  "relevant_object obj \<longleftrightarrow> o_observed_alias_count obj \<ge> 2
     \<or> o_external_reference_status obj = ConfirmedExternal \<or> o_external_reference_status obj = InconsistentEvidence"

definition relevant_objects :: "directory_graph \<Rightarrow> u32 list" where
  "relevant_objects g =
     map word_of_nat (filter (\<lambda>idx. relevant_object (dg_objects g ! idx)) [0..<length (dg_objects g)])"

definition collect_alias :: "directory_graph \<Rightarrow> u32 list \<Rightarrow> (u32 \<Rightarrow> string list option) \<times> u32 list \<Rightarrow> nat
    \<Rightarrow> ((u32 \<Rightarrow> string list option) \<times> u32 list) option" where
  "collect_alias g relevant acc idx =
     (let (by_object, ordered) = acc
      in case storage_get_by_index (dg_storage g) idx of
          None \<Rightarrow> Some acc
        | Some compact \<Rightarrow>
            if c_object_index compact \<in> set relevant
            then do {
              path \<leftarrow> display_path g (c_id compact);
              Some (case path of
                  None \<Rightarrow> acc
                | Some path \<Rightarrow>
                    let ordered = (if by_object (c_object_index compact) = None
                          then ordered @ [c_object_index compact] else ordered);
                        paths = (case by_object (c_object_index compact) of None \<Rightarrow> [] | Some ps \<Rightarrow> ps)
                    in (by_object(c_object_index compact \<mapsto> paths @ [path]), ordered))
            }
            else Some acc)"

definition hard_link_summary_of :: "directory_graph \<Rightarrow> (u32 \<Rightarrow> string list option) \<Rightarrow> u32 \<Rightarrow> hard_link_summary option option" where
  "hard_link_summary_of g by_object obj_idx = do {
     obj \<leftarrow> get_at (dg_objects g) (unat obj_idx);
     Some (case o_identity obj of
         None \<Rightarrow> None
       | Some identity \<Rightarrow> Some
           \<lparr>hl_identity = identity, hl_observed_alias_count = o_observed_alias_count obj,
            hl_total_link_count = o_total_link_count obj,
            hl_external_reference_status = o_external_reference_status obj,
            hl_entry_paths = (case by_object obj_idx of None \<Rightarrow> [] | Some ps \<Rightarrow> ps)\<rparr>)
   }"

definition hard_link_objects :: "directory_graph \<Rightarrow> hard_link_summary list option" where
  "hard_link_objects g =
     (let relevant = relevant_objects g
      in if relevant = [] then Some []
         else do {
           (by_object, ordered) \<leftarrow> fold_opt (collect_alias g relevant) (Map.empty, []) [0..<storage_len (dg_storage g)];
           fold_opt (\<lambda>out obj_idx. map_option (\<lambda>s. case s of None \<Rightarrow> out | Some s \<Rightarrow> out @ [s])
               (hard_link_summary_of g by_object obj_idx)) [] ordered
         })"

section \<open>Pages of children\<close>

definition node_streams :: "directory_graph \<Rightarrow> compact_entry \<Rightarrow> content_stream_proto list" where
  "node_streams g compact =
     (if c_object_index compact \<noteq> NO_OBJECT
      then (case dg_object_streams g (c_object_index compact) of
          None \<Rightarrow> []
        | Some streams \<Rightarrow> map (\<lambda>s. \<lparr>sp_name = sb_name s, sp_logical_bytes = sb_logical_bytes s,
            sp_allocated_bytes = (case sb_allocated_bytes s of None \<Rightarrow> 0 | Some a \<Rightarrow> a),
            sp_allocated_size_known = (sb_allocated_bytes s \<noteq> None)\<rparr>) streams)
      else [])"

definition entry_node :: "directory_graph \<Rightarrow> compact_entry \<Rightarrow> directory_entry_node option" where
  "entry_node g compact = do {
     (observed_alias_count, total_link_count, external_status) \<leftarrow>
       (if c_object_index compact \<noteq> NO_OBJECT
        then do {
          obj \<leftarrow> get_at (dg_objects g) (unat (c_object_index compact));
          Some (o_observed_alias_count obj, link_count_proto_from (o_total_link_count obj),
                external_status_i32 (external_status_from (o_external_reference_status obj)))
        }
        else Some (case c_kind compact of
            Directory \<Rightarrow> (1, link_count_proto_from NotApplicable, external_status_i32 (external_status_from StatusNotApplicable))
          | Special \<Rightarrow> (1, link_count_proto_from NotApplicable, external_status_i32 (external_status_from StatusNotApplicable))
          | File \<Rightarrow> (1, link_count_proto_from NotObserved, external_status_i32 (external_status_from Indeterminate))));
     Some \<lparr>n_id = c_id compact, n_parent_id = c_parent_id compact, n_name = c_name compact,
           n_entry_kind = (case c_kind compact of Directory \<Rightarrow> 1 | File \<Rightarrow> 2 | Special \<Rightarrow> 3),
           n_logical_bytes = (case c_logical_size compact of None \<Rightarrow> 0 | Some l \<Rightarrow> l),
           n_referenced_allocated_bytes = c_referenced_allocated_bytes compact,
           n_allocated_size_known = c_allocated_size_known compact,
           n_child_count = c_child_count compact, n_has_children = (c_child_count compact > 0),
           n_unique_allocated_bytes = c_unique_allocated_bytes compact,
           n_observed_alias_count = observed_alias_count, n_total_link_count = Some total_link_count,
           n_external_reference_status = external_status,
           n_known_subtotal_allocated_bytes = c_known_subtotal_allocated_bytes compact,
           n_content_streams = node_streams g compact\<rparr>
   }"

text \<open>\<open>filter_map\<close> over the identifiers of a page.\<close>

definition push_node :: "directory_graph \<Rightarrow> directory_entry_node list \<Rightarrow> u32 \<Rightarrow> directory_entry_node list option" where
  "push_node g page eid = (case storage_get (dg_storage g) eid of
     None \<Rightarrow> Some page
   | Some compact \<Rightarrow> map_option (\<lambda>n. page @ [n]) (entry_node g compact))"

definition child_list :: "directory_graph \<Rightarrow> u32 \<Rightarrow> (graph_query_error + u32 list) option" where
  "child_list g parent_id =
     (if parent_id = 0
      then Some (Inr (if dg_root_id g \<noteq> 0 \<and> storage_get (dg_storage g) (dg_root_id g) \<noteq> None
                      then [dg_root_id g] else []))
      else (case storage_get (dg_storage g) parent_id of
          None \<Rightarrow> Some (Inl (ParentNotFound parent_id))
        | Some parent \<Rightarrow>
            if c_kind parent \<noteq> Directory then Some (Inl (QueryParentNotDirectory parent_id))
            else map_option Inr (slice_at (dg_all_children g) (unat (c_child_start parent)) (unat (c_child_count parent)))))"

text \<open>
  \<open>offset + limit\<close> is computed in \<open>usize\<close>: where it does not fit, the code panics in the
  addition, or, with wrapping arithmetic, in the slice that would end before it starts.
\<close>

definition get_children_page :: "directory_graph \<Rightarrow> u32 \<Rightarrow> nat \<Rightarrow> nat
    \<Rightarrow> (graph_query_error + nat \<times> directory_entry_node list) option" where
  "get_children_page g parent_id offset limit = do {
     ids \<leftarrow> child_list g parent_id;
     (case ids of
        Inl e \<Rightarrow> Some (Inl e)
      | Inr listed \<Rightarrow>
          let total_children = length listed
          in if offset \<ge> total_children then Some (Inr (total_children, []))
             else if offset + limit \<ge> 2 ^ 64 then None
             else do {
               let end_pos = min (offset + limit) total_children;
               page \<leftarrow> fold_opt (push_node g) [] (take (end_pos - offset) (drop offset listed));
               Some (Inr (total_children, page))
             })
   }"

end
