(* ===== verification/Graph_Build.thy ===== *)
theory Graph_Build
  imports Graph_Queries Builder_Spec
begin

text \<open>
  From the observation stream to the finished graph: the reading loop with its progress
  reports (\<open>build_from_reader_with_progress\<close>), and what the finished graph holds.
\<close>

section \<open>The reading loop\<close>

text \<open>
  The clock is a parameter: \<open>now k\<close> is the time in milliseconds and \<open>stamp k\<close> its text when the
  \<open>k\<close>-th record has been ingested. Progress reports are listed in the order of the callbacks.
\<close>

record build_state =
  bs_builder :: graph_builder
  bs_seq :: u64
  bs_last_emit :: nat
  bs_is_first :: bool
  bs_records :: nat
  bs_emitted :: "scan_progress list"

definition progress_report :: "string \<Rightarrow> string \<Rightarrow> u64 \<Rightarrow> graph_builder \<Rightarrow> scan_progress" where
  "progress_report operation_id timestamp seq builder =
     \<lparr>p_operation_id = operation_id, p_sequence_number = seq, p_timestamp_iso = timestamp,
      p_observed_directories = b_dir_count builder, p_observed_files = b_file_count builder,
      p_observed_logical_bytes = b_logical_bytes builder,
      p_observed_referenced_allocated_bytes = b_allocated_bytes builder,
      p_coverage_gaps = word_of_nat (length (b_gaps builder)), p_current_phase = ''traversing'',
      p_current_directory = current_directory_path builder\<rparr>"

definition is_gap_record :: "observation_record \<Rightarrow> bool" where
  "is_gap_record rec = (case rec of Obs_CoverageGap _ \<Rightarrow> True | _ \<Rightarrow> False)"

definition emit_progress :: "bool \<Rightarrow> string \<Rightarrow> (nat \<Rightarrow> nat) \<Rightarrow> (nat \<Rightarrow> string) \<Rightarrow> bool \<Rightarrow> build_state \<Rightarrow> build_state" where
  "emit_progress has_callback operation_id now stamp is_gap st =
     (if has_callback \<and> (bs_is_first st \<or> is_gap \<or> now (bs_records st) - bs_last_emit st \<ge> 50)
      then st\<lparr>bs_seq := bs_seq st + 1,
              bs_emitted := bs_emitted st @
                [progress_report operation_id (stamp (bs_records st)) (bs_seq st + 1) (bs_builder st)],
              bs_last_emit := now (bs_records st), bs_is_first := False\<rparr>
      else st)"

partial_function (option) build_loop :: "bool \<Rightarrow> string \<Rightarrow> (nat \<Rightarrow> nat) \<Rightarrow> (nat \<Rightarrow> string) \<Rightarrow> observation_reader
    \<Rightarrow> build_state \<Rightarrow> ((graph_build_error + unit) \<times> build_state) option" where
  "build_loop has_callback operation_id now stamp rd st =
     (case read_record rd of
        Inl e \<Rightarrow> Some (Inl (Decode e), st)
      | Inr (rec_opt, rd) \<Rightarrow>
          (case rec_opt of
             None \<Rightarrow> Some (Inr (), st)
           | Some rec \<Rightarrow>
               (case ingest_record rec (bs_builder st) of
                  (err, builder) \<Rightarrow>
                    (case err of
                       Some e \<Rightarrow> Some (Inl e, st\<lparr>bs_builder := builder\<rparr>)
                     | None \<Rightarrow> build_loop has_callback operation_id now stamp rd
                         (emit_progress has_callback operation_id now stamp (is_gap_record rec)
                            (st\<lparr>bs_builder := builder, bs_records := bs_records st + 1\<rparr>))))))"

definition build_init :: "string \<Rightarrow> nat \<Rightarrow> build_state" where
  "build_init target start = \<lparr>bs_builder = builder_new target, bs_seq = 0, bs_last_emit = start,
     bs_is_first = True, bs_records = 0, bs_emitted = []\<rparr>"

definition build_from_reader_with_progress :: "((object_identity \<times> u32 list) list \<Rightarrow> (object_identity \<times> u32 list) list)
    \<Rightarrow> ((u32 \<times> object_identity) list \<Rightarrow> (u32 \<times> object_identity) list) \<Rightarrow> (string \<Rightarrow> string)
    \<Rightarrow> bool \<Rightarrow> string \<Rightarrow> (nat \<Rightarrow> nat) \<Rightarrow> (nat \<Rightarrow> string) \<Rightarrow> nat \<Rightarrow> observation_reader
    \<Rightarrow> ((graph_build_error + directory_graph) \<times> scan_progress list) option" where
  "build_from_reader_with_progress files_order dirs_order to_lowercase has_callback operation_id now stamp start rd = do {
     (result, st) \<leftarrow> build_loop has_callback operation_id now stamp rd (build_init (or_target_path rd) start);
     (case result of
        Inl e \<Rightarrow> Some (Inl e, bs_emitted st)
      | Inr _ \<Rightarrow> map_option (\<lambda>r. (r, bs_emitted st)) (finish files_order dirs_order to_lowercase (bs_builder st)))
   }"

definition build_from_reader :: "((object_identity \<times> u32 list) list \<Rightarrow> (object_identity \<times> u32 list) list)
    \<Rightarrow> ((u32 \<times> object_identity) list \<Rightarrow> (u32 \<times> object_identity) list) \<Rightarrow> (string \<Rightarrow> string)
    \<Rightarrow> observation_reader \<Rightarrow> (graph_build_error + directory_graph) option" where
  "build_from_reader files_order dirs_order to_lowercase rd =
     map_option fst (build_from_reader_with_progress files_order dirs_order to_lowercase False [] (\<lambda>_. 0) (\<lambda>_. []) 0 rd)"

section \<open>The loop over a written stream\<close>

lemma emit_builder [simp]: "bs_builder (emit_progress cb oid now stamp gap st) = bs_builder st"
  "bs_records (emit_progress cb oid now stamp gap st) = bs_records st"
  by (simp_all add: emit_progress_def)

fun run_records :: "bool \<Rightarrow> string \<Rightarrow> (nat \<Rightarrow> nat) \<Rightarrow> (nat \<Rightarrow> string) \<Rightarrow> observation_record list \<Rightarrow> build_state \<Rightarrow> build_state" where
  "run_records cb oid now stamp [] st = st"
| "run_records cb oid now stamp (rec # recs) st =
     (case ingest_record rec (bs_builder st) of
        (Some e, builder) \<Rightarrow> st\<lparr>bs_builder := builder\<rparr>
      | (None, builder) \<Rightarrow> run_records cb oid now stamp recs (emit_progress cb oid now stamp (is_gap_record rec)
          (st\<lparr>bs_builder := builder, bs_records := bs_records st + 1\<rparr>)))"

lemma run_records_builder: "bs_builder (run_records cb oid now stamp recs st) = snd (ingest_all recs (bs_builder st))"
  by (induction recs arbitrary: st) (auto split: prod.split option.split)

lemma read_end: "read_record (rd\<lparr>or_reader := of_bytes []\<rparr>) = Inr (None, rd\<lparr>or_reader := of_bytes []\<rparr>)"
  by (simp add: read_record_def read_byte_def of_bytes_def)

lemma build_loop_stream:
  assumes "\<forall>x \<in> set recs. wf_record x" and "or_stream_version rd = WORKER_STREAM_VERSION_V2"
  shows "build_loop cb oid now stamp (rd\<lparr>or_reader := of_bytes (concat (map (\<lambda>x. snd (write_record x [])) recs))\<rparr>) st
    = Some ((case fst (ingest_all recs (bs_builder st)) of None \<Rightarrow> Inr () | Some e \<Rightarrow> Inl e), run_records cb oid now stamp recs st)"
  using assms(1)
proof (induction recs arbitrary: st)
  case Nil
  then show ?case by (subst build_loop.simps) (simp add: read_end)
next
  case (Cons x recs)
  have "read_record (rd\<lparr>or_reader := of_bytes (snd (write_record x []) @ concat (map (\<lambda>x. snd (write_record x [])) recs))\<rparr>)
      = Inr (Some x, rd\<lparr>or_reader := of_bytes (concat (map (\<lambda>x. snd (write_record x [])) recs))\<rparr>)"
    using read_written_record [where x = x and self = rd and r = "of_bytes []"] Cons.prems assms(2) by (simp add: of_bytes_def)
  then show ?case using Cons
    by (subst build_loop.simps) (auto split: prod.split option.split)
qed

section \<open>What the aggregation leaves alone\<close>

text \<open>What the stream says of an entry and no phase of the aggregation changes, and the gaps.\<close>

type_synonym entry_facts_view = "u32 \<times> u32 \<times> string \<times> entry_kind \<times> u32 \<times> u32 \<times> u64 \<times> u64 \<times> u64"

definition entry_view :: "compact_entry \<Rightarrow> entry_facts_view" where
  "entry_view e = (c_id e, c_parent_id e, c_name e, c_kind e, c_file_attributes e, c_reparse_tag e,
     c_creation_time_utc_ms e, c_last_write_time_utc_ms e, c_last_access_time_utc_ms e)"

definition observed_part :: "graph_builder \<Rightarrow> entry_facts_view list \<times> coverage_gap_observation list" where
  "observed_part self = (map entry_view (b_entries self), b_gaps self)"

lemma fold_opt_keeps:
  assumes "fold_opt f s xs = Some s'" and "\<And>s x s'. f s x = Some s' \<Longrightarrow> P s' = P s"
  shows "P s' = P s"
  using assms(1) by (induction xs arbitrary: s) (auto simp: bind_eq_Some_conv dest: assms(2))

lemma update_view:
  "get_at (b_entries self) i = Some e \<Longrightarrow> entry_view e' = entry_view e \<Longrightarrow>
    observed_part (self\<lparr>b_entries := (b_entries self)[i := e']\<rparr>) = observed_part self"
  by (auto simp: observed_part_def get_at_def map_update split: if_splits) (metis length_map list_update_id nth_map)

lemma update_entry_keeps:
  assumes "update_entry f self eid = Some self'" and "\<And>e. entry_view (f e) = entry_view e"
  shows "observed_part self' = observed_part self"
  using assms by (auto simp: update_entry_def bind_eq_Some_conv intro: update_view)

lemma normalize_keeps:
  "normalize_object ag obj = Some ag' \<Longrightarrow> observed_part (ag_self ag') = observed_part (ag_self ag)"
  "normalize_directory ag dir = Some ag' \<Longrightarrow> observed_part (ag_self ag') = observed_part (ag_self ag)"
  "normalize_identityless ag i = Some ag' \<Longrightarrow> observed_part (ag_self ag') = observed_part (ag_self ag)"
proof -
  have up: "fold_opt (update_entry f) self eids = Some self' \<Longrightarrow> (\<And>e. entry_view (f e) = entry_view e) \<Longrightarrow>
      observed_part self' = observed_part self" for f eids self self'
    by (erule fold_opt_keeps) (rule update_entry_keeps)
  have known: "observed_part (self\<lparr>b_allocated_bytes_known := b\<rparr>) = observed_part self" for self b
    by (simp add: observed_part_def)
  show "normalize_object ag obj = Some ag' \<Longrightarrow> observed_part (ag_self ag') = observed_part (ag_self ag)"
    by (auto simp: normalize_object_def Let_def bind_eq_Some_conv case_prod_unfold entry_view_def known
        dest!: up split: if_splits)
  show "normalize_directory ag dir = Some ag' \<Longrightarrow> observed_part (ag_self ag') = observed_part (ag_self ag)"
    by (auto simp: normalize_directory_def Let_def bind_eq_Some_conv case_prod_unfold entry_view_def
        dest!: update_entry_keeps)
  show "normalize_identityless ag i = Some ag' \<Longrightarrow> observed_part (ag_self ag') = observed_part (ag_self ag)"
    by (auto simp: normalize_identityless_def Let_def bind_eq_Some_conv entry_view_def split: if_splits intro!: update_view)
qed

lemma resolve_keeps:
  assumes "resolve_objects fo dr self = Some ag"
  shows "observed_part (ag_self ag) = observed_part self"
proof -
  have start: "observed_part (self\<lparr>b_file_object_map := a, b_dir_object_ids := b, b_pending_streams := c\<rparr>) = observed_part self" for a b c
    by (simp add: observed_part_def)
  have streams: "fold_opt attribute_stream s xs = Some s' \<Longrightarrow> observed_part s' = observed_part s" for s xs s'
    by (erule fold_opt_keeps) (auto simp: attribute_stream_def Let_def bind_eq_Some_conv observed_part_def split: if_splits)
  have folds: "fold_opt normalize_object ag xs = Some ag' \<Longrightarrow> observed_part (ag_self ag') = observed_part (ag_self ag)"
    "fold_opt normalize_directory ag ys = Some ag' \<Longrightarrow> observed_part (ag_self ag') = observed_part (ag_self ag)"
    "fold_opt normalize_identityless ag zs = Some ag' \<Longrightarrow> observed_part (ag_self ag') = observed_part (ag_self ag)" for ag xs ys zs ag'
    by (erule fold_opt_keeps [where P = "\<lambda>ag. observed_part (ag_self ag)"], erule normalize_keeps)+
  show ?thesis using assms
    by (auto simp: resolve_objects_def Let_def bind_eq_Some_conv start dest!: streams folds)
qed

lemma compute_aggregates_keeps:
  assumes "compute_aggregates fo dr lower self = Some (final, objects, children, w)"
  shows "observed_part final = observed_part self"
proof -
  have leaf: "fold_opt (set_leaf_unique objects) s xs = Some s' \<Longrightarrow> observed_part s' = observed_part s" for objects s xs s'
    by (erule fold_opt_keeps)
      (auto simp: set_leaf_unique_def bind_eq_Some_conv Let_def entry_view_def split: if_splits intro!: update_view)
  have dir: "fold_opt (aggregate_directory delta) s xs = Some s' \<Longrightarrow> observed_part s' = observed_part s" for delta s xs s'
    by (erule fold_opt_keeps)
      (auto simp: aggregate_directory_def bind_eq_Some_conv Let_def entry_view_def split: if_splits intro!: update_view)
  have place: "fold_opt (place_children lower) p xs = Some p' \<Longrightarrow> observed_part (fst p') = observed_part (fst p)" for p xs p'
    by (erule fold_opt_keeps [where P = "\<lambda>p. observed_part (fst p)"])
      (auto simp: place_children_def bind_eq_Some_conv entry_view_def case_prod_unfold split: if_splits intro!: update_view)
  show ?thesis using assms
    by (auto simp: compute_aggregates_def Let_def bind_eq_Some_conv split: if_splits
        dest!: resolve_keeps leaf dir place)
qed

section \<open>The finished graph\<close>

definition graph_of :: "(string \<Rightarrow> string) \<Rightarrow> graph_builder \<Rightarrow> graph_builder \<Rightarrow> directory_graph \<Rightarrow> bool" where
  "graph_of f self final g \<longleftrightarrow> same_shape self final \<and> sums_ok self final
     \<and> children_ok f final (dg_all_children g) \<and> objects_of self final (dg_objects g)
     \<and> (\<forall>i < builder_len self. unat (c_unique_allocated_bytes (b_entries final ! i)) = observed_unique self (subtree self i))
     \<and> dg_root_id g = 1 \<and> Some (dg_terminal g) = b_terminal self
     \<and> dg_storage g = (if b_is_dense final then Dense (b_entries final) else Sparse (b_entries final) (b_id_to_idx final))
     \<and> (map entry_view (storage_entries (dg_storage g)), dg_gaps g) = observed_part self"

lemma graph_ofD:
  assumes "graph_of f self final g"
  shows "same_shape self final" and "sums_ok self final" and "children_ok f final (dg_all_children g)"
    and "objects_of self final (dg_objects g)" and "dg_root_id g = 1"
    and "\<And>i. i < builder_len self \<Longrightarrow> unat (c_unique_allocated_bytes (b_entries final ! i)) = observed_unique self (subtree self i)"
  using assms by (simp_all add: graph_of_def)

lemma graph_storage:
  assumes g: "graph_of f self final g" and s: "shape self"
  shows "storage_ok (dg_storage g)" and "storage_entries (dg_storage g) = b_entries final"
proof -
  have "ids_ok final" using ids_ok_same [OF graph_ofD(1) [OF g]] s by (simp add: shape_def)
  then show "storage_ok (dg_storage g)" using g by (simp add: graph_of_def storage_ok_def ids_ok_def)
  show "storage_entries (dg_storage g) = b_entries final" using g by (simp add: graph_of_def)
qed

lemma graph_get:
  assumes g: "graph_of f self final g" and s: "shape self" and "eid \<noteq> 0"
  shows "storage_get (dg_storage g) eid = Some e \<longleftrightarrow> (\<exists>i < builder_len self. c_id (b_entries self ! i) = eid \<and> e = b_entries final ! i)"
proof -
  note st = graph_storage [OF g s] and ss = graph_ofD(1) [OF g]
  have "storage_idx (dg_storage g) eid = Some i \<longleftrightarrow> i < builder_len self \<and> c_id (b_entries self ! i) = eid" for i
    using store.lookup_iff [OF st(1) assms(3), of i] st(2) same_shapeD(1,3) [OF ss] by (auto simp: entry_ids_def)
  then show ?thesis unfolding storage_get_eq [OF st(1)] st(2) by auto
qed

lemma graph_get_at:
  assumes g: "graph_of f self final g" and s: "shape self" and i: "i < builder_len self" and "c_id (b_entries self ! i) \<noteq> 0"
  shows "storage_get (dg_storage g) (c_id (b_entries self ! i)) = Some (b_entries final ! i)"
  using graph_get [OF g s assms(4), of "b_entries final ! i"] i by blast

lemma graph_get_final:
  assumes g: "graph_of f self final g" and s: "shape self" and "storage_get (dg_storage g) eid = Some e"
  obtains i where "i < builder_len self" "c_id (b_entries self ! i) = eid" "e = b_entries final ! i" "eid \<noteq> 0"
proof -
  have "eid \<noteq> 0" using assms(3) by (auto simp: storage_get_def)
  then show ?thesis using that graph_get [OF g s, of eid e] assms(3) by blast
qed

text \<open>The weights of all identities together are at most the sum of all allocations.\<close>

lemma sum_list_member: "x \<in> set xs \<Longrightarrow> h x \<le> (\<Sum>x \<leftarrow> xs. (h x :: nat))"
  by (induction xs) auto

lemma bucket_weight_le:
  "unat (bucket_weight self eids) \<le> (\<Sum>eid \<leftarrow> eids. unat (opt_bytes (c_allocated_size (b_entries self ! entry_pos self eid))))"
proof (cases "known_allocs self eids = []")
  case True
  then show ?thesis by (simp add: bucket_weight_def least_alloc_def opt_bytes_def)
next
  case False
  then have "Min (set (known_allocs self eids)) \<in> set (known_allocs self eids)" by simp
  then obtain eid where "eid \<in> set eids"
    and a: "c_allocated_size (b_entries self ! entry_pos self eid) = Some (Min (set (known_allocs self eids)))"
    unfolding known_allocs_def by (auto split: option.splits)
  then have "unat (opt_bytes (c_allocated_size (b_entries self ! entry_pos self eid)))
      \<le> (\<Sum>eid \<leftarrow> eids. unat (opt_bytes (c_allocated_size (b_entries self ! entry_pos self eid))))"
    by (intro sum_list_member \<open>eid \<in> set eids\<close>)
  then show ?thesis using False a by (simp add: bucket_weight_def least_alloc_def opt_bytes_def)
qed

lemma sum_concat_map: "(\<Sum>x \<leftarrow> concat (map g xs). h x) = (\<Sum>y \<leftarrow> xs. \<Sum>x \<leftarrow> g y. (h x :: nat))"
  by (induction xs) simp_all

lemma observed_unique_le:
  assumes wf: "wf_builder self" and n: "b_entries self \<noteq> []"
  shows "observed_unique self (subtree self 0) \<le> (\<Sum>x \<leftarrow> alloc_sizes (b_entries self). unat x)"
proof -
  let ?n = "builder_len self" and ?m = "b_file_object_map self"
  let ?a = "\<lambda>x. unat (opt_bytes (c_allocated_size (b_entries self ! x)))"
  have s: "shape self" using wf by (simp add: wf_builder_def wf_tree_shape)
  have ids: "ids_ok self" using s by (simp add: shape_def)
  have im: "identity_maps self ?m (b_dir_object_ids self)" by (rule identity_maps_perm [OF wf]) simp_all
  have dist: "distinct (concat (map (file_owner self) ?m))"
    using observed_owners_distinct [OF ids im] by (simp add: observed_owners_def)
  have sub: "set (concat (map (file_owner self) ?m)) \<subseteq> {..< ?n}"
    using im kind_at_pos [OF ids, of File] by (fastforce simp: file_owner_def identity_maps_def)
  have "(\<Sum>obj \<leftarrow> filter (\<lambda>obj. set (file_owner self obj) \<inter> set (subtree self 0) \<noteq> {}) ?m. unat (bucket_weight self (snd obj)))
      \<le> (\<Sum>obj \<leftarrow> ?m. unat (bucket_weight self (snd obj)))"
    unfolding sum_list_filter_if by (rule sum_list_mono) simp
  also have "\<dots> \<le> (\<Sum>obj \<leftarrow> ?m. \<Sum>x \<leftarrow> file_owner self obj. ?a x)"
    using bucket_weight_le by (intro sum_list_mono) (simp add: file_owner_def comp_def)
  also have "\<dots> = (\<Sum>x \<in> set (concat (map (file_owner self) ?m)). ?a x)"
    using dist by (simp only: sum_concat_map [symmetric] sum_list_distinct_conv_sum_set)
  finally have w: "(\<Sum>obj \<leftarrow> filter (\<lambda>obj. set (file_owner self obj) \<inter> set (subtree self 0) \<noteq> {}) ?m. unat (bucket_weight self (snd obj)))
      \<le> (\<Sum>x \<in> set (concat (map (file_owner self) ?m)). ?a x)" .
  have "plain_bytes self x \<le> (if x \<in> set (concat (map (file_owner self) ?m)) then 0 else ?a x)" if "x < ?n" for x
  proof -
    have "bucketed self x \<longleftrightarrow> x \<in> set (concat (map (file_owner self) ?m))" by (auto simp: bucketed_def)
    moreover have "x \<in> set (concat (map (file_owner self) ?m)) \<Longrightarrow> c_kind (b_entries self ! x) = File"
      using im kind_at_pos [OF ids, of File] by (auto simp: file_owner_def identity_maps_def)
    moreover have "entry_ok (b_entries self ! x) (b_dir_self_alloc self ! x)"
      using wf that by (simp add: wf_builder_def wf_tree_def entries_ok_def)
    ultimately show ?thesis
      by (cases "c_kind (b_entries self ! x)") (auto simp: plain_bytes_def entry_ok_def)
  qed
  then have "(\<Sum>x \<in> {..< ?n}. plain_bytes self x) \<le> (\<Sum>x \<in> {..< ?n}. if x \<in> set (concat (map (file_owner self) ?m)) then 0 else ?a x)"
    by (intro sum_mono) simp
  moreover have "(\<Sum>x \<leftarrow> subtree self 0. plain_bytes self x) = (\<Sum>x \<in> {..< ?n}. plain_bytes self x)"
    using distinct_subtree [OF s, of 0] set_subtree_root [OF s] n by (simp add: sum_list_distinct_conv_sum_set)
  moreover have "(\<Sum>x \<in> {..< ?n}. ?a x) = (\<Sum>x \<in> set (concat (map (file_owner self) ?m)). ?a x)
      + (\<Sum>x \<in> {..< ?n}. if x \<in> set (concat (map (file_owner self) ?m)) then 0 else ?a x)"
  proof -
    have "(\<Sum>x \<in> set (concat (map (file_owner self) ?m)). ?a x) = (\<Sum>x \<in> {..< ?n}. if x \<in> set (concat (map (file_owner self) ?m)) then ?a x else 0)"
      using sub by (simp add: sum.If_cases Int_absorb1 del: set_concat)
    then show ?thesis by (simp add: sum.distrib [symmetric] del: set_concat) (intro sum.cong, simp_all)
  qed
  moreover have "(\<Sum>x \<leftarrow> alloc_sizes (b_entries self). unat x) = (\<Sum>x \<in> {..< ?n}. ?a x)"
    by (simp add: alloc_sizes_def sum_list_sum_nth atLeast0LessThan)
  ultimately show ?thesis using w by (simp add: observed_unique_def)
qed

lemma finish_graph:
  assumes wf: "wf_builder self" and t: "b_terminal self = Some t" and n: "b_entries self \<noteq> []"
    and fo: "mset (files_order (b_file_object_map self)) = mset (b_file_object_map self)"
    and do: "mset (dirs_order (b_dir_object_ids self)) = mset (b_dir_object_ids self)"
    and fits: "observed_unique self (subtree self 0) < 2 ^ 64"
  shows "\<exists>final g. finish files_order dirs_order f self = Some (Inr g) \<and> graph_of f self final g"
proof -
  obtain final objects children w where
    c: "compute_aggregates files_order dirs_order f self = Some (final, objects, children, w)"
    "same_shape self final" "sums_ok self final" "children_ok f final children" "objects_of self final objects"
    "\<forall>i < builder_len self. unat (c_unique_allocated_bytes (b_entries final ! i)) = observed_unique self (subtree self i)"
    using compute_aggregates_spec [of self files_order dirs_order f, OF wf n fo do] fits by blast
  then show ?thesis using t n compute_aggregates_keeps [OF c(1)]
    by (intro exI [of _ final]) (simp add: finish_def graph_of_def observed_part_def)
qed

end
