(* ===== verification/Graph_Properties.thy ===== *)
theory Graph_Properties
  imports Graph_Build
begin

text \<open>
  What a client can rely on when it queries a finished graph, stated for the builders that
  ingestion can produce.
\<close>

section \<open>Accepted streams\<close>

definition accepted :: "observation_record list \<Rightarrow> string \<Rightarrow> graph_builder \<Rightarrow> bool" where
  "accepted recs target self \<longleftrightarrow> length recs < 2 ^ 32 - 1 \<and> ingest_all recs (builder_new target) = (None, self)"

lemma accepted_refines: "accepted recs target self \<Longrightarrow> refines recs self"
  using ingest_all_refines [OF refines_new, of recs target] by (simp add: accepted_def)

lemma accepted_wf: "accepted recs target self \<Longrightarrow> wf_builder self"
  using accepted_refines by (auto simp: refines_def)

lemma wf_shape: "wf_builder self \<Longrightarrow> shape self"
  by (simp add: wf_builder_def wf_tree_shape)

text \<open>The bytes of all distinct objects together, each identity counted once.\<close>

definition object_bytes :: "graph_builder \<Rightarrow> nat" where
  "object_bytes self = observed_unique self (subtree self 0)"

lemma object_bytes_le:
  "wf_builder self \<Longrightarrow> b_entries self \<noteq> [] \<Longrightarrow> object_bytes self \<le> (\<Sum>x \<leftarrow> alloc_sizes (b_entries self). unat x)"
  unfolding object_bytes_def by (rule observed_unique_le)

definition any_order :: "('a list \<Rightarrow> 'a list) \<Rightarrow> bool" where
  "any_order order \<longleftrightarrow> (\<forall>xs. mset (order xs) = mset xs)"

lemma accepted_graph:
  assumes "accepted recs target self" and "b_terminal self \<noteq> None" and "b_entries self \<noteq> []"
    and "any_order fo" and "any_order dr" and "object_bytes self < 2 ^ 64"
  obtains final g where "finish fo dr f self = Some (Inr g)" "graph_of f self final g" "shape self"
proof -
  have wf: "wf_builder self" by (rule accepted_wf [OF assms(1)])
  obtain t where "b_terminal self = Some t" using assms(2) by auto
  then show ?thesis
    using finish_graph [OF wf _ assms(3), of t fo dr f] assms(4-6) that wf_shape [OF wf]
    by (auto simp: any_order_def object_bytes_def)
qed

section \<open>The entries of the graph\<close>

definition entry_sizes_at :: "directory_graph \<Rightarrow> u32 \<Rightarrow> (nat \<times> nat \<times> nat) option" where
  "entry_sizes_at g eid = map_option (\<lambda>e. (unat (c_unique_allocated_bytes e),
     unat (c_referenced_allocated_bytes e), unat (opt_bytes (c_logical_size e)))) (storage_get (dg_storage g) eid)"

definition logical_claim :: "graph_builder \<Rightarrow> nat \<Rightarrow> nat" where
  "logical_claim self x = (if c_kind (b_entries self ! x) = File then unat (opt_bytes (c_logical_size (b_entries self ! x))) else 0)"

definition alloc_claim :: "graph_builder \<Rightarrow> nat \<Rightarrow> nat" where
  "alloc_claim self x = unat (opt_bytes (c_allocated_size (b_entries self ! x)))"

lemma sums_at:
  assumes wf: "wf_builder self" and ss: "same_shape self final" and so: "sums_ok self final" and i: "i < builder_len self"
  shows "unat (c_referenced_allocated_bytes (b_entries final ! i)) = min (\<Sum>x \<leftarrow> subtree self i. alloc_claim self x) (2 ^ 64 - 1)"
    and "unat (opt_bytes (c_logical_size (b_entries final ! i))) = min (\<Sum>x \<leftarrow> subtree self i. logical_claim self x) (2 ^ 64 - 1)"
proof -
  have s: "shape self" by (rule wf_shape [OF wf])
  have ok: "entry_ok (b_entries self ! i) (b_dir_self_alloc self ! i)" if "i < builder_len self" for i
    using wf that by (simp add: wf_builder_def wf_tree_def entries_ok_def)
  have k: "kids final = kids self" by (rule kids_same [OF ss])
  have a: "b_dir_self_alloc final = b_dir_self_alloc self" by (rule same_shapeD(6) [OF ss])
  show "unat (c_referenced_allocated_bytes (b_entries final ! i)) = min (\<Sum>x \<leftarrow> subtree self i. alloc_claim self x) (2 ^ 64 - 1)"
  proof (rule saturated_subtree [OF s i])
    fix j assume j: "j < builder_len self"
    show "unat (c_referenced_allocated_bytes (b_entries final ! j))
        = min (alloc_claim self j + (\<Sum>k \<leftarrow> kids self j. unat (c_referenced_allocated_bytes (b_entries final ! k)))) (2 ^ 64 - 1)"
      if "c_kind (b_entries self ! j) = Directory"
      using so j that ok [OF j] unfolding sums_ok_def directory_sums_def total_sums_def k a
      by (simp add: unat_foldl_sat comp_def entry_ok_def alloc_claim_def)
    show "unat (c_referenced_allocated_bytes (b_entries final ! j)) = alloc_claim self j" if "c_kind (b_entries self ! j) \<noteq> Directory"
      using so j that ok [OF j] by (simp add: sums_ok_def entry_ok_def alloc_claim_def)
  qed
  show "unat (opt_bytes (c_logical_size (b_entries final ! i))) = min (\<Sum>x \<leftarrow> subtree self i. logical_claim self x) (2 ^ 64 - 1)"
  proof (rule saturated_subtree [OF s i])
    fix j assume j: "j < builder_len self"
    show "unat (opt_bytes (c_logical_size (b_entries final ! j)))
        = min (logical_claim self j + (\<Sum>k \<leftarrow> kids self j. unat (opt_bytes (c_logical_size (b_entries final ! k))))) (2 ^ 64 - 1)"
      if "c_kind (b_entries self ! j) = Directory"
    proof -
      have "c_logical_size (b_entries final ! j) = Some (foldl saturating_add 0 (map (\<lambda>k. opt_bytes (c_logical_size (b_entries final ! k))) (kids self j)))"
        using so j that unfolding sums_ok_def directory_sums_def total_sums_def k by simp
      then show ?thesis using that by (simp add: opt_bytes_def [of "Some _"] unat_foldl_sat comp_def logical_claim_def)
    qed
    show "unat (opt_bytes (c_logical_size (b_entries final ! j))) = logical_claim self j" if "c_kind (b_entries self ! j) \<noteq> Directory"
      using so j that ok [OF j] by (cases "c_kind (b_entries self ! j)") (simp_all add: sums_ok_def entry_ok_def logical_claim_def opt_bytes_def)
  qed
qed

lemma entry_sizes:
  assumes wf: "wf_builder self" and g: "graph_of f self final g" and i: "i < builder_len self" and "c_id (b_entries self ! i) \<noteq> 0"
  shows "entry_sizes_at g (c_id (b_entries self ! i)) = Some (observed_unique self (subtree self i),
    min (\<Sum>x \<leftarrow> subtree self i. alloc_claim self x) (2 ^ 64 - 1), min (\<Sum>x \<leftarrow> subtree self i. logical_claim self x) (2 ^ 64 - 1))"
  using graph_get_at [OF g wf_shape [OF wf] i assms(4)] graph_ofD(6) [OF g i] sums_at [OF wf graph_ofD(1,2) [OF g] i]
  by (simp add: entry_sizes_at_def)

lemma root_entry:
  assumes wf: "wf_builder self" and n: "b_entries self \<noteq> []"
  shows "c_id (b_entries self ! 0) = 1"
  using wf n by (simp add: wf_builder_def wf_tree_def root_ok_def)

lemma sum_root:
  assumes "shape self" and "b_entries self \<noteq> []"
  shows "(\<Sum>x \<leftarrow> subtree self 0. h x) = (\<Sum>x < builder_len self. (h x :: nat))"
  using distinct_subtree [OF assms(1), of 0] set_subtree_root [OF assms(1)] assms(2)
  by (simp add: sum_list_distinct_conv_sum_set)

lemma claims_sum:
  "(\<Sum>x < builder_len self. alloc_claim self x) = (\<Sum>x \<leftarrow> alloc_sizes (b_entries self). unat x)"
  "(\<Sum>x < builder_len self. logical_claim self x) = (\<Sum>x \<leftarrow> file_sizes (b_entries self). unat x)"
proof -
  show "(\<Sum>x < builder_len self. alloc_claim self x) = (\<Sum>x \<leftarrow> alloc_sizes (b_entries self). unat x)"
    by (simp add: alloc_sizes_def alloc_claim_def sum_list_sum_nth atLeast0LessThan)
  have "(\<Sum>x \<leftarrow> file_sizes es. unat x) = (\<Sum>e \<leftarrow> es. if c_kind e = File then unat (opt_bytes (c_logical_size e)) else 0)" for es
    by (induction es) (simp_all add: file_sizes_def)
  then have "(\<Sum>x \<leftarrow> file_sizes es. unat x) = (\<Sum>x < length es. if c_kind (es ! x) = File then unat (opt_bytes (c_logical_size (es ! x))) else 0)" for es
    by (simp add: sum_list_sum_nth atLeast0LessThan)
  then show "(\<Sum>x < builder_len self. logical_claim self x) = (\<Sum>x \<leftarrow> file_sizes (b_entries self). unat x)"
    by (simp add: logical_claim_def)
qed

section \<open>The children of an entry\<close>

definition entry_in :: "directory_graph \<Rightarrow> u32 \<Rightarrow> compact_entry" where
  "entry_in g eid = the (storage_get (dg_storage g) eid)"

lemma object_in_range:
  assumes g: "graph_of f self final g" and i: "i < builder_len self" and "c_object_index (b_entries final ! i) \<noteq> NO_OBJECT"
  shows "unat (c_object_index (b_entries final ! i)) < length (dg_objects g)"
  using graph_ofD(4) [OF g] i assms(3) by (auto simp: objects_of_def object_at_def)

lemma entry_node_ok:
  assumes g: "graph_of f self final g" and i: "i < builder_len self"
  shows "\<exists>node. entry_node g (b_entries final ! i) = Some node \<and> n_id node = c_id (b_entries self ! i)
    \<and> n_unique_allocated_bytes node = c_unique_allocated_bytes (b_entries final ! i)"
  using object_in_range [OF g i] same_shapeD(3) [OF graph_ofD(1) [OF g] i]
  by (cases "c_object_index (b_entries final ! i) = NO_OBJECT") (auto simp: entry_node_def split: entry_kind.split)

lemma push_nodes:
  assumes g: "graph_of f self final g" and s: "shape self" and z: "0 \<notin> set (entry_ids (b_entries self))"
    and "set eids \<subseteq> set (entry_ids (b_entries self))"
  shows "\<exists>page. fold_opt (push_node g) acc eids = Some (acc @ page) \<and> map n_id page = eids"
  using assms(4)
proof (induction eids arbitrary: acc)
  case (Cons eid eids)
  then obtain i where i: "i < builder_len self" "c_id (b_entries self ! i) = eid"
    by (auto simp: entry_ids_def in_set_conv_nth)
  then have "eid \<noteq> 0" using z by (auto simp: entry_ids_def)
  then have "storage_get (dg_storage g) eid = Some (b_entries final ! i)"
    using graph_get_at [OF g s i(1)] i(2) by simp
  moreover obtain node where node: "entry_node g (b_entries final ! i) = Some node" "n_id node = eid"
    using entry_node_ok [OF g i(1)] i(2) by auto
  ultimately have "push_node g acc eid = Some (acc @ [node])" by (simp add: push_node_def)
  moreover obtain page where "fold_opt (push_node g) (acc @ [node]) eids = Some ((acc @ [node]) @ page)" "map n_id page = eids"
    using Cons.IH [of "acc @ [node]"] Cons.prems by auto
  ultimately show ?case using node by (intro exI [of _ "node # page"]) simp
qed simp

lemma child_list_ok:
  assumes g: "graph_of f self final g" and s: "shape self" and i: "i < builder_len self"
    and "c_id (b_entries self ! i) \<noteq> 0" and d: "c_kind (b_entries self ! i) = Directory"
  shows "child_list g (c_id (b_entries self ! i)) = Some (Inr (sorted_children f final i))"
proof -
  have n: "i < builder_len final" and k: "c_kind (b_entries final ! i) = Directory"
    using i d same_shapeD(1,2) [OF graph_ofD(1) [OF g]] by simp_all
  then show ?thesis
    using graph_get_at [OF g s i assms(4)] graph_ofD(3) [OF g] assms(4)
    by (simp add: child_list_def slice_at_def children_ok_def)
qed

lemma sorted_children_ids:
  assumes g: "graph_of f self final g" and s: "shape self"
  shows "mset (sorted_children f final i) = mset (map (\<lambda>j. c_id (b_entries self ! j)) (kids self i))"
proof -
  have ss: "same_shape self final" by (rule graph_ofD(1) [OF g])
  have "map (\<lambda>j. c_id (b_entries final ! j)) (kids self i) = map (\<lambda>j. c_id (b_entries self ! j)) (kids self i)"
    using same_shapeD(3) [OF ss] kids_lt by (intro map_cong) auto
  then show ?thesis by (simp only: sorted_children_def child_ids_def kids_same [OF ss] mset_sort_by)
qed

lemma sorted_children_graph:
  assumes g: "graph_of f self final g" and s: "shape self" and z: "0 \<notin> set (entry_ids (b_entries self))"
  shows "sorted_wrt (\<lambda>a b. child_le f (entry_in g a) (entry_in g b)) (sorted_children f final i)"
proof -
  have ss: "same_shape self final" by (rule graph_ofD(1) [OF g])
  have sf: "shape final" by (rule shape_same [OF ss s])
  have e: "entry_in g a = the (entry_at final a)" if a: "a \<in> set (sorted_children f final i)" for a
  proof -
    have "a \<in> set (map (\<lambda>j. c_id (b_entries self ! j)) (kids self i))"
      using a mset_eq_setD [OF sorted_children_ids [OF g s]] by blast
    then obtain j where j: "j < builder_len self" "a = c_id (b_entries self ! j)" using kids_lt by auto
    then have "a \<noteq> 0" using z by (auto simp: entry_ids_def)
    then have "storage_get (dg_storage g) a = Some (b_entries final ! j)" using graph_get_at [OF g s j(1)] j(2) by simp
    moreover have "entry_at final (c_id (b_entries final ! j)) = Some (b_entries final ! j)"
      using entry_at_id [of final j] sf j(1) same_shapeD(1) [OF ss] by (simp add: shape_def)
    ultimately show ?thesis using same_shapeD(3) [OF ss j(1)] j(2) by (simp add: entry_in_def)
  qed
  then show ?thesis
    by (intro sorted_wrt_mono_rel [OF _ sorted_children_sorted [of f final i]]) (simp add: id_le_def)
qed

section \<open>Properties\<close>

text \<open>A small stream: a root directory with two aliases of one file.\<close>

definition sample_oid :: object_identity where
  "sample_oid = \<lparr>volume_guid = replicate 16 7, file_id = 42\<rparr>"

definition sample_file :: "u32 \<Rightarrow> string \<Rightarrow> observation_record" where
  "sample_file eid name = Obs_File \<lparr>f_entry_id = eid, f_parent_id = 1, f_name = name, f_logical_size = 100,
     f_allocated_size = Some 4096, f_file_attributes = 32, f_reparse_tag = 0, f_creation_time_utc_ms = 0,
     f_last_write_time_utc_ms = 0, f_last_access_time_utc_ms = 0, f_object_id = Some sample_oid,
     f_total_link_count = Known 2\<rparr>"

definition sample_stream :: "observation_record list" where
  "sample_stream = [Obs_Directory \<lparr>d_entry_id = 1, d_parent_id = 0, d_name = ''C:'',
     d_file_attributes = 16, d_reparse_tag = 0, d_creation_time_utc_ms = 0, d_last_write_time_utc_ms = 0,
     d_last_access_time_utc_ms = 0, d_object_id = None, d_allocated_size = Some 512, d_total_link_count = NotObserved\<rparr>,
     sample_file 2 ''a'', sample_file 3 ''b'',
     Obs_Terminal \<lparr>t_outcome = Finished, t_total_directories = 1, t_total_files = 2, t_total_logical_bytes = 200,
       t_total_allocated_bytes = 8704, t_coverage_gap_count = 0, t_duration_ms = 3\<rparr>]"

definition sample_builder :: graph_builder where
  "sample_builder = snd (ingest_all sample_stream (builder_new ''C:''))"

lemmas ingest_eval = ingest_record_def ingest_directory_def ingest_file_def ingest_terminal_def and_do_def
  validate_and_insert_entry_def switch_to_sparse_def is_duplicate_def parent_lookup_def link_child_def push_entry_def
  directory_entry_def file_entry_def saturating_add_def builder_new_def Let_def word_le_nat_alt word_less_nat_alt

lemma sample_run: "ingest_all sample_stream (builder_new ''C:'') = (None, sample_builder)"
  unfolding sample_builder_def sample_stream_def sample_file_def
  by (simp add: ingest_eval)

lemma sample_facts:
  "b_terminal sample_builder \<noteq> None" "b_entries sample_builder \<noteq> []"
  "map c_id (b_entries sample_builder) = [1, 2, 3]" "map c_kind (b_entries sample_builder) = [Directory, File, File]"
  "map c_parent_id (b_entries sample_builder) = [0, 1, 1]" "map c_allocated_size (b_entries sample_builder) = [Some 512, Some 4096, Some 4096]"
  "map c_logical_size (b_entries sample_builder) = [None, Some 100, Some 100]"
  "b_file_object_map sample_builder = [(sample_oid, [2, 3])]" "b_dir_self_alloc sample_builder = [512, 0, 0]" "b_is_dense sample_builder"
  unfolding sample_builder_def sample_stream_def sample_file_def
  by (simp_all add: ingest_eval)

lemma upt_3: "[1..<3::nat] = [1, 2]" "[Suc 0..<3::nat] = [1, 2]"
  by code_simp+

lemma sample_accepted: "accepted sample_stream ''C:'' sample_builder"
  using sample_run by (simp add: accepted_def) (simp add: sample_stream_def)

lemma sample_kids: "kids sample_builder 0 = [1, 2]" "kids sample_builder 1 = []" "kids sample_builder 2 = []"
proof -
  note f = sample_facts
  have n: "builder_len sample_builder = 3" using arg_cong [OF f(3), of length] by simp
  have p: "c_parent_id (b_entries sample_builder ! i) = [0, 1, 1] ! i" if "i < 3" for i
    using arg_cong [OF f(5), of "\<lambda>xs. xs ! i"] n that by simp
  have "parent_pos sample_builder 1 = 0" "parent_pos sample_builder 2 = 0"
    using p [of 1] p [of 2] f(10) n by (simp_all add: parent_pos_def builder_get_idx_def dense_idx_def)
  then show "kids sample_builder 0 = [1, 2]" "kids sample_builder 1 = []" "kids sample_builder 2 = []"
    unfolding kids_def n by (simp_all add: upt_3)
qed

lemma sample_entry:
  "b_entries sample_builder ! 0 = e \<Longrightarrow> c_id e = 1 \<and> c_kind e = Directory \<and> c_allocated_size e = Some 512 \<and> c_logical_size e = None"
  "b_entries sample_builder ! 1 = e \<Longrightarrow> c_id e = 2 \<and> c_kind e = File \<and> c_allocated_size e = Some 4096 \<and> c_logical_size e = Some 100"
  "b_entries sample_builder ! 2 = e \<Longrightarrow> c_id e = 3 \<and> c_kind e = File \<and> c_allocated_size e = Some 4096 \<and> c_logical_size e = Some 100"
  using sample_facts by (auto simp: map_eq_Cons_conv)

lemma sample_subtree: "subtree sample_builder 0 = [1, 2, 0]" "subtree sample_builder 1 = [1]" "subtree sample_builder 2 = [2]"
  using subtree_kids [OF wf_shape [OF accepted_wf [OF sample_accepted]]] sample_kids by simp_all

lemma sample_pos: "entry_pos sample_builder 2 = 1" "entry_pos sample_builder 3 = 2"
  using sample_facts(10) arg_cong [OF sample_facts(3), of length] by (simp_all add: entry_pos_def builder_get_idx_def dense_idx_def)

lemma sample_unique: "observed_unique sample_builder (subtree sample_builder 0) = 4608"
  using sample_facts(8,9) sample_entry [OF refl]
  by (simp add: observed_unique_def sample_subtree file_owner_def sample_pos bucket_weight_def known_allocs_def least_alloc_def
    plain_bytes_def bucketed_def opt_bytes_def)

lemma sample_distinct: "object_bytes sample_builder < 2 ^ 64"
  by (simp add: object_bytes_def sample_unique)

subsection \<open>Finishing\<close>

text \<open>
  C9: Finishing returns for every accepted stream whose distinct objects hold fewer than 2^64 bytes
  together, however much their aliases claim: in whatever order the identity maps are iterated,
  \<open>finish\<close> neither panics (no index is out of bounds, no checked sum overflows, no unique total is
  negative) nor loops. It fails only without a terminal record, or on an empty stream that claims to
  be complete. Beyond the bound it can panic, as \<open>vast_objects_panic\<close> shows.
\<close>

theorem finish_always_returns:
  assumes "accepted recs target self" and "object_bytes self < 2 ^ 64" and "any_order fo" and "any_order dr"
  shows "\<exists>r. finish fo dr to_lowercase self = Some r
    \<and> (r = Inl MissingTerminal \<longleftrightarrow> b_terminal self = None)
    \<and> (b_terminal self \<noteq> None \<longrightarrow> (\<exists>e. r = Inl e) = (b_entries self = [] \<and> map_option t_outcome (b_terminal self) = Some Finished))"
proof (cases "b_terminal self = None \<or> b_entries self = []")
  case True
  then show ?thesis by (auto simp: finish_def split: option.splits)
next
  case False
  then show ?thesis using accepted_graph [OF assms(1) _ _ assms(3,4,2), of to_lowercase] by (metis Inl_Inr_False)
qed

theorem finish_always_returns_witness:
  "\<exists>r. finish rev rev (\<lambda>s. s) sample_builder = Some r \<and> (\<nexists>e. r = Inl e)"
  using finish_always_returns [OF sample_accepted sample_distinct, of rev rev "\<lambda>s. s"] sample_facts(1,2)
  by (auto simp: any_order_def)

text \<open>
  C1: The unique bytes of every entry of the graph count each file identity of its subtree once,
  with the smallest allocation any alias reported, and every other entry at its own allocation;
  none of this depends on the order in which identities are iterated or siblings arrive.
\<close>

theorem unique_bytes_count_identities_once:
  assumes "accepted recs target self" and "b_terminal self \<noteq> None" and "b_entries self \<noteq> []"
    and "object_bytes self < 2 ^ 64" and "any_order fo" and "any_order dr"
  shows "\<exists>g. finish fo dr to_lowercase self = Some (Inr g) \<and>
    (\<forall>i < length (b_entries self). c_id (b_entries self ! i) \<noteq> 0 \<longrightarrow>
       map_option fst (entry_sizes_at g (c_id (b_entries self ! i))) = Some (observed_unique self (subtree self i)))"
proof -
  obtain final g where "finish fo dr to_lowercase self = Some (Inr g)" "graph_of to_lowercase self final g"
    using accepted_graph [OF assms(1-3,5,6,4)] by blast
  then show ?thesis using entry_sizes [OF accepted_wf [OF assms(1)]] by auto
qed

theorem unique_bytes_count_identities_once_witness:
  "\<exists>g. finish rev rev (\<lambda>s. s) sample_builder = Some (Inr g) \<and> map_option fst (entry_sizes_at g 1) = Some 4608"
proof -
  obtain g where g: "finish rev rev (\<lambda>s. s) sample_builder = Some (Inr g)"
    and all: "\<forall>i < length (b_entries sample_builder). c_id (b_entries sample_builder ! i) \<noteq> 0 \<longrightarrow>
       map_option fst (entry_sizes_at g (c_id (b_entries sample_builder ! i))) = Some (observed_unique sample_builder (subtree sample_builder i))"
    using unique_bytes_count_identities_once [OF sample_accepted sample_facts(1,2) sample_distinct, of rev rev "\<lambda>s. s"] by (auto simp: any_order_def)
  show ?thesis using g all [rule_format, of 0] sample_unique sample_entry(1) [OF refl] sample_facts(2) by simp
qed

text \<open>
  C15: The referenced and the logical bytes of every entry of the graph are the sums over its
  subtree, cut off at 2^64 - 1: saturation at inner directories never distorts the total of an
  outer one. Only the distinct objects need to fit 64 bits; what all aliases claim may exceed them.
\<close>

theorem subtree_sums_saturate_once:
  assumes "accepted recs target self" and "b_terminal self \<noteq> None" and "b_entries self \<noteq> []"
    and "object_bytes self < 2 ^ 64" and "any_order fo" and "any_order dr"
  shows "\<exists>g. finish fo dr to_lowercase self = Some (Inr g) \<and>
    (\<forall>i < length (b_entries self). c_id (b_entries self ! i) \<noteq> 0 \<longrightarrow>
       map_option snd (entry_sizes_at g (c_id (b_entries self ! i)))
         = Some (min (\<Sum>x \<leftarrow> subtree self i. alloc_claim self x) (2 ^ 64 - 1),
                 min (\<Sum>x \<leftarrow> subtree self i. logical_claim self x) (2 ^ 64 - 1)))"
proof -
  obtain final g where "finish fo dr to_lowercase self = Some (Inr g)" "graph_of to_lowercase self final g"
    using accepted_graph [OF assms(1-3,5,6,4)] by blast
  then show ?thesis using entry_sizes [OF accepted_wf [OF assms(1)]] by auto
qed

text \<open>Three aliases of a file of 2^63 bytes: one object fits, the claims do not.\<close>

definition vast_file :: "u32 \<Rightarrow> string \<Rightarrow> observation_record" where
  "vast_file eid name = Obs_File \<lparr>f_entry_id = eid, f_parent_id = 1, f_name = name, f_logical_size = 2 ^ 63,
     f_allocated_size = Some (2 ^ 63), f_file_attributes = 32, f_reparse_tag = 0, f_creation_time_utc_ms = 0,
     f_last_write_time_utc_ms = 0, f_last_access_time_utc_ms = 0, f_object_id = Some sample_oid,
     f_total_link_count = Known 3\<rparr>"

definition vast_stream :: "observation_record list" where
  "vast_stream = [hd sample_stream, vast_file 2 ''a'', vast_file 3 ''b'', vast_file 4 ''c'',
     Obs_Terminal \<lparr>t_outcome = Finished, t_total_directories = 1, t_total_files = 3, t_total_logical_bytes = - 1,
       t_total_allocated_bytes = - 1, t_coverage_gap_count = 0, t_duration_ms = 3\<rparr>]"

definition vast_builder :: graph_builder where
  "vast_builder = snd (ingest_all vast_stream (builder_new ''C:''))"

lemma vast_facts:
  "ingest_all vast_stream (builder_new ''C:'') = (None, vast_builder)"
  "b_terminal vast_builder \<noteq> None" "b_entries vast_builder \<noteq> []"
  "map c_id (b_entries vast_builder) = [1, 2, 3, 4]" "map c_kind (b_entries vast_builder) = [Directory, File, File, File]"
  "map c_allocated_size (b_entries vast_builder) = [Some 512, Some (2 ^ 63), Some (2 ^ 63), Some (2 ^ 63)]"
  "map c_logical_size (b_entries vast_builder) = [None, Some (2 ^ 63), Some (2 ^ 63), Some (2 ^ 63)]"
  "b_file_object_map vast_builder = [(sample_oid, [2, 3, 4])]" "b_dir_self_alloc vast_builder = [512, 0, 0, 0]"
  unfolding vast_builder_def vast_stream_def vast_file_def sample_stream_def
  by (simp_all add: ingest_eval)

lemma vast_accepted: "accepted vast_stream ''C:'' vast_builder"
  using vast_facts(1) by (simp add: accepted_def) (simp add: vast_stream_def)

lemma vast_sums:
  "builder_len vast_builder = 4" "(\<Sum>x < 4. h x) = h 0 + h 1 + h 2 + h (3 :: nat)"
  "map (\<lambda>eid. entry_pos vast_builder eid) [2, 3, 4] = [1, 2, 3]"
proof -
  show n: "builder_len vast_builder = 4" using arg_cong [OF vast_facts(4), of length] by simp
  show "(\<Sum>x < 4. h x) = h 0 + h 1 + h 2 + h (3 :: nat)" by (simp add: numeral_eq_Suc)
  have "b_is_dense vast_builder"
    unfolding vast_builder_def vast_stream_def vast_file_def sample_stream_def by (simp add: ingest_eval)
  then show "map (\<lambda>eid. entry_pos vast_builder eid) [2, 3, 4] = [1, 2, 3]"
    using n by (simp add: entry_pos_def builder_get_idx_def dense_idx_def)
qed

lemma vast_entry:
  assumes "x < 4"
  shows "c_kind (b_entries vast_builder ! x) = (if x = 0 then Directory else File)"
    "c_allocated_size (b_entries vast_builder ! x) = Some (if x = 0 then 512 else 2 ^ 63)"
    "c_logical_size (b_entries vast_builder ! x) = (if x = 0 then None else Some (2 ^ 63))"
  using assms vast_facts(5-7) by (auto simp: map_eq_Cons_conv less_Suc_eq numeral_eq_Suc)

lemma vast_distinct: "object_bytes vast_builder < 2 ^ 64"
proof -
  let ?obj = "(sample_oid, [2, 3, 4])"
  have m: "b_file_object_map vast_builder = [?obj]" by (rule vast_facts(8))
  have owner: "file_owner vast_builder ?obj = [1, 2, 3]" using vast_sums(3) by (simp add: file_owner_def)
  have plain: "plain_bytes vast_builder x = (if x = 0 then 512 else 0)" if "x < 4" for x
  proof -
    have "x = 0 \<or> bucketed vast_builder x" using that by (auto simp: bucketed_def m owner)
    then show ?thesis using vast_entry [OF that] vast_facts(9) by (auto simp: plain_bytes_def)
  qed
  have s: "shape vast_builder" by (rule wf_shape [OF accepted_wf [OF vast_accepted]])
  have "(\<Sum>x \<leftarrow> subtree vast_builder 0. plain_bytes vast_builder x) = 512"
    unfolding sum_root [OF s vast_facts(3)] vast_sums(1,2) by (simp add: plain)
  moreover have "bucket_weight vast_builder (snd ?obj) = 2 ^ 63"
    using vast_sums(3) vast_entry(2) by (simp add: bucket_weight_def known_allocs_def least_alloc_def opt_bytes_def)
  ultimately show ?thesis by (simp add: object_bytes_def observed_unique_def m)
qed

theorem subtree_sums_saturate_once_witness:
  "\<exists>g. finish rev rev (\<lambda>s. s) vast_builder = Some (Inr g)
    \<and> map_option snd (entry_sizes_at g 1) = Some (2 ^ 64 - 1, 2 ^ 64 - 1)"
proof -
  obtain g where g: "finish rev rev (\<lambda>s. s) vast_builder = Some (Inr g)"
    and all: "\<forall>i < length (b_entries vast_builder). c_id (b_entries vast_builder ! i) \<noteq> 0 \<longrightarrow>
       map_option snd (entry_sizes_at g (c_id (b_entries vast_builder ! i)))
         = Some (min (\<Sum>x \<leftarrow> subtree vast_builder i. alloc_claim vast_builder x) (2 ^ 64 - 1),
                 min (\<Sum>x \<leftarrow> subtree vast_builder i. logical_claim vast_builder x) (2 ^ 64 - 1))"
    using subtree_sums_saturate_once [OF vast_accepted vast_facts(2,3) vast_distinct, of rev rev "\<lambda>s. s"]
    by (auto simp: any_order_def)
  have s: "shape vast_builder" by (rule wf_shape [OF accepted_wf [OF vast_accepted]])
  have "(\<Sum>x \<leftarrow> subtree vast_builder 0. alloc_claim vast_builder x) = 512 + 3 * 2 ^ 63"
    "(\<Sum>x \<leftarrow> subtree vast_builder 0. logical_claim vast_builder x) = 3 * 2 ^ 63"
    unfolding sum_root [OF s vast_facts(3)] vast_sums(1,2)
    by (simp_all add: alloc_claim_def logical_claim_def opt_bytes_def vast_entry)
  moreover have "c_id (b_entries vast_builder ! 0) = 1" using vast_facts(4) by (auto simp: map_eq_Cons_conv)
  ultimately show ?thesis using g all [rule_format, of 0] vast_facts(3) by simp
qed

text \<open>
  C16: The totals the graph reports for its root are those its terminal record stated: the worker's
  running sums and the engine's bottom-up aggregation agree.
\<close>

theorem graph_totals_match_terminal:
  assumes "accepted (recs @ [Obs_Terminal t]) target self" and "b_entries self \<noteq> []"
    and "object_bytes self < 2 ^ 64" and "any_order fo" and "any_order dr"
  shows "\<exists>g. finish fo dr to_lowercase self = Some (Inr g)
    \<and> graph_logical_bytes g = t_total_logical_bytes t
    \<and> graph_referenced_bytes g = t_total_allocated_bytes t
    \<and> unat (graph_unique_bytes g) \<le> unat (graph_referenced_bytes g)"
proof -
  have wf: "wf_builder self" by (rule accepted_wf [OF assms(1)])
  have "length (recs @ [Obs_Terminal t]) < 2 ^ 32 - 1" and run: "ingest_all (recs @ [Obs_Terminal t]) (builder_new target) = (None, self)"
    using assms(1) by (simp_all add: accepted_def)
  have ref: "refines (recs @ [Obs_Terminal t]) self" by (rule accepted_refines [OF assms(1)])
  then have closed: "b_terminal self \<noteq> None" by (simp add: refines_def observed_snoc)
  have n: "0 < builder_len self" using assms(2) by simp
  have "spec_run [] (recs @ [Obs_Terminal t]) = None"
    using ingest_all_refines [OF refines_new, of "recs @ [Obs_Terminal t]" target] assms(1) by (simp add: accepted_def)
  from spec_run_last [OF this] have "spec_error recs (Obs_Terminal t) = None" by simp
  then have "spec_terminal (observed_entries recs) (length (observed_gaps recs)) t = None"
    by (simp add: spec_error_def split: if_splits)
  then have t: "t_total_logical_bytes t = sat_sum (file_sizes (b_entries self))" "t_total_allocated_bytes t = sat_sum (alloc_sizes (b_entries self))"
    using ref by (auto simp: spec_terminal_def Let_def refines_def observed_snoc entry_of_def split: if_splits)
  obtain final g where g: "finish fo dr to_lowercase self = Some (Inr g)" "graph_of to_lowercase self final g" and s: "shape self"
    using accepted_graph [OF assms(1) closed assms(2,4,5,3)] by blast
  note root = root_entry [OF wf assms(2)]
  have "storage_get (dg_storage g) 1 = Some (b_entries final ! 0)" using graph_get_at [OF g(2) s n] root by simp
  then have e: "graph_logical_bytes g = opt_bytes (c_logical_size (b_entries final ! 0))"
    "graph_referenced_bytes g = c_referenced_allocated_bytes (b_entries final ! 0)"
    "graph_unique_bytes g = c_unique_allocated_bytes (b_entries final ! 0)"
    using graph_ofD(5) [OF g(2)]
    by (simp_all add: graph_logical_bytes_def graph_referenced_bytes_def graph_unique_bytes_def opt_bytes_def split: option.split)
  note sums = sums_at [OF wf graph_ofD(1,2) [OF g(2)] n] sum_root [OF s assms(2)] claims_sum
  have "unat (graph_logical_bytes g) = unat (t_total_logical_bytes t)" "unat (graph_referenced_bytes g) = unat (t_total_allocated_bytes t)"
    unfolding e t unat_sat_sum using sums by simp_all
  moreover have "unat (graph_unique_bytes g) \<le> unat (graph_referenced_bytes g)"
    using graph_ofD(6) [OF g(2) n] observed_unique_le [OF wf assms(2)] assms(3) sums by (simp add: e object_bytes_def)
  ultimately show ?thesis using g(1) by (auto simp: word_unat_eq_iff)
qed

theorem graph_totals_match_terminal_witness:
  "\<exists>g. finish rev rev (\<lambda>s. s) sample_builder = Some (Inr g) \<and> graph_logical_bytes g = 200 \<and> graph_referenced_bytes g = 8704"
proof -
  let ?t = "\<lparr>t_outcome = Finished, t_total_directories = 1, t_total_files = 2, t_total_logical_bytes = 200,
       t_total_allocated_bytes = 8704, t_coverage_gap_count = 0, t_duration_ms = 3\<rparr>"
  have split: "sample_stream = butlast sample_stream @ [Obs_Terminal ?t]" by (simp add: sample_stream_def)
  have "accepted (butlast sample_stream @ [Obs_Terminal ?t]) ''C:'' sample_builder"
    by (subst split [symmetric]) (rule sample_accepted)
  from graph_totals_match_terminal [OF this sample_facts(2) sample_distinct, of rev rev "\<lambda>s. s"] show ?thesis
    by (auto simp: any_order_def)
qed

subsection \<open>Queries\<close>

text \<open>
  C5: Pages of children: every directory has one sorted list of all its children (directories
  first, then larger before smaller, then by name), each child exactly once, and the page at
  \<open>offset\<close> holds the nodes of the next \<open>limit\<close> of them. Consecutive pages therefore show every
  child once, and no page request panics while \<open>offset + limit\<close> fits \<open>usize\<close>.
\<close>

theorem children_pages_tile:
  assumes "accepted recs target self" and "b_terminal self \<noteq> None" and "b_entries self \<noteq> []"
    and "object_bytes self < 2 ^ 64" and "any_order fo" and "any_order dr"
    and "0 \<notin> set (entry_ids (b_entries self))" and "i < length (b_entries self)" and "c_kind (b_entries self ! i) = Directory"
  shows "\<exists>g listed. finish fo dr to_lowercase self = Some (Inr g)
    \<and> mset listed = mset (map (\<lambda>j. c_id (b_entries self ! j)) (kids self i))
    \<and> sorted_wrt (\<lambda>a b. child_le to_lowercase (entry_in g a) (entry_in g b)) listed
    \<and> (\<forall>offset limit. offset + limit < 2 ^ 64 \<longrightarrow>
         (\<exists>page. get_children_page g (c_id (b_entries self ! i)) offset limit = Some (Inr (length listed, page))
            \<and> map n_id page = take limit (drop offset listed)))"
proof -
  obtain final g where g: "finish fo dr to_lowercase self = Some (Inr g)" "graph_of to_lowercase self final g" and s: "shape self"
    using accepted_graph [OF assms(1-3,5,6,4)] by blast
  let ?ids = "sorted_children to_lowercase final i"
  have nz: "c_id (b_entries self ! i) \<noteq> 0" using assms(7,8) by (auto simp: entry_ids_def)
  note m = sorted_children_ids [OF g(2) s, of i]
  have sub: "set ?ids \<subseteq> set (entry_ids (b_entries self))"
    using mset_eq_setD [OF m] kids_lt [of _ self i] by (auto simp: entry_ids_def)
  have "\<exists>page. get_children_page g (c_id (b_entries self ! i)) offset limit = Some (Inr (length ?ids, page))
      \<and> map n_id page = take limit (drop offset ?ids)" if "offset + limit < 2 ^ 64" for offset limit
  proof (cases "offset < length ?ids")
    case True
    have "take (min (offset + limit) (length ?ids) - offset) (drop offset ?ids) = take limit (drop offset ?ids)"
      by (simp add: min_def)
    moreover have "set (take limit (drop offset ?ids)) \<subseteq> set (entry_ids (b_entries self))"
      using sub set_take_subset set_drop_subset by fast
    from push_nodes [OF g(2) s assms(7) this, of "[]"]
    obtain page where "fold_opt (push_node g) [] (take limit (drop offset ?ids)) = Some page" "map n_id page = take limit (drop offset ?ids)"
      by auto
    ultimately show ?thesis
      using True that child_list_ok [OF g(2) s assms(8) nz assms(9)] by (simp add: get_children_page_def Let_def)
  next
    case False
    then show ?thesis using child_list_ok [OF g(2) s assms(8) nz assms(9)] by (simp add: get_children_page_def)
  qed
  then show ?thesis using g(1) m sorted_children_graph [OF g(2) s assms(7)] by blast
qed

theorem children_pages_tile_witness:
  "\<exists>g listed page. finish rev rev (\<lambda>s. s) sample_builder = Some (Inr g) \<and> mset listed = {#2, 3#}
    \<and> get_children_page g 1 1 5 = Some (Inr (2, page)) \<and> map n_id page = take 5 (drop 1 listed)"
proof -
  have z: "0 \<notin> set (entry_ids (b_entries sample_builder))" "0 < length (b_entries sample_builder)"
    using sample_facts(2,3) by (simp_all add: entry_ids_def)
  obtain g listed where g: "finish rev rev (\<lambda>s. s) sample_builder = Some (Inr g)"
    and m: "mset listed = mset (map (\<lambda>j. c_id (b_entries sample_builder ! j)) (kids sample_builder 0))"
    and p: "\<forall>offset limit. offset + limit < 2 ^ 64 \<longrightarrow>
         (\<exists>page. get_children_page g (c_id (b_entries sample_builder ! 0)) offset limit = Some (Inr (length listed, page))
            \<and> map n_id page = take limit (drop offset listed))"
    using children_pages_tile [OF sample_accepted sample_facts(1,2) sample_distinct _ _ z, of rev rev "\<lambda>s. s"] sample_entry(1) [OF refl]
    by (auto simp: any_order_def)
  have "mset listed = {#2, 3#}" using m sample_entry [OF refl] by (simp add: sample_kids)
  moreover from this have "length listed = 2" by (metis size_mset size_add_mset size_empty numeral_2_eq_2 One_nat_def)
  ultimately show ?thesis using g p [rule_format, of 1 5] sample_entry(1) [OF refl] by auto
qed

text \<open>
  A page request for an identifier the stream never mentioned, or for one that is not a
  directory, is answered with the error that names it, whatever the offset and the limit.
\<close>

theorem children_page_errors:
  assumes "accepted recs target self" and "b_terminal self \<noteq> None" and "b_entries self \<noteq> []"
    and "object_bytes self < 2 ^ 64" and "any_order fo" and "any_order dr" and "eid \<noteq> 0"
  shows "\<exists>g. finish fo dr to_lowercase self = Some (Inr g)
    \<and> (eid \<notin> set (entry_ids (b_entries self)) \<longrightarrow> get_children_page g eid offset limit = Some (Inl (ParentNotFound eid)))
    \<and> (\<forall>i < length (b_entries self). c_id (b_entries self ! i) = eid \<and> c_kind (b_entries self ! i) \<noteq> Directory
         \<longrightarrow> get_children_page g eid offset limit = Some (Inl (QueryParentNotDirectory eid)))"
proof -
  obtain final g where g: "finish fo dr to_lowercase self = Some (Inr g)" "graph_of to_lowercase self final g" and s: "shape self"
    using accepted_graph [OF assms(1-3,5,6,4)] by blast
  have "storage_get (dg_storage g) eid = None" if "eid \<notin> set (entry_ids (b_entries self))"
  proof (rule ccontr)
    assume "storage_get (dg_storage g) eid \<noteq> None"
    then obtain e where "storage_get (dg_storage g) eid = Some e" by blast
    then show False using graph_get_final [OF g(2) s] that by (fastforce simp: entry_ids_def)
  qed
  moreover have "c_kind (b_entries final ! i) = c_kind (b_entries self ! i)" if "i < builder_len self" for i
    using same_shapeD(2) [OF graph_ofD(1) [OF g(2)] that] .
  ultimately show ?thesis
    using g graph_get_at [OF g(2) s] assms(7) by (intro exI [of _ g]) (auto simp: get_children_page_def child_list_def)
qed

theorem children_page_errors_witness:
  "\<exists>g. finish rev rev (\<lambda>s. s) sample_builder = Some (Inr g) \<and> get_children_page g 9 0 5 = Some (Inl (ParentNotFound 9))"
  using children_page_errors [OF sample_accepted sample_facts(1,2) sample_distinct, of rev rev 9 "\<lambda>s. s" 0 5] sample_facts(3)
  by (auto simp: any_order_def entry_ids_def)

text \<open>
  C17: One object per identity: the aliases of an identity, and only they, refer to one object
  record, which states how many they are, the link evidence and the smallest allocation among
  them; no entry refers to an object that does not exist.
\<close>

theorem aliases_share_one_object:
  assumes "accepted recs target self" and "b_terminal self \<noteq> None" and "b_entries self \<noteq> []"
    and "object_bytes self < 2 ^ 64" and "any_order fo" and "any_order dr"
    and "obj \<in> set (b_file_object_map self)"
  shows "\<exists>g k. finish fo dr to_lowercase self = Some (Inr g)
    \<and> k < length (dg_objects g) \<and> dg_objects g ! k = bucket_object self obj
    \<and> (\<forall>x < length (b_entries self). x \<in> set (file_owner self obj) \<longleftrightarrow>
         c_object_index (storage_entries (dg_storage g) ! x) \<noteq> NO_OBJECT \<and> unat (c_object_index (storage_entries (dg_storage g) ! x)) = k)
    \<and> (\<forall>x < length (b_entries self). c_object_index (storage_entries (dg_storage g) ! x) \<noteq> NO_OBJECT \<longrightarrow>
         unat (c_object_index (storage_entries (dg_storage g) ! x)) < length (dg_objects g))"
proof -
  obtain final g where g: "finish fo dr to_lowercase self = Some (Inr g)" "graph_of to_lowercase self final g" and s: "shape self"
    using accepted_graph [OF assms(1-3,5,6,4)] by blast
  have ob: "objects_of self final (dg_objects g)" by (rule graph_ofD(4) [OF g(2)])
  then obtain k where k: "k < length (dg_objects g)" "dg_objects g ! k = bucket_object self obj"
    "\<forall>x < builder_len self. object_at final x = k \<and> c_object_index (b_entries final ! x) \<noteq> NO_OBJECT \<longleftrightarrow> x \<in> set (file_owner self obj)"
    using assms(7) unfolding objects_of_def by blast
  have "\<forall>x < builder_len self. x \<in> set (file_owner self obj) \<longleftrightarrow>
      c_object_index (storage_entries (dg_storage g) ! x) \<noteq> NO_OBJECT \<and> unat (c_object_index (storage_entries (dg_storage g) ! x)) = k"
    using k(3) by (auto simp: object_at_def graph_storage(2) [OF g(2) s])
  moreover have "\<forall>x < builder_len self. c_object_index (storage_entries (dg_storage g) ! x) \<noteq> NO_OBJECT \<longrightarrow>
      unat (c_object_index (storage_entries (dg_storage g) ! x)) < length (dg_objects g)"
    using ob by (simp add: objects_of_def object_at_def graph_storage(2) [OF g(2) s])
  ultimately show ?thesis using g(1) k(1,2)
    by - (intro exI [of _ g] exI [of _ k] conjI)
qed

theorem aliases_share_one_object_witness:
  "\<exists>g k. finish rev rev (\<lambda>s. s) sample_builder = Some (Inr g) \<and> k < length (dg_objects g)
    \<and> o_observed_alias_count (dg_objects g ! k) = 2 \<and> o_weight (dg_objects g ! k) = 4096"
proof -
  have "o_observed_alias_count (bucket_object sample_builder (sample_oid, [2, 3])) = 2"
    "o_weight (bucket_object sample_builder (sample_oid, [2, 3])) = 4096"
    using sample_entry [OF refl]
    by (simp_all add: bucket_object_def bucket_weight_def known_allocs_def sample_pos least_alloc_def opt_bytes_def)
  then show ?thesis
    using aliases_share_one_object [OF sample_accepted sample_facts(1,2) sample_distinct, of rev rev "(sample_oid, [2, 3])" "\<lambda>s. s"] sample_facts(8)
    by (auto simp: any_order_def) metis
qed

subsection \<open>From bytes to the graph\<close>

lemma read_written_stream:
  assumes "short_string target" and "\<forall>x \<in> set recs. wf_record x"
  shows "\<exists>rd reports. reader_new (of_bytes (snd (write_observations target recs []))) = Inr rd
    \<and> build_from_reader_with_progress fo dr to_lowercase has_callback oid now stamp start rd =
        (case ingest_all recs (builder_new target) of
           (Some e, _) \<Rightarrow> Some (Inl e, reports)
         | (None, self) \<Rightarrow> map_option (\<lambda>r. (r, reports)) (finish fo dr to_lowercase self))"
proof -
  let ?bytes = "concat (map (\<lambda>x. snd (write_record x [])) recs)"
  let ?rd = "\<lparr>or_reader = of_bytes [], or_target_path = target, or_stream_version = WORKER_STREAM_VERSION_V2\<rparr>"
  have "write_seq (map write_record recs) sink = (None, sink @ ?bytes)" for sink
    using assms(2)
  proof (induction recs arbitrary: sink)
    case (Cons x recs)
    then show ?case using write_record_appends [of x sink] by simp
  qed simp
  then have "snd (write_observations target recs []) = snd (writer_new target []) @ ?bytes"
    using writer_new_bytes [OF assms(1)] by (simp add: write_observations_def)
  then have new: "reader_new (of_bytes (snd (write_observations target recs []))) = Inr (?rd\<lparr>or_reader := of_bytes ?bytes\<rparr>)"
    using reader_new_writer_new [OF assms(1), where r = "of_bytes []" and cs = ?bytes] by (simp add: of_bytes_def)
  have "build_loop has_callback oid now stamp (?rd\<lparr>or_reader := of_bytes ?bytes\<rparr>) (build_init target start)
      = Some ((case fst (ingest_all recs (builder_new target)) of None \<Rightarrow> Inr () | Some e \<Rightarrow> Inl e),
          run_records has_callback oid now stamp recs (build_init target start))"
    using build_loop_stream [OF assms(2), of ?rd] by (simp add: build_init_def)
  moreover note run_records_builder [of has_callback oid now stamp recs "build_init target start"]
  ultimately have "build_from_reader_with_progress fo dr to_lowercase has_callback oid now stamp start (?rd\<lparr>or_reader := of_bytes ?bytes\<rparr>)
      = (case ingest_all recs (builder_new target) of
           (Some e, _) \<Rightarrow> Some (Inl e, bs_emitted (run_records has_callback oid now stamp recs (build_init target start)))
         | (None, self) \<Rightarrow> map_option (\<lambda>r. (r, bs_emitted (run_records has_callback oid now stamp recs (build_init target start))))
             (finish fo dr to_lowercase self))"
    by (auto simp: build_from_reader_with_progress_def build_init_def split: prod.split option.split)
  with new show ?thesis by blast
qed

text \<open>
  C18: Reading the bytes a worker wrote builds the graph of the records it meant: the loop returns,
  fails with the first error the ingestion of the records has, or finishes the builder they lead
  to; progress reports do not influence the result.
\<close>

theorem written_stream_builds_graph:
  assumes "short_string target" and "\<forall>x \<in> set recs. wf_record x"
  shows "\<exists>rd reports. reader_new (of_bytes (snd (write_observations target recs []))) = Inr rd
    \<and> build_from_reader_with_progress fo dr to_lowercase has_callback oid now stamp start rd =
        (case ingest_all recs (builder_new target) of
           (Some e, _) \<Rightarrow> Some (Inl e, reports)
         | (None, self) \<Rightarrow> map_option (\<lambda>r. (r, reports)) (finish fo dr to_lowercase self))"
  by (rule read_written_stream [OF assms])

theorem written_stream_builds_graph_witness:
  "\<exists>rd. reader_new (of_bytes (snd (write_observations ''C:'' sample_stream []))) = Inr rd
    \<and> build_from_reader rev rev (\<lambda>s. s) rd = finish rev rev (\<lambda>s. s) sample_builder"
proof -
  have "\<forall>x \<in> set sample_stream. wf_record x" "short_string ''C:''"
    by (auto simp: sample_stream_def sample_file_def sample_oid_def wf_oid_def wf_identity_def short_string_def rust_string_ascii as_bytes_def)
  from written_stream_builds_graph [OF this(2,1), of rev rev "\<lambda>s. s" False "[]" "\<lambda>_. 0" "\<lambda>_. []" 0]
  show ?thesis using sample_run by (auto simp: build_from_reader_def option.map_comp comp_def option.map_ident)
qed

end
