(* ===== verification/Worker_Properties.thy ===== *)
theory Worker_Properties
  imports Worker_Spec Worker_Ends Graph_Properties
begin

text \<open>
  The composition of the scan worker with the graph builder, on the records of a scan.
\<close>

section \<open>Identifiers\<close>

lemma scan_walk_ids:
  assumes "scan_walk fuel os t = Some (outcome, k)" and "small k"
  shows "map c_id (observed k) = map word_of_nat [1..<Suc (length (observed k))]"
  using scan_walk_cases [OF assms(1)]
proof (elim disjE exE)
  fix volume attrs e assume "walk_loop fuel os volume (walk_root t attrs e) = Some (outcome, k)"
  then have "walk_ok k" using walk_loop_ok walk_root_ok by blast
  then show ?thesis using assms(2) by (simp add: walk_ok_def walk_ids_def)
qed (simp_all add: walk_start_def failed_gap_def observed_defs List.map_filter_def)

section \<open>A small volume\<close>

text \<open>A root with a file and an empty directory, enumerated the old way.\<close>

definition tiny_find :: "u32 \<Rightarrow> u16 \<Rightarrow> find_data" where
  "tiny_find attrs name = \<lparr>fd_attributes = attrs, fd_creation = \<lparr>dwLowDateTime = 0, dwHighDateTime = 0\<rparr>,
     fd_last_access = \<lparr>dwLowDateTime = 0, dwHighDateTime = 0\<rparr>, fd_last_write = \<lparr>dwLowDateTime = 0, dwHighDateTime = 0\<rparr>,
     fd_size_high = 0, fd_size_low = 700, fd_reserved0 = 0, fd_file_name = [name, 0]\<rparr>"

definition tiny_os :: scan_os where
  "tiny_os = \<lparr>so_cancelled = (\<lambda>_. False), so_open = (\<lambda>_ _. Some 5), so_probe = (\<lambda>_ _. None),
     so_batches = (\<lambda>_ _. [Inl 18]),
     so_find_first = (\<lambda>_ path. if path = join_path ''R'' ''*''
        then Inr (tiny_find 0x20 0x61, [tiny_find 0x10 0x64], 18) else Inl 2),
     so_root_find = (\<lambda>_. Some (tiny_find 0x10 0x52)), so_root_attributes = (\<lambda>_. Inl 5),
     so_root_standard_info = (\<lambda>_. None), so_root_id_info = (\<lambda>_. None),
     so_volume = \<lparr>vq_path_name = (\<lambda>_. None), vq_mount_point_name = (\<lambda>_. None), vq_file_system_name = (\<lambda>_. None)\<rparr>,
     so_format_message = (\<lambda>_. []), so_duration_ms = 3\<rparr>"

definition tiny_target :: validated_scan_target where
  "tiny_target = \<lparr>vt_display_path = ''R'', vt_canonical_path = ''R'', vt_extended_path = ''R'',
     vt_volume_root = ''R'', vt_drive_kind = Drive_Fixed, vt_filesystem_kind = Ntfs, vt_filesystem_name = ''NTFS'',
     vt_volume_serial_number = None\<rparr>"


lemma tiny_names: "wide_slice_to_string [0x61, 0] = ''a''" "wide_slice_to_string [0x64, 0] = ''d''"
  by (simp_all add: wide_slice_to_string_def from_utf16_lossy_def utf8_encode_char_def bytes_to_string_def) code_simp+

lemma tiny_os_simps:
  "so_cancelled tiny_os n = False" "so_open tiny_os n p = Some 5"
  "so_find_first tiny_os n path = (if path = join_path ''R'' ''*''
     then Inr (tiny_find 0x20 0x61, [tiny_find 0x10 0x64], 18) else Inl 2)"
  "so_root_find tiny_os p = Some (tiny_find 0x10 0x52)" "vq_path_name (so_volume tiny_os) w = None"
  by (simp_all add: tiny_os_def)

lemma tiny_facts_attributes:
  "has_attribute 0x20 FILE_ATTRIBUTE_DEVICE = False" "has_attribute 0x20 FILE_ATTRIBUTE_DIRECTORY = False"
  "has_attribute 0x20 FILE_ATTRIBUTE_REPARSE_POINT = False"
  "has_attribute 0x10 FILE_ATTRIBUTE_DEVICE = False" "has_attribute 0x10 FILE_ATTRIBUTE_DIRECTORY = True"
  "has_attribute 0x10 FILE_ATTRIBUTE_REPARSE_POINT = False"
  by (simp_all add: has_attribute_def worker_consts)

abbreviation tiny_volume :: volume_context where
  "tiny_volume \<equiv> \<lparr>vc_guid = None, vc_hardlink_capable = True\<rparr>"

abbreviation tiny_item :: stack_item where
  "tiny_item \<equiv> \<lparr>si_entry_id = 1, si_extended_path = ''R'', si_display_path = ''R''\<rparr>"

definition fact_a :: entry_facts where "fact_a = find_data_to_facts (tiny_find 0x20 0x61) tiny_volume"
definition fact_d :: entry_facts where "fact_d = find_data_to_facts (tiny_find 0x10 0x64) tiny_volume"

lemma tiny_facts:
  "entry_facts.e_name fact_a = ''a''" "entry_facts.e_file_attributes fact_a = 0x20" "entry_facts.e_logical_size fact_a = 700" "entry_facts.e_allocated_size fact_a = None"
  "entry_facts.e_name fact_d = ''d''" "entry_facts.e_file_attributes fact_d = 0x10" "entry_facts.e_allocated_size fact_d = None"
  by (simp_all add: fact_a_def fact_d_def find_data_to_facts_def tiny_find_def tiny_names)

lemma tiny_enumerate_root:
  "enumerate_directory_legacy tiny_os ''R'' tiny_volume tick = (Enum_Success [fact_a, fact_d], tick + 3)"
  by (simp add: enumerate_directory_legacy_def tiny_os_simps legacy_loop.simps tiny_find_def tiny_names
      worker_consts fact_a_def fact_d_def Let_def)

lemma tiny_enumerate_d:
  "enumerate_directory_legacy tiny_os (''R'' @ [backslash] @ ''d'') tiny_volume tick = (Enum_Success [], tick + 1)"
  by (simp add: enumerate_directory_legacy_def tiny_os_simps join_path_def ends_with_def worker_consts)

lemma tiny_turn:
  "k_class k = None \<Longrightarrow> enumerate_directory_legacy tiny_os (si_extended_path item) tiny_volume (Suc (k_tick k)) = (Enum_Success facts, n)
    \<Longrightarrow> visit_directory tiny_os tiny_volume item k = Some (Inr (fold (emit_fact item) facts (k\<lparr>k_tick := n\<rparr>)))"
  by (simp add: visit_directory_def choose_class_def tiny_os_simps enumerate_by_class_def)

definition tiny_k0 :: walk where
  "tiny_k0 = walk_root tiny_target (0x10, 0, 0, 0, 0) (None, None, None)"

lemma tiny_walk: "scan_walk fuel tiny_os tiny_target = walk_loop fuel tiny_os tiny_volume tiny_k0"
  by (simp add: scan_walk_def tiny_os_simps root_attributes_def tiny_find_def tiny_facts_attributes
      filetime_to_unix_ms_def resolve_volume_context_def tiny_k0_def root_evidence_def)


definition tiny_k1 :: walk where
  "tiny_k1 = fold (emit_fact tiny_item) [fact_a, fact_d] (tiny_k0\<lparr>k_stack := [], k_tick := 6\<rparr>)"

lemma tiny_k0_fields: "k_stack tiny_k0 = [tiny_item]" "k_tick tiny_k0 = 1" "k_class tiny_k0 = None"
  by (simp_all add: tiny_k0_def walk_root_def tiny_target_def add_allocated_def emit_def walk_start_def)

lemma tiny_k1_fields:
  "k_stack tiny_k1 = [\<lparr>si_entry_id = 3, si_extended_path = ''R'' @ [backslash] @ ''d'',
     si_display_path = ''R'' @ [backslash] @ ''d''\<rparr>]" "k_tick tiny_k1 = 6" "k_class tiny_k1 = None"
  "length (k_records tiny_k1) = 3" "map (unat \<circ> c_id) (observed tiny_k1) = [1, 2, 3]"
  "(\<Sum>x \<leftarrow> file_sizes (observed tiny_k1). unat x) = 700" "(\<Sum>x \<leftarrow> alloc_sizes (observed tiny_k1). unat x) = 0"
  by (simp_all add: tiny_k1_def tiny_k0_def walk_root_def tiny_target_def add_allocated_def emit_def walk_start_def
      emit_fact_def tiny_facts tiny_facts_attributes join_path_def ends_with_def file_of_def directory_of_def
      observed_defs List.map_filter_def file_entry_def directory_entry_def root_observation_def file_sizes_def
      alloc_sizes_def opt_bytes_def Let_def)

lemma tiny_turn_root:
  "visit_directory tiny_os tiny_volume tiny_item (tiny_k0\<lparr>k_stack := [], k_tick := 2\<rparr>) = Some (Inr tiny_k1)"
  using tiny_turn [of "tiny_k0\<lparr>k_stack := [], k_tick := 2\<rparr>" tiny_item "[fact_a, fact_d]" 6]
  by (simp only: tiny_k1_def) (simp add: tiny_k0_fields tiny_enumerate_root)

lemma tiny_turn_d:
  "visit_directory tiny_os tiny_volume (hd (k_stack tiny_k1)) (tiny_k1\<lparr>k_stack := [], k_tick := 7\<rparr>)
    = Some (Inr (tiny_k1\<lparr>k_stack := [], k_tick := 9\<rparr>))"
  using tiny_turn [of "tiny_k1\<lparr>k_stack := [], k_tick := 7\<rparr>" "hd (k_stack tiny_k1)" "[]" 9] tiny_enumerate_d [of 8]
  by (simp add: tiny_k1_fields)

lemma tiny_scan_walk:
  "scan_walk 2 tiny_os tiny_target = Some (Finished, tiny_k1\<lparr>k_stack := [], k_tick := 9\<rparr>)"
  using tiny_turn_root tiny_turn_d
  by (simp add: tiny_walk walk_loop.simps numeral_2_eq_2 tiny_k0_fields tiny_os_simps tiny_k1_fields)

definition tiny_records :: "observation_record list" where
  "tiny_records = k_records tiny_k1 @ [Obs_Terminal (terminal tiny_os Finished tiny_k1)]"

lemma tiny_scan: "scan_records 2 tiny_os tiny_target = Some tiny_records"
  by (simp add: scan_records_def tiny_scan_walk tiny_records_def terminal_def)

lemma tiny_observed: "observed_entries tiny_records = observed tiny_k1"
  by (simp add: tiny_records_def observed_snoc entry_of_def)

section \<open>Properties\<close>

lemma scan_ids:
  assumes "scan_records fuel os t = Some recs" and "length recs < 2 ^ 32 - 1"
  shows "map (unat \<circ> c_id) (observed_entries recs) = [1..<Suc (length (observed_entries recs))]"
proof -
  obtain outcome k where w: "scan_walk fuel os t = Some (outcome, k)"
    and recs: "recs = k_records k @ [Obs_Terminal (terminal os outcome k)]"
    using assms(1) by (auto simp: scan_records_def)
  have obs: "observed_entries recs = observed k" and small: "small k"
    using assms(2) by (simp_all add: recs observed_snoc entry_of_def small_def)
  have "length (observed k) + 1 < 2 ^ 32" using small length_observed_entries [of "k_records k"] by (simp add: small_def)
  note id_nth [OF scan_walk_ids [OF w small] this]
  then show ?thesis by (intro nth_equalityI) (simp_all add: obs del: upt_Suc)
qed

text \<open>
  C4: What a scan writes is what the graph builder accepts, as long as its totals fit. The records of
  a scan that ended number their entries 1, 2, 3, ...; the builder refuses none of them except the
  terminal record, and that one exactly when a total of the release build has wrapped around and so
  differs from the builder's saturated one, which cannot happen to totals below 2^64. An accepted
  scan that got past its root finishes a graph if its distinct objects hold fewer than 2^64 bytes.
\<close>

theorem scan_stream_accepted:
  assumes "scan_records fuel os t = Some recs" and "length recs < 2 ^ 32 - 1"
    and "any_order fo" and "any_order dr"
  shows "map (unat \<circ> c_id) (observed_entries recs) = [1..<Suc (length (observed_entries recs))]
    \<and> (\<exists>refusal self. ingest_all recs (builder_new target) = (refusal, self)
       \<and> (refusal = None \<longleftrightarrow> totals_agree (file_sizes (observed_entries recs)) \<and> totals_agree (alloc_sizes (observed_entries recs)))
       \<and> (\<forall>e. refusal = Some e \<longrightarrow> (\<exists>field stated counted. e = AggregateMismatch field stated counted))
       \<and> (refusal = None \<and> observed_entries recs \<noteq> [] \<and> object_bytes self < 2 ^ 64
            \<longrightarrow> (\<exists>g. finish fo dr to_lowercase self = Some (Inr g))))"
proof
  show "map (unat \<circ> c_id) (observed_entries recs) = [1..<Suc (length (observed_entries recs))]"
    by (rule scan_ids [OF assms(1,2)])
  obtain outcome k where recs: "recs = k_records k @ [Obs_Terminal (terminal os outcome k)]"
    using assms(1) by (auto simp: scan_records_def)
  obtain refusal self where self: "ingest_all recs (builder_new target) = (refusal, self)" by fastforce
  have refusal: "refusal = spec_run [] recs" "refusal = None \<Longrightarrow> refines recs self"
    using ingest_all_refines [OF refines_new, of recs target] assms(2) by (simp_all add: self)
  have "\<exists>g. finish fo dr to_lowercase self = Some (Inr g)"
    if "refusal = None" "observed_entries recs \<noteq> []" "object_bytes self < 2 ^ 64"
  proof -
    have acc: "accepted recs target self" using self assms(2) that(1) by (simp add: accepted_def)
    have "b_terminal self \<noteq> None" "b_entries self = observed_entries recs"
      using refusal(2) [OF that(1)] by (simp_all add: refines_def recs observed_snoc)
    then show ?thesis using accepted_graph [OF acc _ _ assms(3,4) that(3), where f = to_lowercase] that(2) by metis
  qed
  with self show "\<exists>refusal self. ingest_all recs (builder_new target) = (refusal, self)
       \<and> (refusal = None \<longleftrightarrow> totals_agree (file_sizes (observed_entries recs)) \<and> totals_agree (alloc_sizes (observed_entries recs)))
       \<and> (\<forall>e. refusal = Some e \<longrightarrow> (\<exists>field stated counted. e = AggregateMismatch field stated counted))
       \<and> (refusal = None \<and> observed_entries recs \<noteq> [] \<and> object_bytes self < 2 ^ 64
            \<longrightarrow> (\<exists>g. finish fo dr to_lowercase self = Some (Inr g)))"
    using scan_records_outcome [OF assms(1,2)] unfolding refusal(1)
    by (intro exI [of _ "spec_run [] recs"] exI [of _ self] conjI) blast+
qed

lemma scan_object_bytes:
  assumes "accepted recs target self" and "observed_entries recs \<noteq> []"
    and "(\<Sum>x \<leftarrow> alloc_sizes (observed_entries recs). unat x) < 2 ^ 64"
  shows "object_bytes self < 2 ^ 64"
  using object_bytes_le [OF accepted_wf [OF assms(1)]] accepted_refines [OF assms(1)] assms(2,3)
  by (simp add: refines_def)

theorem scan_stream_accepted_witness:
  "\<exists>self g. ingest_all tiny_records (builder_new ''R'') = (None, self) \<and> finish rev rev (\<lambda>s. s) self = Some (Inr g)"
proof -
  have n: "observed_entries tiny_records \<noteq> []" using tiny_k1_fields(5) by (auto simp: tiny_observed)
  have len: "length tiny_records < 2 ^ 32 - 1" using tiny_k1_fields(4) by (simp add: tiny_records_def)
  have sums: "(\<Sum>x \<leftarrow> file_sizes (observed_entries tiny_records). unat x) < 2 ^ 64"
    "(\<Sum>x \<leftarrow> alloc_sizes (observed_entries tiny_records). unat x) < 2 ^ 64"
    unfolding tiny_observed tiny_k1_fields(6,7) by simp_all
  obtain self where self: "ingest_all tiny_records (builder_new ''R'') = (None, self)"
    and g: "object_bytes self < 2 ^ 64 \<longrightarrow> (\<exists>g. finish rev rev (\<lambda>s. s) self = Some (Inr g))"
    using scan_stream_accepted [OF tiny_scan len, of rev rev "''R''" "\<lambda>s. s"] totals_fit [OF sums(1)] totals_fit [OF sums(2)] n
    by (auto simp: any_order_def)
  have "accepted tiny_records ''R'' self" using self len by (simp add: accepted_def)
  with self g scan_object_bytes [OF _ n sums(2)] show ?thesis by blast
qed

text \<open>
  C30: A scan ends on every volume with a limit on the length of paths, whatever it holds: links
  that are not followed and names that are not empty suffice. Enough fuel gives one and the same
  result.
\<close>

theorem scan_traversal_ends:
  assumes "ascii_volumes os" and "answers_end os" and "names_found os" and "path_limit B os"
  shows "\<exists>fuel0 recs. \<forall>fuel \<ge> fuel0. scan_records fuel os t = Some recs"
proof -
  obtain fuel0 r where "\<forall>fuel \<ge> fuel0. scan_walk fuel os t = Some r" using scan_walk_ends [OF assms] by blast
  then have "\<forall>fuel \<ge> fuel0. scan_records fuel os t
      = Some (k_records (snd r) @ [Obs_Terminal (terminal os (fst r) (snd r))])"
    by (simp add: scan_records_def case_prod_unfold)
  then show ?thesis by blast
qed

theorem scan_traversal_ends_witness: "\<exists>recs. \<exists>fuel0. scan_records fuel0 tiny_os tiny_target = Some recs"
proof -
  have "ascii_volumes tiny_os" "answers_end tiny_os" "path_limit 2 tiny_os"
    by (auto simp: ascii_volumes_def answers_end_def path_limit_def tiny_os_def join_path_def ends_with_def worker_consts)
  moreover have "names_found tiny_os"
    by (auto simp: names_found_def tiny_os_simps tiny_find_def split: if_splits)
  ultimately show ?thesis using scan_traversal_ends by blast
qed

end
