(* ===== verification/Process.thy ===== *)
theory Process
  imports Worker Error_Text
begin

text \<open>
  Command lines: \<^verbatim>\<open>crates/pigtree-ipc/src/process.rs\<close> quotes the arguments of a child process, and
  the standard library of the child (\<^verbatim>\<open>std::env::args\<close>) takes them apart again. The characters both
  sides treat specially are single bytes, so strings are lists of bytes here as elsewhere.
\<close>

section \<open>Quoting\<close>

definition needs_quotes :: "string \<Rightarrow> bool" where
  "needs_quotes arg \<longleftrightarrow> list_ex (\<lambda>c. c \<in> {CHR '' '', CHR 0x09, CHR 0x0A, CHR 0x0B, CHR 0x22}) arg"

text \<open>The loop over the characters, with the number of backslashes not yet written.\<close>

fun quote_body :: "nat \<Rightarrow> string \<Rightarrow> string" where
  "quote_body backslashes [] = replicate (backslashes * 2) backslash"
| "quote_body backslashes (c # cs) =
     (if c = backslash then quote_body (backslashes + 1) cs
      else if c = CHR 0x22 then replicate (backslashes * 2 + 1) backslash @ CHR 0x22 # quote_body 0 cs
      else replicate backslashes backslash @ c # quote_body 0 cs)"

definition quote_windows_arg :: "string \<Rightarrow> string" where
  "quote_windows_arg arg =
     (if arg = [] then [CHR 0x22, CHR 0x22]
      else if \<not> needs_quotes arg then arg
      else CHR 0x22 # quote_body 0 arg @ [CHR 0x22])"

definition build_windows_command_line :: "string list \<Rightarrow> string" where
  "build_windows_command_line args = join_with '' '' (map quote_windows_arg args)"

section \<open>Reading from a pipe\<close>

text \<open>The answer of \<open>ReadFile\<close>: an error code, or how many bytes it read.\<close>

definition pipe_read :: "bool \<Rightarrow> nat \<Rightarrow> u32 + nat \<Rightarrow> io_error + nat" where
  "pipe_read valid_handle buf_len answer =
     (if \<not> valid_handle then Inl Io_InvalidInput
      else if buf_len = 0 then Inr 0
      else case answer of
        Inl err \<Rightarrow> if err = 109 \<or> err = 38 then Inr 0 else Inl (Io_Other err)
      | Inr bytes_read \<Rightarrow> Inr bytes_read)"

section \<open>Paths\<close>

text \<open>\<open>Path::join\<close> with a single relative name.\<close>

definition path_join :: "string \<Rightarrow> string \<Rightarrow> string" where
  "path_join dir name =
     (if dir = [] \<or> last dir \<in> {backslash, CHR ''/''} \<or> length dir = 2 \<and> dir ! 1 = CHR '':''
      then dir @ name else dir @ [backslash] @ name)"

section \<open>The arguments of a process\<close>

text \<open>The name of the program ends at white space outside of quotes; nothing is escaped in it.\<close>

fun parse_program :: "bool \<Rightarrow> string \<Rightarrow> string \<Rightarrow> string \<times> string" where
  "parse_program in_quotes cur [] = (cur, [])"
| "parse_program in_quotes cur (c # cs) =
     (if c = CHR 0x22 then parse_program (\<not> in_quotes) cur cs
      else if c \<in> {CHR '' '', CHR 0x09} \<and> \<not> in_quotes then (cur, cs)
      else parse_program in_quotes (cur @ [c]) cs)"

abbreviation skip_blanks :: "string \<Rightarrow> string" where
  "skip_blanks s \<equiv> dropWhile (\<lambda>c. c \<in> {CHR '' '', CHR 0x09}) s"

lemma dropWhile_shorter: "length (dropWhile P xs) < Suc (length xs)"
  "dropWhile P xs = d # ys \<Longrightarrow> length ys < Suc (length xs)"
  using length_dropWhile_le [of P xs] by (auto dest: arg_cong [of _ _ length])

function parse_args :: "bool \<Rightarrow> string \<Rightarrow> string \<Rightarrow> string list" where
  "parse_args in_quotes cur [] = (if cur \<noteq> [] \<or> in_quotes then [cur] else [])"
| "parse_args in_quotes cur (c # cs) =
     (if c \<in> {CHR '' '', CHR 0x09} \<and> \<not> in_quotes then cur # parse_args False [] (skip_blanks cs)
      else if c = backslash then
        let n = Suc (length (takeWhile ((=) backslash) cs)); rest = dropWhile ((=) backslash) cs in
        (case rest of
           d # rest' \<Rightarrow>
             if d = CHR 0x22 then
               if odd n then parse_args in_quotes (cur @ replicate (n div 2) backslash @ [CHR 0x22]) rest'
               else parse_args in_quotes (cur @ replicate (n div 2) backslash) rest
             else parse_args in_quotes (cur @ replicate n backslash) rest
         | [] \<Rightarrow> parse_args in_quotes (cur @ replicate n backslash) rest)
      else if c = CHR 0x22 \<and> in_quotes then
        (case cs of
           d # cs' \<Rightarrow> if d = CHR 0x22 then parse_args in_quotes (cur @ [CHR 0x22]) cs' else parse_args False cur cs
         | [] \<Rightarrow> [cur])
      else if c = CHR 0x22 then parse_args True cur cs
      else parse_args in_quotes (cur @ [c]) cs)"
  by pat_completeness auto
termination
  by (relation "measure (\<lambda>(q, cur, s). length s)") (auto dest: dropWhile_shorter(2) dropWhile_shorter(2) [OF sym] simp: dropWhile_shorter(1))

declare parse_args.simps [simp del]

text \<open>A command line ends at its first NUL.\<close>

definition process_args :: "string \<Rightarrow> string list" where
  "process_args command_line =
     (case parse_program False [] (takeWhile (\<lambda>c. c \<noteq> CHR 0x00) command_line) of
        (program, rest) \<Rightarrow> program # parse_args False [] (skip_blanks rest))"


section \<open>Single characters\<close>

lemma parse_args_plain:
  "c \<noteq> backslash \<Longrightarrow> c \<noteq> quote \<Longrightarrow> c \<notin> {CHR '' '', CHR 0x09} \<or> q \<Longrightarrow>
    parse_args q cur (c # cs) = parse_args q (cur @ [c]) cs"
  by (subst parse_args.simps) auto

lemma parse_args_literal:
  assumes "t = [] \<or> hd t \<noteq> backslash \<and> hd t \<noteq> quote"
  shows "parse_args q cur (replicate n backslash @ t) = parse_args q (cur @ replicate n backslash) t"
proof (cases n)
  case (Suc m)
  then have r: "replicate n backslash = backslash # replicate m backslash" by simp
  show ?thesis unfolding r using assms
    by (simp only: append_Cons, subst parse_args.simps) (cases t, auto simp: Let_def takeWhile_append dropWhile_append)
qed simp

lemma parse_args_pairs:
  "parse_args q cur (replicate (2 * n) backslash @ quote # t) = parse_args q (cur @ replicate n backslash) (quote # t)"
proof (cases n)
  case (Suc m)
  then have r: "replicate (2 * n) backslash = backslash # replicate (Suc (2 * m)) backslash" by simp
  show ?thesis unfolding r
    by (simp only: append_Cons, subst parse_args.simps) (simp add: Let_def Suc takeWhile_append dropWhile_append)
qed simp

lemma parse_args_escaped:
  "parse_args q cur (replicate (2 * n + 1) backslash @ quote # t) = parse_args q (cur @ replicate n backslash @ [quote]) t"
proof -
  have r: "replicate (2 * n + 1) backslash = backslash # replicate (2 * n) backslash" by simp
  show ?thesis unfolding r
    by (simp only: append_Cons, subst parse_args.simps) (simp add: Let_def takeWhile_append dropWhile_append)
qed


section \<open>Whole arguments\<close>

abbreviation separated :: "string \<Rightarrow> bool" where
  "separated t \<equiv> t = [] \<or> hd t = CHR '' ''"

lemma parse_quoted_body:
  "parse_args True cur (quote_body n s @ quote # t) = parse_args True (cur @ replicate n backslash @ s) (quote # t)"
proof (induction n s arbitrary: cur rule: quote_body.induct)
  case (1 n)
  show ?case using parse_args_pairs [of True cur n t] by (simp add: mult.commute)
next
  case (2 n c cs)
  consider "c = backslash" | "c = quote" | "c \<noteq> backslash" "c \<noteq> quote" by blast
  then show ?case
  proof cases
    case 1
    then show ?thesis using "2.IH"(1) [of cur] by (simp add: replicate_app_Cons_same)
  next
    case 2
    then show ?thesis using "2.IH"(2) parse_args_escaped [of True cur n "quote_body 0 cs @ quote # t"]
      by (simp add: mult.commute)
  next
    case 3
    then have "parse_args True cur (replicate n backslash @ c # quote_body 0 cs @ quote # t)
        = parse_args True (cur @ replicate n backslash @ [c]) (quote_body 0 cs @ quote # t)"
      by (simp add: parse_args_literal parse_args_plain)
    with 3 "2.IH"(3) show ?thesis by simp
  qed
qed

lemma parse_unquoted:
  assumes "\<not> needs_quotes s" and "separated t"
  shows "parse_args False cur (replicate n backslash @ s @ t) = parse_args False (cur @ replicate n backslash @ s) t"
  using assms(1)
proof (induction s arbitrary: n cur)
  case Nil
  then show ?case using assms(2) by (auto intro!: parse_args_literal)
next
  case (Cons c s)
  then have c: "c \<notin> {CHR '' '', CHR 0x09, quote}" "\<not> needs_quotes s" by (simp_all add: needs_quotes_def)
  show ?case
  proof (cases "c = backslash")
    case True
    then show ?thesis using Cons.IH [OF c(2), of cur "Suc n"] by (simp add: replicate_app_Cons_same)
  next
    case False
    then have "parse_args False cur (replicate n backslash @ c # s @ t) = parse_args False (cur @ replicate n backslash @ [c]) (s @ t)"
      using c by (simp add: parse_args_literal parse_args_plain)
    then show ?thesis using Cons.IH [OF c(2), of "cur @ replicate n backslash @ [c]" 0] by simp
  qed
qed

lemma parse_end_quote:
  "separated t \<Longrightarrow> parse_args True cur (quote # t) = cur # parse_args False [] (skip_blanks t)"
  by (cases t) (simp_all add: parse_args.simps)

lemma parse_quote_arg:
  assumes "separated t"
  shows "parse_args False [] (quote_windows_arg s @ t) = s # parse_args False [] (skip_blanks t)"
proof -
  have start: "parse_args False [] (quote # u) = parse_args True [] u" for u
    by (subst parse_args.simps) simp
  show ?thesis
  proof (cases "s = []")
    case True
    then show ?thesis using assms by (simp add: quote_windows_arg_def start parse_end_quote)
  next
    case False
    show ?thesis
    proof (cases "needs_quotes s")
      case True
      then show ?thesis using False assms parse_quoted_body [of "[]" 0 s t]
        by (simp add: quote_windows_arg_def start parse_end_quote)
    next
      case plain: False
      then have "parse_args False [] (s @ t) = parse_args False s t"
        using parse_unquoted [of s t "[]" 0] assms by simp
      also have "\<dots> = s # parse_args False [] (skip_blanks t)"
        using False assms by (cases t) (simp_all add: parse_args.simps)
      finally show ?thesis using plain False by (simp add: quote_windows_arg_def)
    qed
  qed
qed

lemma quote_arg_hd: "quote_windows_arg s \<noteq> [] \<and> hd (quote_windows_arg s) \<notin> {CHR '' '', CHR 0x09}"
  by (cases s) (auto simp: quote_windows_arg_def needs_quotes_def)

lemma skip_blanks_quote: "skip_blanks (quote_windows_arg s @ t) = quote_windows_arg s @ t"
  using quote_arg_hd [of s] by (cases "quote_windows_arg s") simp_all

lemma parse_command_tail:
  "parse_args False [] (skip_blanks (join_with '' '' (map quote_windows_arg args))) = args"
proof (induction args)
  case Nil
  then show ?case by (simp add: parse_args.simps)
next
  case (Cons s args)
  show ?case
  proof (cases args)
    case Nil
    then show ?thesis using parse_quote_arg [of "[]" s] skip_blanks_quote [of s "[]"]
      by (simp add: parse_args.simps)
  next
    case (Cons s' args')
    let ?t = "join_with '' '' (map quote_windows_arg args)"
    have "join_with '' '' (map quote_windows_arg (s # args)) = quote_windows_arg s @ '' '' @ ?t"
      using Cons by simp
    then show ?thesis using parse_quote_arg [of "'' '' @ ?t" s] skip_blanks_quote Cons.IH by simp
  qed
qed


section \<open>The program and the whole line\<close>

lemma parse_program_plain:
  assumes "separated t" and "\<forall>c \<in> set s. c \<notin> {CHR '' '', CHR 0x09, quote}"
  shows "snd (parse_program False cur (s @ t)) = tl t"
  using assms(2)
proof (induction s arbitrary: cur)
  case Nil
  then show ?case using assms(1) by (cases t) auto
qed auto

lemma parse_program_quoted:
  assumes "quote \<notin> set s"
  shows "parse_program True cur (quote_body n s @ quote # t) = parse_program False (cur @ quote_body n s) t"
  using assms
proof (induction n s arbitrary: cur rule: quote_body.induct)
  case (1 n)
  have "parse_program True cur (replicate n backslash @ quote # t) = parse_program False (cur @ replicate n backslash) t" for n cur
    by (induction n arbitrary: cur) simp_all
  then show ?case by simp
next
  case (2 n c cs)
  have run: "parse_program True cur (replicate n backslash @ u) = parse_program True (cur @ replicate n backslash) u" for n cur u
    by (induction n arbitrary: cur) simp_all
  show ?case
  proof (cases "c = backslash")
    case False
    with 2 run show ?thesis by auto
  qed (use 2 in auto)
qed

lemma parse_program_quote:
  assumes "quote \<notin> set exe" and "separated t"
  shows "snd (parse_program False [] (quote_windows_arg exe @ t)) = tl t"
proof -
  have "snd (parse_program False cur t) = tl t" for cur using assms(2) by (cases t) auto
  moreover have "\<not> needs_quotes exe \<Longrightarrow> \<forall>c \<in> set exe. c \<notin> {CHR '' '', CHR 0x09, quote}"
    by (auto simp: needs_quotes_def list_ex_iff)
  ultimately show ?thesis
    using parse_program_plain [OF assms(2)] parse_program_quoted [OF assms(1)]
    by (auto simp: quote_windows_arg_def)
qed

lemma process_args_line:
  assumes "quote \<notin> set exe" and "\<forall>s \<in> set (exe # args). CHR 0x00 \<notin> set s"
  shows "\<exists>program. process_args (build_windows_command_line (exe # args)) = program # args"
proof -
  have body: "CHR 0x00 \<notin> set s \<Longrightarrow> CHR 0x00 \<notin> set (quote_body n s)" for n s
    by (induction n s rule: quote_body.induct) auto
  have nul: "CHR 0x00 \<notin> set (quote_windows_arg s)" if "s \<in> set (exe # args)" for s
    using assms(2) that body by (auto simp: quote_windows_arg_def)
  have join: "CHR 0x00 \<notin> set (join_with '' '' xs)" if "\<forall>s \<in> set xs. CHR 0x00 \<notin> set s" for xs
    using that by (induction "'' ''" xs rule: join_with.induct) auto
  let ?line = "join_with '' '' (map quote_windows_arg (exe # args))" and ?t = "join_with '' '' (map quote_windows_arg args)"
  have "CHR 0x00 \<notin> set ?line" by (rule join) (use nul in auto)
  then have line: "takeWhile (\<lambda>c. c \<noteq> CHR 0x00) ?line = ?line" by (auto simp: takeWhile_eq_all_conv)
  obtain t where t: "?line = quote_windows_arg exe @ t" "separated t" "tl t = ?t"
    by (cases args) auto
  then have "snd (parse_program False [] ?line) = ?t" using parse_program_quote [OF assms(1)] by simp
  then show ?thesis using parse_command_tail [of args]
    unfolding process_args_def build_windows_command_line_def line
    by (cases "parse_program False [] ?line") simp
qed

section \<open>The worker reads what the engine wrote\<close>

lemma digits_to_nat_snoc:
  "digits_to_nat 10 acc (ds @ [c]) = Option.bind (digits_to_nat 10 acc ds) (\<lambda>n. map_option (\<lambda>d. n * 10 + d) (digit_value 10 c))"
  by (induction ds arbitrary: acc) (auto split: option.split)

lemma digit_value_digit: "d < 10 \<Longrightarrow> digit_value 10 (digit d) = Some d"
  by (simp add: digit_value_def digit_def)

lemma decimal_no_nul: "CHR 0x00 \<notin> set (decimal n)"
proof (induction n rule: decimal.induct)
  case (1 n)
  have "CHR 0x00 \<noteq> digit d" if "d < 10" for d
  proof
    assume "CHR 0x00 = digit d"
    moreover have "digit_value 10 (CHR 0x00) = None" by (simp add: digit_value_def)
    ultimately show False using digit_value_digit [OF that] by simp
  qed
  note this [simp]
  from 1 show ?case by (subst decimal.simps) auto
qed

lemma digits_to_nat_decimal: "digits_to_nat 10 0 (decimal n) = Some n"
proof (induction n rule: decimal.induct)
  case (1 n)
  then show ?case
    by (subst decimal.simps) (auto simp: digits_to_nat_snoc digit_value_digit)
qed

lemma parse_usize_decimal: "n < 2 ^ 64 \<Longrightarrow> parse_usize (decimal n) = Some n"
proof -
  assume n: "n < 2 ^ 64"
  obtain c cs where cs: "decimal n = c # cs" by (cases "decimal n") (simp_all add: decimal.simps [of n] split: if_splits)
  moreover have "c \<noteq> CHR ''+''"
  proof
    assume "c = CHR ''+''"
    then have "digits_to_nat 10 0 (decimal n) = None" using cs by (simp add: digit_value_def)
    then show False by (simp add: digits_to_nat_decimal)
  qed
  ultimately show ?thesis using n digits_to_nat_decimal [of n] by (simp add: from_str_radix_def)
qed

text \<open>The arguments the engine passes to the worker (\<^verbatim>\<open>crates/pigtree-engine/src/runner.rs\<close>).\<close>

definition worker_command_line :: "string \<Rightarrow> string \<Rightarrow> nat \<Rightarrow> nat \<Rightarrow> string" where
  "worker_command_line worker_exe target h_write h_cancel =
     build_windows_command_line [worker_exe, ''--target'', target, ''--pipe-handle'', decimal h_write,
       ''--cancel-event-handle'', decimal h_cancel]"

lemma worker_args_arrive:
  assumes "quote \<notin> set worker_exe" and "CHR 0x00 \<notin> set worker_exe" and "CHR 0x00 \<notin> set target"
    and "h_write < 2 ^ 64" and "h_cancel < 2 ^ 64"
  shows "parse_worker_args (drop 1 (process_args (worker_command_line worker_exe target h_write h_cancel)))
    = Inr \<lparr>wa_target = target, wa_pipe_handle = h_write, wa_cancel_event_handle = h_cancel\<rparr>"
proof -
  let ?args = "[''--target'', target, ''--pipe-handle'', decimal h_write, ''--cancel-event-handle'', decimal h_cancel]"
  have "\<forall>s \<in> set (worker_exe # ?args). CHR 0x00 \<notin> set s" using assms(2,3) decimal_no_nul by auto
  then obtain program where "process_args (worker_command_line worker_exe target h_write h_cancel) = program # ?args"
    using process_args_line [OF assms(1)] unfolding worker_command_line_def by blast
  then show ?thesis
    using parse_usize_decimal [OF assms(4)] parse_usize_decimal [OF assms(5)] by (simp add: parse_worker_args_def)
qed

text \<open>
  C26: The worker receives exactly the target and the handles the engine passed, whatever spaces,
  quotes and backslashes the target contains: quoting by the engine, splitting by the standard
  library and parsing by the worker compose to the identity.
\<close>

theorem worker_receives_its_arguments:
  assumes "quote \<notin> set worker_exe" and "CHR 0x00 \<notin> set worker_exe" and "CHR 0x00 \<notin> set target"
    and "h_write < 2 ^ 64" and "h_cancel < 2 ^ 64"
  shows "parse_worker_args (drop 1 (process_args (worker_command_line worker_exe target h_write h_cancel)))
    = Inr \<lparr>wa_target = target, wa_pipe_handle = h_write, wa_cancel_event_handle = h_cancel\<rparr>"
  by (rule worker_args_arrive [OF assms])

theorem worker_receives_its_arguments_witness:
  "parse_worker_args (drop 1 (process_args (worker_command_line ''pigtree-scan-worker.exe''
      (''D:'' @ [backslash] @ ''my '' @ [quote, backslash]) 64 72)))
    = Inr \<lparr>wa_target = ''D:'' @ [backslash] @ ''my '' @ [quote, backslash], wa_pipe_handle = 64, wa_cancel_event_handle = 72\<rparr>"
  by (rule worker_receives_its_arguments) simp_all

end
