(* ===== verification/Launch.thy ===== *)
theory Launch
  imports Process Graph_Build
begin

text \<open>
  Starting child processes: \<^verbatim>\<open>crates/pigtree-ipc/src/bootstrap.rs\<close>, \<^verbatim>\<open>crates/pigtree-ipc/src/job.rs\<close>,
  the pipe of \<^verbatim>\<open>crates/pigtree-ipc/src/process.rs\<close> and \<^verbatim>\<open>crates/pigtree-engine/src/runner.rs\<close>. A
  function yields its result and the trace of what it did to handles and processes, with the effects
  of the destructors at the end of the function. The answers of the system are an argument.
\<close>

section \<open>Traces and answers\<close>

datatype handle = H_Read | H_Write | H_Process | H_Thread | H_Job | H_Stream

datatype action =
    Opened handle
  | Closed handle
  | Created_Suspended
  | Assigned
  | Resumed
  | Terminated
  | Waited

text \<open>\<open>None\<close> is success, \<open>Some\<close> an error code; \<open>la_wait\<close> is the exit code if the process ends in time.\<close>

record launch_answers =
  la_create_pipe :: "u32 option"
  la_set_inherit :: "u32 option"
  la_init_attributes :: "u32 option"
  la_update_attributes :: "u32 option"
  la_create_process :: "u32 + u32"
  la_create_job :: "u32 option"
  la_set_job_limit :: "u32 option"
  la_assign :: "u32 option"
  la_resume :: "u32 option"
  la_creation_time :: "u32 + u64"
  la_wait :: "u32 option"
  la_format_message :: "u32 \<Rightarrow> u16 list"

section \<open>Jobs and pipes\<close>

definition create_kill_on_close :: "launch_answers \<Rightarrow> (ipc_error + unit) \<times> action list" where
  "create_kill_on_close os = (case la_create_job os of
     Some e \<Rightarrow> (Inl (Ipc_Win32 e ''CreateJobObjectW failed''), [])
   | None \<Rightarrow> (case la_set_job_limit os of
       Some e \<Rightarrow> (Inl (Ipc_Win32 e ''SetInformationJobObject failed to set KILL_ON_JOB_CLOSE''), [Opened H_Job, Closed H_Job])
     | None \<Rightarrow> (Inr (), [Opened H_Job])))"

definition assign_process :: "launch_answers \<Rightarrow> (ipc_error + unit) \<times> action list" where
  "assign_process os = (case la_assign os of
     Some e \<Rightarrow> (Inl (Ipc_Win32 e ''AssignProcessToJobObject failed''), [])
   | None \<Rightarrow> (Inr (), [Assigned]))"

definition create_inheritable_write :: "launch_answers \<Rightarrow> (ipc_error + unit) \<times> action list" where
  "create_inheritable_write os = (case la_create_pipe os of
     Some e \<Rightarrow> (Inl (Ipc_Win32 e ''CreatePipe failed''), [])
   | None \<Rightarrow> (case la_set_inherit os of
       Some e \<Rightarrow> (Inl (Ipc_Win32 e ''SetHandleInformation on read pipe failed''),
                  [Opened H_Read, Opened H_Write, Closed H_Read, Closed H_Write])
     | None \<Rightarrow> (Inr (), [Opened H_Read, Opened H_Write])))"

definition bootstrap_pipe_create :: "launch_answers \<Rightarrow> (ipc_error + unit) \<times> action list" where
  "bootstrap_pipe_create os = (case la_create_pipe os of
     Some e \<Rightarrow> (Inl (Ipc_Win32 e ''CreatePipe failed''), [])
   | None \<Rightarrow> (case la_set_inherit os of
       Some e \<Rightarrow> (Inl (Ipc_Win32 e ''SetHandleInformation on write pipe failed''),
                  [Opened H_Read, Opened H_Write, Closed H_Read, Closed H_Write])
     | None \<Rightarrow> (Inr (), [Opened H_Read, Opened H_Write])))"

text \<open>The nonce: how many bytes \<open>WriteFile\<close> wrote, and what \<open>ReadFile\<close> delivered.\<close>

definition write_nonce :: "u32 + nat \<Rightarrow> u32 \<Rightarrow> (ipc_error + unit) \<times> action list" where
  "write_nonce answer last_error = (case answer of
     Inl e \<Rightarrow> (Inl (Ipc_Win32 e ''WriteFile failed writing bootstrap nonce''), [])
   | Inr written \<Rightarrow>
       if written \<noteq> 32 then (Inl (Ipc_Win32 last_error ''WriteFile failed writing bootstrap nonce''), [])
       else (Inr (), [Closed H_Write]))"

definition read_bootstrap_nonce :: "u32 + u8 list \<Rightarrow> u32 \<Rightarrow> (ipc_error + u8 list) \<times> action list" where
  "read_bootstrap_nonce answer last_error = (case answer of
     Inl e \<Rightarrow> (Inl (Ipc_Win32 e ''ReadFile failed reading bootstrap nonce from inherited handle''), [])
   | Inr bytes \<Rightarrow>
       if length bytes \<noteq> 32
       then (Inl (Ipc_Win32 last_error ''ReadFile failed reading bootstrap nonce from inherited handle''), [])
       else (Inr bytes, [Closed H_Read]))"

definition wait_for_exit :: "launch_answers \<Rightarrow> (ipc_error + u32) \<times> action list" where
  "wait_for_exit os = (case la_wait os of Some exit_code \<Rightarrow> (Inr exit_code, [Waited]) | None \<Rightarrow> (Inl Ipc_Timeout, [Waited]))"

section \<open>Starting the engine\<close>

record child_process_guard =
  cp_pid :: u32
  cp_creation_time :: u64

definition engine_command_line :: "string \<Rightarrow> string \<Rightarrow> string \<Rightarrow> nat \<Rightarrow> string" where
  "engine_command_line engine_exe pipe_name session_id handle_val =
     quote # engine_exe @ [quote] @ '' --pipe-name '' @ [quote] @ pipe_name @ [quote] @ '' --session-id ''
       @ [quote] @ session_id @ [quote] @ '' --bootstrap-handle '' @ decimal handle_val"

definition spawn_engine :: "launch_answers \<Rightarrow> string \<Rightarrow> (ipc_error + child_process_guard) \<times> action list" where
  "spawn_engine os engine_exe =
     (case la_init_attributes os of
        Some e \<Rightarrow> (Inl (Ipc_Win32 e ''InitializeProcThreadAttributeList failed''), [])
      | None \<Rightarrow> (case la_update_attributes os of
        Some e \<Rightarrow> (Inl (Ipc_Win32 e ''UpdateProcThreadAttribute failed''), [])
      | None \<Rightarrow> (case la_create_process os of
        Inl e \<Rightarrow> (Inl (Ipc_Win32 e (''CreateProcessW failed for engine binary: '' @ engine_exe)), [])
      | Inr pid \<Rightarrow>
          let created = [Created_Suspended, Opened H_Process, Opened H_Thread];
              give_up = [Terminated, Closed H_Process, Closed H_Thread]
          in case assign_process os of
               (Inl e, ta) \<Rightarrow> (Inl e, created @ ta @ give_up)
             | (Inr _, ta) \<Rightarrow> (case la_resume os of
                 Some e \<Rightarrow> (Inl (Ipc_Win32 e ''ResumeThread failed''), created @ ta @ give_up)
               | None \<Rightarrow>
                   let running = created @ ta @ [Resumed, Closed H_Thread] in
                   (case la_creation_time os of
                      Inl e \<Rightarrow> (Inl (Ipc_Win32 e ''GetProcessTimes failed''), running @ [Terminated, Closed H_Process])
                    | Inr t \<Rightarrow> (Inr \<lparr>cp_pid = pid, cp_creation_time = t\<rparr>, running))))))"

section \<open>Finding the worker\<close>

record worker_files =
  wf_env_exe :: "string option"
  wf_env_path :: "string option"
  wf_exe_dir :: "string option"
  wf_exe_parent_dir :: "string option"
  wf_exists :: "string \<Rightarrow> bool"
  wf_canonicalize :: "string \<Rightarrow> string option"

definition resolve_scan_worker_exe :: "worker_files \<Rightarrow> string option" where
  "resolve_scan_worker_exe fs =
     (let named = (\<lambda>d. path_join d ''pigtree-scan-worker.exe'');
          siblings = (case wf_exe_dir fs of None \<Rightarrow> [] | Some parent \<Rightarrow>
             named parent # (case wf_exe_parent_dir fs of None \<Rightarrow> [] | Some grandparent \<Rightarrow> [named grandparent]));
          given = (case wf_env_exe fs of Some v \<Rightarrow> [v] | None \<Rightarrow> []) @ (case wf_env_path fs of Some v \<Rightarrow> [v] | None \<Rightarrow> [])
      in case List.find (wf_exists fs) (given @ siblings) of
           Some p \<Rightarrow> Some p
         | None \<Rightarrow> (case List.find (wf_exists fs)
               [''target/debug/pigtree-scan-worker.exe'', ''target/release/pigtree-scan-worker.exe'',
                ''../../target/debug/pigtree-scan-worker.exe'', ''../target/debug/pigtree-scan-worker.exe''] of
             Some p \<Rightarrow> (case wf_canonicalize fs p of Some c \<Rightarrow> Some c | None \<Rightarrow> Some p)
           | None \<Rightarrow> None))"

section \<open>Running the worker\<close>

datatype scan_runner_error =
    Runner_Spawn string
  | Runner_Ipc ipc_error
  | Runner_Io io_error
  | Runner_Graph graph_build_error
  | WorkerExitInconsistent u32 "run_outcome option"
  | WorkerTimeout

definition outcome_debug :: "run_outcome option \<Rightarrow> string" where
  "outcome_debug r = (case r of
     None \<Rightarrow> ''None'' | Some Finished \<Rightarrow> ''Some(Finished)'' | Some Cancelled \<Rightarrow> ''Some(Cancelled)'' | Some Failed \<Rightarrow> ''Some(Failed)'')"

definition scan_runner_error_text :: "(io_error \<Rightarrow> string) \<Rightarrow> (graph_build_error \<Rightarrow> string) \<Rightarrow> scan_runner_error \<Rightarrow> string" where
  "scan_runner_error_text io graph e = (case e of
     Runner_Spawn msg \<Rightarrow> ''failed to spawn scan worker: '' @ msg
   | Runner_Ipc err \<Rightarrow> ''IPC error during worker execution: '' @ ipc_error_text io err
   | Runner_Io err \<Rightarrow> ''I/O error during worker execution: '' @ io err
   | Runner_Graph err \<Rightarrow> ''graph build error: '' @ graph err
   | WorkerExitInconsistent exit_code terminal_outcome \<Rightarrow>
       ''worker exit code '' @ decimal (unat exit_code) @ '' is inconsistent with terminal outcome '' @ outcome_debug terminal_outcome
   | WorkerTimeout \<Rightarrow> ''worker process timed out waiting for exit'')"

definition expected_exit_code :: "run_outcome \<Rightarrow> u32" where
  "expected_exit_code outcome = (case outcome of Finished \<Rightarrow> 0 | Cancelled \<Rightarrow> 3 | Failed \<Rightarrow> 1)"

text \<open>Everything up to the running worker; then its process and its pipe are left to be dropped.\<close>

definition start_worker :: "launch_answers \<Rightarrow> string \<Rightarrow> (scan_runner_error + unit) \<times> action list" where
  "start_worker os worker_exe =
     (case create_inheritable_write os of
        (Inl e, tp) \<Rightarrow> (Inl (Runner_Ipc e), tp)
      | (Inr _, tp) \<Rightarrow> (case la_init_attributes os of
        Some e \<Rightarrow> (Inl (Runner_Ipc (Ipc_Win32 e ''InitializeProcThreadAttributeList failed'')), tp @ [Closed H_Write, Closed H_Read])
      | None \<Rightarrow> (case la_update_attributes os of
        Some e \<Rightarrow> (Inl (Runner_Ipc (Ipc_Win32 e ''UpdateProcThreadAttribute failed'')), tp @ [Closed H_Write, Closed H_Read])
      | None \<Rightarrow> (case la_create_process os of
        Inl e \<Rightarrow> (Inl (Runner_Spawn (''CreateProcessW failed for worker '' @ [CHR 0x27] @ worker_exe @ [CHR 0x27] @ '': ''
               @ format_win32_error (la_format_message os) e)), tp @ [Closed H_Write, Closed H_Read])
      | Inr pid \<Rightarrow>
          let created = tp @ [Created_Suspended, Opened H_Process, Opened H_Thread, Closed H_Write];
              give_up = [Terminated, Closed H_Process, Closed H_Thread]
          in case create_kill_on_close os of
               (Inl e, tj) \<Rightarrow> (Inl (Runner_Ipc e), created @ tj @ give_up @ [Closed H_Read])
             | (Inr _, tj) \<Rightarrow> (case assign_process os of
                 (Inl e, ta) \<Rightarrow> (Inl (Runner_Ipc e), created @ tj @ ta @ give_up @ [Closed H_Job, Closed H_Read])
               | (Inr _, ta) \<Rightarrow> (case la_resume os of
                   Some e \<Rightarrow> (Inl (Runner_Ipc (Ipc_Win32 e ''ResumeThread failed'')),
                       created @ tj @ ta @ give_up @ [Closed H_Job, Closed H_Read])
                 | None \<Rightarrow> (Inr (), created @ tj @ ta @ [Resumed, Closed H_Thread])))))))"

text \<open>\<open>stream\<close> is what the pipe delivers. \<open>None\<close>: the graph is never finished.\<close>

definition launch_scan_worker_with_progress ::
  "((object_identity \<times> u32 list) list \<Rightarrow> (object_identity \<times> u32 list) list)
   \<Rightarrow> ((u32 \<times> object_identity) list \<Rightarrow> (u32 \<times> object_identity) list) \<Rightarrow> (string \<Rightarrow> string)
   \<Rightarrow> bool \<Rightarrow> string \<Rightarrow> (nat \<Rightarrow> nat) \<Rightarrow> (nat \<Rightarrow> string) \<Rightarrow> nat \<Rightarrow> launch_answers \<Rightarrow> string \<Rightarrow> reader
   \<Rightarrow> ((scan_runner_error + directory_graph) \<times> scan_progress list \<times> action list) option" where
  "launch_scan_worker_with_progress files_order dirs_order to_lowercase has_callback operation_id now stamp start os worker_exe stream =
     (case start_worker os worker_exe of
        (Inl e, trace) \<Rightarrow> Some (Inl e, [], trace)
      | (Inr _, trace) \<Rightarrow>
          let dropped = [Closed H_Process, Closed H_Job] in
          (case reader_new stream of
             Inl e \<Rightarrow> Some (Inl (Runner_Graph (Decode e)), [], trace @ [Closed H_Read] @ snd (wait_for_exit os) @ dropped)
           | Inr rd \<Rightarrow>
               map_option (\<lambda>(graph_res, progress).
                 (case wait_for_exit os of
                    (Inl _, tw) \<Rightarrow> (Inl WorkerTimeout, progress, trace @ [Closed H_Read] @ tw @ [Terminated] @ dropped)
                  | (Inr exit_code, tw) \<Rightarrow>
                      (case graph_res of
                         Inl e \<Rightarrow> Inl (Runner_Graph e)
                       | Inr graph \<Rightarrow>
                           if exit_code \<noteq> expected_exit_code (t_outcome (dg_terminal graph))
                           then Inl (WorkerExitInconsistent exit_code (Some (t_outcome (dg_terminal graph))))
                           else Inr graph,
                       progress, trace @ [Closed H_Read] @ tw @ dropped)))
                 (build_from_reader_with_progress files_order dirs_order to_lowercase has_callback operation_id now stamp start rd)))"


section \<open>What the traces keep\<close>

text \<open>The handles open after a trace; \<open>None\<close> if one is opened twice or used while it is not open.\<close>

fun handles_after :: "handle set \<Rightarrow> action list \<Rightarrow> handle set option" where
  "handles_after S [] = Some S"
| "handles_after S (Opened h # t) = (if h \<in> S then None else handles_after (insert h S) t)"
| "handles_after S (Closed h # t) = (if h \<in> S then handles_after (S - {h}) t else None)"
| "handles_after S (Created_Suspended # t) = handles_after S t"
| "handles_after S (Assigned # t) = (if H_Process \<in> S \<and> H_Job \<in> S then handles_after S t else None)"
| "handles_after S (Resumed # t) = (if H_Thread \<in> S then handles_after S t else None)"
| "handles_after S (Terminated # t) = (if H_Process \<in> S then handles_after S t else None)"
| "handles_after S (Waited # t) = (if H_Process \<in> S then handles_after S t else None)"

lemma handles_after_append:
  "handles_after S (xs @ ys) = Option.bind (handles_after S xs) (\<lambda>S'. handles_after S' ys)"
  by (induction S xs rule: handles_after.induct) simp_all

text \<open>A process only runs inside its job.\<close>

fun confined :: "bool \<Rightarrow> action list \<Rightarrow> bool" where
  "confined inside [] = True"
| "confined inside (a # t) =
     (if a = Assigned then confined True t else if a = Resumed then inside \<and> confined inside t else confined inside t)"

text \<open>A process that was created is terminated or waited for.\<close>

definition settled :: "action list \<Rightarrow> bool" where
  "settled t \<longleftrightarrow> (Created_Suspended \<in> set t \<longrightarrow> Terminated \<in> set t \<or> Waited \<in> set t)"

lemmas launch_steps = create_kill_on_close_def assign_process_def create_inheritable_write_def

lemma start_worker_error:
  assumes "start_worker os exe = (Inl e, t)"
  shows "handles_after {} t = Some {} \<and> confined False t \<and> settled t"
  using assms
  by (auto simp: start_worker_def launch_steps Let_def settled_def split: option.splits sum.splits)

lemma start_worker_running:
  assumes "start_worker os exe = (Inr u, t)"
  shows "t = [Opened H_Read, Opened H_Write, Created_Suspended, Opened H_Process, Opened H_Thread, Closed H_Write,
    Opened H_Job, Assigned, Resumed, Closed H_Thread]"
  using assms by (auto simp: start_worker_def launch_steps Let_def split: option.splits sum.splits)

lemma wait_trace: "wait_for_exit os = (r, t) \<Longrightarrow> t = [Waited] \<and> r = (case la_wait os of Some c \<Rightarrow> Inr c | None \<Rightarrow> Inl Ipc_Timeout)"
  by (auto simp: wait_for_exit_def split: option.splits)

lemma launch_trace:
  assumes "launch_scan_worker_with_progress fo dr lower cb oid now stamp start os exe stream = Some (r, progress, t)"
  shows "handles_after {} t = Some {} \<and> confined False t \<and> settled t
    \<and> (\<forall>g. r = Inr g \<longrightarrow> Resumed \<in> set t \<and> la_wait os = Some (expected_exit_code (t_outcome (dg_terminal g))))"
proof (cases "start_worker os exe")
  case (Pair s ts)
  show ?thesis
  proof (cases s)
    case (Inl e)
    with assms Pair start_worker_error show ?thesis by (auto simp: launch_scan_worker_with_progress_def)
  next
    case (Inr u)
    note running = start_worker_running [OF Pair [unfolded Inr]]
    show ?thesis
    proof (cases "reader_new stream")
      case (Inl e)
      with assms Pair Inr running show ?thesis
        by (auto simp: launch_scan_worker_with_progress_def settled_def wait_for_exit_def split: option.splits)
    next
      case rd: (Inr rd)
      obtain res prog where b: "build_from_reader_with_progress fo dr lower cb oid now stamp start rd = Some (res, prog)"
        using assms Pair Inr rd by (auto simp: launch_scan_worker_with_progress_def Let_def)
      show ?thesis
      proof (cases "la_wait os")
        case None
        then have "r = Inl WorkerTimeout" "t = ts @ [Closed H_Read, Waited, Terminated, Closed H_Process, Closed H_Job]"
          using assms Pair Inr rd b by (simp_all add: launch_scan_worker_with_progress_def Let_def wait_for_exit_def)
        with running show ?thesis by (simp add: settled_def insert_Diff_if)
      next
        case (Some code)
        then have t: "t = ts @ [Closed H_Read, Waited, Closed H_Process, Closed H_Job]"
          using assms Pair Inr rd b by (simp add: launch_scan_worker_with_progress_def Let_def wait_for_exit_def)
        have "la_wait os = Some (expected_exit_code (t_outcome (dg_terminal g)))" if "r = Inr g" for g
          using assms Pair Inr rd b Some that
          by (cases res) (auto simp: launch_scan_worker_with_progress_def Let_def wait_for_exit_def split: if_splits)
        with running t show ?thesis by (auto simp: settled_def insert_Diff_if)
      qed
    qed
  qed
qed

lemma spawn_engine_trace:
  "handles_after {H_Job, H_Read} (snd (spawn_engine os exe))
     = Some (case fst (spawn_engine os exe) of Inl _ \<Rightarrow> {H_Job, H_Read} | Inr _ \<Rightarrow> {H_Job, H_Read, H_Process})
   \<and> confined False (snd (spawn_engine os exe))
   \<and> (\<forall>e. fst (spawn_engine os exe) = Inl e \<longrightarrow> settled (snd (spawn_engine os exe)))"
  by (auto simp: spawn_engine_def launch_steps Let_def settled_def split: option.splits sum.splits)

text \<open>
  C27: Child processes are started safely. On every path, whatever the system answers, the launch of
  the worker closes each handle it opened exactly once and uses none that is closed; a process never
  runs outside of its kill-on-close job, and one that was created is terminated or waited for. A
  graph is only returned for a worker that ran and ended with the exit code of the outcome it
  reported. Starting the engine keeps the same discipline and leaves only the process handle.
\<close>

theorem children_launched_safely:
  assumes "launch_scan_worker_with_progress fo dr lower cb oid now stamp start os exe stream = Some (r, progress, t)"
  shows "handles_after {} t = Some {} \<and> confined False t \<and> settled t
    \<and> (\<forall>g. r = Inr g \<longrightarrow> Resumed \<in> set t \<and> la_wait os = Some (expected_exit_code (t_outcome (dg_terminal g))))
    \<and> handles_after {H_Job, H_Read} (snd (spawn_engine os engine))
       = Some (case fst (spawn_engine os engine) of Inl _ \<Rightarrow> {H_Job, H_Read} | Inr _ \<Rightarrow> {H_Job, H_Read, H_Process})
    \<and> confined False (snd (spawn_engine os engine))
    \<and> (\<forall>e. fst (spawn_engine os engine) = Inl e \<longrightarrow> settled (snd (spawn_engine os engine)))"
  using launch_trace [OF assms] spawn_engine_trace [of os engine] by simp

definition refusing_answers :: launch_answers where
  "refusing_answers = \<lparr>la_create_pipe = None, la_set_inherit = None, la_init_attributes = None,
     la_update_attributes = None, la_create_process = Inr 7, la_create_job = None, la_set_job_limit = None,
     la_assign = Some 5, la_resume = None, la_creation_time = Inr 0, la_wait = None, la_format_message = (\<lambda>_. [])\<rparr>"

theorem children_launched_safely_witness:
  "\<exists>r t. launch_scan_worker_with_progress rev rev (\<lambda>s. s) False [] (\<lambda>_. 0) (\<lambda>_. []) 0 refusing_answers ''w'' (of_bytes [])
      = Some (r, [], t) \<and> Terminated \<in> set t \<and> handles_after {} t = Some {}"
proof -
  have "\<exists>r t. launch_scan_worker_with_progress rev rev (\<lambda>s. s) False [] (\<lambda>_. 0) (\<lambda>_. []) 0 refusing_answers ''w'' (of_bytes [])
      = Some (r, [], t) \<and> Terminated \<in> set t"
    by (simp add: launch_scan_worker_with_progress_def start_worker_def launch_steps refusing_answers_def Let_def)
  then show ?thesis using children_launched_safely by metis
qed

end
