(* ===== verification/Scan_Run.thy ===== *)
theory Scan_Run
  imports Worker_Properties Launch
begin

text \<open>
  A whole scan across its two processes: the engine's command line reaches the worker, what the
  worker writes is read back, and the engine returns the graph of the records the worker meant.
\<close>

section \<open>The worker writes its records\<close>

lemma write_records_ok:
  assumes "\<forall>x \<in> set recs. wf_record x"
  shows "\<exists>sink'. write_seq (map write_record recs) sink = (None, sink')"
  using assms
proof (induction recs arbitrary: sink)
  case (Cons x recs)
  then show ?case using write_record_appends [of x sink] by simp
qed simp

lemma worker_main_writes:
  assumes args: "parse_worker_args (drop 1 args) = Inr parsed"
    and target: "validate_scan_target target_os (wa_target parsed) = Inr t"
    and recs: "scan_records fuel os t = Some recs" "\<forall>x \<in> set recs. wf_record x"
    and short: "short_string (wa_target parsed)"
  shows "\<exists>final. last recs = Obs_Terminal final \<and> worker_main fuel target_os os args
    = Some (exit_code_of (t_outcome final), snd (write_observations (wa_target parsed) recs []))"
proof -
  obtain outcome k where w: "scan_walk fuel os t = Some (outcome, k)"
    and r: "recs = k_records k @ [Obs_Terminal (terminal os outcome k)]"
    using recs(1) by (auto simp: scan_records_def)
  obtain head where head: "writer_new (wa_target parsed) [] = (None, head)"
    using writer_new_bytes [OF short, of "[]"] by auto
  obtain sink where sink: "write_seq (map write_record recs) head = (None, sink)"
    using write_records_ok [OF recs(2)] by blast
  have d: "scan_directory fuel target_os os (wa_target parsed) head = Some (Inr (terminal os outcome k), sink)"
    using sink unfolding r by (simp add: scan_directory_def target w)
  have "worker_main fuel target_os os args = Some (exit_code_of (t_outcome (terminal os outcome k)), sink)"
    unfolding worker_main_def args by (simp add: target head d)
  moreover have "snd (write_observations (wa_target parsed) recs []) = sink"
    by (simp add: write_observations_def head sink)
  ultimately show ?thesis using r by simp
qed

section \<open>The engine reads them\<close>

lemma launch_reads:
  assumes started: "start_worker answers exe = (Inr u, trace)" and waited: "la_wait answers = Some code"
    and new: "reader_new stream = Inr rd"
    and built: "build_from_reader_with_progress fo dr to_lowercase has_callback oid now stamp start rd = Some (Inr g, reports)"
    and code: "code = expected_exit_code (t_outcome (dg_terminal g))"
  shows "\<exists>t. launch_scan_worker_with_progress fo dr to_lowercase has_callback oid now stamp start answers exe stream
    = Some (Inr g, reports, t)"
  using assms by (simp add: launch_scan_worker_with_progress_def wait_for_exit_def Let_def)

lemma exit_codes_agree: "word_of_nat (exit_code_of outcome) = expected_exit_code outcome"
  by (simp add: exit_code_of_def expected_exit_code_def split: run_outcome.splits)

lemma ingest_ends_with_terminal:
  "ingest_all (xs @ [Obs_Terminal final]) b = (None, self) \<Longrightarrow> b_terminal self = Some final"
proof (induction xs arbitrary: b)
  case Nil
  then show ?case using ingest_terminal_result [of final b]
    by (auto simp: ingest_record_def split: if_splits)
next
  case (Cons x xs)
  then show ?case by (cases "ingest_record x b") (auto split: option.splits)
qed

text \<open>
  What a graph says of a stream of records: its entries with their attributes, in order and found
  under their identifiers, the gaps and the terminal record; the sizes of every entry, with each
  identity of its subtree counted once; and one object for every identity. The builder that has
  ingested the stream gives the subtrees.
\<close>

definition describes :: "directory_graph \<Rightarrow> observation_record list \<Rightarrow> graph_builder \<Rightarrow> bool" where
  "describes g recs self \<longleftrightarrow>
     map entry_view (storage_entries (dg_storage g)) = map entry_view (observed_entries recs)
     \<and> dg_gaps g = observed_gaps recs \<and> last recs = Obs_Terminal (dg_terminal g)
     \<and> (\<forall>i < length (observed_entries recs). let eid = c_id (observed_entries recs ! i) in
          map_option entry_view (storage_get (dg_storage g) eid) = Some (entry_view (observed_entries recs ! i))
          \<and> entry_sizes_at g eid = Some (observed_unique self (subtree self i),
              min (\<Sum>x \<leftarrow> subtree self i. alloc_claim self x) (2 ^ 64 - 1),
              min (\<Sum>x \<leftarrow> subtree self i. logical_claim self x) (2 ^ 64 - 1)))
     \<and> (\<forall>obj \<in> set (b_file_object_map self). bucket_object self obj \<in> set (dg_objects g))"

lemma graph_describes:
  assumes g: "graph_of f self final g" and ref: "refines recs self" and last: "last recs = Obs_Terminal (dg_terminal g)"
    and ids: "\<forall>e \<in> set (observed_entries recs). c_id e \<noteq> 0"
  shows "describes g recs self"
proof -
  have wf: "wf_builder self" and es: "b_entries self = observed_entries recs" and gaps: "b_gaps self = observed_gaps recs"
    using ref by (simp_all add: refines_def)
  note s = wf_shape [OF wf]
  have view: "map entry_view (storage_entries (dg_storage g)) = map entry_view (observed_entries recs)" "dg_gaps g = observed_gaps recs"
  proof -
    have "(map entry_view (storage_entries (dg_storage g)), dg_gaps g) = observed_part self"
      using g unfolding graph_of_def by blast
    then show "map entry_view (storage_entries (dg_storage g)) = map entry_view (observed_entries recs)" "dg_gaps g = observed_gaps recs"
      by (simp_all add: observed_part_def es gaps)
  qed
  then have n: "builder_len final = builder_len self"
    using graph_storage(2) [OF g s] map_eq_imp_length_eq [OF view(1)] es by simp
  have "bucket_object self obj \<in> set (dg_objects g)" if "obj \<in> set (b_file_object_map self)" for obj
    using graph_ofD(4) [OF g] that unfolding objects_of_def by (metis nth_mem)
  moreover have "map_option entry_view (storage_get (dg_storage g) (c_id (observed_entries recs ! i))) = Some (entry_view (observed_entries recs ! i))
      \<and> entry_sizes_at g (c_id (observed_entries recs ! i)) = Some (observed_unique self (subtree self i),
          min (\<Sum>x \<leftarrow> subtree self i. alloc_claim self x) (2 ^ 64 - 1), min (\<Sum>x \<leftarrow> subtree self i. logical_claim self x) (2 ^ 64 - 1))"
    if i: "i < length (observed_entries recs)" for i
  proof -
    have nz: "c_id (b_entries self ! i) \<noteq> 0" and i': "i < builder_len self" using ids i by (simp_all add: es)
    have "entry_view (b_entries final ! i) = entry_view (observed_entries recs ! i)"
      using arg_cong [OF view(1), of "\<lambda>xs. xs ! i"] graph_storage(2) [OF g s] i n by (simp add: es)
    then show ?thesis
      using graph_get_at [OF g s i' nz] entry_sizes [OF wf g i' nz] by (simp add: es)
  qed
  ultimately show ?thesis using view last unfolding describes_def Let_def by blast
qed

lemma scan_graph:
  assumes recs: "scan_records fuel os t = Some recs" "length recs < 2 ^ 32 - 1"
    "totals_agree (file_sizes (observed_entries recs))" "totals_agree (alloc_sizes (observed_entries recs))"
    and visited: "observed_entries recs \<noteq> []" and orders: "any_order fo" "any_order dr"
    and self: "self = snd (ingest_all recs (builder_new target))" "object_bytes self < 2 ^ 64"
  obtains g where "ingest_all recs (builder_new target) = (None, self)"
    "finish fo dr to_lowercase self = Some (Inr g)" "describes g recs self"
proof -
  have "spec_run [] recs = None" using scan_records_outcome(1) [OF recs(1,2)] recs(3,4) by blast
  then have run: "ingest_all recs (builder_new target) = (None, self)" and ref: "refines recs self"
    using ingest_all_refines [OF refines_new, of recs target] recs(2) self(1)
    by (cases "ingest_all recs (builder_new target)"; auto)+
  have acc: "accepted recs target self" using run recs(2) by (simp add: accepted_def)
  obtain outcome k where r: "recs = k_records k @ [Obs_Terminal (terminal os outcome k)]"
    using recs(1) by (auto simp: scan_records_def)
  have fields: "b_terminal self = Some (terminal os outcome k)" "b_entries self = observed_entries recs"
    using ingest_ends_with_terminal run ref unfolding r by (blast, simp add: refines_def)
  obtain final g where g: "finish fo dr to_lowercase self = Some (Inr g)" "graph_of to_lowercase self final g"
    by (rule accepted_graph [OF acc _ _ orders self(2), where f = to_lowercase]) (use fields visited in simp_all)
  have last: "last recs = Obs_Terminal (dg_terminal g)" using g(2) fields(1) by (simp add: graph_of_def r)
  have "c_id e \<noteq> 0" if "e \<in> set (observed_entries recs)" for e
  proof -
    have "unat (c_id e) \<in> set [1..<Suc (length (observed_entries recs))]"
      using scan_ids [OF recs(1,2)] that by (metis comp_apply image_eqI set_map)
    then show ?thesis by auto
  qed
  then show ?thesis by (intro that [OF run g(1)] graph_describes [OF g(2) ref last]) blast
qed

section \<open>A sample run\<close>

text \<open>An empty directory whose worker ends in time.\<close>

definition empty_volume :: scan_os where
  "empty_volume = tiny_os\<lparr>so_find_first := (\<lambda>_ _. Inl 2)\<rparr>"

definition willing_answers :: launch_answers where
  "willing_answers = refusing_answers\<lparr>la_assign := None, la_wait := Some 0\<rparr>"

lemma empty_scan:
  assumes "vt_display_path t = ''C:/data''"
  obtains d where "scan_records 1 empty_volume t = Some [Obs_Directory d, Obs_Terminal
      \<lparr>t_outcome = Finished, t_total_directories = 1, t_total_files = 0, t_total_logical_bytes = 0,
        t_total_allocated_bytes = 0, t_coverage_gap_count = 0, t_duration_ms = 3\<rparr>]"
    "d_name d = ''C:/data''" "d_object_id d = None" "d_allocated_size d = None"
proof -
  have os: "so_cancelled empty_volume n = False" "so_open empty_volume n p = Some 5" "so_find_first empty_volume n p = Inl 2"
    "so_root_find empty_volume p = Some (tiny_find 0x10 0x52)" "vq_path_name (so_volume empty_volume) w = None" 
    "so_duration_ms empty_volume = 3" for n p w
    by (simp_all add: empty_volume_def tiny_os_def)
  have "enumerate_directory_legacy empty_volume p v n = (Enum_Success [], n + 1)" for p v n
    by (simp add: enumerate_directory_legacy_def os worker_consts)
  then show ?thesis
    by (intro that [of "root_observation ''C:/data'' (0x10, 0, 0, 0, 0) None None"])
      (simp_all add: scan_records_def scan_walk_def os root_attributes_def tiny_find_def tiny_facts_attributes
        filetime_to_unix_ms_def resolve_volume_context_def root_evidence_def walk_loop.simps walk_root_def assms
        visit_directory_def choose_class_def enumerate_by_class_def add_allocated_def emit_def walk_start_def
        terminal_def root_observation_def Let_def)
qed

section \<open>The property\<close>

text \<open>
  C2: A scan across the two processes. The worker is run with the command line the engine builds
  for a target the worker accepts, its records fit their fields, its totals have not wrapped around,
  and the distinct objects hold fewer than 2^64 bytes. When the worker ends, having visited the root
  of its target, and its exit code reaches the engine, the engine returns a graph that describes the
  records the worker meant: their entries with names, parents, kinds, attributes and times, each
  found under its identifier and with the sizes of its subtree, the gaps, an object for every file
  identity, and the terminal record; for every order of the hash maps and with or without progress
  reports.
\<close>

theorem scan_run_yields_graph:
  assumes "quote \<notin> set exe" and "CHR 0x00 \<notin> set exe" and "CHR 0x00 \<notin> set target"
    and "h_write < 2 ^ 64" and "h_cancel < 2 ^ 64" and "short_string target"
    and "validate_scan_target target_os target = Inr t"
    and "worker_main fuel target_os os (process_args (worker_command_line exe target h_write h_cancel)) = Some (code, bytes)"
    and "scan_records fuel os t = Some recs" and "\<forall>x \<in> set recs. wf_record x" and "length recs < 2 ^ 32 - 1"
    and "totals_agree (file_sizes (observed_entries recs))" and "totals_agree (alloc_sizes (observed_entries recs))"
    and "observed_entries recs \<noteq> []"
    and "self = snd (ingest_all recs (builder_new target))" and "object_bytes self < 2 ^ 64"
    and "start_worker answers exe = (Inr u, trace)" and "la_wait answers = Some (word_of_nat code)"
    and "any_order fo" and "any_order dr"
  shows "\<exists>g reports t'. launch_scan_worker_with_progress fo dr to_lowercase has_callback oid now stamp start answers exe
      (of_bytes bytes) = Some (Inr g, reports, t')
    \<and> describes g recs self \<and> code = exit_code_of (t_outcome (dg_terminal g))"
proof -
  have args: "parse_worker_args (drop 1 (process_args (worker_command_line exe target h_write h_cancel)))
      = Inr \<lparr>wa_target = target, wa_pipe_handle = h_write, wa_cancel_event_handle = h_cancel\<rparr>"
    by (rule worker_args_arrive [OF assms(1-5)])
  obtain final where bytes: "bytes = snd (write_observations target recs [])"
    and code: "last recs = Obs_Terminal final" "code = exit_code_of (t_outcome final)"
    using worker_main_writes [OF args _ assms(9,10), of target_os] assms(6-8) by auto
  obtain g where self: "ingest_all recs (builder_new target) = (None, self)"
    and g: "finish fo dr to_lowercase self = Some (Inr g)" "describes g recs self"
    by (rule scan_graph [OF assms(9,11-14,19,20,15,16)])
  obtain rd reports where "reader_new (of_bytes bytes) = Inr rd"
    and "build_from_reader_with_progress fo dr to_lowercase has_callback oid now stamp start rd = Some (Inr g, reports)"
    using read_written_stream [OF assms(6,10), of fo dr to_lowercase has_callback oid now stamp start] self g(1)
    unfolding bytes by auto
  moreover have "last recs = Obs_Terminal (dg_terminal g)" using g(2) by (simp add: describes_def)
  ultimately show ?thesis
    using launch_reads [OF assms(17,18)] code g(2) exit_codes_agree by fastforce
qed

theorem scan_run_yields_graph_witness:
  "\<exists>code bytes g reports t'. worker_main 1 sample_os empty_volume
        (process_args (worker_command_line ''w.exe'' ''C:/data'' 64 72)) = Some (code, bytes)
    \<and> launch_scan_worker_with_progress rev rev (\<lambda>s. s) False [] (\<lambda>_. 0) (\<lambda>_. []) 0 willing_answers ''w.exe'' (of_bytes bytes)
      = Some (Inr g, reports, t') \<and> t_total_directories (dg_terminal g) = 1 \<and> map c_name (storage_entries (dg_storage g)) = [''C:/data'']"
proof -
  obtain t where t: "validate_scan_target sample_os ''C:/data'' = Inr t" "vt_display_path t = ''C:/data''"
    by (rule sample_os_accepts)
  obtain d where d: "scan_records 1 empty_volume t = Some [Obs_Directory d, Obs_Terminal
      \<lparr>t_outcome = Finished, t_total_directories = 1, t_total_files = 0, t_total_logical_bytes = 0,
        t_total_allocated_bytes = 0, t_coverage_gap_count = 0, t_duration_ms = 3\<rparr>]" (is "_ = Some ?recs")
    "d_name d = ''C:/data''" "d_object_id d = None" "d_allocated_size d = None" by (rule empty_scan [OF t(2)])
  have short: "short_string ''C:/data''" by (simp add: short_string_def rust_string_ascii as_bytes_def)
  have wf: "\<forall>x \<in> set ?recs. wf_record x" using d(2,3) short by (simp add: wf_oid_def)
  have args: "parse_worker_args (drop 1 (process_args (worker_command_line ''w.exe'' ''C:/data'' 64 72)))
      = Inr \<lparr>wa_target = ''C:/data'', wa_pipe_handle = 64, wa_cancel_event_handle = 72\<rparr>"
    by (rule worker_args_arrive) simp_all
  obtain bytes where main: "worker_main 1 sample_os empty_volume
      (process_args (worker_command_line ''w.exe'' ''C:/data'' 64 72)) = Some (0, bytes)"
    using worker_main_writes [OF args _ d(1) wf, of sample_os] t(1) short by (auto simp: exit_code_of_def)
  obtain u trace where run: "start_worker willing_answers ''w.exe'' = (Inr u, trace)"
    by (simp add: start_worker_def launch_steps willing_answers_def refusing_answers_def Let_def)
  have entries: "observed_entries ?recs = [directory_entry d]" by (simp add: observed_defs List.map_filter_def)
  have sums: "(\<Sum>x \<leftarrow> file_sizes (observed_entries ?recs). unat x) < 2 ^ 64" "(\<Sum>x \<leftarrow> alloc_sizes (observed_entries ?recs). unat x) < 2 ^ 64"
    unfolding entries using d(4) by (simp_all add: file_sizes_def alloc_sizes_def directory_entry_def opt_bytes_def)
  let ?self = "snd (ingest_all ?recs (builder_new ''C:/data''))"
  have len: "length ?recs < 2 ^ 32 - 1" by simp
  have "spec_run [] ?recs = None"
    using scan_records_outcome(1) [OF d(1) len] totals_fit [OF sums(1)] totals_fit [OF sums(2)] by blast
  then have "fst (ingest_all ?recs (builder_new ''C:/data'')) = None"
    using ingest_all_refines [OF refines_new, of ?recs "''C:/data''"] len by simp
  then have acc: "accepted ?recs ''C:/data'' ?self" unfolding accepted_def using len prod.collapse by metis
  have small: "object_bytes ?self < 2 ^ 64" by (rule scan_object_bytes [OF acc _ sums(2)]) (simp add: entries)
  obtain g reports t' where g: "launch_scan_worker_with_progress rev rev (\<lambda>s. s) False [] (\<lambda>_. 0) (\<lambda>_. []) 0 willing_answers ''w.exe''
      (of_bytes bytes) = Some (Inr g, reports, t')" "describes g ?recs ?self"
    using scan_run_yields_graph [OF _ _ _ _ _ short t(1) main d(1) wf len totals_fit [OF sums(1)] totals_fit [OF sums(2)] _ refl small run,
        of rev rev "\<lambda>s. s" False "[]" "\<lambda>_. 0" "\<lambda>_. []" 0]
    by (auto simp: any_order_def willing_answers_def entries)
  have "map c_name (storage_entries (dg_storage g)) = map (fst \<circ> snd \<circ> snd) (map entry_view (storage_entries (dg_storage g)))"
    by (simp add: entry_view_def comp_def)
  also have "\<dots> = [''C:/data'']"
    using g(2) d(2) by (simp add: describes_def entries entry_view_def directory_entry_def Let_def del: map_map)
  finally have "map c_name (storage_entries (dg_storage g)) = [''C:/data'']" .
  moreover have "Obs_Terminal (dg_terminal g) = last ?recs" using g(2) by (simp add: describes_def)
  then have "t_total_directories (dg_terminal g) = 1" by simp
  ultimately show ?thesis using main g(1)
    by (intro exI [of _ 0] exI [of _ bytes] exI [of _ g] exI [of _ reports] exI [of _ t'] conjI)
qed

end
