(* ===== verification/Pipe.thy ===== *)
theory Pipe
  imports Error_Text
begin

text \<open>
  The named pipe streams of \<^verbatim>\<open>crates/pigtree-ipc/src/pipe.rs\<close>. The answers of the operating
  system are arguments; beside its result every operation yields the calls it makes, so that the
  handling of overlapped requests and handles can be stated.
\<close>

section \<open>Constants and names\<close>

definition ERROR_FILE_NOT_FOUND :: u32 where "ERROR_FILE_NOT_FOUND = 2"
definition ERROR_BROKEN_PIPE :: u32 where "ERROR_BROKEN_PIPE = 109"
definition ERROR_PIPE_BUSY :: u32 where "ERROR_PIPE_BUSY = 231"
definition ERROR_PIPE_NOT_CONNECTED :: u32 where "ERROR_PIPE_NOT_CONNECTED = 233"
definition ERROR_PIPE_CONNECTED :: u32 where "ERROR_PIPE_CONNECTED = 535"
definition ERROR_IO_PENDING :: u32 where "ERROR_IO_PENDING = 997"
definition WAIT_OBJECT_0 :: u32 where "WAIT_OBJECT_0 = 0"
definition WAIT_TIMEOUT :: u32 where "WAIT_TIMEOUT = 258"
definition INFINITE :: u32 where "INFINITE = 0xFFFFFFFF"

lemmas win32_consts = ERROR_FILE_NOT_FOUND_def ERROR_BROKEN_PIPE_def ERROR_PIPE_BUSY_def
  ERROR_PIPE_NOT_CONNECTED_def ERROR_PIPE_CONNECTED_def ERROR_IO_PENDING_def WAIT_OBJECT_0_def
  WAIT_TIMEOUT_def INFINITE_def

definition format_pipe_name :: "string \<Rightarrow> string" where
  \<open>format_pipe_name session_id =
     [backslash, backslash] @ ''.'' @ [backslash] @ ''pipe'' @ [backslash] @ ''pigtree-engine-'' @ session_id\<close>

datatype pipe_role = Server | Client

text \<open>A call answered with a value or with the code of \<open>GetLastError\<close>.\<close>

definition get_client_pid :: "u32 + u32 \<Rightarrow> ipc_error + u32" where
  "get_client_pid os = map_err (\<lambda>code. Ipc_Win32 code ''GetNamedPipeClientProcessId failed'') os"

definition get_server_pid :: "u32 + u32 \<Rightarrow> ipc_error + u32" where
  "get_server_pid os = map_err (\<lambda>code. Ipc_Win32 code ''GetNamedPipeServerProcessId failed'') os"

definition get_client_session_id :: "u32 + u32 \<Rightarrow> ipc_error + u32" where
  "get_client_session_id os = map_err (\<lambda>code. Ipc_Win32 code ''GetNamedPipeClientSessionId failed'') os"

definition get_server_session_id :: "u32 + u32 \<Rightarrow> ipc_error + u32" where
  "get_server_session_id os = map_err (\<lambda>code. Ipc_Win32 code ''GetNamedPipeServerSessionId failed'') os"

section \<open>Looking ahead\<close>

text \<open>
  \<open>PeekNamedPipe\<close> answers with an error, or with the bytes it copied and the number of bytes that
  wait in the pipe.
\<close>

definition has_incoming_data :: "u32 + (u8 list \<times> nat) \<Rightarrow> ipc_error + bool" where
  "has_incoming_data os = (case os of
     Inl err \<Rightarrow>
       if err = ERROR_BROKEN_PIPE \<or> err = ERROR_PIPE_NOT_CONNECTED then Inr False
       else Inl (Ipc_Win32 err ''PeekNamedPipe failed'')
   | Inr (_, bytes_avail) \<Rightarrow> Inr (bytes_avail > 0))"

datatype frame_readiness = Empty | Partial | Complete

definition peek_frame_readiness :: "u32 + (u8 list \<times> nat) \<Rightarrow> ipc_error + frame_readiness" where
  "peek_frame_readiness os = (case os of
     Inl err \<Rightarrow>
       if err = ERROR_BROKEN_PIPE \<or> err = ERROR_PIPE_NOT_CONNECTED then Inl (Ipc_Io Io_BrokenPipe)
       else Inl (Ipc_Win32 err ''PeekNamedPipe failed'')
   | Inr (header_buf, bytes_avail) \<Rightarrow>
       if bytes_avail = 0 then Inr Empty
       else if bytes_avail < HEADER_SIZE then Inr Partial
       else if length header_buf < HEADER_SIZE then Inr Partial
       else let magic = [header_buf ! 0, header_buf ! 1]
       in if magic \<noteq> MAGIC then Inl (Ipc_Protocol (InvalidMagic magic))
       else let version = from_le_bytes [header_buf ! 2, header_buf ! 3]
       in if version \<noteq> SCHEMA_VERSION then Inl (Ipc_Protocol (UnsupportedVersion version))
       else and_then (map_err Ipc_Protocol (channel_tag_from_u8 (header_buf ! 4))) (\<lambda>_.
         let reserved = from_le_bytes [header_buf ! 6, header_buf ! 7]
         in if reserved \<noteq> 0 then Inl (Ipc_Protocol (InvalidReserved reserved))
         else let payload_len = unat (from_le_bytes [header_buf ! 16, header_buf ! 17,
                                        header_buf ! 18, header_buf ! 19] :: u32)
         in if payload_len > MAX_PAYLOAD_SIZE then Inl (Ipc_Protocol (PayloadTooLarge payload_len))
         else let total_frame_len = HEADER_SIZE + payload_len + CRC_SIZE
         in if bytes_avail < total_frame_len then Inr Partial else Inr Complete))"

text \<open>The answer for a pipe in which exactly these bytes wait.\<close>

abbreviation pipe_holding :: "u8 list \<Rightarrow> u32 + (u8 list \<times> nat)" where
  "pipe_holding bs \<equiv> Inr (take HEADER_SIZE bs, length bs)"

section \<open>Overlapped requests\<close>

text \<open>
  What the system answers to one request: whether the event could be created, the outcome of
  starting the request, of waiting for it and of asking for its result, and the code
  \<open>GetLastError\<close> gives after a failed creation or wait.
\<close>

record 'a io_answers =
  io_event :: bool
  io_start :: "u32 + 'a"
  io_wait :: u32
  io_result :: "u32 + 'a"
  io_last_error :: u32

datatype start_outcome = Finished | Refused | Pending

datatype io_call =
    Create_event bool
  | Start_io start_outcome
  | Wait_objects nat u32 u32
  | Get_result bool
  | Cancel_io
  | Close_event

definition wait_timeout :: "u32 option \<Rightarrow> u32" where
  "wait_timeout timeout_ms = (case timeout_ms of Some t \<Rightarrow> t | None \<Rightarrow> INFINITE)"

definition read_overlapped ::
  "u8 list io_answers \<Rightarrow> nat \<Rightarrow> bool \<Rightarrow> u32 option \<Rightarrow> (ipc_error + u8 list) \<times> io_call list" where
  "read_overlapped os buf_len has_cancel timeout_ms =
     (if buf_len = 0 then (Inr [], [])
      else if \<not> io_event os then (Inl (Ipc_Win32 (io_last_error os) ''CreateEventW failed''), [Create_event False])
      else case io_start os of
        Inr bytes_read \<Rightarrow> (Inr bytes_read, [Create_event True, Start_io Finished, Close_event])
      | Inl err \<Rightarrow>
          if err = ERROR_BROKEN_PIPE then (Inr [], [Create_event True, Start_io Refused, Close_event])
          else if err \<noteq> ERROR_IO_PENDING
          then (Inl (Ipc_Win32 err ''ReadFile failed''), [Create_event True, Start_io Refused, Close_event])
          else
            let handle_count = (if has_cancel then 2 else 1);
                wait_res = io_wait os;
                calls = [Create_event True, Start_io Pending,
                         Wait_objects handle_count (wait_timeout timeout_ms) wait_res]
            in if wait_res = WAIT_OBJECT_0 then
                 ((case io_result os of
                     Inr transferred \<Rightarrow> Inr transferred
                   | Inl err \<Rightarrow> if err = ERROR_BROKEN_PIPE then Inr []
                                else Inl (Ipc_Win32 err ''GetOverlappedResult failed'')),
                  calls @ [Get_result False, Close_event])
               else if handle_count = 2 \<and> wait_res = WAIT_OBJECT_0 + 1 then
                 (Inl Ipc_Cancelled, calls @ [Cancel_io, Get_result True, Close_event])
               else if wait_res = WAIT_TIMEOUT then
                 (Inl Ipc_Timeout, calls @ [Cancel_io, Get_result True, Close_event])
               else (Inl (Ipc_Win32 (io_last_error os) ''WaitForMultipleObjects failed''),
                     calls @ [Cancel_io, Get_result True, Close_event]))"

definition write_overlapped ::
  "nat io_answers \<Rightarrow> u8 list \<Rightarrow> bool \<Rightarrow> u32 option \<Rightarrow> (ipc_error + nat) \<times> io_call list" where
  "write_overlapped os buf has_cancel timeout_ms =
     (if buf = [] then (Inr 0, [])
      else if \<not> io_event os then (Inl (Ipc_Win32 (io_last_error os) ''CreateEventW failed''), [Create_event False])
      else case io_start os of
        Inr written \<Rightarrow> (Inr written, [Create_event True, Start_io Finished, Close_event])
      | Inl err \<Rightarrow>
          if err = ERROR_BROKEN_PIPE
          then (Inl (Ipc_Io Io_BrokenPipe), [Create_event True, Start_io Refused, Close_event])
          else if err \<noteq> ERROR_IO_PENDING
          then (Inl (Ipc_Win32 err ''WriteFile failed''), [Create_event True, Start_io Refused, Close_event])
          else
            let handle_count = (if has_cancel then 2 else 1);
                wait_res = io_wait os;
                calls = [Create_event True, Start_io Pending,
                         Wait_objects handle_count (wait_timeout timeout_ms) wait_res]
            in if wait_res = WAIT_OBJECT_0 then
                 ((case io_result os of
                     Inr transferred \<Rightarrow> Inr transferred
                   | Inl err \<Rightarrow> if err = ERROR_BROKEN_PIPE then Inl (Ipc_Io Io_BrokenPipe)
                                else Inl (Ipc_Win32 err ''GetOverlappedResult write failed'')),
                  calls @ [Get_result False, Close_event])
               else if handle_count = 2 \<and> wait_res = WAIT_OBJECT_0 + 1 then
                 (Inl Ipc_Cancelled, calls @ [Cancel_io, Get_result True, Close_event])
               else if wait_res = WAIT_TIMEOUT then
                 (Inl Ipc_Timeout, calls @ [Cancel_io, Get_result True, Close_event])
               else (Inl (Ipc_Win32 (io_last_error os) ''WaitForMultipleObjects failed on write''),
                     calls @ [Cancel_io, Get_result True, Close_event]))"

text \<open>
  The loops over them; the \<open>i\<close>-th request gets the \<open>i\<close>-th answers. \<open>None\<close> is the panic of
  slicing past the end of the buffer.
\<close>

function read_exact_interruptible ::
  "(nat \<Rightarrow> u8 list io_answers) \<Rightarrow> nat \<Rightarrow> nat \<Rightarrow> bool \<Rightarrow> u32 option \<Rightarrow> (ipc_error + u8 list) option" where
  "read_exact_interruptible os i n has_cancel timeout_ms =
     (if n = 0 then Some (Inr [])
      else case fst (read_overlapped (os i) n has_cancel timeout_ms) of
        Inl e \<Rightarrow> Some (Inl e)
      | Inr bs \<Rightarrow>
          if bs = [] then Some (Inl (Ipc_Protocol PrematureEof))
          else if length bs > n then None
          else map_option (\<lambda>r. and_then r (\<lambda>rest. Inr (bs @ rest)))
                 (read_exact_interruptible os (Suc i) (n - length bs) has_cancel timeout_ms))"
  by pat_completeness auto
termination by (relation "measure (\<lambda>(os, i, n, c, t). n)") (auto simp: length_greater_0_conv)

function write_exact_interruptible ::
  "(nat \<Rightarrow> nat io_answers) \<Rightarrow> nat \<Rightarrow> u8 list \<Rightarrow> bool \<Rightarrow> u32 option \<Rightarrow> (ipc_error + unit) option" where
  "write_exact_interruptible os i buf has_cancel timeout_ms =
     (if buf = [] then Some (Inr ())
      else case fst (write_overlapped (os i) buf has_cancel timeout_ms) of
        Inl e \<Rightarrow> Some (Inl e)
      | Inr n \<Rightarrow>
          if n = 0 then Some (Inl (Ipc_Io Io_WriteZero))
          else if n > length buf then None
          else write_exact_interruptible os (Suc i) (drop n buf) has_cancel timeout_ms)"
  by pat_completeness auto
termination by (relation "measure (\<lambda>(os, i, buf, c, t). length buf)") auto

declare read_exact_interruptible.simps [simp del] write_exact_interruptible.simps [simp del]

section \<open>Server and client ends\<close>

text \<open>
  Accepting a connection: the request is \<open>ConnectNamedPipe\<close>. The listening handle either becomes
  the stream or is closed when the server value is dropped, after the event.
\<close>

datatype server_call = Io_call io_call | Close_pipe

definition accept :: "unit io_answers \<Rightarrow> (ipc_error + pipe_role) \<times> server_call list" where
  "accept os =
     (let ok = (\<lambda>calls. (Inr Server, map Io_call (calls @ [Close_event])));
          failed = (\<lambda>e calls. (Inl e, map Io_call (calls @ [Close_event]) @ [Close_pipe]))
      in if \<not> io_event os
      then (Inl (Ipc_Win32 (io_last_error os) ''CreateEventW failed''), [Io_call (Create_event False), Close_pipe])
      else case io_start os of
        Inr _ \<Rightarrow> ok [Create_event True, Start_io Finished]
      | Inl err \<Rightarrow>
          if err = ERROR_PIPE_CONNECTED then ok [Create_event True, Start_io Refused]
          else if err = ERROR_IO_PENDING then
            let wait_res = io_wait os;
                calls = [Create_event True, Start_io Pending, Wait_objects 1 10000 wait_res]
            in if wait_res = WAIT_OBJECT_0 then
                 (case io_result os of
                    Inr _ \<Rightarrow> ok (calls @ [Get_result False])
                  | Inl err \<Rightarrow>
                      if err = ERROR_PIPE_CONNECTED then ok (calls @ [Get_result False])
                      else failed (Ipc_Win32 err ''ConnectNamedPipe overlapped result failed'')
                             (calls @ [Get_result False]))
               else failed (if wait_res = WAIT_TIMEOUT then Ipc_Timeout
                            else Ipc_Win32 (io_last_error os) ''WaitForSingleObject failed on ConnectNamedPipe'')
                      (calls @ [Cancel_io, Get_result True])
          else failed (Ipc_Win32 err ''ConnectNamedPipe failed'') [Create_event True, Start_io Refused])"

text \<open>
  Connecting: each attempt has the answer of \<open>CreateFileW\<close> and whether the timeout had passed when
  the clock was read after it. \<open>None\<close> means the listed attempts did not settle the call.
\<close>

record connect_attempt =
  ca_opened :: "u32 option"
  ca_elapsed :: bool

fun connect_pipe :: "string \<Rightarrow> connect_attempt list \<Rightarrow> (ipc_error + pipe_role) option" where
  "connect_pipe pipe_name [] = None"
| "connect_pipe pipe_name (a # as) = (case ca_opened a of
     None \<Rightarrow> Some (Inr Client)
   | Some err \<Rightarrow>
       if err = ERROR_PIPE_BUSY \<or> err = ERROR_FILE_NOT_FOUND then
         (if ca_elapsed a then Some (Inl Ipc_Timeout) else connect_pipe pipe_name as)
       else Some (Inl (Ipc_Win32 err (''CreateFileW failed for pipe '' @ pipe_name))))"

section \<open>Requests are settled before their memory goes\<close>

text \<open>
  The life of an overlapped request: while the system may still write to the buffer and the
  \<open>OVERLAPPED\<close> block the event must not be closed and the call must not return. Such a request
  is settled by a wait that reports its event, or by waiting for its result after cancelling it.
\<close>

datatype io_phase = Unused | Ready | In_flight | Settled | Closed

fun io_step :: "io_phase \<Rightarrow> io_call \<Rightarrow> io_phase option" where
  "io_step Unused (Create_event ok) = Some (if ok then Ready else Closed)"
| "io_step Ready (Start_io outcome) = Some (if outcome = Pending then In_flight else Settled)"
| "io_step In_flight (Wait_objects n t r) = Some (if r = WAIT_OBJECT_0 then Settled else In_flight)"
| "io_step In_flight Cancel_io = Some In_flight"
| "io_step In_flight (Get_result wait) = (if wait then Some Settled else None)"
| "io_step Settled (Get_result wait) = Some Settled"
| "io_step Settled Close_event = Some Closed"
| "io_step _ _ = None"

definition well_behaved :: "io_call list \<Rightarrow> bool" where
  "well_behaved calls \<longleftrightarrow> calls = [] \<or> fold_opt io_step Unused calls = Some Closed"

definition io_calls :: "server_call list \<Rightarrow> io_call list" where
  "io_calls calls = concat (map (\<lambda>c. case c of Io_call i \<Rightarrow> [i] | Close_pipe \<Rightarrow> []) calls)"

lemma io_calls_simps [simp]: "io_calls (map Io_call cs) = cs" "io_calls (xs @ ys) = io_calls xs @ io_calls ys"
  "io_calls [] = []" "io_calls (Io_call c # xs) = c # io_calls xs" "io_calls (Close_pipe # xs) = io_calls xs"
  by (induction cs) (simp_all add: io_calls_def)

lemma read_well_behaved: "well_behaved (snd (read_overlapped os n cancel timeout))"
  by (auto simp: read_overlapped_def well_behaved_def Let_def split: sum.splits)

lemma write_well_behaved: "well_behaved (snd (write_overlapped os buf cancel timeout))"
  by (auto simp: write_overlapped_def well_behaved_def Let_def split: sum.splits)

lemma accept_well_behaved: "well_behaved (io_calls (snd (accept os)))"
  by (auto simp: accept_def well_behaved_def Let_def split: sum.splits)

lemma accept_closes_pipe:
  "Close_pipe \<in> set (snd (accept os)) \<longleftrightarrow> (\<exists>e. fst (accept os) = Inl e)"
  "count_list (snd (accept os)) Close_pipe \<le> 1"
  by (auto simp: accept_def Let_def split: sum.splits)

text \<open>C35: On every path, whatever the system answers, \<open>read_overlapped\<close>, \<open>write_overlapped\<close> and
  \<open>accept\<close> settle the request they started before they close its event and return, and close the
  event once; \<open>accept\<close> gives the listening handle away exactly when it succeeds and closes it
  once otherwise.\<close>

theorem overlapped_requests_settled:
  "well_behaved (snd (read_overlapped ros n cancel timeout)) \<and>
   well_behaved (snd (write_overlapped wos buf cancel timeout)) \<and>
   well_behaved (io_calls (snd (accept aos))) \<and>
   (Close_pipe \<in> set (snd (accept aos)) \<longleftrightarrow> (\<exists>e. fst (accept aos) = Inl e)) \<and>
   count_list (snd (accept aos)) Close_pipe \<le> 1"
  by (intro conjI read_well_behaved write_well_behaved accept_well_behaved accept_closes_pipe)

section \<open>Reading in pieces\<close>

lemma read_exact_interruptible_length:
  "read_exact_interruptible os i n cancel timeout = Some (Inr bs) \<Longrightarrow> length bs = n"
proof (induction os i n cancel timeout arbitrary: bs rule: read_exact_interruptible.induct)
  case (1 os i n cancel timeout)
  note IH = "1.IH" and prem = "1.prems"
  show ?case
  proof (cases "n = 0")
    case False
    with prem obtain first rest where "fst (read_overlapped (os i) n cancel timeout) = Inr first"
      "first \<noteq> []" "\<not> length first > n" "bs = first @ rest"
      "read_exact_interruptible os (Suc i) (n - length first) cancel timeout = Some (Inr rest)"
      by (subst (asm) read_exact_interruptible.simps) (auto simp: and_then_eq_Inr split: if_splits sum.splits)
    with IH False show ?thesis by fastforce
  qed (use prem in \<open>simp add: read_exact_interruptible.simps\<close>)
qed

lemma peek_agrees:
  assumes "bs \<noteq> []"
  shows "peek_frame_readiness (pipe_holding bs) =
    (if length bs < HEADER_SIZE then Inr Partial
     else and_then (map_err Ipc_Protocol (parse_header (take HEADER_SIZE bs))) (\<lambda>(h, n).
       Inr (if length bs < HEADER_SIZE + n + CRC_SIZE then Partial else Complete)))"
proof (cases "length bs < HEADER_SIZE")
  case False
  then obtain b0 b1 b2 b3 b4 b5 b6 b7 b8 b9 b10 b11 b12 b13 b14 b15 b16 b17 b18 b19 r where
    "bs = [b0,b1,b2,b3,b4,b5,b6,b7,b8,b9,b10,b11,b12,b13,b14,b15,b16,b17,b18,b19] @ r"
    by (auto simp: HEADER_SIZE_def not_less numeral_eq_Suc Suc_le_length_iff)
  then show ?thesis
    by (simp add: peek_frame_readiness_def parse_header_def slice_def Let_def HEADER_SIZE_def
        and_then_def map_err_def split: sum.splits)
qed (use assms in \<open>simp add: peek_frame_readiness_def\<close>)

lemma peek_encoded:
  assumes "encode_frame h p = Inr bs"
  shows "peek_frame_readiness (pipe_holding (bs @ later)) = Inr Complete"
proof -
  have n: "length p \<le> MAX_PAYLOAD_SIZE"
    and bs: "bs = header_bytes h (length p) @ p @ to_le_bytes (compute_crc32c (header_bytes h (length p) @ p))"
    using assms by (simp_all add: encode_frame_Inr)
  have len: "length bs = HEADER_SIZE + length p + CRC_SIZE" by (rule encode_frame_length [OF assms])
  then have "bs @ later \<noteq> []" by (auto simp: HEADER_SIZE_def)
  moreover have "take HEADER_SIZE (bs @ later) = header_bytes h (length p)" using bs by simp
  ultimately show ?thesis
    using len by (subst peek_agrees) (simp_all add: parse_header_bytes [OF n] del: take_append)
qed

lemma decode_frame_append:
  assumes "HEADER_SIZE \<le> length bs" and "parse_header (take HEADER_SIZE bs) = Inr (h, n)"
    and "HEADER_SIZE + n + CRC_SIZE \<le> length bs"
  shows "decode_frame (bs @ later) = decode_frame bs"
    and "(\<exists>p. decode_frame bs = Inr (h, p) \<and> length p = n)
      \<or> (\<exists>x c. decode_frame bs = Inl (ChecksumMismatch x c))"
  using assms by (simp_all add: decode_frame_def Let_def slice_append_left CRC_SIZE_def)

text \<open>C36: The look at the first bytes of a pipe foretells what reading from it does:
  on \<open>Complete\<close>, \<open>read_frame\<close> yields the frame, or its checksum error, from the waiting bytes
  alone, whatever arrives later, so it does not block; on \<open>Partial\<close> it would run into the end of
  the waiting bytes; and a header error is the error \<open>read_frame\<close> reports.\<close>

theorem readiness_foretells_reading:
  "case peek_frame_readiness (pipe_holding bs) of
     Inr Complete \<Rightarrow>
       (\<exists>f rest. \<forall>later. read_frame (of_bytes (bs @ later)) = Inr (Some f, of_bytes (rest @ later)))
       \<or> (\<exists>x c. \<forall>later. read_frame (of_bytes (bs @ later)) = Inl (ChecksumMismatch x c))
   | Inr Partial \<Rightarrow> read_frame (of_bytes bs) = Inl PrematureEof
   | Inr Empty \<Rightarrow> read_frame (of_bytes bs) = Inr (None, of_bytes bs)
   | Inl e \<Rightarrow> (\<exists>fe. e = Ipc_Protocol fe \<and> read_frame (of_bytes bs) = Inl fe)"
proof (cases "bs = [] \<or> length bs < HEADER_SIZE")
  case True
  then show ?thesis
    by (auto simp: peek_agrees read_frame_of_bytes decode_frame_def read_frame_empty peek_frame_readiness_def)
next
  case False
  then have bs: "bs \<noteq> []" and long: "HEADER_SIZE \<le> length bs" by simp_all
  show ?thesis
  proof (cases "parse_header (take HEADER_SIZE bs)")
    case (Inl e)
    with bs long show ?thesis by (simp add: peek_agrees read_frame_of_bytes decode_frame_def)
  next
    case (Inr hn)
    obtain h n where hn: "parse_header (take HEADER_SIZE bs) = Inr (h, n)" using Inr by (cases hn) auto
    show ?thesis
    proof (cases "length bs < HEADER_SIZE + n + CRC_SIZE")
      case True
      with bs long hn show ?thesis by (simp add: peek_agrees read_frame_of_bytes decode_frame_def)
    next
      case False
      then have full: "HEADER_SIZE + n + CRC_SIZE \<le> length bs" by simp
      have "(\<exists>f rest. \<forall>later. read_frame (of_bytes (bs @ later)) = Inr (Some f, of_bytes (rest @ later)))
          \<or> (\<exists>x c. \<forall>later. read_frame (of_bytes (bs @ later)) = Inl (ChecksumMismatch x c))"
        using decode_frame_append(2) [OF long hn full]
      proof (elim disjE exE conjE)
        fix p assume "decode_frame bs = Inr (h, p)" "length p = n"
        then have "read_frame (of_bytes (bs @ later)) = Inr (Some \<lparr>fr_header = h, fr_payload = p\<rparr>,
            of_bytes (drop (HEADER_SIZE + n + CRC_SIZE) bs @ later))" for later
          using full bs by (simp add: read_frame_of_bytes decode_frame_append(1) [OF long hn full])
        then show ?thesis by blast
      qed (simp add: read_frame_of_bytes bs decode_frame_append(1) [OF long hn full])
      with False bs long hn show ?thesis by (simp add: peek_agrees)
    qed
  qed
qed

end
