(* ===== verification/Transport.thy ===== *)
theory Transport
  imports Pipe
begin

text \<open>
  \<^verbatim>\<open>crates/pigtree-ipc/src/transport.rs\<close>: messages in frames over a duplex stream. Encoding and
  decoding of messages belong to a library; they are arguments here.
\<close>

text \<open>The bytes still to come from the peer, those written to it, and the last sequence number.\<close>

record framed_session =
  fs_input :: reader
  fs_output :: "u8 list"
  fs_sequence_number :: u64

definition framed_new :: "reader \<Rightarrow> framed_session" where
  "framed_new stream = \<lparr>fs_input = stream, fs_output = [], fs_sequence_number = 0\<rparr>"

definition next_seq :: "framed_session \<Rightarrow> u64 \<times> framed_session" where
  "next_seq s = (let n = fs_sequence_number s + 1 in (n, s\<lparr>fs_sequence_number := n\<rparr>))"

definition send_message ::
  "('m \<Rightarrow> u8 list) \<Rightarrow> channel_tag \<Rightarrow> u8 \<Rightarrow> 'm \<Rightarrow> framed_session \<Rightarrow> (ipc_error + u64) \<times> framed_session" where
  "send_message encode_to_vec channel flags msg s0 =
     (let (seq, s) = next_seq s0;
          header = \<lparr>fh_channel_tag = channel, fh_flags = flags, fh_sequence_number = seq\<rparr>;
          payload = encode_to_vec msg
      in case write_frame (fs_output s) header payload of
           Inl e \<Rightarrow> (Inl (Ipc_Protocol e), s)
         | Inr out \<Rightarrow> (Inr seq, s\<lparr>fs_output := out\<rparr>))"

text \<open>A failing read is the last one on a session; the model leaves the input as it was.\<close>

definition recv_message ::
  "(u8 list \<Rightarrow> string + 'm) \<Rightarrow> framed_session \<Rightarrow> (ipc_error + (frame_header \<times> 'm) option) \<times> framed_session" where
  "recv_message decode s =
     (case read_frame (fs_input s) of
        Inl e \<Rightarrow> (Inl (Ipc_Protocol e), s)
      | Inr (None, r) \<Rightarrow> (Inr None, s\<lparr>fs_input := r\<rparr>)
      | Inr (Some f, r) \<Rightarrow>
          (case decode (fr_payload f) of
             Inl e \<Rightarrow> Inl (Ipc_Protobuf e)
           | Inr msg \<Rightarrow> Inr (Some (fr_header f, msg)), s\<lparr>fs_input := r\<rparr>))"

definition send_frame :: "frame_header \<Rightarrow> u8 list \<Rightarrow> framed_session \<Rightarrow> (ipc_error + unit) \<times> framed_session" where
  "send_frame header payload s =
     (case write_frame (fs_output s) header payload of
        Inl e \<Rightarrow> (Inl (Ipc_Protocol e), s)
      | Inr out \<Rightarrow> (Inr (), s\<lparr>fs_output := out\<rparr>))"

definition recv_frame :: "framed_session \<Rightarrow> (ipc_error + frame option) \<times> framed_session" where
  "recv_frame s =
     (case read_frame (fs_input s) of
        Inl e \<Rightarrow> (Inl (Ipc_Protocol e), s)
      | Inr (f, r) \<Rightarrow> (Inr f, s\<lparr>fs_input := r\<rparr>))"

text \<open>What one side sent, the other side receives: the frame codec carries the message.\<close>

lemma send_message_ok:
  assumes "length (enc m) \<le> MAX_PAYLOAD_SIZE"
  obtains bs where "encode_frame \<lparr>fh_channel_tag = ch, fh_flags = fl,
      fh_sequence_number = fs_sequence_number s + 1\<rparr> (enc m) = Inr bs"
    and "send_message enc ch fl m s = (Inr (fs_sequence_number s + 1),
      s\<lparr>fs_sequence_number := fs_sequence_number s + 1, fs_output := fs_output s @ bs\<rparr>)"
proof -
  define h where "h = \<lparr>fh_channel_tag = ch, fh_flags = fl, fh_sequence_number = fs_sequence_number s + 1\<rparr>"
  obtain bs where bs: "encode_frame h (enc m) = Inr bs"
    using assms by (cases "encode_frame h (enc m)") (auto simp: encode_frame_def split: if_splits)
  then have "send_message enc ch fl m s = (Inr (fs_sequence_number s + 1),
      s\<lparr>fs_sequence_number := fs_sequence_number s + 1, fs_output := fs_output s @ bs\<rparr>)"
    by (simp add: send_message_def next_seq_def write_frame_def Let_def flip: h_def)
  with bs that show ?thesis unfolding h_def by blast
qed

lemma recv_encoded:
  assumes "encode_frame h (enc m) = Inr bs" and "dec (enc m) = Inr m" and "fs_input s = push_front bs r"
  shows "recv_message dec s = (Inr (Some (h, m)), s\<lparr>fs_input := r\<rparr>)"
  using assms by (simp add: recv_message_def read_frame_encoded)

end
