(* ===== verification/Security.thy ===== *)
theory Security
  imports Wide_Strings Error_Text
begin

unbundle bit_operations_syntax

text \<open>
  \<^verbatim>\<open>crates/pigtree-ipc/src/security.rs\<close>: comparison of secrets, derivation of the channel key, the
  security identifiers of a process token and the security descriptor of the pipe. SHA-256 and
  the answers of the operating system are arguments.
\<close>

section \<open>Comparing secrets\<close>

definition constant_time_eq :: "u8 list \<Rightarrow> u8 list \<Rightarrow> bool" where
  "constant_time_eq a b =
     (if length a \<noteq> length b then False
      else fold (\<lambda>(x, y) diff. diff OR (x XOR y)) (zip a b) 0 = 0)"

definition constant_time_eq_32 :: "u8 list \<Rightarrow> u8 list \<Rightarrow> bool" where
  "constant_time_eq_32 a b = (fold (\<lambda>i diff. diff OR (a ! i XOR b ! i)) [0..<32] 0 = 0)"

definition derive_channel_key :: "(u8 list \<Rightarrow> u8 list) \<Rightarrow> u8 list \<Rightarrow> u8 list \<Rightarrow> u8 list \<Rightarrow> u8 list" where
  "derive_channel_key sha256 bootstrap_nonce client_nonce server_nonce =
     sha256 (as_bytes ''pigtree-v1-channel-key:'' @ bootstrap_nonce @ as_bytes '':'' @ client_nonce
       @ as_bytes '':'' @ server_nonce)"

section \<open>Security identifiers of the token\<close>

text \<open>
  The answers to \<open>OpenProcessToken\<close>, the query for the length, the query itself (an error code, or
  nothing) and the conversions of the identifiers to wide strings.
\<close>

record token_answers =
  tk_open :: "u32 option"
  tk_length :: "u32 option"
  tk_query :: "u32 option"
  tk_sids :: "(u32 + u16 list) list"

definition get_current_user_sid :: "token_answers \<Rightarrow> ipc_error + string" where
  "get_current_user_sid os =
     (case tk_open os of Some code \<Rightarrow> Inl (Ipc_Win32 code ''OpenProcessToken failed'')
      | None \<Rightarrow> case tk_length os of
          Some code \<Rightarrow> Inl (Ipc_Win32 code ''GetTokenInformation length query failed for TOKEN_USER'')
      | None \<Rightarrow> case tk_query os of
          Some code \<Rightarrow> Inl (Ipc_Win32 code ''GetTokenInformation failed for TOKEN_USER'')
      | None \<Rightarrow> case hd (tk_sids os) of
          Inl code \<Rightarrow> Inl (Ipc_Win32 code ''ConvertSidToStringSidW failed'')
      | Inr wide \<Rightarrow> Inr (from_utf16_lossy wide))"

fun convert_sids :: "nat \<Rightarrow> (u32 + u16 list) list \<Rightarrow> ipc_error + string list" where
  "convert_sids i [] = Inr []"
| "convert_sids i (Inl code # _) =
     Inl (Ipc_Win32 code (''ConvertSidToStringSidW failed for restricted SID index '' @ decimal i))"
| "convert_sids i (Inr wide # rest) =
     and_then (convert_sids (Suc i) rest) (\<lambda>sids. Inr (from_utf16_lossy wide # sids))"

definition str_le :: "string \<Rightarrow> string \<Rightarrow> bool" where
  "str_le s t \<longleftrightarrow> \<not> str_less t s"

definition get_current_token_restricted_sids :: "token_answers \<Rightarrow> ipc_error + string list" where
  "get_current_token_restricted_sids os =
     (case tk_open os of Some code \<Rightarrow> Inl (Ipc_Win32 code ''OpenProcessToken failed'')
      | None \<Rightarrow> case tk_length os of
          Some code \<Rightarrow> Inl (Ipc_Win32 code ''GetTokenInformation length query failed for TOKEN_RESTRICTED_SIDS'')
      | None \<Rightarrow> case tk_query os of
          Some code \<Rightarrow> Inl (Ipc_Win32 code ''GetTokenInformation failed for TOKEN_RESTRICTED_SIDS'')
      | None \<Rightarrow>
          if tk_sids os = [] then Inr []
          else and_then (convert_sids 0 (tk_sids os)) (\<lambda>sids. Inr (remdups_adj (sort_by str_le sids))))"

section \<open>The security descriptor\<close>

definition is_broad_sid :: "string \<Rightarrow> bool" where
  "is_broad_sid sid =
     (let s = trim sid in
      if s = [] then True
      else if s \<in> {''WD'', ''AU'', ''BU'', ''BA'', ''BG'', ''NU'', ''IU'', ''RC'', ''AN'', ''ED''} then True
      else if s \<in> {''S-1-1-0'', ''S-1-5-11'', ''S-1-5-32-545'', ''S-1-5-32-544'', ''S-1-5-32-546'',
                  ''S-1-5-7'', ''S-1-5-2'', ''S-1-5-4'', ''S-1-5-15''} then True
      else False)"

definition grant :: "string \<Rightarrow> string" where
  "grant sid = ''(A;;GA;;;'' @ sid @ '')''"

definition build_pipe_sddl :: "string \<Rightarrow> string list \<Rightarrow> string" where
  "build_pipe_sddl user_sid restricted_sids =
     ''D:'' @ fold (\<lambda>rsid dacl_entries.
       let trimmed = trim rsid in
       if trimmed = [] \<or> trimmed = user_sid \<or> is_broad_sid trimmed then dacl_entries
       else dacl_entries @ grant trimmed) restricted_sids (grant user_sid)
     @ ''S:(ML;;NW;;;ME)''"

text \<open>
  The attributes of the pipe: the descriptor text that was converted. The argument is the code of
  a failed \<open>ConvertStringSecurityDescriptorToSecurityDescriptorW\<close>.
\<close>

definition create_pipe_security_attributes ::
  "token_answers \<Rightarrow> token_answers \<Rightarrow> u32 option \<Rightarrow> ipc_error + string" where
  "create_pipe_security_attributes user_os restricted_os convert =
     and_then (get_current_user_sid user_os) (\<lambda>user_sid.
     and_then (get_current_token_restricted_sids restricted_os) (\<lambda>restricted_sids.
     let sddl = build_pipe_sddl user_sid restricted_sids
     in case convert of
          Some code \<Rightarrow> Inl (Ipc_Win32 code
            (''ConvertStringSecurityDescriptorToSecurityDescriptorW failed for SDDL: '' @ sddl))
        | None \<Rightarrow> Inr sddl))"

section \<open>Comparison is equality\<close>

lemma or_eq_0: "(x :: u8) OR y = 0 \<longleftrightarrow> x = 0 \<and> y = 0"
  by (auto simp: bit_eq_iff bit_simps)

lemma xor_eq_0: "(x :: u8) XOR y = 0 \<longleftrightarrow> x = y"
  by (auto simp: bit_eq_iff bit_simps)

lemma fold_diff: "fold (\<lambda>i diff. diff OR (f i XOR g i)) ks (d :: u8) = 0 \<longleftrightarrow> d = 0 \<and> (\<forall>i \<in> set ks. f i = g i)"
  by (induction ks arbitrary: d) (auto simp: or_eq_0 xor_eq_0)

lemma constant_time_eq_iff: "constant_time_eq a b \<longleftrightarrow> a = b"
proof -
  have "fold (\<lambda>(x, y) diff. diff OR (x XOR y)) (zip a b) 0 = (0 :: u8) \<longleftrightarrow> (\<forall>p \<in> set (zip a b). fst p = snd p)"
    using fold_diff [of fst snd "zip a b" 0] by (simp add: case_prod_unfold)
  moreover have "length a = length b \<Longrightarrow> (\<forall>p \<in> set (zip a b). fst p = snd p) \<longleftrightarrow> a = b"
    by (metis fst_conv in_set_zip nth_equalityI nth_zip snd_conv nth_mem length_zip min.idem)
  ultimately show ?thesis by (auto simp: constant_time_eq_def)
qed

lemma constant_time_eq_32_iff:
  "length a = 32 \<Longrightarrow> length b = 32 \<Longrightarrow> constant_time_eq_32 a b \<longleftrightarrow> a = b"
  by (auto simp: constant_time_eq_32_def fold_diff [of "(!) a" "(!) b"] intro: nth_equalityI)

text \<open>The comparison that never branches on the data is equality of byte strings.\<close>

theorem constant_time_eq_is_equality: "constant_time_eq a b \<longleftrightarrow> a = b"
  by (rule constant_time_eq_iff)

section \<open>Who may open the pipe\<close>

text \<open>Reading a descriptor: the identifiers of its leading grants, and what follows them.\<close>

abbreviation grant_head :: string where
  "grant_head \<equiv> ''(A;;GA;;;''"

function grants :: "string \<Rightarrow> string list \<times> string" where
  "grants s =
     (if take 9 s = grant_head then
        let sid = takeWhile (\<lambda>c. c \<noteq> CHR '')'') (drop 9 s);
            (sids, rest) = grants (drop (10 + length sid) s)
        in (sid # sids, rest)
      else ([], s))"
  by pat_completeness auto
termination by (relation "measure length") (auto intro!: diff_less gr0I)

declare grants.simps [simp del]

lemma grants_grant:
  assumes "CHR '')'' \<notin> set sid"
  shows "grants (grant sid @ r) = (sid # fst (grants r), snd (grants r))"
  using assms by (subst grants.simps) (simp add: grant_def case_prod_unfold takeWhile_stop Let_def numeral_eq_Suc)

lemma grants_concat:
  "\<forall>sid \<in> set sids. CHR '')'' \<notin> set sid \<Longrightarrow> take 9 r \<noteq> grant_head \<Longrightarrow>
    grants (concat (map grant sids) @ r) = (sids, r)"
  by (induction sids) (simp_all add: grants_grant, simp add: grants.simps)

definition granted :: "string \<Rightarrow> string list \<Rightarrow> string list" where
  "granted user_sid restricted_sids =
     user_sid # filter (\<lambda>s. s \<noteq> user_sid \<and> \<not> is_broad_sid s) (map trim restricted_sids)"

lemma is_broad_sid_Nil [simp]: "is_broad_sid []"
  by (simp add: is_broad_sid_def trim_def trim_start.simps trim_end.simps)

lemma build_pipe_sddl_eq:
  "build_pipe_sddl u rs = ''D:'' @ concat (map grant (granted u rs)) @ ''S:(ML;;NW;;;ME)''"
proof -
  have "fold (\<lambda>rsid dacl_entries. let trimmed = trim rsid in
      if trimmed = [] \<or> trimmed = u \<or> is_broad_sid trimmed then dacl_entries
      else dacl_entries @ grant trimmed) rs d
    = d @ concat (map grant (filter (\<lambda>s. s \<noteq> u \<and> \<not> is_broad_sid s) (map trim rs)))" for d
    by (induction rs arbitrary: d) (auto simp: Let_def)
  then show ?thesis by (simp add: build_pipe_sddl_def granted_def)
qed

lemma sddl_grants:
  assumes "\<forall>s \<in> set (u # rs). CHR '')'' \<notin> set s"
  shows "grants (drop 2 (build_pipe_sddl u rs)) = (granted u rs, ''S:(ML;;NW;;;ME)'')"
proof -
  have "\<forall>s \<in> set (granted u rs). CHR '')'' \<notin> set s"
    using assms set_trim by (fastforce simp: granted_def)
  then show ?thesis
    using grants_concat [of "granted u rs" "''S:(ML;;NW;;;ME)''"] by (simp add: build_pipe_sddl_eq)
qed

text \<open>
  The broad groups with the abbreviations the descriptor language has for them: Everyone,
  Authenticated Users, Users, Administrators, Guests, Network, Interactive, Restricted Code,
  Anonymous and Enterprise Domain Controllers.
\<close>

definition broad_groups :: "(string \<times> string) list" where
  "broad_groups = [(''WD'', ''S-1-1-0''), (''AU'', ''S-1-5-11''), (''BU'', ''S-1-5-32-545''), (''BA'', ''S-1-5-32-544''),
     (''BG'', ''S-1-5-32-546''), (''NU'', ''S-1-5-2''), (''IU'', ''S-1-5-4''), (''RC'', ''S-1-5-12''), (''AN'', ''S-1-5-7''),
     (''ED'', ''S-1-5-9'')]"

text \<open>What is never granted: the abbreviations, all their identifiers but two, and This Organization.\<close>

definition refused_sids :: "string set" where
  "refused_sids = fst ` set broad_groups \<union> (snd ` set broad_groups - {''S-1-5-12'', ''S-1-5-9''}) \<union> {''S-1-5-15''}"

lemma is_broad_sid_trim [simp]: "is_broad_sid (trim s) = is_broad_sid s"
  by (simp add: is_broad_sid_def)

lemma is_broad_sid_trimmed: "is_broad_sid (trim s) \<longleftrightarrow> trim s = [] \<or> trim s \<in> refused_sids"
  by (simp add: is_broad_sid_def refused_sids_def broad_groups_def Let_def) blast

text \<open>C39: The descriptor of the pipe grants access to the current user and, in the order of the
  token, to each of its restricted identifiers that is neither empty nor a refused broad group, to
  nobody else, and ends with the mandatory label. Refused are Everyone, Authenticated Users, Users,
  Administrators, Guests, Network, Interactive, Anonymous and This Organization, and every
  abbreviation of a broad group; the identifiers of Restricted Code and of Enterprise Domain
  Controllers are not refused.\<close>

theorem pipe_grants_user_and_narrow_sids:
  assumes "\<forall>s \<in> set (u # rs). CHR '')'' \<notin> set s"
  shows "grants (drop 2 (build_pipe_sddl u rs)) =
    (u # filter (\<lambda>s. s \<noteq> u \<and> s \<noteq> [] \<and> s \<notin> refused_sids) (map trim rs), ''S:(ML;;NW;;;ME)'')"
proof -
  have "filter (\<lambda>s. s \<noteq> u \<and> \<not> is_broad_sid s) (map trim rs) = filter (\<lambda>s. s \<noteq> u \<and> s \<noteq> [] \<and> s \<notin> refused_sids) (map trim rs)"
    using is_broad_sid_trimmed by (intro filter_cong) (auto simp del: is_broad_sid_trim)
  then show ?thesis using sddl_grants [OF assms] by (simp add: granted_def)
qed

theorem pipe_grants_user_and_narrow_sids_witness:
  "grants (drop 2 (build_pipe_sddl ''S-1-5-21-7'' ['' WD'', ''S-1-5-5-0-9'', ''S-1-1-0'']))
    = ([''S-1-5-21-7'', ''S-1-5-5-0-9''], ''S:(ML;;NW;;;ME)'')"
proof -
  have "filter (\<lambda>s. s \<noteq> ''S-1-5-21-7'' \<and> s \<noteq> [] \<and> s \<notin> refused_sids) (map trim ['' WD'', ''S-1-5-5-0-9'', ''S-1-1-0'']) = [''S-1-5-5-0-9'']"
    unfolding refused_sids_def broad_groups_def by code_simp
  with pipe_grants_user_and_narrow_sids [of "''S-1-5-21-7''" "['' WD'', ''S-1-5-5-0-9'', ''S-1-1-0'']"]
  show ?thesis by simp
qed

text \<open>
  The list of broad groups has abbreviations whose identifiers it lacks: \<open>RC\<close> abbreviates
  \<open>S-1-5-12\<close> and \<open>ED\<close> abbreviates \<open>S-1-5-9\<close>. The token reports identifiers, not abbreviations.
\<close>

lemma broad_abbreviations_without_identifier:
  "is_broad_sid ''RC'' \<and> \<not> is_broad_sid ''S-1-5-12'' \<and> is_broad_sid ''ED'' \<and> \<not> is_broad_sid ''S-1-5-9''"
  by code_simp

end
