(* ===== verification/Handshake.thy ===== *)
theory Handshake
  imports Transport Security
begin

text \<open>
  The mutual authentication of client and engine: \<open>EngineServerSession::accept\<close> of
  \<^verbatim>\<open>crates/pigtree-ipc/src/server.rs\<close> and the handshake of \<open>EngineClientSession::launch\<close> in
  \<^verbatim>\<open>crates/pigtree-ipc/src/client.rs\<close>. Random numbers, process identifiers and SHA-256 are
  arguments.
\<close>

section \<open>Messages\<close>

record auth_handshake_request =
  aq_bootstrap_nonce :: "u8 list"
  aq_client_nonce :: "u8 list"
  aq_client_pid :: u32
  aq_client_session_id :: u32

record auth_handshake_response =
  ap_status :: u32
  ap_server_nonce :: "u8 list"
  ap_server_pid :: u32
  ap_channel_key_hash :: "u8 list"
  ap_error_message :: string

section \<open>The engine's side\<close>

record engine_server_session =
  es_framed :: framed_session
  es_client_pid :: u32
  es_client_session_id :: u32
  es_channel_key :: "u8 list"

definition rejection :: "string \<Rightarrow> auth_handshake_response" where
  "rejection message = \<lparr>ap_status = 1, ap_server_nonce = [], ap_server_pid = 0,
     ap_channel_key_hash = [], ap_error_message = message\<rparr>"

text \<open>
  The result of accepting, and the transport afterwards. The process identifiers are the ones the
  system reports for the connected pipe.
\<close>

definition server_accept ::
  "(u8 list \<Rightarrow> string + auth_handshake_request) \<Rightarrow> (auth_handshake_response \<Rightarrow> u8 list) \<Rightarrow>
   (u8 list \<Rightarrow> u8 list) \<Rightarrow> u8 list \<Rightarrow> u8 list \<Rightarrow> u32 \<Rightarrow> u32 + u32 \<Rightarrow> u32 + u32 \<Rightarrow> reader \<Rightarrow>
   (ipc_error + engine_server_session) \<times> framed_session" where
  "server_accept decode_request encode_response sha256 bootstrap_nonce server_nonce my_pid
      pipe_client_pid pipe_session_id stream =
     (let framed0 = framed_new stream in
      case get_client_pid pipe_client_pid of Inl e \<Rightarrow> (Inl e, framed0) | Inr client_pid \<Rightarrow>
      case get_client_session_id pipe_session_id of Inl e \<Rightarrow> (Inl e, framed0) | Inr client_session_id \<Rightarrow>
      case recv_message decode_request framed0 of
        (Inl e, framed) \<Rightarrow> (Inl e, framed)
      | (Inr None, framed) \<Rightarrow> (Inl (Ipc_Protocol PrematureEof), framed)
      | (Inr (Some (header, request)), framed) \<Rightarrow>
          if fh_channel_tag header \<noteq> Command
          then (Inl (AuthenticationFailed ''Handshake request must be sent on Command channel''), framed)
          else if \<not> constant_time_eq (aq_bootstrap_nonce request) bootstrap_nonce then
            (Inl (AuthenticationFailed ''Bootstrap nonce mismatch''),
             snd (send_message encode_response Command 0 (rejection ''Invalid bootstrap launch nonce'') framed))
          else if aq_client_pid request \<noteq> client_pid then
            (Inl (IdentityMismatch (decimal (unat client_pid)) (decimal (unat (aq_client_pid request)))),
             snd (send_message encode_response Command 0 (rejection ''Client PID mismatch'') framed))
          else
            let channel_key = derive_channel_key sha256 bootstrap_nonce (aq_client_nonce request) server_nonce;
                response = \<lparr>ap_status = 0, ap_server_nonce = server_nonce, ap_server_pid = my_pid,
                  ap_channel_key_hash = channel_key, ap_error_message = []\<rparr>
            in case send_message encode_response Command 0 response framed of
                 (Inl e, framed') \<Rightarrow> (Inl e, framed')
               | (Inr _, framed') \<Rightarrow>
                   (Inr \<lparr>es_framed = framed', es_client_pid = client_pid,
                      es_client_session_id = client_session_id, es_channel_key = channel_key\<rparr>, framed'))"

section \<open>The client's side\<close>

definition client_request :: "u8 list \<Rightarrow> u8 list \<Rightarrow> u32 \<Rightarrow> auth_handshake_request" where
  "client_request bootstrap_nonce client_nonce client_pid =
     \<lparr>aq_bootstrap_nonce = bootstrap_nonce, aq_client_nonce = client_nonce,
      aq_client_pid = client_pid, aq_client_session_id = 0\<rparr>"

text \<open>
  The client after it connected: it checks the process behind the pipe before it sends anything.
  The result is the channel key; the flag tells whether the child process was terminated.
\<close>

definition client_hello ::
  "(auth_handshake_request \<Rightarrow> u8 list) \<Rightarrow> u8 list \<Rightarrow> u8 list \<Rightarrow> u32 \<Rightarrow> u32 \<Rightarrow> u32 + u32 \<Rightarrow> reader \<Rightarrow>
   (ipc_error + framed_session) \<times> bool" where
  "client_hello encode_request bootstrap_nonce client_nonce client_pid child_pid pipe_server_pid stream =
     (case get_server_pid pipe_server_pid of Inl e \<Rightarrow> (Inl e, False) | Inr server_pid \<Rightarrow>
      if server_pid \<noteq> child_pid
      then (Inl (IdentityMismatch (decimal (unat child_pid)) (decimal (unat server_pid))), True)
      else case send_message encode_request Command 0
               (client_request bootstrap_nonce client_nonce client_pid) (framed_new stream) of
             (Inl e, _) \<Rightarrow> (Inl e, False)
           | (Inr _, framed) \<Rightarrow> (Inr framed, False))"

definition client_finish ::
  "(u8 list \<Rightarrow> string + auth_handshake_response) \<Rightarrow> (u8 list \<Rightarrow> u8 list) \<Rightarrow> u8 list \<Rightarrow> u8 list \<Rightarrow> u32 \<Rightarrow>
   framed_session \<Rightarrow> (ipc_error + (u8 list \<times> framed_session)) \<times> bool" where
  "client_finish decode_response sha256 bootstrap_nonce client_nonce child_pid framed0 =
     (case recv_message decode_response framed0 of
        (Inl e, framed) \<Rightarrow> (Inl e, False)
      | (Inr None, framed) \<Rightarrow> (Inl (Ipc_Protocol PrematureEof), False)
      | (Inr (Some (resp_header, response)), framed) \<Rightarrow>
          if fh_channel_tag resp_header \<noteq> Command
          then (Inl (AuthenticationFailed ''Handshake response on invalid channel''), True)
          else if ap_status response \<noteq> 0
          then (Inl (AuthenticationFailed (''Server rejected handshake: '' @ ap_error_message response)), True)
          else if ap_server_pid response \<noteq> child_pid
          then (Inl (IdentityMismatch (decimal (unat child_pid)) (decimal (unat (ap_server_pid response)))), True)
          else
            let expected_channel_key =
              derive_channel_key sha256 bootstrap_nonce client_nonce (ap_server_nonce response)
            in if \<not> constant_time_eq (ap_channel_key_hash response) expected_channel_key
               then (Inl (AuthenticationFailed ''Derived channel key hash mismatch''), True)
               else (Inr (expected_channel_key, framed), False))"

section \<open>Only the launcher and its child agree\<close>

lemma honest_run:
  assumes request_def: "request = client_request bn cn client_pid"
    and response_def: "response = \<lparr>ap_status = 0, ap_server_nonce = sn, ap_server_pid = child_pid,
      ap_channel_key_hash = derive_channel_key sha bn cn sn, ap_error_message = []\<rparr>"
    and assms': "length (encq request) \<le> MAX_PAYLOAD_SIZE" "decq (encq request) = Inr request"
      "length (encp response) \<le> MAX_PAYLOAD_SIZE" "decp (encp response) = Inr response"
  shows "\<exists>client es server client'.
    client_hello encq bn cn client_pid child_pid (Inr child_pid) (of_bytes []) = (Inr client, False)
    \<and> server_accept decq encp sha bn sn child_pid (Inr client_pid) (Inr session) (of_bytes (fs_output client))
      = (Inr es, server)
    \<and> client_finish decp sha bn cn child_pid (client\<lparr>fs_input := of_bytes (fs_output server)\<rparr>)
      = (Inr (es_channel_key es, client'), False)"
proof -
  obtain qs where qs: "encode_frame \<lparr>fh_channel_tag = Command, fh_flags = 0, fh_sequence_number = 1\<rparr> (encq request) = Inr qs"
    and sendq: "send_message encq Command 0 request (framed_new (of_bytes []))
      = (Inr 1, \<lparr>fs_input = of_bytes [], fs_output = qs, fs_sequence_number = 1\<rparr>)"
    using send_message_ok [of encq request Command 0 "framed_new (of_bytes [])"] assms'(1)
    by (auto simp: framed_new_def)
  define client where "client = \<lparr>fs_input = of_bytes [], fs_output = qs, fs_sequence_number = 1\<rparr>"
  have hello: "client_hello encq bn cn client_pid child_pid (Inr child_pid) (of_bytes []) = (Inr client, False)"
    using sendq by (simp add: client_hello_def get_server_pid_def client_def flip: request_def)
  define at_server where "at_server = \<lparr>fs_input = of_bytes [], fs_output = [], fs_sequence_number = 0\<rparr>"
  have recvq: "recv_message decq (framed_new (of_bytes qs))
      = (Inr (Some (\<lparr>fh_channel_tag = Command, fh_flags = 0, fh_sequence_number = 1\<rparr>, request)), at_server)"
    using recv_encoded [where enc = encq and dec = decq and m = request, OF qs assms'(2), of "framed_new (of_bytes qs)" "of_bytes []"]
    by (simp add: framed_new_def at_server_def of_bytes_def)
  obtain ps where ps: "encode_frame \<lparr>fh_channel_tag = Command, fh_flags = 0, fh_sequence_number = 1\<rparr> (encp response) = Inr ps"
    and sendp: "send_message encp Command 0 response at_server
      = (Inr 1, at_server\<lparr>fs_sequence_number := 1, fs_output := ps\<rparr>)"
    using send_message_ok [of encp response Command 0 at_server] assms'(3) by (auto simp: at_server_def)
  define es where "es = \<lparr>es_framed = at_server\<lparr>fs_sequence_number := 1, fs_output := ps\<rparr>, es_client_pid = client_pid,
    es_client_session_id = session, es_channel_key = derive_channel_key sha bn cn sn\<rparr>"
  have server: "server_accept decq encp sha bn sn child_pid (Inr client_pid) (Inr session) (of_bytes (fs_output client))
      = (Inr es, at_server\<lparr>fs_sequence_number := 1, fs_output := ps\<rparr>)"
    using recvq sendp
    by (simp add: server_accept_def get_client_pid_def get_client_session_id_def client_def constant_time_eq_iff
        request_def client_request_def es_def Let_def flip: response_def)
  have "recv_message decp (client\<lparr>fs_input := of_bytes ps\<rparr>)
      = (Inr (Some (\<lparr>fh_channel_tag = Command, fh_flags = 0, fh_sequence_number = 1\<rparr>, response)), client)"
    using recv_encoded [where enc = encp and dec = decp and m = response, OF ps assms'(4),
        of "client\<lparr>fs_input := of_bytes ps\<rparr>" "of_bytes []"]
    by (simp add: client_def of_bytes_def)
  then have "client_finish decp sha bn cn child_pid (client\<lparr>fs_input := of_bytes ps\<rparr>)
      = (Inr (es_channel_key es, client), False)"
    by (simp add: client_finish_def response_def constant_time_eq_iff es_def Let_def)
  with hello server show ?thesis by auto
qed

text \<open>A concrete run for the witnesses; its hash forgets the domain prefix.\<close>

definition sample_sha :: "u8 list \<Rightarrow> u8 list" where
  "sample_sha bs = drop 23 bs"

definition sample_request :: auth_handshake_request where
  "sample_request = client_request [9] [8] 100"

definition sample_response :: auth_handshake_response where
  "sample_response = \<lparr>ap_status = 0, ap_server_nonce = [7], ap_server_pid = 200,
     ap_channel_key_hash = derive_channel_key sample_sha [9] [8] [7], ap_error_message = []\<rparr>"

text \<open>C13: The engine accepts a connection only when the request came on the command channel with the
  nonce the launcher passed on and the process identifier the system reports for the pipe; the
  client accepts only an answer from the process it started, with the channel key derived from both
  nonces.\<close>

theorem handshake_accepts_only_matching_peer:
  assumes "fst (server_accept dec enc sha bn sn my_pid cpid sess stream) = Inr es"
    and "fst (client_finish dec' sha bn cn child_pid framed) = Inr (key, s')"
  shows "(\<exists>h q s. recv_message dec (framed_new stream) = (Inr (Some (h, q)), s) \<and> fh_channel_tag h = Command
        \<and> aq_bootstrap_nonce q = bn \<and> cpid = Inr (aq_client_pid q) \<and> es_client_pid es = aq_client_pid q
        \<and> sess = Inr (es_client_session_id es)
        \<and> es_channel_key es = derive_channel_key sha bn (aq_client_nonce q) sn)
   \<and> (\<exists>h p. recv_message dec' framed = (Inr (Some (h, p)), s') \<and> fh_channel_tag h = Command
        \<and> ap_status p = 0 \<and> ap_server_pid p = child_pid \<and> ap_channel_key_hash p = key
        \<and> key = derive_channel_key sha bn cn (ap_server_nonce p))"
proof
  show "\<exists>h q s. recv_message dec (framed_new stream) = (Inr (Some (h, q)), s) \<and> fh_channel_tag h = Command
        \<and> aq_bootstrap_nonce q = bn \<and> cpid = Inr (aq_client_pid q) \<and> es_client_pid es = aq_client_pid q
        \<and> sess = Inr (es_client_session_id es)
        \<and> es_channel_key es = derive_channel_key sha bn (aq_client_nonce q) sn"
    using assms(1)
    by (auto simp: server_accept_def Let_def get_client_pid_def get_client_session_id_def
        map_err_def constant_time_eq_iff split: sum.splits option.splits prod.splits if_splits)
  show "\<exists>h p. recv_message dec' framed = (Inr (Some (h, p)), s') \<and> fh_channel_tag h = Command
        \<and> ap_status p = 0 \<and> ap_server_pid p = child_pid \<and> ap_channel_key_hash p = key
        \<and> key = derive_channel_key sha bn cn (ap_server_nonce p)"
    using assms(2)
    by (auto simp: client_finish_def Let_def constant_time_eq_iff
        split: sum.splits option.splits prod.splits if_splits)
qed

theorem handshake_accepts_only_matching_peer_witness:
  "\<exists>stream framed es key s'.
    fst (server_accept (\<lambda>_. Inr sample_request) (\<lambda>_. [2]) sample_sha [9] [7] 200 (Inr 100) (Inr 1) stream) = Inr es
    \<and> fst (client_finish (\<lambda>_. Inr sample_response) sample_sha [9] [8] 200 framed) = Inr (key, s')
    \<and> es_client_pid es = 100"
proof -
  have "\<exists>client es server client'.
      client_hello (\<lambda>_. [1]) [9] [8] 100 200 (Inr 200) (of_bytes []) = (Inr client, False)
      \<and> server_accept (\<lambda>_. Inr sample_request) (\<lambda>_. [2]) sample_sha [9] [7] 200 (Inr 100) (Inr 1)
          (of_bytes (fs_output client)) = (Inr es, server)
      \<and> client_finish (\<lambda>_. Inr sample_response) sample_sha [9] [8] 200
          (client\<lparr>fs_input := of_bytes (fs_output server)\<rparr>) = (Inr (es_channel_key es, client'), False)"
    by (rule honest_run [OF sample_request_def sample_response_def]) (simp_all add: MAX_PAYLOAD_SIZE_def)
  then obtain stream framed es key s' where
    s: "fst (server_accept (\<lambda>_. Inr sample_request) (\<lambda>_. [2]) sample_sha [9] [7] 200 (Inr 100) (Inr 1) stream) = Inr es"
    and c: "fst (client_finish (\<lambda>_. Inr sample_response) sample_sha [9] [8] 200 framed) = Inr (key, s')"
    by (metis fst_conv)
  from handshake_accepts_only_matching_peer [OF s c] have "es_client_pid es = 100" by auto
  with s c show ?thesis by blast
qed

text \<open>C40: A client and an engine that share the nonce of the launch authenticate each other and
  end with the same channel key, and the client does not terminate its child.\<close>

theorem honest_handshake_agrees:
  assumes request_def: "request = client_request bn cn client_pid"
    and response_def: "response = \<lparr>ap_status = 0, ap_server_nonce = sn, ap_server_pid = child_pid,
      ap_channel_key_hash = derive_channel_key sha bn cn sn, ap_error_message = []\<rparr>"
    and "length (encq request) \<le> MAX_PAYLOAD_SIZE" "decq (encq request) = Inr request"
      "length (encp response) \<le> MAX_PAYLOAD_SIZE" "decp (encp response) = Inr response"
  shows "\<exists>client es server client'.
    client_hello encq bn cn client_pid child_pid (Inr child_pid) (of_bytes []) = (Inr client, False)
    \<and> server_accept decq encp sha bn sn child_pid (Inr client_pid) (Inr session) (of_bytes (fs_output client))
      = (Inr es, server)
    \<and> client_finish decp sha bn cn child_pid (client\<lparr>fs_input := of_bytes (fs_output server)\<rparr>)
      = (Inr (es_channel_key es, client'), False)"
  using assms by (rule honest_run)

theorem honest_handshake_agrees_witness:
  "\<exists>client es server client'.
    client_hello (\<lambda>_. [1]) [9] [8] 100 200 (Inr 200) (of_bytes []) = (Inr client, False)
    \<and> server_accept (\<lambda>_. Inr sample_request) (\<lambda>_. [2]) sample_sha [9] [7] 200 (Inr 100) (Inr 1)
        (of_bytes (fs_output client)) = (Inr es, server)
    \<and> client_finish (\<lambda>_. Inr sample_response) sample_sha [9] [8] 200
        (client\<lparr>fs_input := of_bytes (fs_output server)\<rparr>) = (Inr (es_channel_key es, client'), False)"
  by (rule honest_handshake_agrees [OF sample_request_def sample_response_def]) (simp_all add: MAX_PAYLOAD_SIZE_def)

end
