(* ===== verification/Commands.thy ===== *)
theory Commands
  imports Handshake Protobuf
begin

text \<open>
  The command messages of \<^verbatim>\<open>crates/pigtree-protocol/proto/session.proto\<close> as data, and their
  outcomes. Their wire encoding is the work of a library and an argument wherever it is used.
\<close>

datatype command =
    Req_AuthHandshake auth_handshake_request
  | Req_Ping u64 u32
  | Req_Echo string u32
  | Req_Health bool u32
  | Req_Status u32
  | Req_Version u32
  | Req_Shutdown
  | Req_Cancel string string
  | Req_Scan string string
  | Req_GetChildren string u32 u32 u32

record command_request =
  cq_request_id :: string
  cq_request :: "command option"

record get_children_response =
  gc_operation_id :: string
  gc_parent_id :: u32
  gc_total_children :: u32
  gc_offset :: u32
  gc_nodes :: "directory_entry_node list"

datatype response =
    Resp_AuthHandshake auth_handshake_response
  | Resp_Ping ping_response
  | Resp_Echo string
  | Resp_Health health_response
  | Resp_StatusPayload status_response
  | Resp_Version version_response
  | Resp_Shutdown u32
  | Resp_Cancel bool string
  | Resp_Error string string string
  | Resp_ScanProgress scan_progress
  | Resp_ScanResponse scan_response
  | Resp_GetChildren get_children_response

record command_response =
  cs_request_id :: string
  cs_status :: u32
  cs_error_code :: string
  cs_error_message :: string
  cs_response :: "response option"

datatype scan_run_outcome = Outcome_Unspecified | Outcome_Finished | Outcome_Cancelled | Outcome_Failed

primrec scan_outcome_i32 :: "scan_run_outcome \<Rightarrow> int" where
  "scan_outcome_i32 Outcome_Unspecified = 0"
| "scan_outcome_i32 Outcome_Finished = 1"
| "scan_outcome_i32 Outcome_Cancelled = 2"
| "scan_outcome_i32 Outcome_Failed = 3"

datatype scope_coverage = Coverage_Unspecified | Coverage_Complete | Coverage_Partial | Coverage_Indeterminate

primrec coverage_i32 :: "scope_coverage \<Rightarrow> int" where
  "coverage_i32 Coverage_Unspecified = 0"
| "coverage_i32 Coverage_Complete = 1"
| "coverage_i32 Coverage_Partial = 2"
| "coverage_i32 Coverage_Indeterminate = 3"

end
