(* ===== verification/Client.thy ===== *)
theory Client
  imports Commands
begin

text \<open>
  Remote calls of \<open>EngineClientSession\<close> in \<^verbatim>\<open>crates/pigtree-ipc/src/client.rs\<close>: single commands,
  cancellation, and the scan with its progress. The loops poll the pipe; a run of such a loop is
  given by what each poll finds. A run that ends before the call is settled has the result
  \<open>None\<close>.
\<close>

datatype scan_call_outcome = Call_Finished scan_response | Call_Cancelled scan_response

text \<open>
  One turn of a polling loop: whether the event of cancellation is signalled, whether the clock
  has passed the deadline, the bytes that arrived, and the answer of \<open>PeekNamedPipe\<close> if it fails.
\<close>

record poll =
  po_signalled :: bool
  po_deadline :: bool
  po_arrived :: "u8 list"
  po_peek_error :: "u32 option"

definition arrive :: "u8 list \<Rightarrow> framed_session \<Rightarrow> framed_session" where
  "arrive bs s = s\<lparr>fs_input := (fs_input s)\<lparr>avail := avail (fs_input s) @ bs\<rparr>\<rparr>"

definition peek_answer :: "poll \<Rightarrow> framed_session \<Rightarrow> u32 + (u8 list \<times> nat)" where
  "peek_answer p s = (case po_peek_error p of Some e \<Rightarrow> Inl e | None \<Rightarrow> pipe_holding (avail (fs_input s)))"

text \<open>The message library.\<close>

record codec =
  encode_command :: "command_request \<Rightarrow> u8 list"
  decode_response :: "u8 list \<Rightarrow> string + command_response"

section \<open>Single commands\<close>

text \<open>Waiting for the response; \<open>has_cancel\<close> tells whether the caller passed an event.\<close>

fun await_response :: "codec \<Rightarrow> bool \<Rightarrow> poll list \<Rightarrow> framed_session \<Rightarrow>
    ((ipc_error + command_response) \<times> framed_session) option" where
  "await_response lib has_cancel [] s = None"
| "await_response lib has_cancel (p # ps) s =
     (if has_cancel \<and> po_signalled p then Some (Inl Ipc_Cancelled, s)
      else let s1 = arrive (po_arrived p) s in
      case peek_frame_readiness (peek_answer p s1) of
        Inl e \<Rightarrow> Some (Inl e, s1)
      | Inr Complete \<Rightarrow>
          (case recv_message (decode_response lib) s1 of
             (Inl e, s2) \<Rightarrow> Some (Inl e, s2)
           | (Inr None, s2) \<Rightarrow> Some (Inl (Ipc_Protocol PrematureEof), s2)
           | (Inr (Some (_, resp)), s2) \<Rightarrow> Some (Inr resp, s2))
      | Inr _ \<Rightarrow> await_response lib has_cancel ps s1)"

definition send_command_interruptible :: "codec \<Rightarrow> command_request \<Rightarrow> bool \<Rightarrow> poll list \<Rightarrow> framed_session \<Rightarrow>
    ((ipc_error + command_response) \<times> framed_session) option" where
  "send_command_interruptible lib req has_cancel polls s =
     (case send_message (encode_command lib) Command 0 req s of
        (Inl e, s1) \<Rightarrow> Some (Inl e, s1)
      | (Inr _, s1) \<Rightarrow> await_response lib has_cancel polls s1)"

definition send_rpc_request :: "codec \<Rightarrow> string \<Rightarrow> command \<Rightarrow> bool \<Rightarrow> (response \<Rightarrow> 'r option) \<Rightarrow> poll list \<Rightarrow>
    framed_session \<Rightarrow> ((ipc_error + 'r) \<times> framed_session) option" where
  "send_rpc_request lib req_verb request has_cancel extract polls s0 =
     (let (seq, s) = next_seq s0;
          req = \<lparr>cq_request_id = req_verb @ ''-'' @ decimal (unat seq), cq_request = Some request\<rparr>
      in map_option (\<lambda>(r, s').
           (and_then r (\<lambda>resp.
              if cs_status resp \<noteq> 0 then Inl (CommandError (cs_error_code resp) (cs_error_message resp))
              else case cs_response resp of
                Some body \<Rightarrow> (case extract body of Some x \<Rightarrow> Inr x | None \<Rightarrow> Inl (Ipc_Protocol PrematureEof))
              | None \<Rightarrow> Inl (Ipc_Protocol PrematureEof)), s'))
           (send_command_interruptible lib req has_cancel polls s))"

definition ping_with_options :: "codec \<Rightarrow> u64 \<Rightarrow> u32 \<Rightarrow> bool \<Rightarrow> poll list \<Rightarrow> framed_session \<Rightarrow>
    ((ipc_error + ping_response) \<times> framed_session) option" where
  "ping_with_options lib now delay_ms has_cancel =
     send_rpc_request lib ''ping'' (Req_Ping now delay_ms) has_cancel
       (\<lambda>r. case r of Resp_Ping p \<Rightarrow> Some p | _ \<Rightarrow> None)"

definition echo_with_options :: "codec \<Rightarrow> string \<Rightarrow> u32 \<Rightarrow> bool \<Rightarrow> poll list \<Rightarrow> framed_session \<Rightarrow>
    ((ipc_error + string) \<times> framed_session) option" where
  "echo_with_options lib payload delay_ms has_cancel =
     send_rpc_request lib ''echo'' (Req_Echo payload delay_ms) has_cancel
       (\<lambda>r. case r of Resp_Echo e \<Rightarrow> Some e | _ \<Rightarrow> None)"

definition health_with_options :: "codec \<Rightarrow> bool \<Rightarrow> u32 \<Rightarrow> bool \<Rightarrow> poll list \<Rightarrow> framed_session \<Rightarrow>
    ((ipc_error + health_response) \<times> framed_session) option" where
  "health_with_options lib include_memory delay_ms has_cancel =
     send_rpc_request lib ''health'' (Req_Health include_memory delay_ms) has_cancel
       (\<lambda>r. case r of Resp_Health h \<Rightarrow> Some h | _ \<Rightarrow> None)"

definition status_with_options :: "codec \<Rightarrow> u32 \<Rightarrow> bool \<Rightarrow> poll list \<Rightarrow> framed_session \<Rightarrow>
    ((ipc_error + status_response) \<times> framed_session) option" where
  "status_with_options lib delay_ms has_cancel =
     send_rpc_request lib ''status'' (Req_Status delay_ms) has_cancel
       (\<lambda>r. case r of Resp_StatusPayload st \<Rightarrow> Some st | _ \<Rightarrow> None)"

definition version_with_options :: "codec \<Rightarrow> u32 \<Rightarrow> bool \<Rightarrow> poll list \<Rightarrow> framed_session \<Rightarrow>
    ((ipc_error + version_response) \<times> framed_session) option" where
  "version_with_options lib delay_ms has_cancel =
     send_rpc_request lib ''version'' (Req_Version delay_ms) has_cancel
       (\<lambda>r. case r of Resp_Version v \<Rightarrow> Some v | _ \<Rightarrow> None)"

definition get_children :: "codec \<Rightarrow> string \<Rightarrow> u32 \<Rightarrow> u32 \<Rightarrow> u32 \<Rightarrow> poll list \<Rightarrow> framed_session \<Rightarrow>
    ((ipc_error + get_children_response) \<times> framed_session) option" where
  "get_children lib operation_id parent_id offset limit =
     send_rpc_request lib ''get_children'' (Req_GetChildren operation_id parent_id offset limit) False
       (\<lambda>r. case r of Resp_GetChildren gc \<Rightarrow> Some gc | _ \<Rightarrow> None)"

section \<open>Cancelling and shutting down\<close>

fun await_cancel :: "codec \<Rightarrow> poll list \<Rightarrow> framed_session \<Rightarrow>
    ((ipc_error + (bool \<times> string)) \<times> framed_session) option" where
  "await_cancel lib [] s = None"
| "await_cancel lib (p # ps) s =
     (if po_deadline p then Some (Inl Ipc_Timeout, s)
      else let s1 = arrive (po_arrived p) s in
      case peek_frame_readiness (peek_answer p s1) of
        Inl e \<Rightarrow> Some (Inl e, s1)
      | Inr Complete \<Rightarrow>
          (case recv_message (decode_response lib) s1 of
             (Inl e, s2) \<Rightarrow> Some (Inl e, s2)
           | (Inr None, s2) \<Rightarrow> Some (Inl (Ipc_Protocol PrematureEof), s2)
           | (Inr (Some (_, resp)), s2) \<Rightarrow>
               (case cs_response resp of
                  Some (Resp_Cancel c m) \<Rightarrow> Some (Inr (c, m), s2)
                | _ \<Rightarrow> Some (Inr (True, ''Request cancelled''), s2)))
      | Inr _ \<Rightarrow> await_cancel lib ps s1)"

definition cancel_request :: "codec \<Rightarrow> string \<Rightarrow> poll list \<Rightarrow> framed_session \<Rightarrow>
    ((ipc_error + (bool \<times> string)) \<times> framed_session) option" where
  "cancel_request lib target_request_id polls s0 =
     (let (seq, s) = next_seq s0;
          req = \<lparr>cq_request_id = ''cancel-'' @ decimal (unat seq),
                 cq_request = Some (Req_Cancel target_request_id ''Operation cancelled by user'')\<rparr>
      in case send_message (encode_command lib) Command 0 req s of
           (Inl e, s1) \<Rightarrow> Some (Inl e, s1)
         | (Inr _, s1) \<Rightarrow> await_cancel lib polls s1)"

definition shutdown :: "codec \<Rightarrow> poll list \<Rightarrow> framed_session \<Rightarrow> ((ipc_error + unit) \<times> framed_session) option" where
  "shutdown lib polls s0 =
     (let (seq, s) = next_seq s0;
          req = \<lparr>cq_request_id = ''shutdown-'' @ decimal (unat seq), cq_request = Some Req_Shutdown\<rparr>
      in map_option (\<lambda>(_, s'). (Inr (), s')) (send_command_interruptible lib req False polls s))"

end
