(* ===== verification/Engine.thy ===== *)
theory Engine
  imports Client Launch Validator
begin

text \<open>
  The engine process: \<^verbatim>\<open>crates/pigtree-engine/src/main.rs\<close>. Its loops poll the pipe; what a turn of a
  loop finds is a \<open>tick\<close>. The thread that runs the worker appears as the progress it sends and the
  result it is joined with. The state records the responses sent, in order, beside the bytes of
  the transport.
\<close>

section \<open>The world of the engine\<close>

record tick =
  ti_arrived :: "u8 list"
  ti_peek_error :: "u32 option"
  ti_now :: nat
  ti_unix_ms :: nat
  ti_handle_count :: u32
  ti_memory :: "u64 option"
  ti_cancel_event :: "u32 option"
  ti_progress :: "scan_progress list"
  ti_joined :: "(scan_runner_error + directory_graph) option option"
  ti_late_progress :: "scan_progress list"

record engine_world =
  ew_encode :: "command_response \<Rightarrow> u8 list"
  ew_decode :: "u8 list \<Rightarrow> string + command_request"
  ew_session_id :: string
  ew_env_delay :: "string option"
  ew_start :: nat
  ew_target_os :: target_os
  ew_files :: worker_files
  ew_build_date :: string
  ew_commit_hash :: string
  ew_io_text :: "io_error \<Rightarrow> string"

record engine =
  en_framed :: framed_session
  en_sent :: "(channel_tag \<times> command_response) list"
  en_settled :: "(string \<times> directory_graph) option"
  en_idle_partial :: "nat option"

definition engine_arrive :: "tick \<Rightarrow> engine \<Rightarrow> engine" where
  "engine_arrive t st = st\<lparr>en_framed := arrive (ti_arrived t) (en_framed st)\<rparr>"

definition engine_peek :: "tick \<Rightarrow> engine \<Rightarrow> ipc_error + frame_readiness" where
  "engine_peek t st = peek_frame_readiness
     (case ti_peek_error t of Some e \<Rightarrow> Inl e | None \<Rightarrow> pipe_holding (avail (fs_input (en_framed st))))"

text \<open>The command received, if any; everything else ends the session.\<close>

definition recv_command :: "engine_world \<Rightarrow> engine \<Rightarrow> command_request option \<times> engine" where
  "recv_command w st = (case recv_message (ew_decode w) (en_framed st) of
     (Inr (Some (_, c)), f) \<Rightarrow> (Some c, st\<lparr>en_framed := f\<rparr>)
   | (_, f) \<Rightarrow> (None, st\<lparr>en_framed := f\<rparr>))"

definition send_on :: "channel_tag \<Rightarrow> engine_world \<Rightarrow> command_response \<Rightarrow> engine \<Rightarrow> bool \<times> engine" where
  "send_on channel w resp st = (case send_message (ew_encode w) channel 0 resp (en_framed st) of
     (Inl _, f) \<Rightarrow> (False, st\<lparr>en_framed := f\<rparr>)
   | (Inr _, f) \<Rightarrow> (True, st\<lparr>en_framed := f, en_sent := en_sent st @ [(channel, resp)]\<rparr>))"

definition send_response :: "engine_world \<Rightarrow> command_response \<Rightarrow> engine \<Rightarrow> bool \<times> engine" where
  "send_response = send_on Command"

definition send_progress :: "engine_world \<Rightarrow> command_response \<Rightarrow> engine \<Rightarrow> bool \<times> engine" where
  "send_progress = send_on ProgressPulse"

section \<open>Responses\<close>

definition ok_response :: "string \<Rightarrow> response \<Rightarrow> command_response" where
  "ok_response request_id body = \<lparr>cs_request_id = request_id, cs_status = 0, cs_error_code = [],
     cs_error_message = [], cs_response = Some body\<rparr>"

definition error_response :: "string \<Rightarrow> string \<Rightarrow> string \<Rightarrow> command_response" where
  "error_response request_id code message = \<lparr>cs_request_id = request_id, cs_status = 1, cs_error_code = code,
     cs_error_message = message, cs_response = Some (Resp_Error code message [])\<rparr>"

definition unknown_response :: "string \<Rightarrow> command_response" where
  "unknown_response request_id = \<lparr>cs_request_id = request_id, cs_status = 1, cs_error_code = ''UNKNOWN_COMMAND'',
     cs_error_message = ''Requested command verb is not supported'', cs_response = None\<rparr>"

text \<open>The commands that are answered at once; the flag is that of the shutdown.\<close>

definition simple_response :: "engine_world \<Rightarrow> tick \<Rightarrow> command_request \<Rightarrow> command_response \<times> bool" where
  "simple_response w t cmd =
     (let ok = ok_response (cq_request_id cmd) in
      case cq_request cmd of
        Some (Req_Ping ts _) \<Rightarrow>
          (ok (Resp_Ping \<lparr>pr_timestamp_utc_ms = ts, pr_echo_timestamp_utc_ms = word_of_nat (ti_unix_ms t)\<rparr>), False)
      | Some (Req_Echo payload _) \<Rightarrow> (ok (Resp_Echo payload), False)
      | Some (Req_Health include_memory _) \<Rightarrow>
          (ok (Resp_Health \<lparr>hp_status = ''HEALTHY'', hp_uptime_ms = word_of_nat (ti_now t - ew_start w),
             hp_memory_private_bytes = (if include_memory then (case ti_memory t of Some m \<Rightarrow> m | None \<Rightarrow> 0) else 0),
             hp_handle_count = ti_handle_count t\<rparr>), False)
      | Some (Req_Status _) \<Rightarrow>
          (ok (Resp_StatusPayload \<lparr>st_state = ''IDLE'', st_active_runs = 0, st_total_observations = 0,
             st_session_id = ew_session_id w\<rparr>), False)
      | Some (Req_Version _) \<Rightarrow>
          (ok (Resp_Version \<lparr>vr_engine_version = ''0.1.0'', vr_protocol_version = 1, vr_build_date = ew_build_date w,
             vr_commit_hash = ew_commit_hash w, vr_capabilities = [''scan'', ''remediation'']\<rparr>), False)
      | Some (Req_Cancel target _) \<Rightarrow> (ok (Resp_Cancel True (''Request '' @ target @ '' cancelled'')), False)
      | Some Req_Shutdown \<Rightarrow> (ok (Resp_Shutdown 0), True)
      | _ \<Rightarrow> (unknown_response (cq_request_id cmd), False))"

section \<open>Pages of children\<close>

definition query_error_text :: "graph_query_error \<Rightarrow> string" where
  "query_error_text e = (case e of
     ParentNotFound i \<Rightarrow> ''Parent entry ID '' @ decimal (unat i) @ '' not found''
   | QueryParentNotDirectory i \<Rightarrow> ''Entry ID '' @ decimal (unat i) @ '' is not a directory'')"

definition quoted :: "string \<Rightarrow> string" where
  "quoted s = [CHR 0x27] @ s @ [CHR 0x27]"

text \<open>\<open>None\<close>: the query panics.\<close>

definition children_response :: "string \<Rightarrow> string \<Rightarrow> u32 \<Rightarrow> u32 \<Rightarrow> u32 \<Rightarrow> (string \<times> directory_graph) option
    \<Rightarrow> command_response option" where
  "children_response request_id operation_id parent_id offset req_limit settled_scan =
     (case settled_scan of
        None \<Rightarrow> Some (error_response request_id ''STALE_OPERATION''
          (''Operation ID '' @ quoted operation_id @ '' not found or no scan has settled''))
      | Some (settled_id, graph) \<Rightarrow>
          if settled_id \<noteq> operation_id then
            Some (error_response request_id ''STALE_OPERATION''
              (''Operation ID '' @ quoted operation_id @ '' does not match active settled operation '' @ quoted settled_id))
          else let limit = (if req_limit = 0 then 100 else req_limit) in
          if limit > 500 then
            Some (error_response request_id ''INVALID_LIMIT''
              (''Limit '' @ decimal (unat req_limit) @ '' exceeds maximum allowed page size of 500''))
          else map_option (\<lambda>r. case r of
              Inr (total_children, page) \<Rightarrow> ok_response request_id (Resp_GetChildren
                \<lparr>gc_operation_id = operation_id, gc_parent_id = parent_id,
                 gc_total_children = word_of_nat total_children, gc_offset = offset, gc_nodes = page\<rparr>)
            | Inl err \<Rightarrow> error_response request_id ''INVALID_PARENT'' (query_error_text err))
            (get_children_page graph parent_id (unat offset) (unat limit)))"

section \<open>Waiting for a command\<close>

text \<open>
  \<open>None\<close>: the ticks were used up. The inner \<open>None\<close> ends the session; otherwise the command comes
  with the tick it was received in.
\<close>

fun next_command :: "engine_world \<Rightarrow> tick list \<Rightarrow> engine \<Rightarrow>
    ((tick \<times> command_request) option \<times> engine \<times> tick list) option" where
  "next_command w [] st = None"
| "next_command w (t # ts) st0 =
     (let st = engine_arrive t st0 in
      case engine_peek t st of
        Inl _ \<Rightarrow> Some (None, st, ts)
      | Inr Empty \<Rightarrow> next_command w ts (st\<lparr>en_idle_partial := None\<rparr>)
      | Inr Partial \<Rightarrow>
          (let pstart = (case en_idle_partial st of Some p \<Rightarrow> p | None \<Rightarrow> ti_now t);
               st1 = st\<lparr>en_idle_partial := Some pstart\<rparr>
           in if ti_now t - pstart \<ge> 250 then Some (None, st1, ts) else next_command w ts st1)
      | Inr Complete \<Rightarrow>
          (case recv_command w (st\<lparr>en_idle_partial := None\<rparr>) of
             (Some c, st1) \<Rightarrow> Some (Some (t, c), st1, ts)
           | (None, st1) \<Rightarrow> Some (None, st1, ts)))"

section \<open>The delay of a command\<close>

definition req_delay :: "command option \<Rightarrow> u32" where
  "req_delay request = (case request of
     Some (Req_Ping _ d) \<Rightarrow> d | Some (Req_Echo _ d) \<Rightarrow> d | Some (Req_Health _ d) \<Rightarrow> d
   | Some (Req_Status d) \<Rightarrow> d | Some (Req_Version d) \<Rightarrow> d | _ \<Rightarrow> 0)"

definition effective_delay :: "engine_world \<Rightarrow> command_request \<Rightarrow> u32" where
  "effective_delay w cmd =
     max (req_delay (cq_request cmd))
         (case Option.bind (ew_env_delay w) (\<lambda>v. map_option word_of_nat (from_str_radix 32 10 v)) of Some d \<Rightarrow> d | None \<Rightarrow> 0)"

text \<open>
  Waiting: \<open>Inl ()\<close> ends the process, \<open>Inr (Some r)\<close> is a cancellation to be answered under the
  identifier \<open>r\<close>. Other commands that arrive meanwhile are received and dropped.
\<close>

fun delay_loop :: "engine_world \<Rightarrow> nat \<Rightarrow> nat \<Rightarrow> nat option \<Rightarrow> tick list \<Rightarrow> engine \<Rightarrow>
    ((unit + string option) \<times> engine \<times> tick list) option" where
  "delay_loop w start delay partial_start [] st = None"
| "delay_loop w start delay partial_start (t # ts) st0 =
     (if \<not> ti_now t - start < delay then Some (Inr None, st0, t # ts)
      else let st = engine_arrive t st0 in
      case engine_peek t st of
        Inl _ \<Rightarrow> Some (Inl (), st, ts)
      | Inr Empty \<Rightarrow> delay_loop w start delay None ts st
      | Inr Partial \<Rightarrow>
          (let pstart = (case partial_start of Some p \<Rightarrow> p | None \<Rightarrow> ti_now t)
           in if ti_now t - pstart \<ge> 250 then Some (Inl (), st, ts)
              else delay_loop w start delay (Some pstart) ts st)
      | Inr Complete \<Rightarrow>
          (case recv_command w st of
             (Some c, st1) \<Rightarrow>
               (case cq_request c of
                  Some (Req_Cancel target _) \<Rightarrow>
                    Some (Inr (Some (if cq_request_id c = [] then target else cq_request_id c)), st1, ts)
                | _ \<Rightarrow> delay_loop w start delay None ts st1)
           | (None, st1) \<Rightarrow> Some (Inl (), st1, ts)))"


section \<open>Scanning\<close>

text \<open>The state of the loop that waits for the runner thread.\<close>

record scan_wait =
  sw_pending :: "scan_progress option"
  sw_last_send :: int
  sw_partial_start :: "nat option"
  sw_cancelled :: bool

definition latest :: "scan_progress option \<Rightarrow> scan_progress list \<Rightarrow> scan_progress option" where
  "latest pending received = (if received = [] then pending else Some (last received))"

text \<open>Progress is sent at most every 100 milliseconds; \<open>Inl\<close>: sending failed.\<close>

definition send_pending :: "engine_world \<Rightarrow> string \<Rightarrow> tick \<Rightarrow> scan_wait \<Rightarrow> engine \<Rightarrow> (engine + scan_wait \<times> engine)" where
  "send_pending w request_id t sw st =
     (case sw_pending sw of
        None \<Rightarrow> Inr (sw, st)
      | Some progress \<Rightarrow>
          if int (ti_now t) - sw_last_send sw \<ge> 100 then
            (case send_progress w (ok_response request_id (Resp_ScanProgress progress)) st of
               (True, st1) \<Rightarrow> Inr (sw\<lparr>sw_pending := None, sw_last_send := int (ti_now t)\<rparr>, st1)
             | (False, st1) \<Rightarrow> Inl st1)
          else Inr (sw, st))"

text \<open>A command that arrives during a scan.\<close>

definition busy_command :: "engine_world \<Rightarrow> string \<Rightarrow> string \<Rightarrow> command_request \<Rightarrow> scan_wait \<Rightarrow> engine \<Rightarrow> scan_wait \<times> engine" where
  "busy_command w request_id operation_id c sw st =
     (case cq_request c of
        Some (Req_Cancel target _) \<Rightarrow>
          (if target = [] \<or> target = request_id \<or> target = operation_id \<or> target = ''scan''
           then sw\<lparr>sw_cancelled := True\<rparr> else sw, st)
      | Some (Req_Status _) \<Rightarrow>
          (sw, snd (send_response w (ok_response (cq_request_id c)
             (Resp_StatusPayload \<lparr>st_state = ''SCANNING'', st_active_runs = 1, st_total_observations = 0,
                st_session_id = ew_session_id w\<rparr>)) st))
      | _ \<Rightarrow>
          (sw, snd (send_response w (error_response (cq_request_id c) ''BUSY''
             ''Engine is busy executing an active scan operation'') st)))"

text \<open>
  \<open>Inl\<close> ends the process, after cancelling and joining the thread; otherwise the result of the
  thread, the tick it was found in, and the state.
\<close>

fun scan_wait_loop :: "engine_world \<Rightarrow> string \<Rightarrow> string \<Rightarrow> tick list \<Rightarrow> scan_wait \<Rightarrow> engine \<Rightarrow>
    ((engine + (scan_runner_error + directory_graph) option \<times> tick \<times> scan_wait \<times> engine) \<times> tick list) option" where
  "scan_wait_loop w request_id operation_id [] sw st = None"
| "scan_wait_loop w request_id operation_id (t # ts) sw0 st0 =
     (case send_pending w request_id t (sw0\<lparr>sw_pending := latest (sw_pending sw0) (ti_progress t)\<rparr>) st0 of
        Inl st1 \<Rightarrow> Some (Inl st1, ts)
      | Inr (sw, st1) \<Rightarrow>
          let st = engine_arrive t st1;
              go_on = (\<lambda>sw st. case ti_joined t of
                 Some result \<Rightarrow> Some (Inr (result, t, sw, st), ts)
               | None \<Rightarrow> scan_wait_loop w request_id operation_id ts sw st)
          in case engine_peek t st of
               Inl _ \<Rightarrow> Some (Inl st, ts)
             | Inr Empty \<Rightarrow> go_on (sw\<lparr>sw_partial_start := None\<rparr>) st
             | Inr Partial \<Rightarrow>
                 (let pstart = (case sw_partial_start sw of Some p \<Rightarrow> p | None \<Rightarrow> ti_now t)
                  in if ti_now t - pstart \<ge> 250 then Some (Inl st, ts)
                     else go_on (sw\<lparr>sw_partial_start := Some pstart\<rparr>) st)
             | Inr Complete \<Rightarrow>
                 (case recv_command w st of
                    (Some c, st2) \<Rightarrow>
                      (case busy_command w request_id operation_id c (sw\<lparr>sw_partial_start := None\<rparr>) st2 of
                         (sw', st3) \<Rightarrow> go_on sw' st3)
                  | (None, st2) \<Rightarrow> Some (Inl st2, ts)))"

definition proto_outcome :: "run_outcome \<Rightarrow> scan_run_outcome" where
  "proto_outcome r = (case r of run_outcome.Finished \<Rightarrow> Outcome_Finished | Cancelled \<Rightarrow> Outcome_Cancelled | Failed \<Rightarrow> Outcome_Failed)"

definition gap_report :: "coverage_gap_observation \<Rightarrow> coverage_gap_report" where
  "gap_report g = \<lparr>gr_display_path = g_path g, gr_status_code = ''ERROR_'' @ decimal (unat (g_error_code g)),
     gr_native_error = g_error_code g, gr_error_message = g_error_message g\<rparr>"

definition link_report :: "hard_link_summary \<Rightarrow> hard_link_report" where
  "link_report s =
     \<lparr>hr_volume_guid = volume_guid (hl_identity s), hr_file_id_hi = ucast (drop_bit 64 (file_id (hl_identity s))),
      hr_file_id_lo = ucast (file_id (hl_identity s)), hr_observed_alias_count = hl_observed_alias_count s,
      hr_total_link_count = Some (link_count_proto_from (hl_total_link_count s)),
      hr_external_reference_status = external_status_i32 (external_status_from (hl_external_reference_status s)),
      hr_entry_paths = hl_entry_paths s\<rparr>"

record scan_times =
  tm_started_iso :: string
  tm_completed_iso :: string
  tm_duration_ms :: u64

text \<open>The response for a graph; \<open>None\<close>: the queries panic.\<close>

definition graph_response :: "string \<Rightarrow> string \<Rightarrow> scan_times \<Rightarrow> directory_graph \<Rightarrow> scan_response option" where
  "graph_response operation_id target_path tm graph =
     map_option (\<lambda>links.
       let outcome = proto_outcome (t_outcome (dg_terminal graph));
           scope_coverage = (if outcome = Outcome_Finished
             then (if dg_gaps graph = [] then Coverage_Complete else Coverage_Partial) else Coverage_Partial)
       in \<lparr>r_operation_id = operation_id, r_target_path = target_path, r_run_outcome = scan_outcome_i32 outcome,
           r_observation_started_iso = tm_started_iso tm, r_observation_completed_iso = tm_completed_iso tm,
           r_scope_coverage = coverage_i32 scope_coverage,
           r_directory_count = t_total_directories (dg_terminal graph),
           r_file_count = t_total_files (dg_terminal graph), r_special_count = 0,
           r_logical_bytes = t_total_logical_bytes (dg_terminal graph),
           r_allocated_bytes = t_total_allocated_bytes (dg_terminal graph),
           r_allocated_bytes_known = dg_allocated_bytes_known graph,
           r_coverage_gaps = map gap_report (dg_gaps graph), r_duration_ms = tm_duration_ms tm,
           r_referenced_allocated_bytes = graph_referenced_bytes graph,
           r_unique_allocated_bytes = graph_unique_bytes graph,
           r_known_subtotal_allocated_bytes = graph_known_subtotal_bytes graph,
           r_indeterminate_external_reference_objects = dg_indeterminate_external_reference_objects graph,
           r_hard_links = map link_report links\<rparr>)
       (hard_link_objects graph)"

definition failure_response :: "string \<Rightarrow> string \<Rightarrow> scan_times \<Rightarrow> bool \<Rightarrow> scan_response" where
  "failure_response operation_id target_path tm cancelled =
     \<lparr>r_operation_id = operation_id, r_target_path = target_path,
      r_run_outcome = scan_outcome_i32 (if cancelled then Outcome_Cancelled else Outcome_Failed),
      r_observation_started_iso = tm_started_iso tm, r_observation_completed_iso = tm_completed_iso tm,
      r_scope_coverage = coverage_i32 Coverage_Indeterminate, r_directory_count = 0, r_file_count = 0,
      r_special_count = 0, r_logical_bytes = 0, r_allocated_bytes = 0, r_allocated_bytes_known = False,
      r_coverage_gaps = [], r_duration_ms = tm_duration_ms tm, r_referenced_allocated_bytes = 0,
      r_unique_allocated_bytes = 0, r_known_subtotal_allocated_bytes = 0,
      r_indeterminate_external_reference_objects = 0, r_hard_links = []\<rparr>"

text \<open>The response, and the scan that is now settled.\<close>

definition settle_scan :: "string \<Rightarrow> string \<Rightarrow> scan_times \<Rightarrow> bool \<Rightarrow> (scan_runner_error + directory_graph) option
    \<Rightarrow> (scan_response \<times> (string \<times> directory_graph) option) option" where
  "settle_scan operation_id target_path tm cancelled result = (case result of
     Some (Inr graph) \<Rightarrow> map_option (\<lambda>r. (r, Some (operation_id, graph))) (graph_response operation_id target_path tm graph)
   | _ \<Rightarrow> Some (failure_response operation_id target_path tm cancelled, None))"

text \<open>The part of a scan after the thread was joined: the flag tells whether the session goes on.\<close>

definition finish_scan :: "engine_world \<Rightarrow> tick \<Rightarrow> string \<Rightarrow> string \<Rightarrow> string \<Rightarrow>
    (scan_runner_error + directory_graph) option \<times> tick \<times> scan_wait \<times> engine \<Rightarrow> (bool \<times> engine) option" where
  "finish_scan w t0 request_id operation_id target_path joined = (case joined of (result, t, sw, st) \<Rightarrow>
     (let st1 = (case latest (sw_pending sw) (ti_late_progress t) of
          Some progress \<Rightarrow> snd (send_progress w (ok_response request_id (Resp_ScanProgress progress)) st)
        | None \<Rightarrow> st);
          tm = \<lparr>tm_started_iso = format_utc_iso (ti_unix_ms t0), tm_completed_iso = format_utc_iso (ti_unix_ms t),
                tm_duration_ms = word_of_nat (ti_now t - ti_now t0)\<rparr>
      in map_option (\<lambda>(r, settled_scan).
           send_response w (ok_response request_id (Resp_ScanResponse r)) (st1\<lparr>en_settled := settled_scan\<rparr>))
           (settle_scan operation_id target_path tm (sw_cancelled sw) result)))"

definition validation_code :: "target_validation_error \<Rightarrow> string" where
  "validation_code e = (case e of UnsupportedFileSystem _ _ _ \<Rightarrow> ''UNSUPPORTED_FILESYSTEM'' | _ \<Rightarrow> ''INVALID_TARGET'')"

text \<open>
  A scan command. The result is whether the session goes on; \<open>None\<close>: the ticks were used up, or a
  query of the finished graph panics.
\<close>

definition handle_scan :: "engine_world \<Rightarrow> tick \<Rightarrow> string \<Rightarrow> string \<Rightarrow> string \<Rightarrow> tick list \<Rightarrow> engine \<Rightarrow>
    ((bool \<times> engine) \<times> tick list) option" where
  "handle_scan w t request_id req_operation_id target_path ts st0 =
     (let st = st0\<lparr>en_settled := None\<rparr> in
      case validate_scan_target (ew_target_os w) target_path of
        Inl e \<Rightarrow> Some (send_response w (error_response request_id (validation_code e) (target_error_text e)) st, ts)
      | Inr _ \<Rightarrow> (case resolve_scan_worker_exe (ew_files w) of
        None \<Rightarrow> Some (send_response w (error_response request_id ''WORKER_NOT_FOUND''
          (''Scan worker executable '' @ quoted ''pigtree-scan-worker.exe'' @ '' not found'')) st, ts)
      | Some _ \<Rightarrow> (case ti_cancel_event t of
        Some e \<Rightarrow> Some (send_response w (error_response request_id ''INTERNAL_ERROR''
          (''Failed to create cancel handle: '' @ ipc_error_text (ew_io_text w) (Ipc_Win32 e ''CreateEventW failed''))) st, ts)
      | None \<Rightarrow>
          let operation_id = (if req_operation_id = [] then request_id else req_operation_id);
              sw = \<lparr>sw_pending = None, sw_last_send = int (ti_now t) - 100, sw_partial_start = None, sw_cancelled = False\<rparr>
          in Option.bind (scan_wait_loop w request_id operation_id ts sw st) (\<lambda>(r, ts').
               case r of
                 Inl st1 \<Rightarrow> Some ((False, st1), ts')
               | Inr joined \<Rightarrow> map_option (\<lambda>x. (x, ts')) (finish_scan w t request_id operation_id target_path joined)))))"

section \<open>The command loop\<close>

definition handle_command :: "engine_world \<Rightarrow> tick \<Rightarrow> command_request \<Rightarrow> tick list \<Rightarrow> engine \<Rightarrow>
    ((bool \<times> engine) \<times> tick list) option" where
  "handle_command w t cmd ts st = (case cq_request cmd of
     Some (Req_Scan operation_id target_path) \<Rightarrow> handle_scan w t (cq_request_id cmd) operation_id target_path ts st
   | Some (Req_GetChildren operation_id parent_id offset limit) \<Rightarrow>
       map_option (\<lambda>resp. (send_response w resp st, ts))
         (children_response (cq_request_id cmd) operation_id parent_id offset limit (en_settled st))
   | _ \<Rightarrow>
       let (resp, is_shutdown) = simple_response w t cmd; (sent, st1) = send_response w resp st
       in Some ((sent \<and> \<not> is_shutdown, st1), ts))"

text \<open>One command with its delay.\<close>

definition serve_command :: "engine_world \<Rightarrow> tick \<Rightarrow> command_request \<Rightarrow> tick list \<Rightarrow> engine \<Rightarrow>
    ((bool \<times> engine) \<times> tick list) option" where
  "serve_command w t cmd ts st =
     (if effective_delay w cmd > 0 then
        Option.bind (delay_loop w (ti_now t) (unat (effective_delay w cmd)) None ts st) (\<lambda>(r, st1, ts1).
          case r of
            Inl _ \<Rightarrow> Some ((False, st1), ts1)
          | Inr (Some cancel_request_id) \<Rightarrow>
              Some ((True, snd (send_response w (ok_response cancel_request_id
                 (Resp_Cancel True ''Operation cancelled by client'')) st1)), ts1)
          | Inr None \<Rightarrow> (case ts1 of [] \<Rightarrow> None | t1 # _ \<Rightarrow> handle_command w t1 cmd ts1 st1))
      else handle_command w t cmd ts st)"


text \<open>Every command uses up a tick.\<close>

lemma next_command_ticks: "next_command w ts st = Some (Some tc, st', ts') \<Longrightarrow> length ts' < length ts"
proof (induction ts arbitrary: st)
  case (Cons t ts)
  then show ?case
    by (fastforce simp: Let_def split: sum.splits frame_readiness.splits if_splits prod.splits option.splits)
qed simp

lemma delay_loop_ticks: "delay_loop w a d p ts st = Some (r, st', ts') \<Longrightarrow> length ts' \<le> length ts"
proof (induction ts arbitrary: st p)
  case (Cons t ts)
  then show ?case
    by (fastforce simp: Let_def split: sum.splits frame_readiness.splits if_splits prod.splits option.splits command.splits)
qed simp

lemma scan_wait_ticks: "scan_wait_loop w i k ts sw st = Some (r, ts') \<Longrightarrow> length ts' \<le> length ts"
proof (induction ts arbitrary: sw st)
  case (Cons t ts)
  then show ?case
    by (fastforce simp: Let_def split: sum.splits frame_readiness.splits if_splits prod.splits option.splits)
qed simp

text \<open>A scan is refused, ends the process, or is finished after its thread.\<close>

abbreviation scan_start :: "tick \<Rightarrow> scan_wait" where
  "scan_start t \<equiv> \<lparr>sw_pending = None, sw_last_send = int (ti_now t) - 100, sw_partial_start = None, sw_cancelled = False\<rparr>"

abbreviation scan_operation :: "string \<Rightarrow> string \<Rightarrow> string" where
  "scan_operation request_id operation_id \<equiv> if operation_id = [] then request_id else operation_id"

lemma handle_scan_cases:
  assumes h: "handle_scan w t i k p ts st = Some (r, ts')"
  obtains (refused) code message where "ts' = ts"
      "r = send_response w (error_response i code message) (st\<lparr>en_settled := None\<rparr>)"
  | (ended) st1 where "scan_wait_loop w i (scan_operation i k) ts (scan_start t) (st\<lparr>en_settled := None\<rparr>) = Some (Inl st1, ts')"
      "r = (False, st1)"
  | (finished) joined where
      "scan_wait_loop w i (scan_operation i k) ts (scan_start t) (st\<lparr>en_settled := None\<rparr>) = Some (Inr joined, ts')"
      "finish_scan w t i (scan_operation i k) p joined = Some r"
proof (cases "validate_scan_target (ew_target_os w) p")
  case (Inl e)
  with h show ?thesis by (intro refused) (auto simp: handle_scan_def Let_def)
next
  case (Inr v)
  note v = Inr
  show ?thesis
  proof (cases "resolve_scan_worker_exe (ew_files w)")
    case None
    with h v show ?thesis by (intro refused) (auto simp: handle_scan_def Let_def)
  next
    case (Some x)
    note x = Some
    show ?thesis
    proof (cases "ti_cancel_event t")
      case None
      with h v x obtain q ts1 where q: "scan_wait_loop w i (scan_operation i k) ts (scan_start t) (st\<lparr>en_settled := None\<rparr>) = Some (q, ts1)"
        and r: "(case q of Inl st1 \<Rightarrow> Some ((False, st1), ts1)
          | Inr joined \<Rightarrow> map_option (\<lambda>x. (x, ts1)) (finish_scan w t i (scan_operation i k) p joined)) = Some (r, ts')"
        by (auto simp: handle_scan_def Let_def bind_eq_Some_conv simp del: split_paired_Ex)
      show ?thesis
      proof (cases q)
        case (Inl st1)
        with q r show ?thesis by (intro ended) auto
      next
        case (Inr joined)
        with q r show ?thesis by (intro finished) auto
      qed
    next
      case (Some e)
      with h v x show ?thesis by (intro refused) (auto simp: handle_scan_def Let_def)
    qed
  qed
qed

lemma handle_scan_ticks:
  assumes "handle_scan w t i k p ts st = Some (r, ts')"
  shows "length ts' \<le> length ts"
  using assms by (rule handle_scan_cases) (auto dest: scan_wait_ticks)

lemma handle_command_ticks: "handle_command w t c ts st = Some (r, ts') \<Longrightarrow> length ts' \<le> length ts"
  by (auto simp: handle_command_def Let_def split: option.splits command.splits prod.splits dest: handle_scan_ticks)

lemma serve_command_ticks:
  assumes "serve_command w t c ts st = Some (r, ts')"
  shows "length ts' \<le> length ts"
proof (cases "effective_delay w c > 0")
  case True
  then obtain x st1 ts1 where d: "delay_loop w (ti_now t) (unat (effective_delay w c)) None ts st = Some (x, st1, ts1)"
    using assms by (auto simp: serve_command_def bind_eq_Some_conv)
  note le = delay_loop_ticks [OF d]
  show ?thesis
  proof (cases x)
    case (Inr y)
    show ?thesis
    proof (cases y)
      case None
      with assms True d Inr obtain t1 where "handle_command w t1 c ts1 st1 = Some (r, ts')"
        by (auto simp: serve_command_def split: list.splits)
      with le show ?thesis by (meson handle_command_ticks order_trans)
    qed (use assms True d Inr le in \<open>auto simp: serve_command_def\<close>)
  qed (use assms True d le in \<open>auto simp: serve_command_def\<close>)
qed (use assms in \<open>auto simp: serve_command_def dest: handle_command_ticks\<close>)

function engine_loop :: "engine_world \<Rightarrow> tick list \<Rightarrow> engine \<Rightarrow> engine option" where
  "engine_loop w ts st =
     (case next_command w ts st of
        None \<Rightarrow> None
      | Some (None, st1, _) \<Rightarrow> Some st1
      | Some (Some (t, cmd), st1, ts1) \<Rightarrow>
          (case serve_command w t cmd ts1 st1 of
             None \<Rightarrow> None
           | Some ((False, st2), _) \<Rightarrow> Some st2
           | Some ((True, st2), ts2) \<Rightarrow> engine_loop w ts2 st2))"
  by pat_completeness auto
termination
  by (relation "measure (\<lambda>(w, ts, st). length ts)")
    (auto dest!: next_command_ticks serve_command_ticks)

declare engine_loop.simps [simp del]

section \<open>The process\<close>

fun parse_engine_args :: "string list \<Rightarrow> string \<Rightarrow> string \<Rightarrow> nat option \<Rightarrow> string \<times> string \<times> nat option" where
  "parse_engine_args (arg # v # rest) pipe_name session_id handle =
     (if arg = ''--pipe-name'' then parse_engine_args rest v session_id handle
      else if arg = ''--session-id'' then parse_engine_args rest pipe_name v handle
      else if arg = ''--bootstrap-handle'' then parse_engine_args rest pipe_name session_id (parse_usize v)
      else parse_engine_args (v # rest) pipe_name session_id handle)"
| "parse_engine_args _ pipe_name session_id handle = (pipe_name, session_id, handle)"

text \<open>
  The exit code. \<open>read_nonce\<close> and \<open>accept_session\<close> are the bootstrap pipe and the handshake.
\<close>

definition engine_run :: "engine_world \<Rightarrow> (nat \<Rightarrow> ipc_error + u8 list) \<Rightarrow> (string \<Rightarrow> u8 list \<Rightarrow> ipc_error + framed_session)
    \<Rightarrow> string list \<Rightarrow> tick list \<Rightarrow> nat option" where
  "engine_run w read_nonce accept_session args ts =
     (case parse_engine_args (drop 1 args) [] [] None of (pipe_name, session_id, bootstrap_handle) \<Rightarrow>
        if pipe_name = [] \<or> bootstrap_handle = None then Some 2
        else case read_nonce (the bootstrap_handle) of
          Inl _ \<Rightarrow> Some 1
        | Inr nonce \<Rightarrow> (case accept_session pipe_name nonce of
            Inl _ \<Rightarrow> Some 1
          | Inr framed \<Rightarrow> map_option (\<lambda>_. 0) (engine_loop (w\<lparr>ew_session_id := session_id\<rparr>) ts
              \<lparr>en_framed = framed, en_sent = [], en_settled = None, en_idle_partial = None\<rparr>)))"

end
