(* ===== verification/Engine_Spec.thy ===== *)
theory Engine_Spec
  imports Engine
begin

text \<open>
  What the engine answers: every command gets one final response of its kind under its own
  identifier, and the pages of children a session serves are those of its latest settled scan.
\<close>

section \<open>What sending and receiving keep\<close>

type_synonym sent = "channel_tag \<times> command_response"

lemma send_on_keeps:
  assumes "send_on ch w m st = (b, st')"
  shows "en_sent st' = en_sent st @ (if b then [(ch, m)] else [])" "en_settled st' = en_settled st"
  using assms by (auto simp: send_on_def split: prod.splits sum.splits)

lemma send_on_fails:
  assumes "send_on ch w m st = (False, st')"
  shows "MAX_PAYLOAD_SIZE < length (ew_encode w m)"
proof (rule ccontr)
  assume "\<not> MAX_PAYLOAD_SIZE < length (ew_encode w m)"
  then have "length (ew_encode w m) \<le> MAX_PAYLOAD_SIZE" by simp
  from send_message_ok [where enc = "ew_encode w" and m = m and ch = ch and fl = 0 and s = "en_framed st", OF this]
  obtain bs where "send_message (ew_encode w) ch 0 m (en_framed st) = (Inr (fs_sequence_number (en_framed st) + 1),
      (en_framed st)\<lparr>fs_sequence_number := fs_sequence_number (en_framed st) + 1, fs_output := fs_output (en_framed st) @ bs\<rparr>)" by blast
  with assms show False by (simp add: send_on_def)
qed

lemma recv_command_decodes:
  assumes "recv_command w st = (Some c, st')"
  shows "\<exists>p. ew_decode w p = Inr c"
  using assms by (auto simp: recv_command_def recv_message_def split: prod.splits sum.splits option.splits)

lemma recv_command_keeps:
  assumes "recv_command w st = (c, st')"
  shows "en_sent st' = en_sent st" "en_settled st' = en_settled st"
  using assms by (auto simp: recv_command_def split: prod.splits sum.splits option.splits)

lemma engine_arrive_keeps [simp]: "en_sent (engine_arrive t st) = en_sent st" "en_settled (engine_arrive t st) = en_settled st"
  by (simp_all add: engine_arrive_def)

lemma next_command_keeps:
  "next_command w ts st = Some (x, st', ts') \<Longrightarrow> en_sent st' = en_sent st \<and> en_settled st' = en_settled st"
proof (induction w ts st rule: next_command.induct)
  case (2 w t ts st0)
  then show ?case
    by (fastforce simp: Let_def split: sum.splits frame_readiness.splits if_splits prod.splits option.splits
        dest: recv_command_keeps)
qed simp

lemma delay_loop_keeps:
  "delay_loop w a d p ts st = Some (x, st', ts') \<Longrightarrow> en_sent st' = en_sent st \<and> en_settled st' = en_settled st"
proof (induction ts arbitrary: st p)
  case (Cons t ts)
  then show ?case
    by (fastforce simp: Let_def split: sum.splits frame_readiness.splits if_splits prod.splits option.splits command.splits
        dest: recv_command_keeps)
qed simp

text \<open>The identifier under which a cancellation of a delayed command is answered.\<close>

definition cancelled_by :: "engine_world \<Rightarrow> string \<Rightarrow> bool" where
  "cancelled_by w i \<longleftrightarrow> (\<exists>p d target reason. ew_decode w p = Inr d \<and> cq_request d = Some (Req_Cancel target reason) \<and>
     i = (if cq_request_id d = [] then target else cq_request_id d))"

lemma delay_loop_cancelled:
  "delay_loop w a d p ts st = Some (Inr (Some i), st', ts') \<Longrightarrow> cancelled_by w i"
proof (induction ts arbitrary: st p)
  case (Cons t ts)
  then show ?case
    by (fastforce simp: Let_def cancelled_by_def split: sum.splits frame_readiness.splits if_splits prod.splits option.splits
        command.splits dest: recv_command_decodes)
qed simp

section \<open>The responses of a running scan\<close>

text \<open>Progress under the identifier of the scan, or the answer to a command that came meanwhile.\<close>

definition interim :: "string \<Rightarrow> sent \<Rightarrow> bool" where
  "interim i = (\<lambda>(ch, m).
     case cs_response m of
       Some (Resp_ScanProgress _) \<Rightarrow> ch = ProgressPulse \<and> cs_request_id m = i \<and> cs_status m = 0
     | Some (Resp_StatusPayload s) \<Rightarrow> ch = Command \<and> cs_status m = 0 \<and> st_state s = ''SCANNING''
     | Some (Resp_Error code _ _) \<Rightarrow> ch = Command \<and> cs_status m = 1 \<and> code = ''BUSY''
     | _ \<Rightarrow> False)"

text \<open>The state after responses that all satisfy \<open>P\<close>, and nothing else.\<close>

definition only_sends :: "(sent \<Rightarrow> bool) \<Rightarrow> engine \<Rightarrow> engine \<Rightarrow> bool" where
  "only_sends P st st' \<longleftrightarrow> en_settled st' = en_settled st \<and> (\<exists>xs. en_sent st' = en_sent st @ xs \<and> list_all P xs)"

lemma only_sends_refl: "en_sent st' = en_sent st \<Longrightarrow> en_settled st' = en_settled st \<Longrightarrow> only_sends P st st'"
  by (simp add: only_sends_def)

lemma only_sends_trans: "only_sends P st1 st2 \<Longrightarrow> only_sends P st2 st3 \<Longrightarrow> only_sends P st1 st3"
  by (fastforce simp: only_sends_def)

lemma only_sends_send: "send_on ch w m st = (b, st') \<Longrightarrow> P (ch, m) \<Longrightarrow> only_sends P st st'"
  using send_on_keeps by (fastforce simp: only_sends_def)

lemma only_sends_snd: "P (ch, m) \<Longrightarrow> only_sends P st (snd (send_on ch w m st))"
  by (rule only_sends_send [OF prod.collapse [symmetric]])

lemma interim_simps:
  "interim i (ProgressPulse, ok_response i (Resp_ScanProgress p))"
  "interim i (Command, ok_response j (Resp_StatusPayload \<lparr>st_state = ''SCANNING'', st_active_runs = a, st_total_observations = b, st_session_id = s\<rparr>))"
  "interim i (Command, error_response j ''BUSY'' message)"
  by (simp_all add: interim_def ok_response_def error_response_def)

lemma send_pending_only:
  "send_pending w i t sw st = Inr (sw', st') \<Longrightarrow> only_sends (interim i) st st'"
  "send_pending w i t sw st = Inl st1 \<Longrightarrow> only_sends (interim i) st st1"
  by (auto simp: send_pending_def send_progress_def only_sends_refl interim_simps
      split: option.splits if_splits prod.splits bool.splits elim!: only_sends_send)

lemma busy_command_only:
  assumes "busy_command w i k c sw st = (sw', st')"
  shows "only_sends (interim i) st st'"
proof -
  have "snd (busy_command w i k c sw st) = st' " using assms by simp
  then show ?thesis
    by (auto simp: busy_command_def send_response_def only_sends_refl split: option.splits command.splits
        intro!: only_sends_snd interim_simps)
qed

lemma scan_wait_only:
  "scan_wait_loop w i k ts sw st = Some (r, ts') \<Longrightarrow>
   (case r of Inl st1 \<Rightarrow> only_sends (interim i) st st1
    | Inr (result, t, sw1, st1) \<Rightarrow> only_sends (interim i) st st1)"
proof (induction ts arbitrary: sw st)
  case (Cons t ts)
  show ?case
  proof (cases "send_pending w i t (sw\<lparr>sw_pending := latest (sw_pending sw) (ti_progress t)\<rparr>) st")
    case (Inl st1)
    with Cons.prems show ?thesis by (auto dest: send_pending_only)
  next
    case (Inr x)
    obtain sw1 st1 where x: "x = (sw1, st1)" by (cases x)
    have p: "only_sends (interim i) st st1" using Inr x by (auto dest: send_pending_only)
    have stay: "only_sends (interim i) st st2" if "en_sent st2 = en_sent st1" "en_settled st2 = en_settled st1" for st2
      by (rule only_sends_trans [OF p only_sends_refl]) (simp_all add: that)
    have go_on: ?thesis
      if "only_sends (interim i) st st2"
        "(case ti_joined t of Some result \<Rightarrow> Some (Inr (result, t, sw2, st2), ts)
          | None \<Rightarrow> scan_wait_loop w i k ts sw2 st2) = Some (r, ts')" for sw2 st2
      using that Cons.IH [of sw2 st2]
      by (cases "ti_joined t") (auto split: sum.splits prod.splits intro: only_sends_trans)
    show ?thesis
    proof (cases "engine_peek t (engine_arrive t st1)")
      case (Inl e)
      with Cons.prems \<open>send_pending w i t _ st = Inr x\<close> x show ?thesis by (auto simp: stay)
    next
      case (Inr f)
      note prems = Cons.prems \<open>send_pending w i t _ st = Inr x\<close> x Inr
      show ?thesis
      proof (cases f)
        case Empty
        show ?thesis by (rule go_on [of "engine_arrive t st1" "sw1\<lparr>sw_partial_start := None\<rparr>"])
              (use prems Empty in \<open>simp_all add: stay Let_def\<close>)
      next
        case Partial
        define pstart where "pstart = (case sw_partial_start sw1 of Some p \<Rightarrow> p | None \<Rightarrow> ti_now t)"
        show ?thesis
        proof (cases "ti_now t - pstart \<ge> 250")
          case True
          with prems Partial show ?thesis by (auto simp: Let_def pstart_def stay)
        next
          case False
          show ?thesis
            by (rule go_on [of "engine_arrive t st1" "sw1\<lparr>sw_partial_start := Some pstart\<rparr>"])
              (use prems Partial False in \<open>simp_all add: stay Let_def flip: pstart_def\<close>)
        qed
      next
        case Complete
        obtain c st2 where c: "recv_command w (engine_arrive t st1) = (c, st2)" by fastforce
        have st2: "only_sends (interim i) st st2" using recv_command_keeps [OF c] by (intro stay) simp_all
        show ?thesis
        proof (cases c)
          case None
          with prems Complete c st2 show ?thesis by auto
        next
          case (Some d)
          obtain sw3 st3 where b: "busy_command w i k d (sw1\<lparr>sw_partial_start := None\<rparr>) st2 = (sw3, st3)" by fastforce
          show ?thesis
            by (rule go_on [OF only_sends_trans [OF st2 busy_command_only [OF b]]])
              (use prems Complete c Some b in simp)
        qed
      qed
    qed
  qed
qed simp

section \<open>The final response of a command\<close>

definition in_kind :: "command_request \<Rightarrow> response \<Rightarrow> bool" where
  "in_kind c body = (case (cq_request c, body) of
     (Some (Req_Ping ts _), Resp_Ping p) \<Rightarrow> pr_timestamp_utc_ms p = ts
   | (Some (Req_Echo payload _), Resp_Echo echoed) \<Rightarrow> echoed = payload
   | (Some (Req_Health _ _), Resp_Health h) \<Rightarrow> hp_status h = ''HEALTHY''
   | (Some (Req_Status _), Resp_StatusPayload s) \<Rightarrow> st_state s = ''IDLE''
   | (Some (Req_Version _), Resp_Version v) \<Rightarrow> vr_protocol_version v = 1
   | (Some (Req_Cancel _ _), Resp_Cancel cancelled _) \<Rightarrow> cancelled
   | (Some Req_Shutdown, Resp_Shutdown status) \<Rightarrow> status = 0
   | (Some (Req_Scan k p), Resp_ScanResponse r) \<Rightarrow>
       r_operation_id r = scan_operation (cq_request_id c) k \<and> r_target_path r = p
   | (Some (Req_GetChildren k parent offset _), Resp_GetChildren g) \<Rightarrow>
       gc_operation_id g = k \<and> gc_parent_id g = parent \<and> gc_offset g = offset
   | _ \<Rightarrow> False)"

definition may_fail :: "command_request \<Rightarrow> bool" where
  "may_fail c = (case cq_request c of Some (Req_Scan _ _) \<Rightarrow> True | Some (Req_GetChildren _ _ _ _) \<Rightarrow> True | _ \<Rightarrow> False)"

definition unsupported :: "command_request \<Rightarrow> bool" where
  "unsupported c = (case cq_request c of None \<Rightarrow> True | Some (Req_AuthHandshake _) \<Rightarrow> True | _ \<Rightarrow> False)"

definition is_scan :: "command_request \<Rightarrow> bool" where
  "is_scan c = (case cq_request c of Some (Req_Scan _ _) \<Rightarrow> True | _ \<Rightarrow> False)"

definition answers :: "command_request \<Rightarrow> command_response \<Rightarrow> bool" where
  "answers c m \<longleftrightarrow> cs_request_id m = cq_request_id c \<and> (case cs_response m of
     None \<Rightarrow> cs_status m = 1 \<and> cs_error_code m = ''UNKNOWN_COMMAND'' \<and> unsupported c
   | Some (Resp_Error code message _) \<Rightarrow>
       cs_status m = 1 \<and> cs_error_code m = code \<and> cs_error_message m = message \<and> may_fail c
   | Some body \<Rightarrow> cs_status m = 0 \<and> cs_error_code m = [] \<and> in_kind c body)"

lemma simple_response_answers:
  assumes "simple_response w t c = (m, s)" "\<not> may_fail c"
  shows "answers c m"
  using assms
  by (cases "cq_request c"; (cases "the (cq_request c)")?)
    (auto simp: simple_response_def answers_def in_kind_def may_fail_def unsupported_def ok_response_def
      unknown_response_def Let_def)

lemma error_answers: "may_fail c \<Longrightarrow> answers c (error_response (cq_request_id c) code message)"
  by (simp add: answers_def error_response_def)

lemma children_response_cases:
  assumes "children_response i k parent offset limit settled_scan = Some m"
  obtains (error) code message where "m = error_response i code message"
  | (page) graph page_limit total page where "settled_scan = Some (k, graph)"
      "page_limit \<le> 500" "get_children_page graph parent (unat offset) page_limit = Some (Inr (total, page))"
      "m = ok_response i (Resp_GetChildren \<lparr>gc_operation_id = k, gc_parent_id = parent,
         gc_total_children = word_of_nat total, gc_offset = offset, gc_nodes = page\<rparr>)"
proof (cases settled_scan)
  case None
  with assms show ?thesis unfolding children_response_def by (auto intro: error)
next
  case (Some s)
  obtain k' graph where s: "s = (k', graph)" by fastforce
  define page_limit where "page_limit = (if limit = 0 then 100 else limit)"
  show ?thesis
  proof (cases "k' \<noteq> k \<or> page_limit > 500")
    case True
    with assms Some s show ?thesis
      by (cases "k' = k") (auto simp add: children_response_def Let_def page_limit_def intro: error)
  next
    case False
    then have k: "k' = k" and l: "\<not> page_limit > 500" by auto
    have "unat page_limit \<le> 500" using l by (simp add: word_less_nat_alt)
    moreover obtain q where q: "get_children_page graph parent (unat offset) (unat page_limit) = Some q"
      and m: "m = (case q of Inr (total_children, page) \<Rightarrow> ok_response i (Resp_GetChildren
                \<lparr>gc_operation_id = k, gc_parent_id = parent,
                 gc_total_children = word_of_nat total_children, gc_offset = offset, gc_nodes = page\<rparr>)
            | Inl err \<Rightarrow> error_response i ''INVALID_PARENT'' (query_error_text err))"
      using assms Some s k l by (auto simp: children_response_def Let_def simp flip: page_limit_def)
    ultimately show ?thesis using Some s k
      by (cases q) (auto intro: error page)
  qed
qed

lemma children_response_answers:
  assumes "cq_request c = Some (Req_GetChildren k parent offset limit)"
    "children_response (cq_request_id c) k parent offset limit settled_scan = Some m"
  shows "answers c m"
  using assms(2)
  by (rule children_response_cases)
    (use assms(1) in \<open>auto simp: answers_def in_kind_def may_fail_def ok_response_def error_response_def\<close>)

lemma settle_scan_response:
  assumes "settle_scan k p tm cancelled result = Some (r, s)"
  shows "r_operation_id r = k" "r_target_path r = p"
    "s = (case result of Some (Inr g) \<Rightarrow> Some (k, g) | _ \<Rightarrow> None)"
    "r_scope_coverage r = coverage_i32 Coverage_Indeterminate \<longleftrightarrow> s = None"
  using assms
  by (auto simp: settle_scan_def graph_response_def failure_response_def Let_def split: option.splits sum.splits if_splits)

text \<open>A finished scan sends its last progress, then the response.\<close>

lemma finish_scan_sends:
  assumes f: "finish_scan w t0 i k p (result, t, sw, st) = Some (b, st')"
  obtains r st1 s tm where "only_sends (interim i) st st1"
    "settle_scan k p tm (sw_cancelled sw) result = Some (r, s)"
    "send_response w (ok_response i (Resp_ScanResponse r)) (st1\<lparr>en_settled := s\<rparr>) = (b, st')"
proof -
  have "only_sends (interim i) st (case latest (sw_pending sw) (ti_late_progress t) of
          Some progress \<Rightarrow> snd (send_progress w (ok_response i (Resp_ScanProgress progress)) st) | None \<Rightarrow> st)"
    by (auto simp: send_progress_def only_sends_refl split: option.splits intro: only_sends_snd interim_simps)
  with f show ?thesis
    by (auto simp: finish_scan_def Let_def intro: that)
qed

lemma handle_command_cases:
  assumes h: "handle_command w t c ts st = Some ((b, st'), ts')"
  obtains (scan) k p where "cq_request c = Some (Req_Scan k p)"
      "handle_scan w t (cq_request_id c) k p ts st = Some ((b, st'), ts')"
  | (children) k parent offset limit m where "cq_request c = Some (Req_GetChildren k parent offset limit)"
      "children_response (cq_request_id c) k parent offset limit (en_settled st) = Some m"
      "send_response w m st = (b, st')" "ts' = ts"
  | (simple) m is_shutdown sent where "\<not> may_fail c" "simple_response w t c = (m, is_shutdown)"
      "send_response w m st = (sent, st')" "b = (sent \<and> \<not> is_shutdown)" "ts' = ts"
proof (cases "may_fail c")
  case True
  with h show ?thesis
    by (auto simp: handle_command_def may_fail_def intro: scan children split: option.splits command.splits)
next
  case False
  obtain m is_shutdown where m: "simple_response w t c = (m, is_shutdown)" by fastforce
  obtain sent st1 where st1: "send_response w m st = (sent, st1)" by fastforce
  have "handle_command w t c ts st = Some ((sent \<and> \<not> is_shutdown, st1), ts)"
    using False m st1 by (auto simp: handle_command_def may_fail_def split: option.splits command.splits)
  with h have "st1 = st'" "b = (sent \<and> \<not> is_shutdown)" "ts' = ts" by auto
  with False m st1 show ?thesis by (intro simple) auto
qed

section \<open>The pages of a session\<close>

text \<open>The latest response for a scan, and the pages that come from the graph it summarises.\<close>

definition announced :: "scan_response option \<Rightarrow> sent \<Rightarrow> scan_response option" where
  "announced r x = (case cs_response (snd x) of Some (Resp_ScanResponse r') \<Rightarrow> Some r' | _ \<Rightarrow> r)"

definition page_of :: "scan_response \<Rightarrow> get_children_response \<Rightarrow> bool" where
  "page_of r g \<longleftrightarrow> (\<exists>graph p tm limit total. limit \<le> 500 \<and>
     graph_response (gc_operation_id g) p tm graph = Some r \<and>
     get_children_page graph (gc_parent_id g) (unat (gc_offset g)) limit = Some (Inr (total, gc_nodes g)) \<and>
     gc_total_children g = word_of_nat total)"

definition page_ok :: "scan_response option \<Rightarrow> sent \<Rightarrow> bool" where
  "page_ok r x = (case cs_response (snd x) of
     Some (Resp_GetChildren g) \<Rightarrow> (\<exists>r'. r = Some r' \<and> page_of r' g) | _ \<Rightarrow> True)"

fun pages_backed :: "scan_response option \<Rightarrow> sent list \<Rightarrow> bool" where
  "pages_backed r [] = True"
| "pages_backed r (x # xs) = (page_ok r x \<and> pages_backed (announced r x) xs)"

lemma pages_backed_append:
  "pages_backed r (xs @ ys) \<longleftrightarrow> pages_backed r xs \<and> pages_backed (foldl announced r xs) ys"
  by (induction xs arbitrary: r) auto

lemma interim_pages:
  assumes "list_all (interim i) xs"
  shows "foldl announced r xs = r" "pages_backed r xs"
proof -
  have "announced r x = r \<and> page_ok r x" if "interim i x" for x
    using that by (auto simp: interim_def announced_def page_ok_def split: prod.splits option.splits response.splits)
  with assms show "foldl announced r xs = r" "pages_backed r xs" by (induction xs) auto
qed

definition session_ok :: "engine \<Rightarrow> bool" where
  "session_ok st \<longleftrightarrow> pages_backed None (en_sent st) \<and>
     (\<forall>k graph. en_settled st = Some (k, graph) \<longrightarrow>
        (\<exists>p tm r. graph_response k p tm graph = Some r \<and> foldl announced None (en_sent st) = Some r))"

lemma session_ok_only_sends:
  assumes "only_sends (interim i) st st'" "session_ok st"
  shows "session_ok st'"
  using assms by (auto simp: only_sends_def session_ok_def pages_backed_append interim_pages)

lemma session_ok_stays: "session_ok st \<Longrightarrow> en_sent st' = en_sent st \<Longrightarrow> en_settled st' = en_settled st \<Longrightarrow> session_ok st'"
  by (simp add: session_ok_def)

lemma session_ok_clear: "session_ok st \<Longrightarrow> session_ok (st\<lparr>en_settled := None\<rparr>)"
  by (simp add: session_ok_def)

text \<open>A response that is neither a page nor the result of a scan.\<close>

lemma session_ok_send:
  assumes "send_on ch w m st = (b, st')" "session_ok st"
    "\<And>r. announced r (ch, m) = r" "page_ok (foldl announced None (en_sent st)) (ch, m)"
  shows "session_ok st'"
  using send_on_keeps [OF assms(1)] assms(2-) by (simp add: session_ok_def pages_backed_append)

lemma plain_response:
  "announced r (ch, error_response i code message) = r" "page_ok r (ch, error_response i code message)"
  "announced r (ch, ok_response i (Resp_Cancel y s)) = r" "page_ok r (ch, ok_response i (Resp_Cancel y s))"
  "announced r (ch, ok_response i (Resp_GetChildren g)) = r"
  by (simp_all add: announced_def page_ok_def error_response_def ok_response_def)

lemma simple_response_plain:
  assumes "simple_response w t c = (m, s)"
  shows "announced r (ch, m) = r" "page_ok r (ch, m)"
  using assms
  by (cases "cq_request c"; (cases "the (cq_request c)")?;
      force simp: simple_response_def announced_def page_ok_def ok_response_def unknown_response_def Let_def)+

lemma finish_scan_session:
  assumes "finish_scan w t0 i k p (result, t, sw, st) = Some (b, st')" "session_ok st"
  shows "pages_backed None (en_sent st')" "b \<Longrightarrow> session_ok st'"
proof -
  from assms(1) obtain r st1 s tm where st1: "only_sends (interim i) st st1"
    and r: "settle_scan k p tm (sw_cancelled sw) result = Some (r, s)"
    and sent: "send_response w (ok_response i (Resp_ScanResponse r)) (st1\<lparr>en_settled := s\<rparr>) = (b, st')"
    by (rule finish_scan_sends)
  note keeps = send_on_keeps [OF sent [unfolded send_response_def]]
  have ok: "session_ok st1" by (rule session_ok_only_sends [OF st1 assms(2)])
  have x: "announced a (Command, ok_response i (Resp_ScanResponse r)) = Some r"
    "page_ok a (Command, ok_response i (Resp_ScanResponse r))" for a
    by (simp_all add: announced_def page_ok_def ok_response_def)
  show b: "pages_backed None (en_sent st')"
    using ok keeps(1) x by (cases b) (simp_all add: session_ok_def pages_backed_append)
  have "graph_response k p tm graph = Some r" if "s = Some (k', graph)" for k' graph
    using r that by (auto simp: settle_scan_def split: option.splits sum.splits)
  moreover have "k' = k" if "s = Some (k', graph)" for k' graph
    using settle_scan_response(3) [OF r] that by (auto split: option.splits sum.splits)
  ultimately show "session_ok st'" if b using b that keeps x unfolding session_ok_def by auto
qed

lemma handle_scan_session:
  assumes h: "handle_scan w t i k p ts st = Some ((b, st'), ts')" and ok: "session_ok st"
  shows "pages_backed None (en_sent st') \<and> (b \<longrightarrow> session_ok st')"
  using h
proof (cases rule: handle_scan_cases)
  case (refused code message)
  have sent: "send_on Command w (error_response i code message) (st\<lparr>en_settled := None\<rparr>) = (b, st')"
    using refused(2) by (simp add: send_response_def)
  have "session_ok st'"
    by (rule session_ok_send [OF sent session_ok_clear [OF ok]]) (simp_all add: plain_response)
  then show ?thesis by (simp add: session_ok_def)
next
  case (ended st1)
  have "session_ok st'" using scan_wait_only [OF ended(1)] ended(2)
    by (auto intro: session_ok_only_sends session_ok_clear [OF ok])
  then show ?thesis by (simp add: session_ok_def)
next
  case (finished joined)
  obtain result t1 sw st1 where j: "joined = (result, t1, sw, st1)" by (metis prod_cases4)
  have "session_ok st1" using scan_wait_only [OF finished(1)] j
    by (auto intro: session_ok_only_sends session_ok_clear [OF ok])
  from finish_scan_session [OF finished(2) [unfolded j] this] show ?thesis by simp
qed

lemma handle_command_session:
  assumes h: "handle_command w t c ts st = Some ((b, st'), ts')" and ok: "session_ok st"
  shows "pages_backed None (en_sent st') \<and> (b \<longrightarrow> session_ok st')"
  using h
proof (cases rule: handle_command_cases)
  case (scan k p)
  show ?thesis by (rule handle_scan_session [OF scan(2) ok])
next
  case (children k parent offset limit m)
  from children(2) have "announced a (Command, m) = a \<and> page_ok (foldl announced None (en_sent st)) (Command, m)" for a
  proof (cases rule: children_response_cases)
    case (page graph page_limit total page)
    from ok page(1) obtain p tm r where r: "graph_response k p tm graph = Some r"
      and latest_r: "foldl announced None (en_sent st) = Some r"
      unfolding session_ok_def by blast
    have "page_of r \<lparr>gc_operation_id = k, gc_parent_id = parent, gc_total_children = word_of_nat total,
        gc_offset = offset, gc_nodes = page\<rparr>"
      unfolding page_of_def using page(2,3) r by (intro exI [of _ graph] exI [of _ p] exI [of _ tm] exI [of _ page_limit] exI [of _ total]) simp
    with latest_r page(4) show ?thesis by (simp add: plain_response page_ok_def) (simp add: ok_response_def)
  qed (simp add: plain_response)
  then have "session_ok st'"
    by (intro session_ok_send [OF children(3) [unfolded send_response_def] ok]) auto
  then show ?thesis by (simp add: session_ok_def)
next
  case (simple m is_shutdown sent)
  have "session_ok st'"
    by (rule session_ok_send [OF simple(3) [unfolded send_response_def] ok]) (simp_all add: simple_response_plain [OF simple(2)])
  then show ?thesis by (simp add: session_ok_def)
qed

lemma serve_command_session:
  assumes s: "serve_command w t c ts st = Some ((b, st'), ts')" and ok: "session_ok st"
  shows "pages_backed None (en_sent st') \<and> (b \<longrightarrow> session_ok st')"
proof (cases "effective_delay w c > 0")
  case True
  then obtain x st1 ts1 where d: "delay_loop w (ti_now t) (unat (effective_delay w c)) None ts st = Some (x, st1, ts1)"
    using s by (auto simp: serve_command_def bind_eq_Some_conv)
  have ok1: "session_ok st1" using delay_loop_keeps [OF d] ok by (auto intro: session_ok_stays)
  show ?thesis
  proof (cases x)
    case (Inl u)
    with s True d ok1 show ?thesis by (auto simp: serve_command_def session_ok_def)
  next
    case (Inr y)
    show ?thesis
    proof (cases y)
      case None
      with s True d Inr obtain t1 where "handle_command w t1 c ts1 st1 = Some ((b, st'), ts')"
        by (auto simp: serve_command_def split: list.splits)
      then show ?thesis by (rule handle_command_session [OF _ ok1])
    next
      case (Some i)
      with s True d Inr have "st' = snd (send_response w (ok_response i (Resp_Cancel True ''Operation cancelled by client'')) st1)"
        by (simp add: serve_command_def)
      then have "session_ok st'" unfolding send_response_def
        by (intro session_ok_send [OF _ ok1]) (auto simp: plain_response intro: prod.collapse [symmetric])
      then show ?thesis by (simp add: session_ok_def)
    qed
  qed
next
  case False
  with s show ?thesis using handle_command_session [OF _ ok] by (simp add: serve_command_def)
qed

lemma engine_loop_session:
  "engine_loop w ts st = Some st' \<Longrightarrow> session_ok st \<Longrightarrow> pages_backed None (en_sent st')"
proof (induction w ts st rule: engine_loop.induct)
  case (1 w ts st)
  from "1.prems"(1) obtain x st1 ts1 where n: "next_command w ts st = Some (x, st1, ts1)"
    by (cases "next_command w ts st") (auto simp: engine_loop.simps)
  have ok1: "session_ok st1" using next_command_keeps [OF n] "1.prems"(2) by (auto intro: session_ok_stays)
  show ?case
  proof (cases x)
    case None
    with "1.prems"(1) n ok1 show ?thesis by (simp add: engine_loop.simps [of w ts st] session_ok_def)
  next
    case (Some y)
    obtain t c where y: "y = (t, c)" by fastforce
    from "1.prems"(1) n Some y obtain b st2 ts2 where s: "serve_command w t c ts1 st1 = Some ((b, st2), ts2)"
      by (cases "serve_command w t c ts1 st1") (auto simp: engine_loop.simps [of w ts st])
    note ok2 = serve_command_session [OF s ok1]
    show ?thesis
    proof (cases b)
      case True
      with "1.prems"(1) n Some y s have "engine_loop w ts2 st2 = Some st'"
        by (simp add: engine_loop.simps [of w ts st])
      with "1.IH" [OF n refl Some y [symmetric] refl s refl refl] True ok2 show ?thesis by simp
    next
      case False
      with "1.prems"(1) n Some y s ok2 show ?thesis by (simp add: engine_loop.simps [of w ts st])
    qed
  qed
qed

section \<open>A session in which commands arrive\<close>

lemma send_on_ok:
  assumes "\<And>m. length (ew_encode w m) \<le> MAX_PAYLOAD_SIZE"
  obtains f where "send_on ch w m st = (True, st\<lparr>en_framed := f, en_sent := en_sent st @ [(ch, m)]\<rparr>)"
    "fs_input f = fs_input (en_framed st)"
proof -
  obtain bs where "send_message (ew_encode w) ch 0 m (en_framed st) = (Inr (fs_sequence_number (en_framed st) + 1),
      (en_framed st)\<lparr>fs_sequence_number := fs_sequence_number (en_framed st) + 1, fs_output := fs_output (en_framed st) @ bs\<rparr>)"
    by (rule send_message_ok [where s = "en_framed st"]) (rule assms)
  then show ?thesis
    by (intro that [of "(en_framed st)\<lparr>fs_sequence_number := fs_sequence_number (en_framed st) + 1,
        fs_output := fs_output (en_framed st) @ bs\<rparr>"]) (simp_all add: send_on_def)
qed

text \<open>
  The frame of a command arrives over some turns of the loop, which are less than 250 milliseconds
  apart; the last one brings the last byte.
\<close>

definition arriving :: "engine_world \<Rightarrow> tick list \<Rightarrow> command_request \<Rightarrow> bool" where
  "arriving w us c \<longleftrightarrow> (\<exists>h p. encode_frame h p = Inr (concat (map ti_arrived us)) \<and> ew_decode w p = Inr c)
     \<and> us \<noteq> [] \<and> ti_arrived (last us) \<noteq> [] \<and> (\<forall>t \<in> set us. ti_peek_error t = None)
     \<and> (\<forall>t \<in> set us. \<forall>u \<in> set us. ti_now t - ti_now u < 250)"

text \<open>Nothing of a command has arrived.\<close>

definition at_rest :: "engine \<Rightarrow> bool" where
  "at_rest st \<longleftrightarrow> avail (fs_input (en_framed st)) = [] \<and> en_idle_partial st = None"

lemma peek_part:
  assumes "encode_frame h p = Inr (xs @ ys)" and "xs \<noteq> []" and "ys \<noteq> []"
  shows "peek_frame_readiness (pipe_holding xs) = Inr Partial"
proof (cases "length xs < HEADER_SIZE")
  case True
  then show ?thesis using assms(2) by (subst peek_agrees) simp_all
next
  case False
  have n: "length p \<le> MAX_PAYLOAD_SIZE"
    and bs: "xs @ ys = header_bytes h (length p) @ p @ to_le_bytes (compute_crc32c (header_bytes h (length p) @ p))"
    using assms(1) by (simp_all add: encode_frame_Inr)
  have "length xs < length (xs @ ys)" using assms(3) by simp
  also have "\<dots> = HEADER_SIZE + length p + CRC_SIZE" by (rule encode_frame_length [OF assms(1)])
  finally have "length xs < HEADER_SIZE + length p + CRC_SIZE" .
  moreover have "take HEADER_SIZE xs = header_bytes h (length p)"
    using arg_cong [OF bs, of "take HEADER_SIZE"] False by simp
  ultimately show ?thesis using False assms(2) by (subst peek_agrees) (simp_all add: parse_header_bytes [OF n])
qed

lemma next_command_pieces:
  assumes frame: "encode_frame h p = Inr (avail (fs_input (en_framed st)) @ concat (map ti_arrived us))" and c: "ew_decode w p = Inr c"
    and us: "us \<noteq> []" "ti_arrived (last us) \<noteq> []" "\<forall>t \<in> set us. ti_peek_error t = None"
    and soon: "\<forall>t \<in> set us. \<forall>u \<in> set us. ti_now t - ti_now u < 250"
      "\<forall>t \<in> set (butlast us). \<forall>n. en_idle_partial st = Some n \<longrightarrow> ti_now t - n < 250"
  shows "\<exists>st1. next_command w (us @ ts) st = Some (Some (last us, c), st1, ts) \<and> at_rest st1 \<and> en_sent st1 = en_sent st
    \<and> en_settled st1 = en_settled st \<and> fs_output (en_framed st1) = fs_output (en_framed st)"
  using assms
proof (induction us arbitrary: st)
  case (Cons t us)
  let ?st = "engine_arrive t st" and ?bs = "avail (fs_input (en_framed st)) @ ti_arrived t"
  have e: "ti_peek_error t = None" using Cons.prems(5) by simp
  have bs: "avail (fs_input (en_framed ?st)) = ?bs" by (simp add: engine_arrive_def arrive_def)
  have peek: "engine_peek t ?st = peek_frame_readiness (pipe_holding ?bs)" by (simp add: engine_peek_def e bs)
  have kept: "en_idle_partial ?st = en_idle_partial st" "fs_output (en_framed ?st) = fs_output (en_framed st)"
    by (simp_all add: engine_arrive_def arrive_def)
  show ?case
  proof (cases "us = []")
    case True
    then have f: "encode_frame h p = Inr ?bs" using Cons.prems(1) by simp
    have i: "fs_input (en_framed ?st) = push_front ?bs ((fs_input (en_framed st))\<lparr>avail := []\<rparr>)"
      by (simp add: engine_arrive_def arrive_def)
    have "recv_message (ew_decode w) (en_framed ?st) =
        (Inr (Some (h, c)), (en_framed ?st)\<lparr>fs_input := (fs_input (en_framed st))\<lparr>avail := []\<rparr>\<rparr>)"
      by (rule recv_encoded [where enc = "\<lambda>_. p"]) (use f c i in simp_all)
    moreover have "engine_peek t ?st = Inr Complete" using peek_encoded [OF f, of "[]"] peek by simp
    ultimately show ?thesis using kept True by (simp add: Let_def recv_command_def at_rest_def)
  next
    case False
    let ?rest = "concat (map ti_arrived us)"
    have last: "ti_arrived (last us) \<noteq> []" using Cons.prems(4) False by simp
    then have "?rest \<noteq> []" using False by (auto simp: concat_eq_Nil_conv)
    moreover have f: "encode_frame h p = Inr (?bs @ ?rest)" using Cons.prems(1) by simp
    ultimately have part: "?bs \<noteq> [] \<Longrightarrow> engine_peek t ?st = Inr Partial" using peek_part [OF f] peek by simp
    have more: "\<exists>st1. next_command w (us @ ts) st2 = Some (Some (last us, c), st1, ts) \<and> at_rest st1 \<and> en_sent st1 = en_sent st
        \<and> en_settled st1 = en_settled st \<and> fs_output (en_framed st1) = fs_output (en_framed st)"
      if "st2 = ?st\<lparr>en_idle_partial := q\<rparr>" "\<forall>t \<in> set (butlast us). \<forall>n. q = Some n \<longrightarrow> ti_now t - n < 250" for st2 q
      using Cons.IH [of st2] f c False last Cons.prems(5,6) that bs kept by simp
    show ?thesis
    proof (cases "?bs = []")
      case True
      then have "engine_peek t ?st = Inr Empty" using peek by (simp add: peek_frame_readiness_def)
      with more [of "?st\<lparr>en_idle_partial := None\<rparr>" None] False show ?thesis by (simp add: Let_def)
    next
      case 2: False
      define n where "n = (case en_idle_partial st of Some n \<Rightarrow> n | None \<Rightarrow> ti_now t)"
      have "\<forall>u \<in> set (t # butlast us). ti_now u - n < 250"
        using Cons.prems(6,7) False by (auto simp: n_def dest: in_set_butlastD split: option.split)
      with part [OF 2] more [of "?st\<lparr>en_idle_partial := Some n\<rparr>" "Some n"] False kept show ?thesis
        by (simp add: Let_def n_def [symmetric])
    qed
  qed
qed simp

lemma next_command_arrives:
  assumes "arriving w us c" and "avail (fs_input (en_framed st)) = []" and "en_idle_partial st = None \<or> length us = 1"
  obtains st1 where "next_command w (us @ ts) st = Some (Some (last us, c), st1, ts)" "at_rest st1"
    "en_sent st1 = en_sent st" "en_settled st1 = en_settled st" "fs_output (en_framed st1) = fs_output (en_framed st)"
proof -
  from assms obtain h p where "encode_frame h p = Inr (avail (fs_input (en_framed st)) @ concat (map ti_arrived us))" "ew_decode w p = Inr c"
    by (auto simp: arriving_def)
  note pieces = next_command_pieces [OF this, of ts]
  have "\<forall>t \<in> set (butlast us). \<forall>n. en_idle_partial st = Some n \<longrightarrow> ti_now t - n < 250"
    using assms(3) by (auto simp: length_Suc_conv)
  with pieces assms(1) obtain st1 where "next_command w (us @ ts) st = Some (Some (last us, c), st1, ts) \<and> at_rest st1
    \<and> en_sent st1 = en_sent st \<and> en_settled st1 = en_settled st \<and> fs_output (en_framed st1) = fs_output (en_framed st)"
    unfolding arriving_def by blast
  with that show ?thesis by blast
qed

text \<open>What the engine answers at once, on the state it has; \<open>None\<close>: a query panics, or a scan is started.\<close>

definition immediate_answer :: "engine_world \<Rightarrow> tick \<Rightarrow> (string \<times> directory_graph) option \<Rightarrow> command_request
    \<Rightarrow> command_response option" where
  "immediate_answer w t scan c = (case cq_request c of
     Some (Req_Scan _ _) \<Rightarrow> None
   | Some (Req_GetChildren k parent offset limit) \<Rightarrow> children_response (cq_request_id c) k parent offset limit scan
   | _ \<Rightarrow> Some (fst (simple_response w t c)))"

lemma simple_response_ends:
  "snd (simple_response w t c) \<longleftrightarrow> cq_request c = Some Req_Shutdown"
  by (simp add: simple_response_def Let_def split: option.splits command.splits)

lemma immediate_answers: "immediate_answer w t scan c = Some m \<Longrightarrow> answers c m"
  using simple_response_answers [where w = w and t = t and c = c, OF prod.collapse [symmetric]]
  by (auto simp: immediate_answer_def may_fail_def intro: children_response_answers split: option.splits command.splits)

lemma handle_immediate:
  assumes "immediate_answer w t (en_settled st) c = Some m" and "send_response w m st = (True, st')"
  shows "handle_command w t c ts st = Some ((cq_request c \<noteq> Some Req_Shutdown, st'), ts)"
  using assms simple_response_ends [of w t c]
  by (cases "simple_response w t c")
    (auto simp: immediate_answer_def handle_command_def split: option.splits command.splits)

text \<open>A command the engine can answer at once, with an answer that fits in a frame.\<close>

definition served_with :: "engine_world \<Rightarrow> (string \<times> directory_graph) option \<Rightarrow> tick list \<Rightarrow> command_request \<Rightarrow> command_response \<Rightarrow> bool" where
  "served_with w scan us c m \<longleftrightarrow> arriving w us c \<and> effective_delay w c = 0 \<and> immediate_answer w (last us) scan c = Some m
     \<and> length (ew_encode w m) \<le> MAX_PAYLOAD_SIZE"

lemma engine_turn:
  assumes "served_with w (en_settled st) us c m" and "avail (fs_input (en_framed st)) = []" and "en_idle_partial st = None \<or> length us = 1"
  obtains h bs st' where "encode_frame h (ew_encode w m) = Inr bs"
    "fs_output (en_framed st') = fs_output (en_framed st) @ bs" "at_rest st'"
    "en_settled st' = en_settled st" "en_sent st' = en_sent st @ [(Command, m)]"
    "engine_loop w (us @ ts) st = (if cq_request c = Some Req_Shutdown then Some st' else engine_loop w ts st')"
proof -
  have a: "arriving w us c" and d: "effective_delay w c = 0" and m: "immediate_answer w (last us) (en_settled st) c = Some m"
    and len: "length (ew_encode w m) \<le> MAX_PAYLOAD_SIZE" using assms(1) by (simp_all add: served_with_def)
  obtain st1 where n: "next_command w (us @ ts) st = Some (Some (last us, c), st1, ts)"
    and st1: "at_rest st1" "en_sent st1 = en_sent st" "en_settled st1 = en_settled st"
      "fs_output (en_framed st1) = fs_output (en_framed st)"
    by (rule next_command_arrives [OF a assms(2,3)])
  obtain bs where bs: "encode_frame \<lparr>fh_channel_tag = Command, fh_flags = 0,
      fh_sequence_number = fs_sequence_number (en_framed st1) + 1\<rparr> (ew_encode w m) = Inr bs"
    and s: "send_message (ew_encode w) Command 0 m (en_framed st1) = (Inr (fs_sequence_number (en_framed st1) + 1),
      (en_framed st1)\<lparr>fs_sequence_number := fs_sequence_number (en_framed st1) + 1,
        fs_output := fs_output (en_framed st1) @ bs\<rparr>)"
    by (rule send_message_ok [where enc = "ew_encode w" and m = m and s = "en_framed st1", OF len])
  define st' where "st' = st1\<lparr>en_framed := (en_framed st1)\<lparr>fs_sequence_number := fs_sequence_number (en_framed st1) + 1,
      fs_output := fs_output (en_framed st1) @ bs\<rparr>, en_sent := en_sent st1 @ [(Command, m)]\<rparr>"
  have "send_response w m st1 = (True, st')" by (simp add: send_response_def send_on_def s st'_def)
  then have "serve_command w (last us) c ts st1 = Some ((cq_request c \<noteq> Some Req_Shutdown, st'), ts)"
    using handle_immediate [of w "last us" st1 c m st' ts] m d by (simp add: serve_command_def st1)
  with n have "engine_loop w (us @ ts) st = (if cq_request c = Some Req_Shutdown then Some st' else engine_loop w ts st')"
    by (simp add: engine_loop.simps [of w "us @ ts" st] del: next_command.simps)
  then show ?thesis using st1 by (intro that [OF bs, of st']) (simp_all add: st'_def at_rest_def)
qed

section \<open>A sample session\<close>

definition sample_request :: "u8 list \<Rightarrow> command_request" where
  "sample_request p = \<lparr>cq_request_id = ''q'', cq_request = Some (
     if p = [] then Req_Scan ''op'' ''C:/data'' else if p = [1] then Req_GetChildren ''op'' 0 0 0
     else if p = [2] then Req_Status 0 else Req_Shutdown)\<rparr>"

definition sample_world :: engine_world where
  "sample_world = \<lparr>ew_encode = (\<lambda>_. []), ew_decode = (\<lambda>p. Inr (sample_request p)), ew_session_id = ''s'',
     ew_env_delay = None, ew_start = 0, ew_target_os = sample_os,
     ew_files = \<lparr>wf_env_exe = Some ''w.exe'', wf_env_path = None, wf_exe_dir = None, wf_exe_parent_dir = None,
       wf_exists = (\<lambda>_. True), wf_canonicalize = (\<lambda>p. Some p)\<rparr>,
     ew_build_date = [], ew_commit_hash = [], ew_io_text = (\<lambda>_. [])\<rparr>"

definition sample_frame :: "u8 list \<Rightarrow> u8 list" where
  "sample_frame p = projr (encode_frame \<lparr>fh_channel_tag = Command, fh_flags = 0, fh_sequence_number = 1\<rparr> p)"

definition sample_tick :: "u8 list \<Rightarrow> (scan_runner_error + directory_graph) option option \<Rightarrow> tick" where
  "sample_tick arrived joined = \<lparr>ti_arrived = arrived, ti_peek_error = None, ti_now = 0, ti_unix_ms = 0, ti_handle_count = 0,
     ti_memory = None, ti_cancel_event = None, ti_progress = [], ti_joined = joined, ti_late_progress = []\<rparr>"

definition sample_root :: compact_entry where
  "sample_root = \<lparr>c_id = 1, c_parent_id = 0, c_name = ''data'', c_kind = Directory, c_allocated_size_known = True,
     c_logical_size = None, c_allocated_size = None, c_referenced_allocated_bytes = 0, c_unique_allocated_bytes = 0,
     c_known_subtotal_allocated_bytes = 0, c_object_index = NO_OBJECT, c_file_attributes = 16, c_reparse_tag = 0,
     c_child_start = 0, c_child_count = 0, c_creation_time_utc_ms = 0, c_last_write_time_utc_ms = 0,
     c_last_access_time_utc_ms = 0\<rparr>"

definition sample_graph :: directory_graph where
  "sample_graph = \<lparr>dg_root_target = ''C:/data'', dg_root_id = 1, dg_storage = Dense [sample_root], dg_all_children = [],
     dg_objects = [], dg_object_streams = Map.empty, dg_gaps = [],
     dg_terminal = \<lparr>t_outcome = run_outcome.Finished, t_total_directories = 1, t_total_files = 0, t_total_logical_bytes = 0,
       t_total_allocated_bytes = 0, t_coverage_gap_count = 0, t_duration_ms = 0\<rparr>,
     dg_allocated_bytes_known = True, dg_indeterminate_external_reference_objects = 0\<rparr>"

definition sample_engine :: engine where
  "sample_engine = \<lparr>en_framed = framed_new (of_bytes []), en_sent = [], en_settled = None, en_idle_partial = None\<rparr>"

text \<open>A scan whose worker returns the graph, a page of it, and a shutdown.\<close>

definition sample_ticks :: "tick list" where
  "sample_ticks = [sample_tick (sample_frame []) None, sample_tick [] (Some (Some (Inr sample_graph))),
     sample_tick (sample_frame [1]) None, sample_tick (sample_frame [3]) None]"

definition sample_sent :: "channel_tag \<Rightarrow> command_response \<Rightarrow> engine \<Rightarrow> engine" where
  "sample_sent ch m st = snd (send_on ch sample_world m st)"

lemma sample_send [simp]:
  "send_on ch sample_world m st = (True, sample_sent ch m st)"
  "en_sent (sample_sent ch m st) = en_sent st @ [(ch, m)]"
  "en_settled (sample_sent ch m st) = en_settled st"
  "at_rest (sample_sent ch m st) = at_rest st"
  unfolding sample_sent_def at_rest_def
  by (rule send_on_ok [of sample_world ch m st]; simp add: sample_world_def MAX_PAYLOAD_SIZE_def)+

lemma sample_frame_ok:
  "length p \<le> 1 \<Longrightarrow> encode_frame \<lparr>fh_channel_tag = Command, fh_flags = 0, fh_sequence_number = 1\<rparr> p = Inr (sample_frame p)"
  by (simp add: sample_frame_def encode_frame_def MAX_PAYLOAD_SIZE_def Let_def)

lemma sample_arrives:
  "length p \<le> 1 \<Longrightarrow> arriving sample_world [sample_tick (sample_frame p) None] (sample_request p)"
  using sample_frame_ok [of p] encode_frame_length [of _ p]
  by (fastforce simp: arriving_def sample_tick_def sample_world_def HEADER_SIZE_def)

lemma sample_queries:
  "hard_link_objects sample_graph = Some []"
  "\<exists>n. get_children_page sample_graph 0 0 100 = Some (Inr (1, [n]))"
  by (simp_all add: sample_graph_def hard_link_objects_def relevant_objects_def get_children_page_def child_list_def
      storage_get_def vec_get_def push_node_def entry_node_def sample_root_def)

lemma sample_waits:
  assumes "avail (fs_input (en_framed st)) = []"
  shows "scan_wait_loop sample_world i k (sample_tick [] (Some (Some (Inr g))) # ts) (scan_start t) st
    = Some (Inr (Some (Inr g), sample_tick [] (Some (Some (Inr g))), scan_start t, st), ts)"
  by (simp add: sample_tick_def send_pending_def latest_def engine_arrive_def arrive_def engine_peek_def
      peek_frame_readiness_def assms Let_def)

lemma sample_scan:
  assumes "at_rest st"
  obtains r st1 where "serve_command sample_world (sample_tick x None) (sample_request [])
      (sample_tick [] (Some (Some (Inr sample_graph))) # ts) st = Some ((True, st1), ts)"
    "en_sent st1 = en_sent st @ [(Command, ok_response ''q'' (Resp_ScanResponse r))]"
    "en_settled st1 = Some (''op'', sample_graph)" "at_rest st1"
proof -
  let ?t = "sample_tick [] (Some (Some (Inr sample_graph)))" and ?st = "st\<lparr>en_settled := None\<rparr>"
  obtain v where v: "validate_scan_target sample_os ''C:/data'' = Inr v" by (rule sample_os_accepts)
  define tm where "tm = \<lparr>tm_started_iso = format_utc_iso 0, tm_completed_iso = format_utc_iso 0, tm_duration_ms = 0\<rparr>"
  obtain r where r: "settle_scan ''op'' ''C:/data'' tm False (Some (Inr sample_graph)) = Some (r, Some (''op'', sample_graph))"
    by (simp add: settle_scan_def graph_response_def sample_queries)
  have "scan_wait_loop sample_world ''q'' ''op'' (?t # ts) (scan_start (sample_tick x None)) ?st
      = Some (Inr (Some (Inr sample_graph), ?t, scan_start (sample_tick x None), ?st), ts)"
    by (rule sample_waits) (use assms in \<open>simp add: at_rest_def\<close>)
  moreover have "finish_scan sample_world (sample_tick x None) ''q'' ''op'' ''C:/data''
      (Some (Inr sample_graph), ?t, scan_start (sample_tick x None), ?st)
      = Some (True, sample_sent Command (ok_response ''q'' (Resp_ScanResponse r)) (?st\<lparr>en_settled := Some (''op'', sample_graph)\<rparr>))"
    using r by (simp add: finish_scan_def latest_def sample_tick_def tm_def Let_def send_response_def)
  ultimately have "handle_scan sample_world (sample_tick x None) ''q'' ''op'' ''C:/data'' (?t # ts) st
      = Some ((True, sample_sent Command (ok_response ''q'' (Resp_ScanResponse r)) (?st\<lparr>en_settled := Some (''op'', sample_graph)\<rparr>)), ts)"
    using v by (simp add: handle_scan_def sample_world_def sample_tick_def resolve_scan_worker_exe_def Let_def)
  moreover have "effective_delay sample_world (sample_request []) = 0"
    by (simp add: effective_delay_def req_delay_def sample_request_def sample_world_def)
  ultimately show ?thesis
    by (intro that [of "sample_sent Command (ok_response ''q'' (Resp_ScanResponse r)) (?st\<lparr>en_settled := Some (''op'', sample_graph)\<rparr>)" r])
      (use assms in \<open>simp_all add: serve_command_def sample_request_def handle_command_def, simp add: at_rest_def\<close>)
qed

lemma sample_page:
  assumes "en_settled st = Some (''op'', sample_graph)"
  obtains n where "serve_command sample_world t (sample_request [1]) ts st = Some ((True, sample_sent Command
      (ok_response ''q'' (Resp_GetChildren \<lparr>gc_operation_id = ''op'', gc_parent_id = 0, gc_total_children = 1,
         gc_offset = 0, gc_nodes = [n]\<rparr>)) st), ts)"
proof -
  obtain n where n: "get_children_page sample_graph 0 0 100 = Some (Inr (1, [n]))" using sample_queries(2) by blast
  have "effective_delay sample_world (sample_request [1]) = 0"
    by (simp add: effective_delay_def req_delay_def sample_request_def sample_world_def)
  with n assms show ?thesis
    by (intro that [of n]) (simp add: serve_command_def sample_request_def handle_command_def children_response_def
        send_response_def)
qed

lemma sample_shutdown:
  "serve_command sample_world t (sample_request [3]) ts st =
     Some ((False, sample_sent Command (ok_response ''q'' (Resp_Shutdown 0)) st), ts)"
proof -
  have "effective_delay sample_world (sample_request [3]) = 0"
    by (simp add: effective_delay_def req_delay_def sample_request_def sample_world_def)
  then show ?thesis
    by (simp add: serve_command_def sample_request_def handle_command_def simple_response_def send_response_def)
qed

lemma sample_session:
  obtains st r n where "engine_loop sample_world sample_ticks sample_engine = Some st"
    "en_sent st = [(Command, ok_response ''q'' (Resp_ScanResponse r)),
      (Command, ok_response ''q'' (Resp_GetChildren \<lparr>gc_operation_id = ''op'', gc_parent_id = 0, gc_total_children = 1,
         gc_offset = 0, gc_nodes = [n]\<rparr>)), (Command, ok_response ''q'' (Resp_Shutdown 0))]"
proof -
  let ?scan = "sample_tick (sample_frame []) None" and ?joined = "sample_tick [] (Some (Some (Inr sample_graph)))"
    and ?page = "sample_tick (sample_frame [1]) None" and ?stop = "sample_tick (sample_frame [3]) None"
  have arrives: "\<exists>st1. next_command sample_world (sample_tick (sample_frame p) None # ts) st = Some (Some (sample_tick (sample_frame p) None, sample_request p), st1, ts)
      \<and> at_rest st1 \<and> en_sent st1 = en_sent st \<and> en_settled st1 = en_settled st" if "length p \<le> 1" "at_rest st" for p ts st
    using next_command_arrives [OF sample_arrives [OF that(1)], of st ts] that(2) unfolding at_rest_def
    by (metis append_Cons append_Nil last.simps)
  have rest: "at_rest sample_engine" by (simp add: at_rest_def sample_engine_def framed_new_def)
  obtain st1 where 1: "next_command sample_world (?scan # [?joined, ?page, ?stop]) sample_engine
      = Some (Some (?scan, sample_request []), st1, [?joined, ?page, ?stop])"
    "at_rest st1" "en_sent st1 = []"
    using arrives [of "[]" sample_engine] rest by (auto simp: sample_engine_def)
  obtain r st2 where 2: "serve_command sample_world ?scan (sample_request []) (?joined # [?page, ?stop]) st1 = Some ((True, st2), [?page, ?stop])"
    "en_sent st2 = [(Command, ok_response ''q'' (Resp_ScanResponse r))]"
    "en_settled st2 = Some (''op'', sample_graph)" "at_rest st2"
    by (rule sample_scan [OF 1(2), of "sample_frame []" "[?page, ?stop]"]) (use 1(3) in auto)
  obtain st3 where 3: "next_command sample_world (?page # [?stop]) st2 = Some (Some (?page, sample_request [1]), st3, [?stop])"
    "at_rest st3" "en_sent st3 = en_sent st2" "en_settled st3 = en_settled st2"
    using arrives [of "[1]" st2] 2(4) by auto
  obtain n where 4: "serve_command sample_world ?page (sample_request [1]) [?stop] st3 = Some ((True, sample_sent Command
      (ok_response ''q'' (Resp_GetChildren \<lparr>gc_operation_id = ''op'', gc_parent_id = 0, gc_total_children = 1,
         gc_offset = 0, gc_nodes = [n]\<rparr>)) st3), [?stop])"
    by (rule sample_page [of st3]) (use 2(3) 3(4) in auto)
  define st4 where "st4 = sample_sent Command (ok_response ''q'' (Resp_GetChildren \<lparr>gc_operation_id = ''op'',
      gc_parent_id = 0, gc_total_children = 1, gc_offset = 0, gc_nodes = [n]\<rparr>)) st3"
  obtain st5 where 5: "next_command sample_world (?stop # []) st4 = Some (Some (?stop, sample_request [3]), st5, [])"
    "en_sent st5 = en_sent st4"
    using arrives [of "[3]" st4] 3(2) by (auto simp: st4_def)
  show ?thesis
    by (rule that [of "sample_sent Command (ok_response ''q'' (Resp_Shutdown 0)) st5" r n])
      (use 1(1) 2(1,2) 3(1,3) 4 5 in \<open>simp_all add: sample_ticks_def engine_loop.simps sample_shutdown st4_def [symmetric]
        del: next_command.simps\<close>, simp add: st4_def)
qed

section \<open>Properties\<close>

lemma handle_command_answers:
  assumes h: "handle_command w t c ts st = Some ((b, st'), ts')"
  shows "\<exists>xs. list_all (interim (cq_request_id c)) xs \<and> (is_scan c \<or> xs = []) \<and>
    ((\<exists>m. en_sent st' = en_sent st @ xs @ [(Command, m)] \<and> answers c m \<and> (is_scan c \<or> en_settled st' = en_settled st)
        \<and> (b \<longleftrightarrow> cq_request c \<noteq> Some Req_Shutdown))
     \<or> (\<not> b \<and> en_sent st' = en_sent st @ xs \<and> (is_scan c \<or> (\<exists>m. answers c m \<and> MAX_PAYLOAD_SIZE < length (ew_encode w m)))))"
  using h
proof (cases rule: handle_command_cases)
  case (scan k p)
  let ?i = "cq_request_id c"
  have fail: "may_fail c" "is_scan c" "cq_request c \<noteq> Some Req_Shutdown" using scan(1) by (simp_all add: may_fail_def is_scan_def)
  from scan(2) show ?thesis
  proof (cases rule: handle_scan_cases)
    case (refused code message)
    have sent: "send_on Command w (error_response ?i code message) (st\<lparr>en_settled := None\<rparr>) = (b, st')"
      using refused(2) by (simp add: send_response_def)
    show ?thesis
      by (intro exI [of _ "[]"]) (use send_on_keeps [OF sent] fail error_answers [OF fail(1)] in \<open>cases b; force\<close>)
  next
    case (ended st1)
    with scan_wait_only [OF ended(1)] fail show ?thesis by (auto simp: only_sends_def)
  next
    case (finished joined)
    obtain result t1 sw st1 where j: "joined = (result, t1, sw, st1)" by (metis prod_cases4)
    have 1: "only_sends (interim ?i) (st\<lparr>en_settled := None\<rparr>) st1" using scan_wait_only [OF finished(1)] j by simp
    obtain r st2 s tm where 2: "only_sends (interim ?i) st1 st2"
      and r: "settle_scan (scan_operation ?i k) p tm (sw_cancelled sw) result = Some (r, s)"
      and sent: "send_response w (ok_response ?i (Resp_ScanResponse r)) (st2\<lparr>en_settled := s\<rparr>) = (b, st')"
      by (rule finish_scan_sends [OF finished(2) [unfolded j]])
    obtain xs where xs: "en_sent st2 = en_sent st @ xs" "list_all (interim ?i) xs"
      using only_sends_trans [OF 1 2] by (auto simp: only_sends_def)
    have "answers c (ok_response ?i (Resp_ScanResponse r))"
      using settle_scan_response(1,2) [OF r] scan(1) by (simp add: answers_def in_kind_def ok_response_def)
    with xs fail send_on_keeps(1) [OF sent [unfolded send_response_def]] show ?thesis
      by (intro exI [of _ xs]) (cases b; auto)
  qed
next
  case (children k parent offset limit m)
  have "cq_request c \<noteq> Some Req_Shutdown" using children(1) by simp
  with children_response_answers [OF children(1,2)] send_on_keeps [OF children(3) [unfolded send_response_def]]
    send_on_fails [of Command w m st st'] children(3)
  show ?thesis by (intro exI [of _ "[]"]) (cases b; auto simp: send_response_def)
next
  case (simple m is_shutdown sent)
  have "is_shutdown \<longleftrightarrow> cq_request c = Some Req_Shutdown" using simple_response_ends [of w t c] simple(2) by simp
  with simple_response_answers [OF simple(2,1)] send_on_keeps [OF simple(3) [unfolded send_response_def]]
    send_on_fails [of Command w m st st'] simple(3,4)
  show ?thesis by (intro exI [of _ "[]"]) (cases sent; auto simp: send_response_def)
qed

text \<open>
  C7: What becomes of a command the loop takes up. It is answered by exactly one final response, on
  the command channel, under its identifier and of its kind: a body with status 0, an error (for
  scans and pages of children only), or the refusal of an unknown command; before it, a scan sends
  only progress under its own identifier and the BUSY and SCANNING answers to commands that arrive
  meanwhile, and any other command sends nothing and leaves the settled scan as it is. The session
  goes on exactly if the command was not a shutdown. Otherwise the command had a delay and a
  cancellation that arrived during it is answered in its place; or the session ends without an
  answer, which can only happen during a delay, to a scan, or to an answer that does not fit in a
  frame. Commands that arrive during a delay or a scan are not taken up by the loop.
\<close>

theorem engine_answers_each_command:
  assumes s: "serve_command w t c ts st = Some ((b, st'), ts')"
  shows "\<exists>xs. list_all (interim (cq_request_id c)) xs \<and> (is_scan c \<or> xs = []) \<and>
    ((\<exists>m. en_sent st' = en_sent st @ xs @ [(Command, m)] \<and> answers c m \<and> (is_scan c \<or> en_settled st' = en_settled st)
        \<and> (b \<longleftrightarrow> cq_request c \<noteq> Some Req_Shutdown))
     \<or> (b \<and> effective_delay w c > 0 \<and> xs = [] \<and> en_settled st' = en_settled st \<and> (\<exists>i m. cancelled_by w i \<and>
          m = ok_response i (Resp_Cancel True ''Operation cancelled by client'') \<and>
          (en_sent st' = en_sent st @ [(Command, m)] \<or> en_sent st' = en_sent st \<and> MAX_PAYLOAD_SIZE < length (ew_encode w m))))
     \<or> (\<not> b \<and> en_sent st' = en_sent st @ xs \<and>
          (effective_delay w c > 0 \<or> is_scan c \<or> (\<exists>m. answers c m \<and> MAX_PAYLOAD_SIZE < length (ew_encode w m)))))"
proof (cases "effective_delay w c > 0")
  case True
  then obtain x st1 ts1 where d: "delay_loop w (ti_now t) (unat (effective_delay w c)) None ts st = Some (x, st1, ts1)"
    using s by (auto simp: serve_command_def bind_eq_Some_conv)
  note keeps = delay_loop_keeps [OF d]
  show ?thesis
  proof (cases x)
    case (Inl u)
    with s True d keeps show ?thesis by (intro exI [of _ "[]"]) (simp add: serve_command_def)
  next
    case (Inr y)
    show ?thesis
    proof (cases y)
      case None
      with s True d Inr obtain t1 where "handle_command w t1 c ts1 st1 = Some ((b, st'), ts')"
        by (auto simp: serve_command_def split: list.splits)
      from handle_command_answers [OF this] keeps show ?thesis by metis
    next
      case (Some i)
      define m where "m = ok_response i (Resp_Cancel True ''Operation cancelled by client'')"
      obtain sent where sent: "send_on Command w m st1 = (sent, st')" and b
        using s True d Inr Some by (cases "send_on Command w m st1") (auto simp: serve_command_def send_response_def m_def)
      have "cancelled_by w i" using delay_loop_cancelled d Inr Some by simp
      then show ?thesis
        using send_on_keeps [OF sent] send_on_fails [of Command w m st1 st'] sent \<open>b\<close> True keeps
        by (intro exI [of _ "[]"]) (cases sent; auto simp: m_def)
    qed
  qed
next
  case False
  with s have "handle_command w t c ts st = Some ((b, st'), ts')" by (simp add: serve_command_def)
  from handle_command_answers [OF this] show ?thesis by metis
qed

theorem engine_answers_each_command_witness:
  "\<exists>st' xs m. serve_command sample_world (sample_tick [] None) (sample_request [])
        [sample_tick [] (Some (Some (Inr sample_graph)))] sample_engine = Some ((True, st'), [])
     \<and> en_sent st' = xs @ [(Command, m)] \<and> list_all (interim ''q'') xs \<and> answers (sample_request []) m"
proof -
  obtain r st1 where h: "serve_command sample_world (sample_tick [] None) (sample_request [])
      [sample_tick [] (Some (Some (Inr sample_graph)))] sample_engine = Some ((True, st1), [])"
    by (rule sample_scan [of sample_engine "[]" "[]"]) (auto simp: at_rest_def sample_engine_def framed_new_def)
  have "\<not> effective_delay sample_world (sample_request []) > 0"
    by (simp add: effective_delay_def req_delay_def sample_request_def sample_world_def)
  with engine_answers_each_command [OF h] obtain xs m where "en_sent st1 = en_sent sample_engine @ xs @ [(Command, m)]"
    "answers (sample_request []) m" "list_all (interim (cq_request_id (sample_request []))) xs" by blast
  with h show ?thesis
    by (intro exI [of _ st1] exI [of _ xs] exI [of _ m]) (simp add: sample_engine_def, simp add: sample_request_def)
qed

text \<open>
  C6: In a session of the engine, every page of children answers for the latest scan: the session
  sent a scan response before it, no later scan response lies between, and the page has the
  operation of that response and holds the children of a directory in the very graph whose totals
  that response reports. This holds for every order in which commands, progress and the results of
  the workers arrive, with refused, failed and cancelled scans in between.
\<close>

theorem engine_pages_follow_their_scan:
  assumes "engine_loop w ts st = Some st'" and "en_sent st = []" and "en_settled st = None"
  shows "pages_backed None (en_sent st')"
  by (rule engine_loop_session [OF assms(1)]) (simp add: session_ok_def assms(2,3))

theorem engine_pages_follow_their_scan_witness:
  "\<exists>st. engine_loop sample_world sample_ticks sample_engine = Some st \<and> length (en_sent st) = 3
    \<and> pages_backed None (en_sent st)"
proof -
  obtain st r n where st: "engine_loop sample_world sample_ticks sample_engine = Some st"
    and "en_sent st = [(Command, ok_response ''q'' (Resp_ScanResponse r)),
      (Command, ok_response ''q'' (Resp_GetChildren \<lparr>gc_operation_id = ''op'', gc_parent_id = 0, gc_total_children = 1,
         gc_offset = 0, gc_nodes = [n]\<rparr>)), (Command, ok_response ''q'' (Resp_Shutdown 0))]"
    by (rule sample_session)
  then have "length (en_sent st) = 3" by simp
  with st engine_pages_follow_their_scan [OF st] show ?thesis by (simp add: sample_engine_def)
qed



end
