(* ===== verification/Remote_Call.thy ===== *)
theory Remote_Call
  imports Engine_Spec
begin

text \<open>
  A remote call through both processes: what the client's session of \<^verbatim>\<open>client.rs\<close> writes is what
  arrives at a turn of the loop of \<^verbatim>\<open>main.rs\<close>, and what that turn writes is what arrives at the
  client's poll. The call for a page of children then returns the page the engine's graph has.
\<close>

section \<open>The client's call\<close>

text \<open>The message library carries a request and its answer, and both fit in a frame.\<close>

definition carries :: "codec \<Rightarrow> engine_world \<Rightarrow> command_request \<Rightarrow> command_response \<Rightarrow> bool" where
  "carries lib w c m \<longleftrightarrow>
     length (encode_command lib c) \<le> MAX_PAYLOAD_SIZE \<and> ew_decode w (encode_command lib c) = Inr c \<and>
     length (ew_encode w m) \<le> MAX_PAYLOAD_SIZE \<and> decode_response lib (ew_encode w m) = Inr m"

lemma await_encoded:
  assumes "encode_frame h p = Inr bs" and "decode_response lib p = Inr m" and "avail (fs_input s) = []"
    and "po_peek_error q = None" and "\<not> (has_cancel \<and> po_signalled q)"
  shows "await_response lib has_cancel (q\<lparr>po_arrived := bs\<rparr> # ps) s = Some (Inr m, s)"
proof -
  have f: "fs_input (arrive bs s) = push_front bs (fs_input s)" by (simp add: arrive_def assms(3))
  have "peek_frame_readiness (peek_answer (q\<lparr>po_arrived := bs\<rparr>) (arrive bs s)) = Inr Complete"
    using peek_encoded [OF assms(1), of "[]"] f by (simp add: peek_answer_def assms(3,4))
  moreover have "recv_message (decode_response lib) (arrive bs s) =
      (Inr (Some (h, m)), (arrive bs s)\<lparr>fs_input := fs_input s\<rparr>)"
    by (rule recv_encoded [where enc = "\<lambda>_. p"]) (use assms f in simp_all)
  moreover have "(arrive bs s)\<lparr>fs_input := fs_input s\<rparr> = s" by (simp add: arrive_def)
  ultimately show ?thesis using assms(5) by (auto simp: Let_def)
qed

text \<open>The call is settled by the answer to the frame it wrote, whatever number that frame has.\<close>

lemma interruptible_call:
  assumes c: "carries lib w c m" and "avail (fs_input s) = []"
    and "po_peek_error q = None" and "\<not> (has_cancel \<and> po_signalled q)"
  obtains h' request s' where "encode_frame h' (encode_command lib c) = Inr request"
    "fs_output s' = fs_output s @ request" "fs_input s' = fs_input s"
    "\<forall>reply h. encode_frame h (ew_encode w m) = Inr reply \<longrightarrow>
      send_command_interruptible lib c has_cancel (q\<lparr>po_arrived := reply\<rparr> # ps) s = Some (Inr m, s')"
proof -
  obtain bs where bs: "encode_frame \<lparr>fh_channel_tag = Command, fh_flags = 0,
      fh_sequence_number = fs_sequence_number s + 1\<rparr> (encode_command lib c) = Inr bs"
    and snd: "send_message (encode_command lib) Command 0 c s = (Inr (fs_sequence_number s + 1),
      s\<lparr>fs_sequence_number := fs_sequence_number s + 1, fs_output := fs_output s @ bs\<rparr>)" (is "_ = (_, ?s)")
    by (rule send_message_ok [where enc = "encode_command lib" and m = c and s = s])
      (use c in \<open>simp add: carries_def\<close>)
  show ?thesis
  proof (rule that [OF bs, of ?s]; (intro allI impI)?)
    fix reply h
    assume "encode_frame h (ew_encode w m) = Inr reply"
    then have "await_response lib has_cancel (q\<lparr>po_arrived := reply\<rparr> # ps) ?s = Some (Inr m, ?s)"
      by (rule await_encoded) (use assms in \<open>simp_all add: carries_def\<close>)
    with snd show "send_command_interruptible lib c has_cancel (q\<lparr>po_arrived := reply\<rparr> # ps) s = Some (Inr m, ?s)"
      by (simp add: send_command_interruptible_def del: await_response.simps)
  qed simp_all
qed

section \<open>Both sides\<close>

text \<open>
  The request and the reply are the bytes that each side writes and the other finds. Both sessions
  end with nothing left to read, so the next call starts as this one did.
\<close>

lemma remote_call:
  assumes c: "carries lib w c m" and s: "avail (fs_input s) = []" "po_peek_error q = None" "\<not> (has_cancel \<and> po_signalled q)"
    and e: "avail (fs_input (en_framed st)) = []" "ti_peek_error t = None" "effective_delay w c = 0"
    and m: "\<And>request. immediate_answer w (t\<lparr>ti_arrived := request\<rparr>) (en_settled st) c = Some m"
  obtains request reply s' st' where
    "send_command_interruptible lib c has_cancel (q\<lparr>po_arrived := reply\<rparr> # ps) s = Some (Inr m, s')"
    "fs_output s' = fs_output s @ request" "avail (fs_input s') = []"
    "engine_loop w (t\<lparr>ti_arrived := request\<rparr> # ts) st =
      (if cq_request c = Some Req_Shutdown then Some st' else engine_loop w ts st')"
    "fs_output (en_framed st') = fs_output (en_framed st) @ reply" "avail (fs_input (en_framed st')) = []"
    "en_settled st' = en_settled st"
proof -
  obtain h request s' where request: "encode_frame h (encode_command lib c) = Inr request"
    and s': "fs_output s' = fs_output s @ request" "fs_input s' = fs_input s"
    and call: "\<forall>reply h. encode_frame h (ew_encode w m) = Inr reply \<longrightarrow>
      send_command_interruptible lib c has_cancel (q\<lparr>po_arrived := reply\<rparr> # ps) s = Some (Inr m, s')"
    by (rule interruptible_call [OF c s, where ps = ps])
  have "request \<noteq> []" using encode_frame_length [OF request] by (auto simp: HEADER_SIZE_def)
  then have "served_with w (en_settled st) [t\<lparr>ti_arrived := request\<rparr>] c m"
    using request c e(2,3) m by (auto simp: served_with_def arriving_def carries_def)
  then obtain h' reply st' where reply: "encode_frame h' (ew_encode w m) = Inr reply"
    and st': "fs_output (en_framed st') = fs_output (en_framed st) @ reply" "avail (fs_input (en_framed st')) = []"
      "en_settled st' = en_settled st"
      "engine_loop w (t\<lparr>ti_arrived := request\<rparr> # ts) st =
        (if cq_request c = Some Req_Shutdown then Some st' else engine_loop w ts st')"
    by (rule engine_turn [where ts = ts]) (use e(1) in \<open>simp_all add: at_rest_def\<close>)
  show ?thesis by (rule that [OF call [rule_format, OF reply] s'(1) _ st'(4,1,2,3)]) (use s'(2) s(1) in simp)
qed

text \<open>
  C8: A page of children fetched through both processes is the page of the settled graph. The
  client's call for a page returns what the query of the engine's graph gives, with the offset and
  the total the graph has, or the text of the query's error; the engine's loop goes on with the
  scan still settled; and both sides have read all that was sent.
\<close>

theorem remote_page_is_the_graphs:
  assumes "avail (fs_input s) = []" and "po_peek_error q = None"
    and "avail (fs_input (en_framed st)) = []" and "ti_peek_error t = None" and "ew_env_delay w = None"
    and settled: "en_settled st = Some (k, g)" and "unat limit \<le> 500"
    and query: "get_children_page g parent (unat offset) (if limit = 0 then 100 else unat limit) = Some r"
    and c: "c = \<lparr>cq_request_id = ''get_children-'' @ decimal (unat (fs_sequence_number s + 1)),
      cq_request = Some (Req_GetChildren k parent offset limit)\<rparr>"
    and m: "children_response (cq_request_id c) k parent offset limit (en_settled st) = Some m" and "carries lib w c m"
  shows "\<exists>request reply s' st'.
    get_children lib k parent offset limit (q\<lparr>po_arrived := reply\<rparr> # ps) s = Some (case r of
        Inr (n, page) \<Rightarrow> Inr \<lparr>gc_operation_id = k, gc_parent_id = parent, gc_total_children = word_of_nat n,
          gc_offset = offset, gc_nodes = page\<rparr>
      | Inl err \<Rightarrow> Inl (CommandError ''INVALID_PARENT'' (query_error_text err)), s') \<and>
    engine_loop w (t\<lparr>ti_arrived := request\<rparr> # ts) st = engine_loop w ts st' \<and>
    fs_output s' = fs_output s @ request \<and> fs_output (en_framed st') = fs_output (en_framed st) @ reply \<and>
    avail (fs_input s') = [] \<and> avail (fs_input (en_framed st')) = [] \<and> en_settled st' = Some (k, g)"
proof -
  let ?s = "s\<lparr>fs_sequence_number := fs_sequence_number s + 1\<rparr>"
  have q: "cq_request c = Some (Req_GetChildren k parent offset limit)" by (simp add: c)
  obtain request reply s' st' where
    call: "send_command_interruptible lib c False (q\<lparr>po_arrived := reply\<rparr> # ps) ?s = Some (Inr m, s')"
    and turn: "engine_loop w (t\<lparr>ti_arrived := request\<rparr> # ts) st =
      (if cq_request c = Some Req_Shutdown then Some st' else engine_loop w ts st')"
    and ends: "fs_output s' = fs_output ?s @ request" "avail (fs_input s') = []"
      "fs_output (en_framed st') = fs_output (en_framed st) @ reply" "avail (fs_input (en_framed st')) = []"
      "en_settled st' = en_settled st"
    by (rule remote_call [where s = ?s and st = st and t = t and q = q and has_cancel = False and ps = ps and ts = ts,
          OF assms(11)])
      (use assms(1-5) m q in \<open>simp_all add: immediate_answer_def effective_delay_def req_delay_def\<close>)
  have "\<not> (if limit = 0 then 100 else limit) > 500" using assms(7) by (auto simp: word_less_nat_alt)
  moreover have "unat (if limit = 0 then 100 else limit) = (if limit = 0 then 100 else unat limit)" by simp
  ultimately have "m = (case r of
        Inr (n, page) \<Rightarrow> ok_response (cq_request_id c) (Resp_GetChildren \<lparr>gc_operation_id = k, gc_parent_id = parent,
          gc_total_children = word_of_nat n, gc_offset = offset, gc_nodes = page\<rparr>)
      | Inl err \<Rightarrow> error_response (cq_request_id c) ''INVALID_PARENT'' (query_error_text err))"
    using m settled query by (simp add: children_response_def Let_def split: sum.splits prod.splits)
  with call have "get_children lib k parent offset limit (q\<lparr>po_arrived := reply\<rparr> # ps) s = Some (case r of
        Inr (n, page) \<Rightarrow> Inr \<lparr>gc_operation_id = k, gc_parent_id = parent, gc_total_children = word_of_nat n,
          gc_offset = offset, gc_nodes = page\<rparr>
      | Inl err \<Rightarrow> Inl (CommandError ''INVALID_PARENT'' (query_error_text err)), s')"
    by (cases r) (auto simp: get_children_def send_rpc_request_def next_seq_def Let_def c ok_response_def error_response_def)
  with turn ends settled q show ?thesis
    by (intro exI [of _ request] exI [of _ reply] exI [of _ s'] exI [of _ st']) simp
qed

text \<open>The first page of the sample graph.\<close>

definition sample_poll :: poll where
  "sample_poll = \<lparr>po_signalled = False, po_deadline = False, po_arrived = [], po_peek_error = None\<rparr>"

theorem remote_page_is_the_graphs_witness:
  "\<exists>lib w request reply s' st' n.
    get_children lib ''op'' 0 0 0 [sample_poll\<lparr>po_arrived := reply\<rparr>] (framed_new (of_bytes [])) =
      Some (Inr \<lparr>gc_operation_id = ''op'', gc_parent_id = 0, gc_total_children = 1, gc_offset = 0, gc_nodes = [n]\<rparr>, s') \<and>
    engine_loop w [(sample_tick [] None)\<lparr>ti_arrived := request\<rparr>] (sample_engine\<lparr>en_settled := Some (''op'', sample_graph)\<rparr>) =
      engine_loop w [] st' \<and> fs_output s' = request \<and> fs_output (en_framed st') = reply"
proof -
  define c where "c = \<lparr>cq_request_id = ''get_children-'' @ decimal (unat (fs_sequence_number (framed_new (of_bytes [])) + 1)),
    cq_request = Some (Req_GetChildren ''op'' 0 0 0)\<rparr>"
  obtain n where n: "get_children_page sample_graph 0 0 100 = Some (Inr (1, [n]))" using sample_queries(2) by blast
  define m where "m = ok_response (cq_request_id c) (Resp_GetChildren \<lparr>gc_operation_id = ''op'', gc_parent_id = 0,
    gc_total_children = 1, gc_offset = 0, gc_nodes = [n]\<rparr>)"
  have m: "children_response (cq_request_id c) ''op'' 0 0 0 (Some (''op'', sample_graph)) = Some m"
    by (simp add: children_response_def n m_def)
  define lib where "lib = \<lparr>encode_command = (\<lambda>_. []), decode_response = (\<lambda>_. Inr m)\<rparr>"
  define w where "w = sample_world\<lparr>ew_decode := (\<lambda>_. Inr c)\<rparr>"
  have "carries lib w c m" by (simp add: carries_def lib_def w_def sample_world_def MAX_PAYLOAD_SIZE_def)
  with m n show ?thesis
    using remote_page_is_the_graphs [of "framed_new (of_bytes [])" sample_poll "sample_engine\<lparr>en_settled := Some (''op'', sample_graph)\<rparr>"
        "sample_tick [] None" w "''op''" sample_graph 0 0 0 "Inr (1, [n])" c m lib "[]" "[]"]
    by (intro exI [of _ lib] exI [of _ w])
      (auto simp: c_def framed_new_def of_bytes_def sample_poll_def sample_engine_def sample_tick_def w_def sample_world_def)
qed

end
