(* ===== verification/Session_Launch.thy ===== *)
theory Session_Launch
  imports Handshake Pipe Launch
begin

text \<open>
  The start of a session: \<open>EngineClientSession::launch\<close> of \<^verbatim>\<open>crates/pigtree-ipc/src/client.rs\<close> and
  \<open>EngineServerSession::accept\<close> of \<^verbatim>\<open>crates/pigtree-ipc/src/server.rs\<close> as a whole, from the job and the
  bootstrap pipe over the child process and its named pipe to the handshake. As in the launch of
  processes, a call yields its result and the trace of its effects on handles and processes.
\<close>

section \<open>The client\<close>

record engine_client_session =
  ec_framed :: framed_session
  ec_child :: child_process_guard
  ec_session_id :: string
  ec_channel_key :: "u8 list"

text \<open>The answers of the system, the random numbers drawn, and the bytes the engine will send.\<close>

record session_answers =
  sa_launch :: launch_answers
  sa_write_nonce :: "u32 + nat"
  sa_last_error :: u32
  sa_bootstrap_nonce :: "u8 list"
  sa_session_nonce :: "u8 list"
  sa_client_nonce :: "u8 list"
  sa_connect :: "connect_attempt list"
  sa_server_pid :: "u32 + u32"
  sa_client_pid :: u32
  sa_reply :: reader

record session_codec =
  se_encode :: "auth_handshake_request \<Rightarrow> u8 list"
  se_decode :: "u8 list \<Rightarrow> string + auth_handshake_response"
  se_sha256 :: "u8 list \<Rightarrow> u8 list"

definition session_id_text :: "u8 list \<Rightarrow> string" where
  "session_id_text nonce = concat (map (\<lambda>b. hex_byte (unat b)) (take 8 nonce))"

text \<open>
  The handshake over the connected pipe, up to the destructors of everything the launch had
  acquired: the stream, the process handle, the bootstrap pipe and the job, in this order.
\<close>

definition authenticate :: "session_codec \<Rightarrow> session_answers \<Rightarrow> child_process_guard \<Rightarrow>
    (ipc_error + engine_client_session) \<times> action list" where
  "authenticate lib os child =
     (let dropped = (\<lambda>killed. (if killed then [Terminated] else [])
            @ map action.Closed [H_Stream, H_Process, H_Read, H_Job])
      in case client_hello (se_encode lib) (sa_bootstrap_nonce os) (sa_client_nonce os) (sa_client_pid os)
                (cp_pid child) (sa_server_pid os) (of_bytes []) of
           (Inl e, killed) \<Rightarrow> (Inl e, dropped killed)
         | (Inr framed, _) \<Rightarrow>
             (case client_finish (se_decode lib) (se_sha256 lib) (sa_bootstrap_nonce os) (sa_client_nonce os)
                     (cp_pid child) (framed\<lparr>fs_input := sa_reply os\<rparr>) of
                (Inl e, killed) \<Rightarrow> (Inl e, dropped killed)
              | (Inr (key, framed'), _) \<Rightarrow>
                  (Inr \<lparr>ec_framed = framed', ec_child = child, ec_session_id = session_id_text (sa_session_nonce os),
                        ec_channel_key = key\<rparr>, [action.Closed H_Read])))"

text \<open>\<open>None\<close>: the listed attempts to connect did not settle the call.\<close>

definition engine_session_launch :: "session_codec \<Rightarrow> session_answers \<Rightarrow> string \<Rightarrow>
    ((ipc_error + engine_client_session) \<times> action list) option" where
  "engine_session_launch lib os engine_exe =
     (case create_kill_on_close (sa_launch os) of
        (Inl e, t) \<Rightarrow> Some (Inl e, t)
      | (Inr _, t1) \<Rightarrow> (case bootstrap_pipe_create (sa_launch os) of
        (Inl e, t) \<Rightarrow> Some (Inl e, t1 @ t @ [action.Closed H_Job])
      | (Inr _, t2) \<Rightarrow> (case write_nonce (sa_write_nonce os) (sa_last_error os) of
        (Inl e, t) \<Rightarrow> Some (Inl e, t1 @ t2 @ t @ map action.Closed [H_Read, H_Write, H_Job])
      | (Inr _, t3) \<Rightarrow> (case spawn_engine (sa_launch os) engine_exe of
        (Inl e, t) \<Rightarrow> Some (Inl e, t1 @ t2 @ t3 @ t @ map action.Closed [H_Read, H_Job])
      | (Inr child, t4) \<Rightarrow>
          (case connect_pipe (format_pipe_name (session_id_text (sa_session_nonce os))) (sa_connect os) of
             None \<Rightarrow> None
           | Some (Inl e) \<Rightarrow>
               Some (Inl e, t1 @ t2 @ t3 @ t4 @ [Terminated] @ map action.Closed [H_Process, H_Read, H_Job])
           | Some (Inr _) \<Rightarrow>
               (case authenticate lib os child of
                  (r, t) \<Rightarrow> Some (r, t1 @ t2 @ t3 @ t4 @ [Opened H_Stream] @ t)))))))"

section \<open>The engine\<close>

text \<open>The server end of the pipe; its descriptor is the text whose access rights are checked.\<close>

definition named_pipe_server_create ::
  "token_answers \<Rightarrow> token_answers \<Rightarrow> u32 option \<Rightarrow> u32 option \<Rightarrow> string \<Rightarrow> ipc_error + string" where
  "named_pipe_server_create user_os restricted_os convert created pipe_name =
     and_then (create_pipe_security_attributes user_os restricted_os convert) (\<lambda>sddl.
       case created of
         Some code \<Rightarrow> Inl (Ipc_Win32 code (''CreateNamedPipeW failed for pipe '' @ pipe_name))
       | None \<Rightarrow> Inr sddl)"

definition engine_session_accept ::
  "(u8 list \<Rightarrow> string + auth_handshake_request) \<Rightarrow> (auth_handshake_response \<Rightarrow> u8 list) \<Rightarrow> (u8 list \<Rightarrow> u8 list) \<Rightarrow>
   token_answers \<Rightarrow> token_answers \<Rightarrow> u32 option \<Rightarrow> u32 option \<Rightarrow> unit io_answers \<Rightarrow>
   string \<Rightarrow> u8 list \<Rightarrow> u8 list \<Rightarrow> u32 \<Rightarrow> u32 + u32 \<Rightarrow> u32 + u32 \<Rightarrow> reader \<Rightarrow> ipc_error + engine_server_session" where
  "engine_session_accept decode encode sha256 user_os restricted_os convert created io pipe_name
      bootstrap_nonce server_nonce my_pid pipe_client_pid pipe_session_id stream =
     and_then (named_pipe_server_create user_os restricted_os convert created pipe_name) (\<lambda>_.
     and_then (fst (accept io)) (\<lambda>_.
       fst (server_accept decode encode sha256 bootstrap_nonce server_nonce my_pid pipe_client_pid pipe_session_id stream)))"

section \<open>What a launch leaves behind\<close>

text \<open>
  A process that was created is terminated, or it was put into the job, whose last handle is
  closed afterwards: the job kills its processes then.
\<close>

definition ended :: "action list \<Rightarrow> bool" where
  "ended t \<longleftrightarrow> (Created_Suspended \<in> set t \<longrightarrow>
     Terminated \<in> set t \<or> action.Closed H_Job \<in> set (dropWhile (\<lambda>a. a \<noteq> Assigned) t))"

text \<open>The peer of a session is the process that was started, and both ends know the nonce.\<close>

definition authentic :: "session_codec \<Rightarrow> session_answers \<Rightarrow> engine_client_session \<Rightarrow> bool" where
  "authentic lib os s \<longleftrightarrow> sa_server_pid os = Inr (cp_pid (ec_child s)) \<and>
     (\<exists>framed h p. recv_message (se_decode lib) (framed\<lparr>fs_input := sa_reply os\<rparr>) = (Inr (Some (h, p)), ec_framed s)
        \<and> fh_channel_tag h = Command \<and> ap_status p = 0 \<and> ap_server_pid p = cp_pid (ec_child s)
        \<and> ap_channel_key_hash p = ec_channel_key s
        \<and> ec_channel_key s = derive_channel_key (se_sha256 lib) (sa_bootstrap_nonce os) (sa_client_nonce os) (ap_server_nonce p))"

lemma hello_same_process:
  "client_hello enc bn cn pid child server stream = (Inr framed, k) \<Longrightarrow> server = Inr child"
  by (auto simp: client_hello_def get_server_pid_def map_err_def split: sum.splits if_splits prod.splits)

lemma finish_authentic:
  assumes "client_finish dec sha bn cn child framed = (Inr (key, framed'), k)"
  obtains h p where "recv_message dec framed = (Inr (Some (h, p)), framed')" "fh_channel_tag h = Command"
    "ap_status p = 0" "ap_server_pid p = child" "ap_channel_key_hash p = key"
    "key = derive_channel_key sha bn cn (ap_server_nonce p)"
  using assms
  by (auto simp: client_finish_def Let_def constant_time_eq_iff split: sum.splits option.splits prod.splits if_splits)

lemma authenticate_cases:
  assumes "authenticate lib os child = (r, t)"
  obtains (failed) e killed where "r = Inl e"
      "t = (if killed then [Terminated] else []) @ map action.Closed [H_Stream, H_Process, H_Read, H_Job]"
  | (agreed) s where "r = Inr s" "t = [action.Closed H_Read]" "ec_child s = child" "authentic lib os s"
proof -
  obtain hello killed where h: "client_hello (se_encode lib) (sa_bootstrap_nonce os) (sa_client_nonce os) (sa_client_pid os)
      (cp_pid child) (sa_server_pid os) (of_bytes []) = (hello, killed)" by fastforce
  show ?thesis
  proof (cases hello)
    case (Inl e)
    with assms h show ?thesis by (intro failed [of e killed]) (auto simp: authenticate_def Let_def)
  next
    case (Inr framed)
    note same = hello_same_process [OF h [unfolded Inr]]
    obtain fin killed' where f: "client_finish (se_decode lib) (se_sha256 lib) (sa_bootstrap_nonce os) (sa_client_nonce os)
        (cp_pid child) (framed\<lparr>fs_input := sa_reply os\<rparr>) = (fin, killed')" by fastforce
    show ?thesis
    proof (cases fin)
      case (Inl e)
      with assms h Inr f show ?thesis by (intro failed [of e killed']) (auto simp: authenticate_def Let_def)
    next
      case fin: (Inr key)
      obtain k framed' where k: "key = (k, framed')" by fastforce
      define s where "s = \<lparr>ec_framed = framed', ec_child = child, ec_session_id = session_id_text (sa_session_nonce os), ec_channel_key = k\<rparr>"
      have "r = Inr s" "t = [action.Closed H_Read]" using assms h Inr f fin k by (auto simp: authenticate_def Let_def s_def)
      moreover have "authentic lib os s"
        by (rule finish_authentic [OF f [unfolded fin k]]) (use same in \<open>auto simp: authentic_def s_def\<close>)
      moreover have "ec_child s = child" by (simp add: s_def)
      ultimately show ?thesis by (intro agreed)
    qed
  qed
qed

lemmas start_traces = create_kill_on_close_def bootstrap_pipe_create_def write_nonce_def

lemma spawn_engine_running:
  "spawn_engine os exe = (Inr child, t) \<Longrightarrow>
   t = [Created_Suspended, Opened H_Process, Opened H_Thread, Assigned, Resumed, action.Closed H_Thread]"
  by (auto simp: spawn_engine_def launch_steps Let_def split: option.splits sum.splits)

lemma spawn_engine_failed:
  "spawn_engine os exe = (Inl e, t) \<Longrightarrow> Created_Suspended \<in> set t \<Longrightarrow> Terminated \<in> set t"
  by (auto simp: spawn_engine_def launch_steps Let_def split: option.splits sum.splits)

lemma confined_append: "confined b xs \<Longrightarrow> \<forall>a \<in> set ys. a \<noteq> Resumed \<Longrightarrow> confined b (xs @ ys)"
  by (induction b xs rule: confined.induct) (auto, induction ys, auto)

lemma confined_prefix: "\<forall>a \<in> set xs. a \<noteq> Assigned \<and> a \<noteq> Resumed \<Longrightarrow> confined b (xs @ ys) = confined b ys"
  by (induction xs) auto

text \<open>The result and the trace of a launch, by the step that ends it.\<close>

abbreviation prepared :: "action list" where
  "prepared \<equiv> [Opened H_Job, Opened H_Read, Opened H_Write, action.Closed H_Write]"

abbreviation child_running :: "action list" where
  "child_running \<equiv> [Created_Suspended, Opened H_Process, Opened H_Thread, Assigned, Resumed, action.Closed H_Thread]"

lemma launch_cases:
  assumes l: "engine_session_launch lib os exe = Some (r, t)"
  obtains (unprepared) e where "r = Inl e" "handles_after {} t = Some {}" "\<forall>a \<in> set t. a \<noteq> Assigned \<and> a \<noteq> Resumed \<and> a \<noteq> Created_Suspended"
  | (not_spawned) e t' where "r = Inl e" "spawn_engine (sa_launch os) exe = (Inl e, t')"
      "t = prepared @ t' @ map action.Closed [H_Read, H_Job]"
  | (not_connected) e where "r = Inl e"
      "t = prepared @ child_running @ [Terminated] @ map action.Closed [H_Process, H_Read, H_Job]"
  | (connected) child t' where "authenticate lib os child = (r, t')" "t = prepared @ child_running @ [Opened H_Stream] @ t'"
proof (cases "create_kill_on_close (sa_launch os)")
  case (Pair q1 t1)
  show ?thesis
  proof (cases q1)
    case (Inl e)
    with l Pair show ?thesis
      by (intro unprepared [of e]) (auto simp: engine_session_launch_def start_traces split: option.splits)
  next
    case (Inr u1)
    note 1 = Pair Inr
    obtain q2 t2 where 2: "bootstrap_pipe_create (sa_launch os) = (q2, t2)" by fastforce
    show ?thesis
    proof (cases q2)
      case (Inl e)
      with l 1 2 show ?thesis
        by (intro unprepared [of e]) (auto simp: engine_session_launch_def start_traces split: option.splits)
    next
      case (Inr u2)
      note 2 = 2 Inr
      obtain q3 t3 where 3: "write_nonce (sa_write_nonce os) (sa_last_error os) = (q3, t3)" by fastforce
      show ?thesis
      proof (cases q3)
        case (Inl e)
        with l 1 2 3 show ?thesis
          by (intro unprepared [of e])
            (auto simp: engine_session_launch_def start_traces insert_Diff_if split: option.splits sum.splits if_splits)
      next
        case (Inr u3)
        note 3 = 3 Inr
        have t: "t1 @ t2 @ t3 = prepared"
          using 1 2 3 by (auto simp: start_traces split: option.splits sum.splits if_splits)
        obtain q4 t4 where 4: "spawn_engine (sa_launch os) exe = (q4, t4)" by fastforce
        show ?thesis
        proof (cases q4)
          case (Inl e)
          show ?thesis
            by (rule not_spawned [of e t4])
              (use l 1 2 3 4 Inl t in \<open>simp_all add: engine_session_launch_def flip: append_assoc\<close>)
        next
          case (Inr child)
          note t4 = spawn_engine_running [OF 4 [unfolded Inr]]
          have t: "t1 @ t2 @ t3 @ t4 = prepared @ child_running" using t t4 by (metis append_assoc)
          show ?thesis
          proof (cases "connect_pipe (format_pipe_name (session_id_text (sa_session_nonce os))) (sa_connect os)")
            case None
            with l 1 2 3 4 Inr show ?thesis by (simp add: engine_session_launch_def)
          next
            case (Some c)
            show ?thesis
            proof (cases c)
              case c: (Inl e)
              show ?thesis
                by (rule not_connected [of e])
                  (use l 1 2 3 4 Inr Some c t in \<open>simp_all add: engine_session_launch_def flip: append_assoc\<close>)
            next
              case c: (Inr u)
              obtain r' t' where a: "authenticate lib os child = (r', t')" by fastforce
              with l 1 2 3 4 Inr Some c have "r = r'" "t = (t1 @ t2 @ t3 @ t4) @ [Opened H_Stream] @ t'"
                by (simp_all add: engine_session_launch_def)
              with a t show ?thesis by (intro connected [of child t']) (simp_all flip: append_assoc)
            qed
          qed
        qed
      qed
    qed
  qed
qed

lemma handles_prepared: "handles_after {} (prepared @ t) = handles_after {H_Job, H_Read} t"
  by (simp add: insert_Diff_if insert_commute)

lemma handles_running: "handles_after {H_Job, H_Read} (child_running @ t) = handles_after {H_Job, H_Read, H_Process} t"
  by (simp add: insert_Diff_if insert_commute)

lemma confined_started: "confined False (prepared @ child_running @ t) = confined True t"
  by simp

section \<open>The property\<close>

text \<open>
  C12: Starting a session. On every path, whatever the system answers, a failing launch closes each
  handle it opened exactly once, and a process it created has been terminated or dies with the
  job; no process ever runs outside of the job. A launch that returns a session keeps exactly the
  job, the process and the stream, and the peer at the other end of the pipe is the process that was
  started, which answered on the command channel with the key derived from the nonce passed to it.
\<close>

theorem session_launch_is_safe:
  assumes "engine_session_launch lib os exe = Some (r, t)"
  shows "confined False t \<and> (case r of
      Inl _ \<Rightarrow> handles_after {} t = Some {} \<and> ended t
    | Inr s \<Rightarrow> handles_after {} t = Some {H_Job, H_Process, H_Stream} \<and> authentic lib os s)"
  using assms
proof (cases rule: launch_cases)
  case (unprepared e)
  have "confined False (t @ [])" by (subst confined_prefix) (use unprepared(3) in auto)
  with unprepared show ?thesis by (auto simp: ended_def)
next
  case (not_spawned e t')
  note trace = spawn_engine_trace [of "sa_launch os" exe]
  have "confined False (t' @ map action.Closed [H_Read, H_Job])"
    by (rule confined_append) (use trace not_spawned(2) in auto)
  moreover have "handles_after {H_Job, H_Read} (t' @ map action.Closed [H_Read, H_Job]) = Some {}"
    using trace not_spawned(2) by (simp add: handles_after_append insert_Diff_if)
  ultimately show ?thesis
    unfolding not_spawned(1,3) handles_prepared using spawn_engine_failed [OF not_spawned(2)]
    by (auto simp: ended_def)
next
  case (not_connected e)
  then show ?thesis
    unfolding not_connected handles_prepared handles_running confined_started by (simp add: ended_def insert_Diff_if)
next
  case (connected child t')
  from connected(1) show ?thesis
  proof (cases rule: authenticate_cases)
    case (failed e killed)
    then show ?thesis
      unfolding connected(2) handles_prepared handles_running confined_started by (simp add: ended_def insert_Diff_if)
  next
    case (agreed s)
    then show ?thesis
      unfolding connected(2) handles_prepared handles_running confined_started by (auto simp: insert_Diff_if)
  qed
qed

text \<open>A child that serves another pipe: the launch refuses it.\<close>

definition impostor_answers :: session_answers where
  "impostor_answers = \<lparr>sa_launch = refusing_answers\<lparr>la_assign := None\<rparr>, sa_write_nonce = Inr 32, sa_last_error = 0,
     sa_bootstrap_nonce = [9], sa_session_nonce = [1], sa_client_nonce = [8],
     sa_connect = [\<lparr>ca_opened = None, ca_elapsed = False\<rparr>], sa_server_pid = Inr 8, sa_client_pid = 100, sa_reply = of_bytes []\<rparr>"

theorem session_launch_is_safe_witness:
  "\<exists>e t. engine_session_launch \<lparr>se_encode = (\<lambda>_. []), se_decode = (\<lambda>_. Inl []), se_sha256 = (\<lambda>_. [])\<rparr> impostor_answers ''e.exe''
      = Some (Inl e, t) \<and> Resumed \<in> set t \<and> handles_after {} t = Some {} \<and> ended t"
proof -
  let ?lib = "\<lparr>se_encode = (\<lambda>_. []), se_decode = (\<lambda>_. Inl []), se_sha256 = (\<lambda>_. [])\<rparr>"
  obtain e t where l: "engine_session_launch ?lib impostor_answers ''e.exe'' = Some (Inl e, t)" "Resumed \<in> set t"
    by (simp add: engine_session_launch_def impostor_answers_def refusing_answers_def start_traces spawn_engine_def
        assign_process_def authenticate_def client_hello_def get_server_pid_def map_err_def Let_def)
  from session_launch_is_safe [OF l(1)] have "handles_after {} t = Some {} \<and> ended t" by simp
  with l show ?thesis by blast
qed

end
