(* ===== verification/Handles.thy ===== *)
theory Handles
  imports Error_Text
begin

text \<open>
  The thin owners of system objects: the cancellation events of \<^verbatim>\<open>crates/pigtree-ipc/src/process.rs\<close>
  and \<^verbatim>\<open>crates/pigtree-scan-worker/src/lib.rs\<close>, the ends of anonymous pipes there, and the use of the
  hashing provider in \<^verbatim>\<open>crates/pigtree-protocol/src/sha256.rs\<close>. The digest itself is computed by the
  system and stays an argument.
\<close>

section \<open>Owned and borrowed handles\<close>

definition INVALID_HANDLE_VALUE :: u64 where "INVALID_HANDLE_VALUE = - 1"

definition usable :: "u64 \<Rightarrow> bool" where
  "usable h \<longleftrightarrow> h \<noteq> 0 \<and> h \<noteq> INVALID_HANDLE_VALUE"

record owned_handle =
  oh_handle :: u64
  oh_owns :: bool

definition from_raw :: "u64 \<Rightarrow> owned_handle" where
  "from_raw h = \<lparr>oh_handle = h, oh_owns = False\<rparr>"

definition from_owned :: "u64 \<Rightarrow> owned_handle" where
  "from_owned h = \<lparr>oh_handle = h, oh_owns = True\<rparr>"

text \<open>The handles a destructor closes.\<close>

definition drop_handle :: "owned_handle \<Rightarrow> u64 list" where
  "drop_handle h = (if oh_owns h \<and> usable (oh_handle h) then [oh_handle h] else [])"

section \<open>Cancellation events\<close>

text \<open>Manual-reset events by their handles: the ones that are signalled.\<close>

type_synonym events = "u64 \<Rightarrow> bool"

definition cancel_handle_new :: "u64 \<Rightarrow> u32 \<Rightarrow> ipc_error + owned_handle" where
  "cancel_handle_new h_event last_error =
     (if h_event = 0 \<or> h_event = INVALID_HANDLE_VALUE then Inl (Ipc_Win32 last_error ''CreateEventW failed'')
      else Inr (from_owned h_event))"

definition cancel :: "owned_handle \<Rightarrow> events \<Rightarrow> events" where
  "cancel h evs = (if usable (oh_handle h) then evs(oh_handle h := True) else evs)"

definition is_cancelled :: "owned_handle \<Rightarrow> events \<Rightarrow> bool" where
  "is_cancelled h evs \<longleftrightarrow> usable (oh_handle h) \<and> evs (oh_handle h)"

text \<open>The worker's view of the event whose handle it inherited.\<close>

definition event_is_cancelled :: "owned_handle \<Rightarrow> events \<Rightarrow> bool" where
  "event_is_cancelled h evs =
     (if \<not> usable (oh_handle h) then False else evs (oh_handle h))"

lemma cancelled_stays: "is_cancelled h evs \<Longrightarrow> is_cancelled h (cancel h' evs)"
  by (simp add: is_cancelled_def cancel_def)

lemma cancel_idempotent: "cancel h (cancel h evs) = cancel h evs"
  by (simp add: cancel_def)

text \<open>Cancelling in the engine reaches the worker, and nobody else.\<close>

lemma worker_sees_cancellation:
  assumes "cancel_handle_new h e = Inr c"
  shows "event_is_cancelled (from_raw (oh_handle c)) (cancel c evs)" "is_cancelled c (cancel c evs)"
    "oh_handle c' \<noteq> h \<Longrightarrow> is_cancelled c' (cancel c evs) = is_cancelled c' evs"
    "drop_handle c = [h]" "drop_handle (from_raw h) = []"
  using assms
  by (auto simp: cancel_handle_new_def from_owned_def from_raw_def usable_def cancel_def is_cancelled_def
      event_is_cancelled_def drop_handle_def split: if_splits)

section \<open>The writing end of the pipe\<close>

text \<open>The answer of \<open>WriteFile\<close>: an error code, or how many bytes it wrote.\<close>

definition pipe_writer_write :: "owned_handle \<Rightarrow> u32 + nat \<Rightarrow> io_error + nat" where
  "pipe_writer_write h answer =
     (if \<not> usable (oh_handle h) then Inl Io_InvalidInput
      else case answer of Inl err \<Rightarrow> Inl (Io_Other err) | Inr written \<Rightarrow> Inr written)"

definition pipe_writer_flush :: "owned_handle \<Rightarrow> u32 option \<Rightarrow> io_error + unit" where
  "pipe_writer_flush h answer =
     (if \<not> usable (oh_handle h) then Inl Io_InvalidInput
      else case answer of Some err \<Rightarrow> if err \<noteq> 1 then Inl (Io_Other err) else Inr () | None \<Rightarrow> Inr ())"

text \<open>\<open>write_all\<close> of the standard library over it: the result and the bytes that went out.\<close>

fun pipe_write_all :: "owned_handle \<Rightarrow> (u32 + nat) list \<Rightarrow> u8 list \<Rightarrow> (io_error + unit) option \<times> u8 list" where
  "pipe_write_all h answers [] = (Some (Inr ()), [])"
| "pipe_write_all h [] buf = (None, [])"
| "pipe_write_all h (a # as) buf =
     (case pipe_writer_write h a of
        Inl e \<Rightarrow> (Some (Inl e), [])
      | Inr n \<Rightarrow>
          if n = 0 then (Some (Inl Io_WriteZero), [])
          else case pipe_write_all h as (drop n buf) of (r, out) \<Rightarrow> (r, take n buf @ out))"

lemma pipe_write_all_prefix: "\<exists>rest. buf = snd (pipe_write_all h answers buf) @ rest"
proof (induction h answers buf rule: pipe_write_all.induct)
  case (3 h a as x xs)
  show ?case
  proof (cases "pipe_writer_write h a")
    case (Inr n)
    show ?thesis
    proof (cases n)
      case (Suc m)
      from "3.IH" [OF Inr, unfolded Suc] obtain rest where "drop m xs = snd (pipe_write_all h as (drop m xs)) @ rest" by auto
      then have "x # xs = (x # take m xs @ snd (pipe_write_all h as (drop m xs))) @ rest"
        by (metis append.assoc append_Cons append_take_drop_id)
      with Inr Suc show ?thesis by (auto split: prod.splits)
    qed (use Inr in simp)
  qed simp
qed simp_all

lemma pipe_write_all_complete: "fst (pipe_write_all h answers buf) = Some (Inr ()) \<Longrightarrow> snd (pipe_write_all h answers buf) = buf"
  by (induction h answers buf rule: pipe_write_all.induct) (auto split: sum.splits if_splits prod.splits)

section \<open>The hashing provider\<close>

datatype hash_call = Open_algorithm bool | Create_hash bool | Hash_data bool | Finish_hash bool | Destroy_hash | Close_algorithm

text \<open>The states of the calls, 0 for success, and the digest.\<close>

record hash_answers =
  ha_open :: u32
  ha_create :: u32
  ha_data :: u32
  ha_finish :: u32
  ha_digest :: "u8 list"

text \<open>\<open>None\<close>: the function panics.\<close>

definition sha256_call :: "hash_answers \<Rightarrow> u8 list \<Rightarrow> u8 list option \<times> hash_call list" where
  "sha256_call os bytes =
     (if ha_open os \<noteq> 0 then (None, [Open_algorithm False])
      else if ha_create os \<noteq> 0 then (None, [Open_algorithm True, Create_hash False, Close_algorithm])
      else if bytes \<noteq> [] \<and> ha_data os \<noteq> 0
      then (None, [Open_algorithm True, Create_hash True, Hash_data False, Destroy_hash, Close_algorithm])
      else (if ha_finish os \<noteq> 0 then None else Some (ha_digest os),
            [Open_algorithm True, Create_hash True] @ (if bytes = [] then [] else [Hash_data True])
            @ [Finish_hash (ha_finish os = 0), Destroy_hash, Close_algorithm]))"

text \<open>The protocol of the provider: what may be called when.\<close>

datatype hash_phase = Unopened | Provider | Hashing | Hashed

inductive hash_step :: "hash_phase \<Rightarrow> hash_call \<Rightarrow> hash_phase \<Rightarrow> bool" where
  open_step: "hash_step Unopened (Open_algorithm ok) (if ok then Provider else Unopened)"
| create_step: "hash_step Provider (Create_hash ok) (if ok then Hashing else Provider)"
| data_step: "hash_step Hashing (Hash_data ok) Hashing"
| finish_step: "hash_step Hashing (Finish_hash ok) Hashed"
| destroy_step: "p = Hashing \<or> p = Hashed \<Longrightarrow> hash_step p Destroy_hash Provider"
| close_step: "hash_step Provider Close_algorithm Unopened"

inductive hash_run :: "hash_phase \<Rightarrow> hash_call list \<Rightarrow> hash_phase \<Rightarrow> bool" where
  no_calls: "hash_run p [] p"
| a_call: "hash_step p c q \<Longrightarrow> hash_run q cs r \<Longrightarrow> hash_run p (c # cs) r"

inductive_cases hash_runE: "hash_run p (c # cs) r"

inductive_simps hash_step_simps [simp]:
  "hash_step p (Open_algorithm ok) q" "hash_step p (Create_hash ok) q" "hash_step p (Hash_data ok) q"
  "hash_step p (Finish_hash ok) q" "hash_step p Destroy_hash q" "hash_step p Close_algorithm q"

inductive_simps hash_run_simps [simp]: "hash_run p [] r" "hash_run p (c # cs) r"

lemma hash_step_deterministic: "hash_step p c q \<Longrightarrow> hash_step p c q' \<Longrightarrow> q = q'"
  by (induction p c q rule: hash_step.induct) auto

lemma hash_run_deterministic: "hash_run p cs q \<Longrightarrow> hash_run p cs q' \<Longrightarrow> q = q'"
proof (induction p cs q rule: hash_run.induct)
  case (a_call p c q cs r)
  from a_call.prems obtain s where "hash_step p c s" "hash_run s cs q'" by (rule hash_runE)
  with a_call hash_step_deterministic show ?case by blast
qed simp

text \<open>Hashing obeys the protocol and releases the provider on every path, panics included.\<close>

lemma sha256_releases_the_provider:
  "hash_run Unopened (snd (sha256_call os bytes)) Unopened"
  "fst (sha256_call os bytes) = Some digest \<Longrightarrow> digest = ha_digest os \<and> Finish_hash True \<in> set (snd (sha256_call os bytes))
     \<and> (bytes \<noteq> [] \<longrightarrow> Hash_data True \<in> set (snd (sha256_call os bytes)))"
  by (auto simp: sha256_call_def split: if_splits)

end
