(* ===== verification/Scan_Client.thy ===== *)
theory Scan_Client
  imports Client
begin

text \<open>
  \<open>scan_with_progress_outcome\<close> of \<^verbatim>\<open>crates/pigtree-ipc/src/client.rs\<close>: the loop that delivers
  progress, forwards a cancellation once and settles the scan.
\<close>

section \<open>The loop\<close>

record scan_call =
  sc_framed :: framed_session
  sc_last_progress_seq :: u64
  sc_cancel_sent :: bool
  sc_delivered :: "scan_progress list"

type_synonym scan_settled = "(ipc_error + scan_call_outcome) option"

abbreviation protocol_violation :: ipc_error where
  "protocol_violation \<equiv> Ipc_Protocol (ChecksumMismatch 0 0)"

text \<open>Forwarding the cancellation: two sequence numbers are used, one for the name of the request.\<close>

definition forward_cancel :: "codec \<Rightarrow> string \<Rightarrow> bool \<Rightarrow> poll \<Rightarrow> scan_call \<Rightarrow> ipc_error + scan_call" where
  "forward_cancel lib operation_id has_cancel p c =
     (if \<not> sc_cancel_sent c \<and> has_cancel \<and> po_signalled p then
        let (seq, s) = next_seq (sc_framed c);
            cancel_req = \<lparr>cq_request_id = ''cancel-'' @ decimal (unat seq),
              cq_request = Some (Req_Cancel operation_id ''Scan cancelled by client'')\<rparr>
        in case send_message (encode_command lib) Command 0 cancel_req s of
             (Inl e, _) \<Rightarrow> Inl e
           | (Inr _, s') \<Rightarrow> Inr (c\<lparr>sc_framed := s', sc_cancel_sent := True\<rparr>)
      else Inr c)"

definition on_progress_frame :: "string \<Rightarrow> command_response \<Rightarrow> scan_call \<Rightarrow> scan_settled \<times> scan_call" where
  "on_progress_frame operation_id resp c =
     (case cs_response resp of
        Some (Resp_ScanProgress p) \<Rightarrow>
          if p_operation_id p \<noteq> operation_id then (Some (Inl protocol_violation), c)
          else if p_sequence_number p \<le> sc_last_progress_seq c then (Some (Inl protocol_violation), c)
          else (None, c\<lparr>sc_last_progress_seq := p_sequence_number p, sc_delivered := sc_delivered c @ [p]\<rparr>)
      | _ \<Rightarrow> (Some (Inl (Ipc_Protocol PrematureEof)), c))"

definition on_command_frame :: "string \<Rightarrow> command_response \<Rightarrow> bool \<Rightarrow> ipc_error + scan_call_outcome" where
  "on_command_frame operation_id resp cancel_sent =
     (if cs_request_id resp \<noteq> operation_id \<and> cs_request_id resp \<noteq> [] then Inl (Ipc_Protocol PrematureEof)
      else if cs_status resp \<noteq> 0 then Inl (CommandError (cs_error_code resp) (cs_error_message resp))
      else case cs_response resp of
        Some (Resp_ScanResponse sr) \<Rightarrow>
          if r_operation_id sr \<noteq> operation_id then Inl (Ipc_Protocol PrematureEof)
          else if cancel_sent \<or> r_run_outcome sr = scan_outcome_i32 Outcome_Cancelled
          then Inr (Call_Cancelled sr)
          else Inr (Call_Finished sr)
      | Some (Resp_Error code message _) \<Rightarrow> Inl (CommandError code message)
      | _ \<Rightarrow> Inl (Ipc_Protocol PrematureEof))"

definition scan_poll :: "codec \<Rightarrow> string \<Rightarrow> bool \<Rightarrow> poll \<Rightarrow> scan_call \<Rightarrow> scan_settled \<times> scan_call" where
  "scan_poll lib operation_id has_cancel p c0 =
     (case forward_cancel lib operation_id has_cancel p c0 of
        Inl e \<Rightarrow> (Some (Inl e), c0)
      | Inr c1 \<Rightarrow>
          if sc_cancel_sent c1 \<and> po_deadline p then (Some (Inl Ipc_Cancelled), c1)
          else let c2 = c1\<lparr>sc_framed := arrive (po_arrived p) (sc_framed c1)\<rparr> in
          case peek_frame_readiness (peek_answer p (sc_framed c2)) of
            Inl e \<Rightarrow> (Some (Inl e), c2)
          | Inr Complete \<Rightarrow>
              (case recv_frame (sc_framed c2) of
                 (Inl e, _) \<Rightarrow> (Some (Inl e), c2)
               | (Inr None, s) \<Rightarrow> (Some (Inl (Ipc_Protocol PrematureEof)), c2\<lparr>sc_framed := s\<rparr>)
               | (Inr (Some f), s) \<Rightarrow>
                   let c3 = c2\<lparr>sc_framed := s\<rparr> in
                   (case fh_channel_tag (fr_header f) of
                      ProgressPulse \<Rightarrow>
                        (case decode_response lib (fr_payload f) of
                           Inl e \<Rightarrow> (Some (Inl (Ipc_Protobuf e)), c3)
                         | Inr resp \<Rightarrow> on_progress_frame operation_id resp c3)
                    | Command \<Rightarrow>
                        (case decode_response lib (fr_payload f) of
                           Inl e \<Rightarrow> (Some (Inl (Ipc_Protobuf e)), c3)
                         | Inr resp \<Rightarrow> (Some (on_command_frame operation_id resp (sc_cancel_sent c3)), c3))
                    | other \<Rightarrow> (Some (Inl (Ipc_Protocol (InvalidChannelTag (channel_tag_u8 other)))), c3)))
          | Inr _ \<Rightarrow> (None, c2))"

fun scan_loop :: "codec \<Rightarrow> string \<Rightarrow> bool \<Rightarrow> poll list \<Rightarrow> scan_call \<Rightarrow> scan_settled \<times> scan_call" where
  "scan_loop lib operation_id has_cancel [] c = (None, c)"
| "scan_loop lib operation_id has_cancel (p # ps) c =
     (case scan_poll lib operation_id has_cancel p c of
        (Some r, c') \<Rightarrow> (Some r, c')
      | (None, c') \<Rightarrow> scan_loop lib operation_id has_cancel ps c')"

definition scan_operation_id :: "framed_session \<Rightarrow> string" where
  "scan_operation_id s = ''scan-'' @ decimal (unat (fst (next_seq s)))"

definition scan_with_progress_outcome ::
  "codec \<Rightarrow> string \<Rightarrow> bool \<Rightarrow> poll list \<Rightarrow> framed_session \<Rightarrow> scan_settled \<times> scan_call" where
  "scan_with_progress_outcome lib target_path has_cancel polls s0 =
     (let operation_id = scan_operation_id s0; s = snd (next_seq s0);
          start = (\<lambda>s. \<lparr>sc_framed = s, sc_last_progress_seq = 0, sc_cancel_sent = False, sc_delivered = []\<rparr>);
          req = \<lparr>cq_request_id = operation_id, cq_request = Some (Req_Scan operation_id target_path)\<rparr>
      in case send_message (encode_command lib) Command 0 req s of
           (Inl e, s1) \<Rightarrow> (Some (Inl e), start s1)
         | (Inr _, s1) \<Rightarrow> scan_loop lib operation_id has_cancel polls (start s1))"

definition scan_with_progress ::
  "codec \<Rightarrow> string \<Rightarrow> bool \<Rightarrow> poll list \<Rightarrow> framed_session \<Rightarrow> (ipc_error + scan_response) option \<times> scan_call" where
  "scan_with_progress lib target_path has_cancel polls s =
     (let (r, c) = scan_with_progress_outcome lib target_path has_cancel polls s
      in (map_option (\<lambda>r. and_then r (\<lambda>outcome. case outcome of
            Call_Finished sr \<Rightarrow> Inr sr | Call_Cancelled _ \<Rightarrow> Inl Ipc_Cancelled)) r, c))"

section \<open>What a turn keeps\<close>

text \<open>The progress delivered so far belongs to the operation and is strictly ordered.\<close>

definition delivered_ok :: "string \<Rightarrow> scan_call \<Rightarrow> bool" where
  "delivered_ok operation_id c \<longleftrightarrow>
     (\<forall>p \<in> set (sc_delivered c). p_operation_id p = operation_id \<and> 0 < p_sequence_number p)
     \<and> sorted_wrt (<) (map p_sequence_number (sc_delivered c))
     \<and> sc_last_progress_seq c = (if sc_delivered c = [] then 0 else p_sequence_number (last (sc_delivered c)))"

lemma forward_cancel_delivered:
  "forward_cancel lib i h p c = Inr c' \<Longrightarrow> delivered_ok i c' = delivered_ok i c"
  by (auto simp: forward_cancel_def delivered_ok_def Let_def split: if_splits prod.splits sum.splits)

lemma delivered_framed [simp]: "delivered_ok i (c\<lparr>sc_framed := s\<rparr>) = delivered_ok i c"
  by (simp add: delivered_ok_def)

lemma on_progress_frame_delivered:
  assumes "delivered_ok i c"
  shows "delivered_ok i (snd (on_progress_frame i resp c))"
proof -
  have "delivered_ok i (c\<lparr>sc_last_progress_seq := p_sequence_number p, sc_delivered := sc_delivered c @ [p]\<rparr>)"
    if p: "p_operation_id p = i" "\<not> p_sequence_number p \<le> sc_last_progress_seq c" for p
  proof -
    have "p_sequence_number q \<le> sc_last_progress_seq c" if "q \<in> set (sc_delivered c)" for q
      using assms that by (cases "sc_delivered c" rule: rev_cases)
        (auto simp: delivered_ok_def sorted_wrt_append less_imp_le)
    moreover have "0 < p_sequence_number p"
      using p(2) by (metis linorder_not_less order_le_less_trans word_gt_0 word_not_simps(1) not_gr0 word_zero_le)
    ultimately show ?thesis
      using assms p by (fastforce simp: delivered_ok_def sorted_wrt_append not_le)
  qed
  with assms show ?thesis
    by (auto simp: on_progress_frame_def split: option.splits response.splits)
qed

lemma scan_poll_delivered:
  assumes "delivered_ok i c"
  shows "delivered_ok i (snd (scan_poll lib i h p c))"
  using assms
  by (auto simp: scan_poll_def Let_def on_progress_frame_delivered dest!: forward_cancel_delivered
      split: sum.splits frame_readiness.splits prod.splits option.splits channel_tag.splits)

lemma scan_loop_delivered: "delivered_ok i c \<Longrightarrow> delivered_ok i (snd (scan_loop lib i h ps c))"
proof (induction ps arbitrary: c)
  case (Cons p ps)
  with scan_poll_delivered [OF Cons.prems, of lib h p] show ?case
    by (auto split: prod.splits option.splits)
qed simp

lemma scan_outcome_delivered:
  "delivered_ok (scan_operation_id s) (snd (scan_with_progress_outcome lib target h polls s))"
proof -
  have "delivered_ok i \<lparr>sc_framed = s1, sc_last_progress_seq = 0, sc_cancel_sent = False, sc_delivered = []\<rparr>" for i s1
    by (simp add: delivered_ok_def)
  then show ?thesis
    by (auto simp: scan_with_progress_outcome_def Let_def scan_loop_delivered split: prod.splits sum.splits)
qed

text \<open>A settled outcome answers the operation, and is a cancellation exactly as the code decides.\<close>

definition outcome_ok :: "string \<Rightarrow> bool \<Rightarrow> scan_call_outcome \<Rightarrow> bool" where
  "outcome_ok operation_id cancel_sent r = (case r of
     Call_Finished sr \<Rightarrow> r_operation_id sr = operation_id \<and> \<not> cancel_sent
       \<and> r_run_outcome sr \<noteq> scan_outcome_i32 Outcome_Cancelled
   | Call_Cancelled sr \<Rightarrow> r_operation_id sr = operation_id
       \<and> (cancel_sent \<or> r_run_outcome sr = scan_outcome_i32 Outcome_Cancelled))"

lemma on_command_frame_ok: "on_command_frame i resp k = Inr r \<Longrightarrow> outcome_ok i k r"
  by (auto simp: on_command_frame_def outcome_ok_def split: if_splits option.splits response.splits)

lemma on_progress_frame_settles: "fst (on_progress_frame i resp c) \<noteq> Some (Inr r)"
  by (auto simp: on_progress_frame_def split: option.splits response.splits)

lemma scan_poll_outcome:
  "scan_poll lib i h p c = (Some (Inr r), c') \<Longrightarrow> outcome_ok i (sc_cancel_sent c') r"
  using on_progress_frame_settles
  by (auto simp: scan_poll_def Let_def on_command_frame_ok
      split: sum.splits frame_readiness.splits prod.splits option.splits channel_tag.splits if_splits)
     (metis fst_conv)+

lemma scan_loop_outcome:
  "scan_loop lib i h ps c = (Some (Inr r), c') \<Longrightarrow> outcome_ok i (sc_cancel_sent c') r"
  by (induction ps arbitrary: c) (auto split: prod.splits option.splits dest: scan_poll_outcome)

lemma scan_outcome_ok:
  "scan_with_progress_outcome lib target h polls s = (Some (Inr r), c) \<Longrightarrow>
    outcome_ok (scan_operation_id s) (sc_cancel_sent c) r"
  by (auto simp: scan_with_progress_outcome_def Let_def split: prod.splits sum.splits dest: scan_loop_outcome)

text \<open>C10: The scan call delivers only progress of its own operation, under positive and strictly
  increasing sequence numbers, and a settled outcome carries its operation identifier; it counts as
  cancelled exactly when the client sent a cancellation or the engine reports one.\<close>

theorem scan_call_follows_its_operation:
  "case scan_with_progress_outcome lib target h polls s of (r, c) \<Rightarrow>
     (\<forall>p \<in> set (sc_delivered c). p_operation_id p = scan_operation_id s \<and> 0 < p_sequence_number p)
     \<and> sorted_wrt (<) (map p_sequence_number (sc_delivered c))
     \<and> (\<forall>outcome. r = Some (Inr outcome) \<longrightarrow> outcome_ok (scan_operation_id s) (sc_cancel_sent c) outcome)"
  using scan_outcome_delivered [of s lib target h polls] scan_outcome_ok [of lib target h polls s]
  by (auto simp: delivered_ok_def split: prod.splits)

theorem scan_call_follows_its_operation_witness:
  "\<exists>bs resp outcome c. scan_with_progress_outcome
      \<lparr>encode_command = (\<lambda>_. [1]), decode_response = (\<lambda>_. Inr resp)\<rparr> ''C:/'' True
      [\<lparr>po_signalled = False, po_deadline = False, po_arrived = bs, po_peek_error = None\<rparr>] (framed_new (of_bytes []))
      = (Some (Inr outcome), c) \<and> outcome_ok ''scan-1'' (sc_cancel_sent c) outcome"
proof -
  define lib where "lib resp = \<lparr>encode_command = (\<lambda>_. [1]), decode_response = (\<lambda>_. Inr resp)\<rparr>" for resp
  define h where "h = \<lparr>fh_channel_tag = Command, fh_flags = 0, fh_sequence_number = 1\<rparr>"
  obtain bs where bs: "encode_frame h [2] = Inr bs"
    by (auto simp: encode_frame_Inr MAX_PAYLOAD_SIZE_def)
  define sr where "sr = (undefined :: scan_response)\<lparr>r_operation_id := ''scan-1'', r_run_outcome := 1\<rparr>"
  define resp where "resp = \<lparr>cs_request_id = ''scan-1'', cs_status = 0, cs_error_code = [], cs_error_message = [],
    cs_response = Some (Resp_ScanResponse sr)\<rparr>"
  define p where "p = \<lparr>po_signalled = False, po_deadline = False, po_arrived = bs, po_peek_error = None\<rparr>"
  have op: "scan_operation_id (framed_new (of_bytes [])) = ''scan-1''"
    unfolding scan_operation_id_def next_seq_def framed_new_def by code_simp
  obtain out where send: "send_message (encode_command (lib resp)) Command 0
      \<lparr>cq_request_id = ''scan-1'', cq_request = Some (Req_Scan ''scan-1'' ''C:/'')\<rparr>
      (snd (next_seq (framed_new (of_bytes []))))
      = (Inr 2, \<lparr>fs_input = of_bytes [], fs_output = out, fs_sequence_number = 2\<rparr>)"
    using send_message_ok [of "encode_command (lib resp)" "\<lparr>cq_request_id = ''scan-1'',
        cq_request = Some (Req_Scan ''scan-1'' ''C:/'')\<rparr>" Command 0 "snd (next_seq (framed_new (of_bytes [])))"]
    by (auto simp: lib_def MAX_PAYLOAD_SIZE_def next_seq_def framed_new_def)
  have read: "read_frame (of_bytes bs) = Inr (Some \<lparr>fr_header = h, fr_payload = [2]\<rparr>, of_bytes [])"
    using read_frame_encoded [OF bs, of "of_bytes []"] by (simp add: of_bytes_def)
  have "\<exists>c. scan_with_progress_outcome (lib resp) ''C:/'' True [p] (framed_new (of_bytes [])) = (Some (Inr (Call_Finished sr)), c)"
    using send op read peek_encoded [OF bs, of "[]"]
    by (simp add: scan_with_progress_outcome_def Let_def scan_poll_def forward_cancel_def p_def arrive_def
        peek_answer_def recv_frame_def of_bytes_def h_def lib_def on_command_frame_def resp_def sr_def)
  then obtain c where run: "scan_with_progress_outcome (lib resp) ''C:/'' True [p] (framed_new (of_bytes []))
      = (Some (Inr (Call_Finished sr)), c)" by blast
  then have "outcome_ok ''scan-1'' (sc_cancel_sent c) (Call_Finished sr)"
    using scan_call_follows_its_operation [where lib = "lib resp" and target = "''C:/''" and h = True
        and polls = "[p]" and s = "framed_new (of_bytes [])"]
    by (simp add: op)
  with run show ?thesis unfolding lib_def p_def by blast
qed

section \<open>Cancellation settles\<close>

lemma scan_poll_cancel_sent:
  assumes "scan_poll lib i True p c = (None, c')"
  shows "(sc_cancel_sent c \<or> po_signalled p \<longrightarrow> sc_cancel_sent c') \<and> \<not> (sc_cancel_sent c' \<and> po_deadline p)"
proof -
  obtain c1 where fc: "forward_cancel lib i True p c = Inr c1" and dl: "\<not> (sc_cancel_sent c1 \<and> po_deadline p)"
    using assms by (auto simp: scan_poll_def split: sum.splits if_splits)
  have "sc_cancel_sent c' = sc_cancel_sent c1"
    using assms fc dl
    by (auto simp: scan_poll_def Let_def on_progress_frame_def split: sum.splits frame_readiness.splits
        prod.splits option.splits channel_tag.splits response.splits if_splits)
  moreover have "sc_cancel_sent c \<or> po_signalled p \<longrightarrow> sc_cancel_sent c1"
    using fc by (auto simp: forward_cancel_def Let_def split: if_splits prod.splits sum.splits)
  ultimately show ?thesis using dl by simp
qed

lemma scan_loop_pending:
  assumes "scan_loop lib i True ps c = (None, c')"
  shows "\<not> (\<exists>k < length ps. po_deadline (ps ! k) \<and> (sc_cancel_sent c \<or> (\<exists>j \<le> k. po_signalled (ps ! j))))"
  using assms
proof (induction ps arbitrary: c)
  case (Cons p ps)
  obtain d where d: "scan_poll lib i True p c = (None, d)" and rest: "scan_loop lib i True ps d = (None, c')"
    using Cons.prems by (auto split: prod.splits option.splits)
  note step = scan_poll_cancel_sent [OF d] and IH = Cons.IH [OF rest]
  show ?case
  proof (safe)
    fix k assume k: "k < length (p # ps)" "po_deadline ((p # ps) ! k)"
    { assume "sc_cancel_sent c" with k step IH show False by (cases k) auto }
    { fix j assume j: "j \<le> k" "po_signalled ((p # ps) ! j)"
      show False
      proof (cases k)
        case (Suc k')
        with k j step IH show ?thesis by (cases j) auto
      qed (use k j step in auto) }
  qed
qed simp

text \<open>C28: A cancelled scan settles: once the event is signalled at some turn of the loop and the
  deadline has passed at that or a later turn, the call has returned, whatever the engine sends or
  withholds.\<close>

theorem cancelled_scan_settles:
  assumes "j \<le> k" and "k < length polls" and "po_signalled (polls ! j)" and "po_deadline (polls ! k)"
  shows "\<exists>r. fst (scan_with_progress_outcome lib target True polls s) = Some r"
proof (rule ccontr)
  assume "\<not> ?thesis"
  then obtain c c' where "scan_loop lib (scan_operation_id s) True polls c = (None, c')"
    by (cases "scan_with_progress_outcome lib target True polls s")
      (auto simp: scan_with_progress_outcome_def Let_def split: prod.splits sum.splits)
  from scan_loop_pending [OF this] assms show False by blast
qed

theorem cancelled_scan_settles_witness:
  "\<exists>r. fst (scan_with_progress_outcome \<lparr>encode_command = (\<lambda>_. [1]), decode_response = (\<lambda>_. Inl [])\<rparr> ''C:/'' True
    [\<lparr>po_signalled = True, po_deadline = False, po_arrived = [0x50], po_peek_error = None\<rparr>,
     \<lparr>po_signalled = True, po_deadline = True, po_arrived = [], po_peek_error = None\<rparr>]
    (framed_new (of_bytes []))) = Some r"
  by (rule cancelled_scan_settles [of 0 1]) simp_all

end
