(* ===== verification/Json_Spec.thy ===== *)
theory Json_Spec
  imports Json
begin

text \<open>
  JSON values, their compact text, and a reader for it. Every formatter of the program is shown to
  write the text of a value, and the reader gives that value back: the output is well formed and
  no field can run into another, whatever the strings contain.
\<close>

section \<open>Values and their text\<close>

datatype json = JNull | JBool bool | JNum nat | JStr string | JArr "json list" | JObj "(string \<times> json) list"

fun print_json :: "json \<Rightarrow> string" where
  "print_json JNull = ''null''"
| "print_json (JBool b) = show_bool b"
| "print_json (JNum n) = decimal n"
| "print_json (JStr s) = escape_json_string s"
| "print_json (JArr xs) = ''['' @ join_with '','' (map print_json xs) @ '']''"
| "print_json (JObj fs) = ''{'' @ join_with '','' (map (\<lambda>(k, v). escape_json_string k @ '':'' @ print_json v) fs) @ ''}''"

section \<open>The reader\<close>

definition is_digit :: "char \<Rightarrow> bool" where
  "is_digit c \<longleftrightarrow> 48 \<le> (of_char c :: nat) \<and> (of_char c :: nat) \<le> 57"

definition digits_value :: "string \<Rightarrow> nat" where
  "digits_value ds = foldl (\<lambda>n c. 10 * n + (of_char c - 48)) 0 ds"

definition hex_value :: "char \<Rightarrow> nat" where
  "hex_value c = (let n = of_char c in if n < 58 then n - 48 else n - 87)"

definition unescape_short :: "char \<Rightarrow> char option" where
  "unescape_short c =
     (if c = quote then Some quote else if c = backslash then Some backslash
      else if c = CHR ''n'' then Some (CHR 0x0A) else if c = CHR ''r'' then Some (CHR 0x0D)
      else if c = CHR ''t'' then Some (CHR 0x09) else if c = CHR ''b'' then Some (CHR 0x08)
      else if c = CHR ''f'' then Some (CHR 0x0C) else None)"

definition push_char :: "char \<Rightarrow> (string \<times> string) option \<Rightarrow> (string \<times> string) option" where
  "push_char c r = map_option (\<lambda>(s, rest). (c # s, rest)) r"

fun read_string :: "string \<Rightarrow> (string \<times> string) option" where
  "read_string [] = None"
| "read_string (c # cs) =
     (if c = quote then Some ([], cs)
      else if c = backslash then
        (case cs of
           [] \<Rightarrow> None
         | e # rest \<Rightarrow>
             if e = CHR ''u'' then
               (case rest of
                  z1 # z2 # h1 # h2 # rest \<Rightarrow>
                    if z1 = CHR ''0'' \<and> z2 = CHR ''0''
                    then push_char (char_of (16 * hex_value h1 + hex_value h2)) (read_string rest)
                    else None
                | _ \<Rightarrow> None)
             else (case unescape_short e of None \<Rightarrow> None | Some d \<Rightarrow> push_char d (read_string rest)))
      else if (of_char c :: nat) < 32 then None
      else push_char c (read_string cs))"

definition expect :: "string \<Rightarrow> json \<Rightarrow> string \<Rightarrow> (json \<times> string) option" where
  "expect word v s = (if take (length word) s = word then Some (v, drop (length word) s) else None)"

fun read_value :: "nat \<Rightarrow> string \<Rightarrow> (json \<times> string) option"
and read_elements :: "nat \<Rightarrow> string \<Rightarrow> (json list \<times> string) option"
and read_members :: "nat \<Rightarrow> string \<Rightarrow> ((string \<times> json) list \<times> string) option" where
  "read_value 0 s = None"
| "read_value (Suc n) [] = None"
| "read_value (Suc n) (c # cs) =
     (if c = CHR ''n'' then expect ''ull'' JNull cs
      else if c = CHR ''t'' then expect ''rue'' (JBool True) cs
      else if c = CHR ''f'' then expect ''alse'' (JBool False) cs
      else if c = quote then map_option (\<lambda>(s, rest). (JStr s, rest)) (read_string cs)
      else if c = CHR ''['' then
        (if cs \<noteq> [] \<and> hd cs = CHR '']'' then Some (JArr [], tl cs)
         else map_option (\<lambda>(vs, rest). (JArr vs, rest)) (read_elements n cs))
      else if c = CHR ''{'' then
        (if cs \<noteq> [] \<and> hd cs = CHR ''}'' then Some (JObj [], tl cs)
         else map_option (\<lambda>(fs, rest). (JObj fs, rest)) (read_members n cs))
      else if is_digit c then
        Some (JNum (digits_value (takeWhile is_digit (c # cs))), dropWhile is_digit (c # cs))
      else None)"
| "read_elements 0 s = None"
| "read_elements (Suc n) s =
     (case read_value n s of
        Some (v, c # rest) \<Rightarrow>
          if c = CHR '','' then map_option (\<lambda>(vs, rest). (v # vs, rest)) (read_elements n rest)
          else if c = CHR '']'' then Some ([v], rest) else None
      | _ \<Rightarrow> None)"
| "read_members 0 s = None"
| "read_members (Suc n) s =
     (if s = [] \<or> hd s \<noteq> quote then None
      else (case read_string (tl s) of
        Some (k, c # rest) \<Rightarrow>
          if c = CHR '':'' then
            (case read_value n rest of
               Some (v, c # rest) \<Rightarrow>
                 if c = CHR '','' then map_option (\<lambda>(fs, rest). ((k, v) # fs, rest)) (read_members n rest)
                 else if c = CHR ''}'' then Some ([(k, v)], rest) else None
             | _ \<Rightarrow> None)
          else None
      | _ \<Rightarrow> None))"

definition read_json :: "string \<Rightarrow> json option" where
  "read_json s = (case read_value (length s) s of Some (v, []) \<Rightarrow> Some v | _ \<Rightarrow> None)"

section \<open>Reading back what is printed\<close>

lemma of_char_digit: "d < 10 \<Longrightarrow> of_char (digit d) = (48 + d :: nat)"
  by (simp add: digit_def)

lemma digit_is_digit [simp]: "d < 10 \<Longrightarrow> is_digit (digit d)"
  by (simp add: is_digit_def of_char_digit)

lemma decimal_digits: "\<forall>c \<in> set (decimal n). is_digit c"
  by (induction n rule: decimal.induct) (subst decimal.simps, auto)

lemma decimal_nonempty [simp]: "decimal n \<noteq> []"
  by (subst decimal.simps) simp

lemma digits_value_decimal [simp]: "digits_value (decimal n) = n"
proof (induction n rule: decimal.induct)
  case (1 n)
  show ?case
  proof (cases "n < 10")
    case True
    then show ?thesis by (subst decimal.simps) (simp add: digits_value_def of_char_digit)
  next
    case False
    then have "digits_value (decimal n) = 10 * digits_value (decimal (n div 10)) + n mod 10"
      by (subst decimal.simps) (simp add: digits_value_def of_char_digit)
    then show ?thesis using 1 False by simp
  qed
qed

text \<open>A rest that cannot be mistaken for more of a number.\<close>

definition ends_value :: "string \<Rightarrow> bool" where
  "ends_value rest \<longleftrightarrow> rest = [] \<or> \<not> is_digit (hd rest)"

lemma take_digits:
  assumes "\<forall>c \<in> set ds. is_digit c" and "ends_value rest"
  shows "takeWhile is_digit (ds @ rest) = ds" and "dropWhile is_digit (ds @ rest) = rest"
  using assms by (induction ds; cases rest; simp add: ends_value_def)+

lemma hex_digits:
  assumes "b < 256"
  shows "16 * hex_value (hex_digit (b div 16)) + hex_value (hex_digit (b mod 16)) = b"
proof -
  have "hex_value (hex_digit d) = d" if "d < 16" for d using that by (simp add: hex_value_def hex_digit_def Let_def)
  moreover have "b div 16 < 16" using assms by simp
  ultimately show ?thesis by simp
qed

lemma read_escaped_char: "read_string (escape_char c @ rest) = push_char c (read_string rest)"
proof -
  consider "c = quote" | "c = backslash" | "c = CHR 0x0A" | "c = CHR 0x0D" | "c = CHR 0x09" | "c = CHR 0x08" | "c = CHR 0x0C"
    | "c \<notin> {quote, backslash, CHR 0x0A, CHR 0x0D, CHR 0x09, CHR 0x08, CHR 0x0C}" "of_char c < (32 :: nat)"
    | "c \<notin> {quote, backslash, CHR 0x0A, CHR 0x0D, CHR 0x09, CHR 0x08, CHR 0x0C}" "\<not> of_char c < (32 :: nat)"
    by blast
  then show ?thesis
  proof cases
    case 8
    have "char_of (16 * hex_value (hex_digit (of_char c div 16)) + hex_value (hex_digit (of_char c mod 16))) = c"
      using 8(2) by (subst hex_digits) simp_all
    with 8 show ?thesis by (simp add: escape_char_def hex_byte_def)
  qed (simp_all add: escape_char_def unescape_short_def)
qed

lemma read_escaped: "read_string (concat (map escape_char s) @ quote # rest) = Some (s, rest)"
  by (induction s) (simp_all add: read_escaped_char push_char_def)

text \<open>The first character of a value, and the characters that may follow one.\<close>

lemma escape_hd: "escape_json_string s @ rest = quote # concat (map escape_char s) @ quote # rest"
  by (simp add: escape_json_string_def)

lemma print_json_hd: "print_json v \<noteq> [] \<and> hd (print_json v) \<notin> {CHR '']'', CHR ''}'', CHR '','', CHR '':''}"
proof (cases v)
  case (JNum n)
  have "is_digit (hd (decimal n))" using decimal_digits [of n] hd_in_set [of "decimal n"] by simp
  moreover have "\<not> is_digit (CHR '']'')" "\<not> is_digit (CHR ''}'')" "\<not> is_digit (CHR '','')" "\<not> is_digit (CHR '':'')"
    by (simp_all add: is_digit_def)
  ultimately show ?thesis using JNum by auto
qed (simp_all add: show_bool_def escape_json_string_def)

definition reads_back :: "json \<Rightarrow> bool" where
  "reads_back v \<longleftrightarrow> (\<forall>n rest. length (print_json v) \<le> n \<longrightarrow> ends_value rest \<longrightarrow> read_value n (print_json v @ rest) = Some (v, rest))"

lemma reads_backD: "reads_back v \<Longrightarrow> length (print_json v) \<le> n \<Longrightarrow> ends_value rest \<Longrightarrow> read_value n (print_json v @ rest) = Some (v, rest)"
  by (simp add: reads_back_def)

lemma ends_value_delims [simp]:
  "ends_value (CHR '','' # rest)" "ends_value (CHR '']'' # rest)" "ends_value (CHR ''}'' # rest)" "ends_value []"
  by (simp_all add: ends_value_def is_digit_def)

lemma join_Cons: "xs \<noteq> [] \<Longrightarrow> join_with sep (x # xs) = x @ sep @ join_with sep xs"
  by (cases xs) simp_all

lemma read_elements_print:
  assumes "\<And>x. x \<in> set xs \<Longrightarrow> reads_back x" and "xs \<noteq> []" and "length (join_with '','' (map print_json xs)) < n"
  shows "read_elements n (join_with '','' (map print_json xs) @ CHR '']'' # rest) = Some (xs, rest)"
  using assms
proof (induction xs arbitrary: n)
  case (Cons x xs)
  obtain m where n: "n = Suc m" using Cons.prems(3) by (cases n) auto
  have x: "reads_back x" using Cons.prems(1) by simp
  show ?case
  proof (cases "xs = []")
    case True
    then show ?thesis using reads_backD [OF x, of m "CHR '']'' # rest"] Cons.prems(3) n by simp
  next
    case False
    then have j: "join_with '','' (map print_json (x # xs)) = print_json x @ CHR '','' # join_with '','' (map print_json xs)"
      by (simp add: join_Cons)
    then have l: "length (print_json x) \<le> m" "length (join_with '','' (map print_json xs)) < m" using Cons.prems(3) n by simp_all
    have "read_elements m (join_with '','' (map print_json xs) @ CHR '']'' # rest) = Some (xs, rest)"
      using Cons.IH [OF _ False l(2)] Cons.prems(1) by simp
    then show ?thesis
      using reads_backD [OF x l(1), of "CHR '','' # join_with '','' (map print_json xs) @ CHR '']'' # rest"] unfolding j n by simp
  qed
qed simp

definition print_member :: "string \<times> json \<Rightarrow> string" where
  "print_member f = escape_json_string (fst f) @ '':'' @ print_json (snd f)"

lemma read_members_print:
  assumes "\<And>f. f \<in> set fs \<Longrightarrow> reads_back (snd f)" and "fs \<noteq> []" and "length (join_with '','' (map print_member fs)) < n"
  shows "read_members n (join_with '','' (map print_member fs) @ CHR ''}'' # rest) = Some (fs, rest)"
  using assms
proof (induction fs arbitrary: n)
  case (Cons f fs)
  obtain m where n: "n = Suc m" using Cons.prems(3) by (cases n) auto
  obtain k v where f: "f = (k, v)" by fastforce
  have v: "reads_back v" using Cons.prems(1) [of f] f by simp
  have key: "read_string (concat (map escape_char k) @ quote # CHR '':'' # s) = Some (k, CHR '':'' # s)" for s
    by (rule read_escaped)
  show ?case
  proof (cases "fs = []")
    case True
    then have l: "length (print_json v) \<le> m" using Cons.prems(3) n f by (simp add: print_member_def)
    show ?thesis using reads_backD [OF v l, of "CHR ''}'' # rest"] n True f
      by (simp add: print_member_def escape_json_string_def key)
  next
    case False
    then have j: "join_with '','' (map print_member (f # fs))
        = quote # concat (map escape_char k) @ quote # CHR '':'' # print_json v @ CHR '','' # join_with '','' (map print_member fs)"
      by (simp add: join_Cons print_member_def f escape_json_string_def)
    then have l: "length (print_json v) \<le> m" "length (join_with '','' (map print_member fs)) < m" using Cons.prems(3) n by simp_all
    have "read_members m (join_with '','' (map print_member fs) @ CHR ''}'' # rest) = Some (fs, rest)"
      using Cons.IH [OF _ False l(2)] Cons.prems(1) by simp
    then show ?thesis
      using reads_backD [OF v l(1), of "CHR '','' # join_with '','' (map print_member fs) @ CHR ''}'' # rest"]
      unfolding j n by (simp add: key f)
  qed
qed simp

lemma print_members: "map (\<lambda>(k, v). escape_json_string k @ '':'' @ print_json v) fs = map print_member fs"
  by (simp add: print_member_def split_beta)

lemma print_obj: "print_json (JObj fs) = ''{'' @ join_with '','' (map print_member fs) @ ''}''"
  by (simp only: print_json.simps print_members)

declare print_json.simps(6) [simp del]

lemma join_hd:
  assumes "xs \<noteq> []" and "\<forall>x \<in> set xs. x \<noteq> []"
  shows "join_with sep xs \<noteq> [] \<and> hd (join_with sep xs) = hd (hd xs)"
proof -
  obtain y ys where xs: "xs = y # ys" using assms(1) by (cases xs) auto
  have "join_with sep (y # ys) = y @ (if ys = [] then [] else sep @ join_with sep ys)" by (cases ys) simp_all
  then show ?thesis using assms(2) xs by simp
qed

theorem print_json_reads_back: "reads_back v"
proof (induction v rule: print_json.induct)
  case (2 b)
  have "read_value n (show_bool b @ rest) = Some (JBool b, rest)" if "length (show_bool b) \<le> n" for n rest
    using that by (cases n; cases b) (simp_all add: show_bool_def expect_def)
  then show ?case by (simp add: reads_back_def)
next
  case 1
  have "read_value n (''null'' @ rest) = Some (JNull, rest)" if "4 \<le> n" for n rest
    using that by (cases n) (simp_all add: expect_def)
  then show ?case by (simp add: reads_back_def)
next
  case (3 k)
  show ?case
    unfolding reads_back_def
  proof (intro allI impI)
    fix n rest assume n: "length (print_json (JNum k)) \<le> n" and e: "ends_value rest"
    obtain c cs where d: "decimal k = c # cs" using decimal_nonempty by (cases "decimal k") auto
    obtain m where m: "n = Suc m" using n d by (cases n) auto
    have c: "is_digit c" using decimal_digits [of k] d by simp
    have "\<not> is_digit (CHR ''n'')" "\<not> is_digit (CHR ''t'')" "\<not> is_digit (CHR ''f'')" "\<not> is_digit quote" "\<not> is_digit (CHR ''['')" "\<not> is_digit (CHR ''{'')"
      by (simp_all add: is_digit_def)
    then have "c \<noteq> CHR ''n''" "c \<noteq> CHR ''t''" "c \<noteq> CHR ''f''" "c \<noteq> quote" "c \<noteq> CHR ''[''" "c \<noteq> CHR ''{''" using c by auto
    moreover have "takeWhile is_digit (c # cs @ rest) = decimal k" "dropWhile is_digit (c # cs @ rest) = rest"
      using take_digits [OF decimal_digits e, of k] d by simp_all
    ultimately show "read_value n (print_json (JNum k) @ rest) = Some (JNum k, rest)"
      using c digits_value_decimal [of k] by (simp add: m d del: takeWhile.simps dropWhile.simps digits_value_decimal)
  qed
next
  case (4 s)
  have "read_value n (escape_json_string s @ rest) = Some (JStr s, rest)" if "length (escape_json_string s) \<le> n" for n rest
    using that by (cases n) (simp_all add: escape_json_string_def read_escaped)
  then show ?case by (simp add: reads_back_def)
next
  case (5 xs)
  show ?case
    unfolding reads_back_def
  proof (intro allI impI)
    fix n rest assume n: "length (print_json (JArr xs)) \<le> n" and e: "ends_value rest"
    then obtain m where m: "n = Suc m" by (cases n) auto
    show "read_value n (print_json (JArr xs) @ rest) = Some (JArr xs, rest)"
    proof (cases "xs = []")
      case False
      have "hd (join_with '','' (map print_json xs)) \<noteq> CHR '']''" "join_with '','' (map print_json xs) \<noteq> []"
        using join_hd [of "map print_json xs" "'',''"] False print_json_hd by (auto simp: hd_map)
      moreover have "read_elements m (join_with '','' (map print_json xs) @ CHR '']'' # rest) = Some (xs, rest)"
        using read_elements_print [OF 5 False] n m by simp
      ultimately show ?thesis by (simp add: m)
    qed (simp add: m)
  qed
next
  case (6 fs)
  show ?case
    unfolding reads_back_def
  proof (intro allI impI)
    fix n rest assume n: "length (print_json (JObj fs)) \<le> n" and e: "ends_value rest"
    then obtain m where m: "n = Suc m" by (cases n) (auto simp: print_obj)
    have rb: "reads_back (snd f)" if "f \<in> set fs" for f using 6 [OF that, of "fst f" "snd f"] by simp
    show "read_value n (print_json (JObj fs) @ rest) = Some (JObj fs, rest)"
    proof (cases "fs = []")
      case False
      have "hd (join_with '','' (map print_member fs)) \<noteq> CHR ''}''" "join_with '','' (map print_member fs) \<noteq> []"
        using join_hd [of "map print_member fs" "'',''"] False by (auto simp: hd_map print_member_def escape_json_string_def)
      moreover have "read_members m (join_with '','' (map print_member fs) @ CHR ''}'' # rest) = Some (fs, rest)"
        using read_members_print [OF rb False] n m by (simp add: print_obj)
      ultimately show ?thesis by (simp add: m print_obj)
    qed (simp add: m print_obj)
  qed
qed

lemma read_print: "read_json (print_json v) = Some v"
  using reads_backD [OF print_json_reads_back, of v "length (print_json v)" "[]"] by (simp add: read_json_def)

section \<open>What the formatters write\<close>

definition plain :: "string \<Rightarrow> bool" where
  "plain s \<longleftrightarrow> list_all (\<lambda>c. c \<noteq> quote \<and> c \<noteq> backslash \<and> (32 :: nat) \<le> of_char c) s"

lemma escape_plain:
  assumes "plain s"
  shows "escape_json_string s = quote # s @ [quote]"
proof -
  have "escape_char c = [c]" if "c \<noteq> quote" "c \<noteq> backslash" "(32 :: nat) \<le> of_char c" for c
    using that by (auto simp: escape_char_def)
  then have "concat (map escape_char s) = s" using assms by (induction s) (auto simp: plain_def)
  then show ?thesis by (simp add: escape_json_string_def)
qed

definition key_text :: "string \<Rightarrow> string" where
  "key_text k = quote # k @ [quote, CHR '':'']"

lemma print_member_plain: "plain k \<Longrightarrow> print_member (k, v) = key_text k @ print_json v"
  by (simp add: print_member_def escape_plain key_text_def)

definition gap_value :: "coverage_gap_report \<Rightarrow> json" where
  "gap_value gap = JObj [(''path'', JStr (gr_display_path gap)), (''status'', JStr (gr_status_code gap)),
     (''native_error'', JNum (unat (gr_native_error gap))), (''message'', JStr (gr_error_message gap))]"

lemma format_gap: "format_coverage_gap gap = print_json (gap_value gap)"
  by (simp add: format_coverage_gap_def gap_value_def print_obj print_member_plain plain_def key_text_def show_u32_def)

lemmas json_text = print_obj print_member_plain plain_def key_text_def show_u32_def show_u64_def escape_plain

definition link_value :: "link_count_proto option \<Rightarrow> json" where
  "link_value proto = (case proto of
     None \<Rightarrow> JObj [(''value'', JNull), (''knowledge'', JStr ''not_observed'')]
   | Some p \<Rightarrow>
       if lp_status p = 1 then JObj [(''value'', JNum (unat (lp_count p))), (''knowledge'', JStr ''known'')]
       else JObj [(''value'', JNull), (''knowledge'', JStr (link_count_knowledge_to_str (lp_status p)))])"

lemma format_link: "format_link_count_knowledge proto = print_json (link_value proto)"
  by (cases proto) (simp_all add: format_link_count_knowledge_def link_value_def json_text)

definition hard_link_value :: "hard_link_report \<Rightarrow> json" where
  "hard_link_value r = JObj
     [(''volume_guid'', JStr (concat (map (\<lambda>b. hex_byte (unat b)) (hr_volume_guid r)))),
      (''file_id'', JStr (decimal (unat (file_id_of r)))),
      (''observed_alias_count'', JNum (unat (hr_observed_alias_count r))),
      (''total_link_count'', link_value (hr_total_link_count r)),
      (''external_reference_status'', JStr (external_reference_status_to_str (hr_external_reference_status r))),
      (''entry_paths'', JArr (map JStr (hr_entry_paths r)))]"

lemma map_JStr: "map (print_json \<circ> JStr) ss = map escape_json_string ss"
  by simp

lemma format_hard: "format_hard_link r = print_json (hard_link_value r)"
  by (simp add: format_hard_link_def hard_link_value_def format_link json_text Let_def comp_def)

definition stream_value :: "content_stream_proto \<Rightarrow> json" where
  "stream_value s = JObj [(''name'', JStr (sp_name s)), (''logical_bytes'', JNum (unat (sp_logical_bytes s))),
     (''allocated_bytes'', JNum (unat (sp_allocated_bytes s))), (''allocated_size_known'', JBool (sp_allocated_size_known s))]"

lemma format_stream: "format_content_stream s = print_json (stream_value s)"
  by (simp add: format_content_stream_def stream_value_def json_text)

definition entry_value :: "directory_entry_node \<Rightarrow> json" where
  "entry_value node = JObj
     ([(''schema_version'', JStr ''2.0''), (''id'', JNum (unat (n_id node))), (''parent_id'', JNum (unat (n_parent_id node))),
       (''name'', JStr (n_name node)), (''entry_kind'', JStr (entry_kind_to_str (n_entry_kind node))),
       (''logical_bytes'', JNum (unat (n_logical_bytes node))),
       (''referenced_allocated_bytes'', JNum (unat (n_referenced_allocated_bytes node))),
       (''unique_allocated_bytes'', JNum (unat (n_unique_allocated_bytes node))),
       (''allocated_size_known'', JBool (n_allocated_size_known node)),
       (''known_subtotal_allocated_bytes'', JNum (unat (n_known_subtotal_allocated_bytes node))),
       (''child_count'', JNum (unat (n_child_count node))), (''has_children'', JBool (n_has_children node)),
       (''observed_alias_count'', JNum (unat (n_observed_alias_count node))),
       (''total_link_count'', link_value (n_total_link_count node)),
       (''external_reference_status'', JStr (external_reference_status_to_str (n_external_reference_status node)))]
      @ (if n_content_streams node = [] then [] else [(''content_streams'', JArr (map stream_value (n_content_streams node)))]))"

lemma format_entry: "format_directory_entry_json node = print_json (entry_value node)"
  by (simp add: format_directory_entry_json_def entry_value_def format_content_streams_def format_stream [abs_def]
      format_link json_text comp_def)

definition event_value :: "string \<Rightarrow> u64 \<Rightarrow> string \<Rightarrow> string \<Rightarrow> string \<Rightarrow> json \<Rightarrow> json" where
  "event_value operation_id sequence_number timestamp phase channel payload = JObj
     [(''operation_id'', JStr operation_id), (''sequence_number'', JNum (unat sequence_number)), (''timestamp'', JStr timestamp),
      (''schema_version'', JStr ''2.0''), (''phase'', JStr phase), (''channel'', JStr channel),
      (''provenance'', JStr ''win32_directory_traversal''), (''payload'', payload)]"

lemma format_event:
  assumes "channel = quote # ch @ [quote]" and "plain ch"
  shows "event_head oid seq ts (escape_json_string ph) channel @ print_json payload @ ''}''
    = print_json (event_value oid seq ts ph ch payload)"
  using assms by (simp add: event_head_def event_value_def json_text)

definition totals_value :: "scan_response \<Rightarrow> (string \<times> json) list" where
  "totals_value resp =
     (let knowledge = JStr (allocation_knowledge_str (r_allocated_bytes_known resp))
      in [(''observation_interval'', JObj [(''started_at'', JStr (r_observation_started_iso resp)),
             (''completed_at'', JStr (r_observation_completed_iso resp))]),
          (''scope_coverage'', JStr (scope_coverage_to_str (r_scope_coverage resp))),
          (''directory_entries'', JNum (unat (r_directory_count resp) + unat (r_file_count resp) + unat (r_special_count resp))),
          (''directories'', JNum (unat (r_directory_count resp))), (''files'', JNum (unat (r_file_count resp))),
          (''special_objects'', JNum (unat (r_special_count resp))), (''logical_bytes'', JNum (unat (r_logical_bytes resp))),
          (''referenced_allocated_bytes'', JObj [(''value'', JNum (unat (r_referenced_allocated_bytes resp))), (''knowledge'', knowledge)]),
          (''unique_allocated_bytes'', JObj [(''value'', JNum (unat (r_unique_allocated_bytes resp))), (''knowledge'', knowledge)]),
          (''known_subtotal_allocated_bytes'', JNum (unat (r_known_subtotal_allocated_bytes resp))),
          (''indeterminate_external_reference_objects'', JNum (unat (r_indeterminate_external_reference_objects resp))),
          (''hard_links'', JArr (map hard_link_value (r_hard_links resp))),
          (''coverage_gaps'', JArr (map gap_value (r_coverage_gaps resp)))])"

definition scan_value :: "scan_response \<Rightarrow> json" where
  "scan_value resp = JObj ([(''operation_id'', JStr (r_operation_id resp)), (''schema_version'', JStr ''2.0''),
     (''run_outcome'', JStr (scan_run_outcome_to_str (r_run_outcome resp)))] @ totals_value resp)"

definition scan_payload :: "scan_response \<Rightarrow> json" where
  "scan_payload resp = JObj ((''run_outcome'', JStr (scan_run_outcome_to_str (r_run_outcome resp))) # totals_value resp)"

lemma totals_text:
  assumes "directory_entries_of resp = Some n"
  shows "join_with '','' (x # map print_member (totals_value resp)) = x @ scan_interval resp @ scan_totals resp n"
proof -
  have n: "n = unat (r_directory_count resp) + unat (r_file_count resp) + unat (r_special_count resp)"
    using assms by (simp add: directory_entries_of_def Let_def split: if_splits)
  show ?thesis unfolding n
    by (simp add: totals_value_def scan_interval_def scan_totals_def format_hard_links_array_def format_coverage_gaps_array_def
        format_hard [abs_def] format_gap [abs_def] Let_def json_text comp_def)
qed

lemma format_scan:
  assumes "directory_entries_of resp = Some n"
  shows "format_scan_terminal_json resp = Some (print_json (scan_value resp))"
  using totals_text [OF assms] assms
  by (simp add: format_scan_terminal_json_def scan_value_def json_text)

lemma event_prefix:
  "event_head oid seq ts (escape_json_string ph) (quote # ch @ [quote]) @ print_json payload @ ''}''
    = print_json (event_value oid seq ts ph ch payload)" if "plain ch"
  using that by (simp add: event_head_def event_value_def json_text)

lemma format_scan_event:
  assumes "directory_entries_of resp = Some n"
  shows "format_scan_terminal_ndjson_event resp seq = Some (print_json
    (event_value (r_operation_id resp) seq (r_observation_completed_iso resp) ''finalizing'' ''data'' (scan_payload resp)))"
proof -
  have "event_head oid seq ts ''\"finalizing\"'' ''\"data\"'' @ print_json payload @ ''}''
      = print_json (event_value oid seq ts ''finalizing'' ''data'' payload)" for oid ts payload
    using event_prefix [of "''data''" oid seq ts "''finalizing''" payload] by (simp add: json_text)
  note h = this
  have "print_json (scan_payload resp) = ''{\"run_outcome\":'' @ escape_json_string (scan_run_outcome_to_str (r_run_outcome resp))
      @ scan_interval resp @ scan_totals resp n @ ''}''"
    using totals_text [OF assms] by (simp add: scan_payload_def json_text)
  then show ?thesis using assms unfolding h [symmetric] by (simp add: format_scan_terminal_ndjson_event_def)
qed

definition progress_value :: "scan_progress \<Rightarrow> json" where
  "progress_value p = JObj [(''observed_directories'', JNum (unat (p_observed_directories p))),
     (''observed_files'', JNum (unat (p_observed_files p))), (''observed_logical_bytes'', JNum (unat (p_observed_logical_bytes p))),
     (''observed_referenced_allocated_bytes'', JNum (unat (p_observed_referenced_allocated_bytes p))),
     (''coverage_gaps'', JNum (unat (p_coverage_gaps p))), (''current_directory'', JStr (p_current_directory p))]"

lemma format_progress:
  "format_scan_progress_ndjson_event p = print_json (event_value (p_operation_id p) (p_sequence_number p) (p_timestamp_iso p)
     (p_current_phase p) ''progress'' (progress_value p))"
  unfolding event_prefix [symmetric, of "''progress''", simplified plain_def, simplified]
  by (simp add: format_scan_progress_ndjson_event_def progress_value_def json_text)

lemma format_entry_event:
  "format_directory_entry_ndjson_event oid seq ts node = print_json (event_value oid seq ts ''finalizing'' ''data'' (entry_value node))"
  using event_prefix [of "''data''" oid seq ts "''finalizing''" "entry_value node"]
  by (simp add: format_directory_entry_ndjson_event_def format_entry json_text)

lemma format_cancelled_event:
  "format_scan_cancelled_ndjson_event now oid seq ts message = print_json (event_value oid seq
     (case ts of Some t \<Rightarrow> if t \<noteq> [] then t else format_utc_iso now | None \<Rightarrow> format_utc_iso now) ''finalizing'' ''data''
     (JObj [(''run_outcome'', JStr ''cancelled''), (''status'', JStr ''cancelled''), (''message'', JStr message)]))"
  using event_prefix [of "''data''" oid seq _ "''finalizing''"
      "JObj [(''run_outcome'', JStr ''cancelled''), (''status'', JStr ''cancelled''), (''message'', JStr message)]"]
  by (simp add: format_scan_cancelled_ndjson_event_def json_text Let_def)

text \<open>Envelopes, around data that is itself the text of a value.\<close>

definition success_value :: "string \<Rightarrow> json \<Rightarrow> json" where
  "success_value request_id data = JObj [(''version'', JStr ''1.0''), (''request_id'', JStr request_id),
     (''status'', JStr ''success''), (''data'', data)]"

definition error_value :: "string \<Rightarrow> string \<Rightarrow> string \<Rightarrow> string \<Rightarrow> json" where
  "error_value request_id status code message = JObj [(''version'', JStr ''1.0''), (''request_id'', JStr request_id),
     (''status'', JStr status), (''error'', JObj [(''code'', JStr code), (''message'', JStr message)])]"

definition diagnostic_value :: "string \<Rightarrow> string \<Rightarrow> string \<Rightarrow> json" where
  "diagnostic_value level target message = JObj [(''level'', JStr level), (''target'', JStr target), (''message'', JStr message)]"

lemma format_envelopes:
  "format_success_envelope rid (print_json data) = print_json (success_value rid data)"
  "format_error_envelope rid code message = print_json (error_value rid ''error'' code message)"
  "format_cancelled_envelope rid message = print_json (error_value rid ''cancelled'' ''OPERATION_CANCELLED'' message)"
  "format_diagnostic level target message = print_json (diagnostic_value level target message)"
  by (simp_all add: format_success_envelope_def success_value_def format_error_envelope_def error_value_def
      format_cancelled_envelope_def format_diagnostic_def diagnostic_value_def json_text)

lemma format_responses:
  "format_ping_response ping = print_json (JObj [(''timestamp_utc_ms'', JNum (unat (pr_timestamp_utc_ms ping))),
     (''echo_timestamp_utc_ms'', JNum (unat (pr_echo_timestamp_utc_ms ping)))])"
  "format_echo_response payload = print_json (JObj [(''payload'', JStr payload)])"
  "format_health_response health = print_json (JObj [(''status'', JStr (hp_status health)), (''uptime_ms'', JNum (unat (hp_uptime_ms health))),
     (''memory_private_bytes'', JNum (unat (hp_memory_private_bytes health))), (''handle_count'', JNum (unat (hp_handle_count health)))])"
  "format_status_response status = print_json (JObj [(''state'', JStr (st_state status)), (''active_runs'', JNum (unat (st_active_runs status))),
     (''total_observations'', JNum (unat (st_total_observations status))), (''session_id'', JStr (st_session_id status))])"
  "format_version_response ver = print_json (JObj [(''engine_version'', JStr (vr_engine_version ver)),
     (''protocol_version'', JNum (unat (vr_protocol_version ver))), (''build_date'', JStr (vr_build_date ver)),
     (''commit_hash'', JStr (vr_commit_hash ver))])"
  by (simp_all add: format_ping_response_def format_echo_response_def format_health_response_def format_status_response_def
      format_version_response_def json_text)

section \<open>Control characters\<close>

definition one_line :: "string \<Rightarrow> bool" where
  "one_line s \<longleftrightarrow> (\<forall>c \<in> set s. (32 :: nat) \<le> of_char c)"

lemma one_line_append [simp]: "one_line (s @ t) \<longleftrightarrow> one_line s \<and> one_line t" "one_line []"
  "one_line (c # s) \<longleftrightarrow> (32 :: nat) \<le> of_char c \<and> one_line s"
  by (auto simp: one_line_def)

lemma one_line_escape [simp]: "one_line (escape_json_string s)"
proof -
  have "one_line (escape_char c)" for c
    by (auto simp: escape_char_def hex_byte_def hex_digit_def)
  then have "one_line (concat (map escape_char s))" by (induction s) simp_all
  then show ?thesis by (simp add: escape_json_string_def)
qed

lemma one_line_join: "(\<forall>x \<in> set xs. one_line x) \<Longrightarrow> one_line sep \<Longrightarrow> one_line (join_with sep xs)"
  by (induction sep xs rule: join_with.induct) simp_all

lemma one_line_print: "one_line (print_json v)"
proof (induction v rule: print_json.induct)
  case (3 n)
  then show ?case using decimal_digits [of n] by (auto simp: one_line_def is_digit_def)
next
  case (5 xs)
  then show ?case by (simp add: one_line_join)
next
  case (6 fs)
  then have "one_line (join_with '','' (map print_member fs))" by (intro one_line_join) (auto simp: print_member_def)
  then show ?case by (simp add: print_obj)
qed (simp_all add: show_bool_def)

section \<open>Properties\<close>

text \<open>
  C33: The terminal document and the terminal event of a scan are well-formed JSON: reading them
  back gives exactly the fields of the response, whatever its paths and messages contain, and
  each is a single line.
\<close>

theorem scan_output_reads_back:
  assumes "unat (r_directory_count resp) + unat (r_file_count resp) + unat (r_special_count resp) < 2 ^ 64"
  shows "\<exists>doc ev. format_scan_terminal_json resp = Some doc \<and> read_json doc = Some (scan_value resp) \<and> one_line doc
    \<and> format_scan_terminal_ndjson_event resp seq = Some ev
    \<and> read_json ev = Some (event_value (r_operation_id resp) seq (r_observation_completed_iso resp) ''finalizing'' ''data'' (scan_payload resp))
    \<and> one_line ev"
proof -
  obtain n where "directory_entries_of resp = Some n" using assms by (simp add: directory_entries_of_def)
  from format_scan [OF this] format_scan_event [OF this] show ?thesis by (simp add: read_print one_line_print)
qed

definition sample_response :: scan_response where
  "sample_response = \<lparr>r_operation_id = ''scan-1'', r_target_path = ''C:'', r_run_outcome = 1, r_observation_started_iso = ''t0'',
     r_observation_completed_iso = ''t1'', r_scope_coverage = 1, r_directory_count = 1, r_file_count = 2, r_special_count = 0,
     r_logical_bytes = 200, r_allocated_bytes = 8704, r_allocated_bytes_known = True,
     r_coverage_gaps = [\<lparr>gr_display_path = [quote, backslash, CHR 0x0A], gr_status_code = ''ACCESS_DENIED'', gr_native_error = 5,
       gr_error_message = ''denied''\<rparr>],
     r_duration_ms = 3, r_referenced_allocated_bytes = 8704, r_unique_allocated_bytes = 4608,
     r_known_subtotal_allocated_bytes = 8704, r_indeterminate_external_reference_objects = 0, r_hard_links = []\<rparr>"

theorem scan_output_reads_back_witness:
  "\<exists>doc. format_scan_terminal_json sample_response = Some doc \<and> read_json doc = Some (scan_value sample_response)"
  using scan_output_reads_back [of sample_response 7] by (auto simp: sample_response_def)

lemma event_lines:
  "read_json (format_directory_entry_ndjson_event oid seq ts node) = Some (event_value oid seq ts ''finalizing'' ''data'' (entry_value node))
    \<and> one_line (format_directory_entry_ndjson_event oid seq ts node)
    \<and> read_json (format_scan_progress_ndjson_event p) = Some (event_value (p_operation_id p) (p_sequence_number p)
        (p_timestamp_iso p) (p_current_phase p) ''progress'' (progress_value p))
    \<and> one_line (format_scan_progress_ndjson_event p)
    \<and> read_json (format_scan_cancelled_ndjson_event now oid seq stamp message) = Some (event_value oid seq
        (if stamp \<in> {None, Some []} then format_utc_iso now else the stamp) ''finalizing'' ''data''
        (JObj [(''run_outcome'', JStr ''cancelled''), (''status'', JStr ''cancelled''), (''message'', JStr message)]))
    \<and> one_line (format_scan_cancelled_ndjson_event now oid seq stamp message)"
  unfolding format_entry_event format_progress format_cancelled_event
  by (cases stamp) (simp_all add: read_print one_line_print)

text \<open>The data of the five answers to single commands.\<close>

datatype reply = Reply_Ping ping_response | Reply_Echo string | Reply_Health health_response
  | Reply_Status status_response | Reply_Version version_response

fun reply_text :: "reply \<Rightarrow> string" where
  "reply_text (Reply_Ping r) = format_ping_response r"
| "reply_text (Reply_Echo payload) = format_echo_response payload"
| "reply_text (Reply_Health r) = format_health_response r"
| "reply_text (Reply_Status r) = format_status_response r"
| "reply_text (Reply_Version r) = format_version_response r"

fun reply_value :: "reply \<Rightarrow> json" where
  "reply_value (Reply_Ping r) = JObj [(''timestamp_utc_ms'', JNum (unat (pr_timestamp_utc_ms r))),
     (''echo_timestamp_utc_ms'', JNum (unat (pr_echo_timestamp_utc_ms r)))]"
| "reply_value (Reply_Echo payload) = JObj [(''payload'', JStr payload)]"
| "reply_value (Reply_Health r) = JObj [(''status'', JStr (hp_status r)), (''uptime_ms'', JNum (unat (hp_uptime_ms r))),
     (''memory_private_bytes'', JNum (unat (hp_memory_private_bytes r))), (''handle_count'', JNum (unat (hp_handle_count r)))]"
| "reply_value (Reply_Status r) = JObj [(''state'', JStr (st_state r)), (''active_runs'', JNum (unat (st_active_runs r))),
     (''total_observations'', JNum (unat (st_total_observations r))), (''session_id'', JStr (st_session_id r))]"
| "reply_value (Reply_Version r) = JObj [(''engine_version'', JStr (vr_engine_version r)),
     (''protocol_version'', JNum (unat (vr_protocol_version r))), (''build_date'', JStr (vr_build_date r)),
     (''commit_hash'', JStr (vr_commit_hash r))]"

lemma reply_text_value: "reply_text r = print_json (reply_value r)"
  by (cases r) (simp_all add: format_responses)

lemma envelope_lines:
  "read_json (format_success_envelope rid (reply_text r)) = Some (success_value rid (reply_value r))
    \<and> one_line (format_success_envelope rid (reply_text r))
    \<and> read_json (format_error_envelope rid code message) = Some (error_value rid ''error'' code message)
    \<and> one_line (format_error_envelope rid code message)
    \<and> read_json (format_cancelled_envelope rid message) = Some (error_value rid ''cancelled'' ''OPERATION_CANCELLED'' message)
    \<and> one_line (format_cancelled_envelope rid message)
    \<and> read_json (format_diagnostic level target message) = Some (diagnostic_value level target message)
    \<and> one_line (format_diagnostic level target message)"
  unfolding reply_text_value format_envelopes by (simp add: read_print one_line_print)

text \<open>
  C34: Each of these is one line of well-formed JSON that reads back to what it reports: the
  entries, progress and cancellation of a streaming scan, the last with the time it is given or, if
  none is, the time of printing; the success envelope around the answer to a ping, echo, health,
  status or version command, with all fields of the answer; the error and cancelled envelopes; and
  the diagnostics on standard error with level, target and message.
\<close>

theorem printed_lines_read_back:
  "read_json (format_directory_entry_ndjson_event oid seq ts node) = Some (event_value oid seq ts ''finalizing'' ''data'' (entry_value node))
    \<and> one_line (format_directory_entry_ndjson_event oid seq ts node)
    \<and> read_json (format_scan_progress_ndjson_event p) = Some (event_value (p_operation_id p) (p_sequence_number p)
        (p_timestamp_iso p) (p_current_phase p) ''progress'' (progress_value p))
    \<and> one_line (format_scan_progress_ndjson_event p)
    \<and> read_json (format_scan_cancelled_ndjson_event now oid seq stamp message) = Some (event_value oid seq
        (if stamp \<in> {None, Some []} then format_utc_iso now else the stamp) ''finalizing'' ''data''
        (JObj [(''run_outcome'', JStr ''cancelled''), (''status'', JStr ''cancelled''), (''message'', JStr message)]))
    \<and> one_line (format_scan_cancelled_ndjson_event now oid seq stamp message)
    \<and> read_json (format_success_envelope rid (reply_text r)) = Some (success_value rid (reply_value r))
    \<and> one_line (format_success_envelope rid (reply_text r))
    \<and> read_json (format_error_envelope rid code message) = Some (error_value rid ''error'' code message)
    \<and> one_line (format_error_envelope rid code message)
    \<and> read_json (format_cancelled_envelope rid message) = Some (error_value rid ''cancelled'' ''OPERATION_CANCELLED'' message)
    \<and> one_line (format_cancelled_envelope rid message)
    \<and> read_json (format_diagnostic level target message) = Some (diagnostic_value level target message)
    \<and> one_line (format_diagnostic level target message)"
  using event_lines [of oid seq ts node p now stamp message] envelope_lines [of rid r code message level target]
  by simp

end
