(* ===== verification/Cli.thy ===== *)
theory Cli
  imports Scan_Client Json_Spec Validator Process
begin

text \<open>
  The command line client: \<^verbatim>\<open>crates/pigtree-cli/src/lib.rs\<close> and \<^verbatim>\<open>crates/pigtree-cli/src/main.rs\<close>.
  A run yields the lines it prints, in order, and its exit code. The file system, the flag set by
  the control handler, the start of the engine and the turns of the polling loops are arguments.
\<close>

section \<open>Output format and settlement\<close>

definition EXIT_SUCCESS :: u8 where "EXIT_SUCCESS = 0"
definition EXIT_OPERATION_FAILED :: u8 where "EXIT_OPERATION_FAILED = 1"
definition EXIT_COMMAND_ERROR :: u8 where "EXIT_COMMAND_ERROR = 2"
definition EXIT_CANCELLED :: u8 where "EXIT_CANCELLED = 3"
definition EXIT_COVERAGE_GAPS_PRESENT :: u8 where "EXIT_COVERAGE_GAPS_PRESENT = 4"

lemmas exit_codes = EXIT_SUCCESS_def EXIT_OPERATION_FAILED_def EXIT_COMMAND_ERROR_def EXIT_CANCELLED_def
  EXIT_COVERAGE_GAPS_PRESENT_def

datatype output_format = Format_Json | Format_Ndjson

definition output_format_from_str :: "string \<Rightarrow> string + output_format" where
  "output_format_from_str s =
     (if s = ''json'' then Inr Format_Json
      else if s = ''ndjson'' then Inr Format_Ndjson
      else Inl (''Invalid value for --format: '' @ [CHR 0x27] @ s @ [CHR 0x27] @ ''. Expected ''
             @ [CHR 0x27] @ ''json'' @ [CHR 0x27] @ '' or '' @ [CHR 0x27] @ ''ndjson'' @ [CHR 0x27]))"

definition output_format_text :: "output_format \<Rightarrow> string" where
  "output_format_text f = (case f of Format_Json \<Rightarrow> ''json'' | Format_Ndjson \<Rightarrow> ''ndjson'')"

record scan_settlement =
  ss_exit_code :: u8
  ss_stdout :: string

text \<open>\<open>None\<close>: the sum of the counts overflows, which panics in a checked build.\<close>

definition settle_scan_response ::
  "output_format \<Rightarrow> scan_response \<Rightarrow> bool \<Rightarrow> u64 \<Rightarrow> scan_settlement option" where
  "settle_scan_response format response is_cancelled terminal_sequence_number =
     (let exit_code =
        (if is_cancelled \<or> r_run_outcome response = scan_outcome_i32 Outcome_Cancelled then EXIT_CANCELLED
         else if r_coverage_gaps response \<noteq> [] \<or> r_scope_coverage response = coverage_i32 Coverage_Partial
         then EXIT_COVERAGE_GAPS_PRESENT
         else if r_run_outcome response = scan_outcome_i32 Outcome_Failed then EXIT_OPERATION_FAILED
         else EXIT_SUCCESS)
      in map_option (\<lambda>stdout. \<lparr>ss_exit_code = exit_code, ss_stdout = stdout\<rparr>)
           (case format of
              Format_Json \<Rightarrow> format_scan_terminal_json response
            | Format_Ndjson \<Rightarrow> format_scan_terminal_ndjson_event response terminal_sequence_number))"

definition settle_scan_outcome :: "output_format \<Rightarrow> scan_call_outcome \<Rightarrow> u64 \<Rightarrow> scan_settlement option" where
  "settle_scan_outcome format outcome terminal_sequence_number = (case outcome of
     Call_Finished response \<Rightarrow> settle_scan_response format response False terminal_sequence_number
   | Call_Cancelled response \<Rightarrow> settle_scan_response format response True terminal_sequence_number)"

section \<open>What a run prints\<close>

datatype cli_line = Stdout string | Stderr string

fun stdout_lines :: "cli_line list \<Rightarrow> string list" where
  "stdout_lines [] = []"
| "stdout_lines (Stdout l # ls) = l # stdout_lines ls"
| "stdout_lines (Stderr l # ls) = stdout_lines ls"

lemma stdout_lines_append [simp]: "stdout_lines (xs @ ys) = stdout_lines xs @ stdout_lines ys"
  by (induction xs rule: stdout_lines.induct) simp_all

lemma set_stdout_lines: "set (stdout_lines ls) = {l. Stdout l \<in> set ls}"
  by (induction ls rule: stdout_lines.induct) auto

type_synonym cli_result = "cli_line list \<times> u8"

abbreviation diagnostic :: "string \<Rightarrow> string \<Rightarrow> cli_line" where
  "diagnostic level message \<equiv> Stderr (format_diagnostic level ''pigtree_cli'' message)"

text \<open>A diagnostic and an error envelope with the same message.\<close>

definition report_error :: "string \<Rightarrow> string \<Rightarrow> string \<Rightarrow> cli_line list" where
  "report_error verb code message =
     [diagnostic ''ERROR'' message, Stdout (format_error_envelope verb code message)]"

definition command_error :: "string \<Rightarrow> cli_result" where
  "command_error message = (report_error ''cli'' ''COMMAND_ERROR'' message, EXIT_COMMAND_ERROR)"

section \<open>The world around a run\<close>

record cli_env =
  ce_lib :: codec
  ce_test_delay :: "string option"
  ce_exists :: "string \<Rightarrow> bool"
  ce_is_dir :: "string \<Rightarrow> bool"
  ce_exe_dir :: "string option"
  ce_cancelled_before :: bool
  ce_cancelled_after :: bool
  ce_has_event :: bool
  ce_launch :: "string \<Rightarrow> ipc_error + (framed_session \<times> string \<times> u32)"
  ce_now :: u64
  ce_event_time :: nat
  ce_io_text :: "io_error \<Rightarrow> string"
  ce_call_polls :: "poll list"
  ce_cancel_polls :: "poll list"
  ce_shutdown_polls :: "poll list"

section \<open>Locating the engine\<close>

definition find_engine_binary :: "cli_env \<Rightarrow> string option \<Rightarrow> string + string" where
  "find_engine_binary env override_path = (case override_path of
     Some p \<Rightarrow> if ce_exists env p then Inr p else Inl (''Specified engine binary not found: '' @ p)
   | None \<Rightarrow>
       let candidates = (case ce_exe_dir env of Some parent \<Rightarrow> [path_join parent ''pigtree-engine.exe''] | None \<Rightarrow> [])
             @ map (\<lambda>d. path_join d ''pigtree-engine.exe'') [''target/debug'', ''target/release'', ''.'']
       in case List.find (ce_exists env) candidates of
            Some candidate \<Rightarrow> Inr candidate
          | None \<Rightarrow> Inl ''Could not locate pigtree-engine.exe binary. Specify via --engine-path'')"

section \<open>Arguments\<close>

definition newline :: string where "newline = [CHR 0x0A]"

definition help_text :: string where
  "help_text = concat (map (\<lambda>l. l @ newline)
    [''PigTree CLI - Disk Space Analysis and Guarded Storage Remediation'',
     '''',
     ''USAGE:'',
     ''    pigtree.exe [OPTIONS] <SUBCOMMAND>'',
     '''',
     ''SUBCOMMANDS:'',
     ''    scan <DIR>                 Traverse directory tree and report disk allocation statistics'',
     ''    health [--include-memory]  Query session host engine health, uptime, and resource usage'',
     ''    ping                       Send timestamp ping request to engine session'',
     ''    echo <TEXT>                Echo text payload through engine session'',
     ''    status                     Query engine session runtime state'',
     ''    version                    Inspect engine and protocol wire versions'',
     ''    shutdown                   Cleanly terminate private session host'',
     ''    help                       Print this help message'',
     '''',
     ''OPTIONS:'',
     ''    --engine-path <PATH>       Path to pigtree-engine.exe binary'',
     ''    --format <json|ndjson>     Output format (default: json)'',
     ''    -h, --help                 Print help information'',
     ''    -V, --version              Print CLI version''])"

record cli_options =
  co_engine_path :: "string option"
  co_format :: output_format
  co_subcommand :: "string option"
  co_sub_args :: "string list"
  co_test_delay_ms :: u32

definition parse_u32 :: "string \<Rightarrow> u32 option" where
  "parse_u32 s = map_option word_of_nat (from_str_radix 32 10 s)"

definition initial_options :: "cli_env \<Rightarrow> cli_options" where
  "initial_options env = \<lparr>co_engine_path = None, co_format = Format_Json, co_subcommand = None, co_sub_args = [],
     co_test_delay_ms = (case Option.bind (ce_test_delay env) parse_u32 of Some d \<Rightarrow> d | None \<Rightarrow> 0)\<rparr>"

text \<open>The value of an option: the next argument, unless it looks like an option.\<close>

definition option_value :: "string list \<Rightarrow> (string \<times> string list) option" where
  "option_value rest = (case rest of
     [] \<Rightarrow> None | v # rest' \<Rightarrow> if starts_with v ''--'' then None else Some (v, rest'))"

lemma option_value_length: "option_value rest = Some (v, rest') \<Longrightarrow> length rest' < length rest"
  by (auto simp: option_value_def split: list.splits if_splits)

text \<open>The version in the manifest of the package.\<close>

definition CARGO_PKG_VERSION :: string where "CARGO_PKG_VERSION = ''0.1.0''"

definition version_line :: string where
  "version_line = format_success_envelope ''cli-version''
     (''{\"cli_version\":\"'' @ CARGO_PKG_VERSION @ ''\",\"protocol_version\":1}'')"

function parse_cli_args :: "cli_env \<Rightarrow> string list \<Rightarrow> cli_options \<Rightarrow> cli_result + cli_options" where
  "parse_cli_args env [] opts = Inr opts"
| "parse_cli_args env (arg # rest) opts =
     (if arg \<in> {''-h'', ''--help'', ''help''} then Inl ([Stdout help_text], EXIT_SUCCESS)
      else if arg \<in> {''-V'', ''--version''} then Inl ([Stdout version_line], EXIT_SUCCESS)
      else if arg = ''--engine-path'' then
        (case option_value rest of
           Some (v, rest') \<Rightarrow> parse_cli_args env rest' (opts\<lparr>co_engine_path := Some v\<rparr>)
         | None \<Rightarrow> Inl (command_error ''Missing value for --engine-path''))
      else if arg = ''--test-delay-ms'' then
        (case option_value rest of
           Some (v, rest') \<Rightarrow> parse_cli_args env rest' (case parse_u32 v of
               Some d \<Rightarrow> opts\<lparr>co_test_delay_ms := d\<rparr> | None \<Rightarrow> opts)
         | None \<Rightarrow> Inl (command_error ''Missing value for --test-delay-ms''))
      else if arg = ''--format'' then
        (case option_value rest of
           Some (v, rest') \<Rightarrow> (case output_format_from_str v of
               Inr f \<Rightarrow> parse_cli_args env rest' (opts\<lparr>co_format := f\<rparr>)
             | Inl err \<Rightarrow> Inl (command_error err))
         | None \<Rightarrow> Inl (command_error ''Missing value for --format''))
      else if arg = ''--json'' then parse_cli_args env rest (opts\<lparr>co_format := Format_Json\<rparr>)
      else if \<not> starts_with arg ''-'' \<and> co_subcommand opts = None
      then parse_cli_args env rest (opts\<lparr>co_subcommand := Some arg\<rparr>)
      else parse_cli_args env rest (opts\<lparr>co_sub_args := co_sub_args opts @ [arg]\<rparr>))"
  by pat_completeness auto
termination
  by (relation "measure (\<lambda>(env, args, opts). length args)") (auto dest: option_value_length less_SucI)


declare parse_cli_args.simps [simp del]

section \<open>The checks before the engine starts\<close>

definition valid_subcommands :: "string list" where
  "valid_subcommands = [''ping'', ''echo'', ''health'', ''status'', ''version'', ''shutdown'', ''scan'']"

definition preflight_scan :: "cli_env \<Rightarrow> string list \<Rightarrow> cli_result option" where
  "preflight_scan env sub_args =
     (case sub_args of
        [] \<Rightarrow> Some (command_error ''Missing target directory argument for scan'')
      | [target_raw] \<Rightarrow>
          if trim target_raw = [] then Some (command_error ''Target directory path cannot be empty'')
          else if is_lexical_unc target_raw then
            Some (report_error ''scan'' ''INVALID_TARGET'' (''UNC and network paths are not supported: '' @ target_raw), EXIT_COMMAND_ERROR)
          else if \<not> ce_exists env target_raw then
            Some (report_error ''scan'' ''INVALID_TARGET'' (''Target directory does not exist: '' @ target_raw), EXIT_COMMAND_ERROR)
          else if \<not> ce_is_dir env target_raw then
            Some (report_error ''scan'' ''INVALID_TARGET'' (''Target path is not a directory: '' @ target_raw), EXIT_COMMAND_ERROR)
          else None
      | _ \<Rightarrow> Some (command_error (''Exactly one target directory argument required, found '' @ decimal (length sub_args))))"

text \<open>What is printed when the flag of the control handler is found set.\<close>

definition cancelled_lines :: "cli_env \<Rightarrow> string \<Rightarrow> output_format \<Rightarrow> cli_line list" where
  "cancelled_lines env cmd format =
     [diagnostic ''WARN'' ''Operation cancelled by user'',
      Stdout (if cmd = ''scan'' \<and> format = Format_Ndjson
        then format_scan_cancelled_ndjson_event (ce_event_time env) ''scan'' 1 None ''Operation cancelled by user''
        else format_cancelled_envelope cmd ''Operation cancelled by user'')]"

section \<open>Single commands\<close>

text \<open>\<open>None\<close>: the turns of a polling loop were used up.\<close>

definition handle_rpc_result :: "cli_env \<Rightarrow> string \<Rightarrow> framed_session \<Rightarrow>
    (framed_session \<Rightarrow> ((ipc_error + 'r) \<times> framed_session) option) \<Rightarrow> ('r \<Rightarrow> string) \<Rightarrow> cli_result option" where
  "handle_rpc_result env verb session op formatter =
     Option.bind (op session) (\<lambda>(r, session'). case r of
       Inr resp \<Rightarrow> Some ([Stdout (format_success_envelope verb (formatter resp))], EXIT_SUCCESS)
     | Inl err \<Rightarrow>
         if err = Ipc_Cancelled then
           map_option (\<lambda>_. ([diagnostic ''WARN'' ''Operation cancelled by user'',
               Stdout (format_cancelled_envelope verb ''Operation cancelled by user'')], EXIT_CANCELLED))
             (cancel_request (ce_lib env) verb (ce_cancel_polls env) session')
         else
           Some (report_error verb ''OPERATION_FAILED'' (verb @ '' failed: '' @ ipc_error_text (ce_io_text env) err),
             EXIT_OPERATION_FAILED))"

definition cli_shutdown :: "cli_env \<Rightarrow> framed_session \<Rightarrow> cli_result option" where
  "cli_shutdown env session =
     map_option (\<lambda>(r, _). case r of
         Inr _ \<Rightarrow> ([Stdout (format_success_envelope ''shutdown'' ''{\"shutdown\":true}'')], EXIT_SUCCESS)
       | Inl err \<Rightarrow> (report_error ''shutdown'' ''OPERATION_FAILED''
             (''Shutdown failed: '' @ ipc_error_text (ce_io_text env) err), EXIT_OPERATION_FAILED))
       (shutdown (ce_lib env) (ce_shutdown_polls env) session)"

section \<open>The scan\<close>

definition progress_line :: "output_format \<Rightarrow> scan_progress \<Rightarrow> cli_line" where
  "progress_line format p = (case format of
     Format_Ndjson \<Rightarrow> Stdout (format_scan_progress_ndjson_event p)
   | Format_Json \<Rightarrow> Stderr (format_diagnostic ''INFO'' ''pigtree_scan''
       (''traversing: '' @ decimal (unat (p_observed_directories p)) @ '' directories, ''
        @ decimal (unat (p_observed_files p)) @ '' files, '' @ decimal (unat (p_observed_logical_bytes p))
        @ '' bytes (phase: '' @ p_current_phase p @ '')'')))"

text \<open>What is printed for the outcome, and the exit code; \<open>seq\<close> is the last sequence number seen.\<close>

definition settle_scan_call :: "cli_env \<Rightarrow> output_format \<Rightarrow> u64 \<Rightarrow> ipc_error + scan_call_outcome \<Rightarrow> cli_result option" where
  "settle_scan_call env format last_progress_seq result = (case result of
     Inr outcome \<Rightarrow>
       map_option (\<lambda>settlement.
           (Stdout (ss_stdout settlement)
              # (case outcome of Call_Finished _ \<Rightarrow> [] | Call_Cancelled _ \<Rightarrow> [diagnostic ''WARN'' ''Scan operation cancelled by user'']),
            ss_exit_code settlement))
         (settle_scan_outcome format outcome (last_progress_seq + 1))
   | Inl (CommandError code message) \<Rightarrow> Some (report_error ''scan'' code message, EXIT_COMMAND_ERROR)
   | Inl err \<Rightarrow>
       if err = Ipc_Cancelled then
         Some ([diagnostic ''WARN'' ''Scan operation cancelled by user'',
           Stdout (case format of
             Format_Ndjson \<Rightarrow> format_scan_cancelled_ndjson_event (ce_event_time env) ''scan'' (last_progress_seq + 1) None
                 ''Scan operation cancelled by user''
           | Format_Json \<Rightarrow> format_cancelled_envelope ''scan'' ''Operation cancelled by user'')], EXIT_CANCELLED)
       else Some (report_error ''scan'' ''OPERATION_FAILED'' (''scan failed: '' @ ipc_error_text (ce_io_text env) err),
         EXIT_OPERATION_FAILED))"

text \<open>The shutdown at the end is waited for and its result ignored.\<close>

definition cli_scan :: "cli_env \<Rightarrow> output_format \<Rightarrow> string \<Rightarrow> framed_session \<Rightarrow> cli_result option" where
  "cli_scan env format target_raw session =
     (case scan_with_progress_outcome (ce_lib env) target_raw (ce_has_event env) (ce_call_polls env) session of
        (None, _) \<Rightarrow> None
      | (Some result, call) \<Rightarrow>
          Option.bind (settle_scan_call env format (sc_last_progress_seq call) result) (\<lambda>(lines, code).
          Option.bind (shutdown (ce_lib env) (ce_shutdown_polls env) (sc_framed call)) (\<lambda>_.
          Some (map (progress_line format) (sc_delivered call) @ lines, code))))"

section \<open>The whole run\<close>

definition dispatch :: "cli_env \<Rightarrow> cli_options \<Rightarrow> string \<Rightarrow> framed_session \<Rightarrow> cli_result option" where
  "dispatch env opts cmd session =
     (let lib = ce_lib env; delay = co_test_delay_ms opts; ev = ce_has_event env; polls = ce_call_polls env
      in if cmd = ''ping'' then
           handle_rpc_result env ''ping'' session (ping_with_options lib (ce_now env) delay ev polls) format_ping_response
         else if cmd = ''echo'' then
           handle_rpc_result env ''echo'' session
             (echo_with_options lib (join_with '' '' (co_sub_args opts)) delay ev polls) format_echo_response
         else if cmd = ''health'' then
           handle_rpc_result env ''health'' session
             (health_with_options lib (''--include-memory'' \<in> set (co_sub_args opts)) delay ev polls) format_health_response
         else if cmd = ''status'' then
           handle_rpc_result env ''status'' session (status_with_options lib delay ev polls) format_status_response
         else if cmd = ''version'' then
           handle_rpc_result env ''version'' session (version_with_options lib delay ev polls) format_version_response
         else if cmd = ''shutdown'' then cli_shutdown env session
         else if cmd = ''scan'' then cli_scan env (co_format opts) (hd (co_sub_args opts)) session
         else Some (command_error (''Unknown subcommand: '' @ cmd)))"

definition run_session :: "cli_env \<Rightarrow> cli_options \<Rightarrow> string \<Rightarrow> string \<Rightarrow> cli_result option" where
  "run_session env opts cmd engine_binary =
     (let spawning = diagnostic ''INFO'' (''Spawning engine session from '' @ engine_binary) in
      case ce_launch env engine_binary of
        Inl err \<Rightarrow>
          Some (spawning # report_error ''cli'' ''OPERATION_FAILED''
            (''Failed to spawn private engine host: '' @ ipc_error_text (ce_io_text env) err), EXIT_OPERATION_FAILED)
      | Inr (session, session_id, pid) \<Rightarrow>
          let opening = [spawning, diagnostic ''INFO'' (''Established authenticated session ID '' @ session_id
                @ '' (Engine PID '' @ decimal (unat pid) @ '')'')] in
          if ce_cancelled_after env then
            Option.bind (cancel_request (ce_lib env) cmd (ce_cancel_polls env) session) (\<lambda>(_, session1).
            Option.bind (shutdown (ce_lib env) (ce_shutdown_polls env) session1) (\<lambda>_.
            Some (opening @ cancelled_lines env cmd (co_format opts), EXIT_CANCELLED)))
          else map_option (\<lambda>(lines, code). (opening @ lines, code)) (dispatch env opts cmd session))"

definition run :: "cli_env \<Rightarrow> string list \<Rightarrow> cli_result option" where
  "run env args =
     (if length args < 2 then Some (command_error ''No subcommand specified'')
      else case parse_cli_args env (tl args) (initial_options env) of
        Inl result \<Rightarrow> Some result
      | Inr opts \<Rightarrow>
          (case co_subcommand opts of
             None \<Rightarrow> Some (command_error ''No subcommand specified'')
           | Some cmd \<Rightarrow>
               if cmd \<notin> set valid_subcommands then Some (command_error (''Unknown subcommand: '' @ cmd))
               else case (if cmd = ''scan'' then preflight_scan env (co_sub_args opts) else None) of
                 Some result \<Rightarrow> Some result
               | None \<Rightarrow>
                   if ce_cancelled_before env then Some (cancelled_lines env cmd (co_format opts), EXIT_CANCELLED)
                   else case find_engine_binary env (co_engine_path opts) of
                     Inl err \<Rightarrow> Some (report_error ''cli'' ''OPERATION_FAILED'' err, EXIT_OPERATION_FAILED)
                   | Inr engine_binary \<Rightarrow> run_session env opts cmd engine_binary))"

end
