(* ===== verification/Cli_Spec.thy ===== *)
theory Cli_Spec
  imports Cli
begin

text \<open>
  What a caller of the command line client can rely on: its standard output is JSON, line by line,
  and the exit code tells how the operation ended.
\<close>

section \<open>Lines of JSON\<close>

definition json_line :: "string \<Rightarrow> bool" where
  "json_line l \<longleftrightarrow> (\<exists>v. l = print_json v)"

lemma json_lineD: "json_line l \<Longrightarrow> one_line l \<and> (\<exists>v. read_json l = Some v)"
  using read_print one_line_print by (auto simp: json_line_def)

lemma json_line_print [simp]: "json_line (print_json v)"
  by (auto simp: json_line_def)

lemma json_line_envelopes [simp]:
  "json_line l \<Longrightarrow> json_line (format_success_envelope rid l)"
  "json_line (format_error_envelope rid code message)" "json_line (format_cancelled_envelope rid message)"
  "json_line (format_scan_cancelled_ndjson_event now oid seq ts message)" "json_line (format_scan_progress_ndjson_event p)"
  by (auto simp: json_line_def format_envelopes(1) format_envelopes(2,3) format_cancelled_event format_progress)

lemma json_line_responses [simp]:
  "json_line (format_ping_response ping)" "json_line (format_echo_response payload)"
  "json_line (format_health_response health)" "json_line (format_status_response status)"
  "json_line (format_version_response ver)"
  unfolding format_responses by (rule json_line_print)+

lemma decimal_1: "decimal 1 = ''1''"
  by code_simp

lemma json_line_version [simp]: "json_line version_line"
proof -
  have "''{\"cli_version\":\"'' @ CARGO_PKG_VERSION @ ''\",\"protocol_version\":1}''
      = print_json (JObj [(''cli_version'', JStr CARGO_PKG_VERSION), (''protocol_version'', JNum 1)])"
    using decimal_1 by (simp add: CARGO_PKG_VERSION_def json_text)
  then show ?thesis unfolding version_line_def by simp
qed

lemma json_line_shutdown [simp]: "json_line ''{\"shutdown\":true}''"
proof -
  have "''{\"shutdown\":true}'' = print_json (JObj [(''shutdown'', JBool True)])"
    by (simp add: json_text show_bool_def)
  then show ?thesis by (metis json_line_print)
qed

lemma json_line_terminal:
  "format_scan_terminal_json resp = Some l \<Longrightarrow> json_line l"
  "format_scan_terminal_ndjson_event resp seq = Some l \<Longrightarrow> json_line l"
proof -
  show "json_line l" if t: "format_scan_terminal_json resp = Some l"
  proof -
    obtain n where "directory_entries_of resp = Some n" using t by (cases "directory_entries_of resp") (auto simp: format_scan_terminal_json_def)
    from format_scan [OF this] t show ?thesis by simp
  qed
  show "json_line l" if t: "format_scan_terminal_ndjson_event resp seq = Some l"
  proof -
    obtain n where "directory_entries_of resp = Some n" using t by (cases "directory_entries_of resp") (auto simp: format_scan_terminal_ndjson_event_def)
    from format_scan_event [OF this, of seq] t show ?thesis by auto
  qed
qed

section \<open>Well-formed results\<close>

lemma exit_codes_bounded [simp]:
  "EXIT_SUCCESS \<le> EXIT_COVERAGE_GAPS_PRESENT" "EXIT_OPERATION_FAILED \<le> EXIT_COVERAGE_GAPS_PRESENT"
  "EXIT_COMMAND_ERROR \<le> EXIT_COVERAGE_GAPS_PRESENT" "EXIT_CANCELLED \<le> EXIT_COVERAGE_GAPS_PRESENT"
  by (simp_all add: exit_codes)

definition reported :: "cli_result \<Rightarrow> bool" where
  "reported r \<longleftrightarrow> snd r \<le> EXIT_COVERAGE_GAPS_PRESENT \<and> stdout_lines (fst r) \<noteq> []
     \<and> (\<forall>l \<in> set (stdout_lines (fst r)). json_line l)"

text \<open>The arguments that ask for the help text, and what they are answered.\<close>

definition help_words :: "string set" where
  "help_words = {''-h'', ''--help'', ''help''}"

definition helped :: "string list \<Rightarrow> cli_result \<Rightarrow> bool" where
  "helped args r \<longleftrightarrow> r = ([Stdout help_text], EXIT_SUCCESS) \<and> set args \<inter> help_words \<noteq> {}"

lemma helped_more: "helped args r \<Longrightarrow> set args \<subseteq> set args' \<Longrightarrow> helped args' r"
  by (auto simp: helped_def)

lemma reported_errors [simp]:
  "code \<le> EXIT_COVERAGE_GAPS_PRESENT \<Longrightarrow> reported (report_error verb c m, code)" "reported (command_error m)"
  by (simp_all add: reported_def report_error_def command_error_def)

lemma reported_prefix: "reported (ls, code) \<Longrightarrow> stdout_lines pre = [] \<Longrightarrow> reported (pre @ ls, code)"
  by (simp add: reported_def)

lemma reported_one [simp]: "json_line l \<Longrightarrow> code \<le> EXIT_COVERAGE_GAPS_PRESENT \<Longrightarrow> reported ([Stdout l], code)"
  by (auto simp: reported_def)

lemma option_value_set: "option_value rest = Some (v, rest') \<Longrightarrow> set rest' \<subseteq> set rest"
  by (auto simp: option_value_def split: list.splits if_splits)

lemma parse_cli_args_reported: "parse_cli_args env args opts = Inl r \<Longrightarrow> reported r \<or> helped args r"
proof (induction args arbitrary: opts rule: length_induct)
  case (1 args)
  show ?case
  proof (cases args)
    case (Cons arg rest)
    have IH: "parse_cli_args env rest' opts' = Inl r \<Longrightarrow> reported r \<or> helped args r"
      if "length rest' \<le> length rest" "set rest' \<subseteq> set rest" for rest' opts'
      using 1(1) that Cons helped_more [of rest' r args] by (metis length_Cons le_imp_less_Suc set_subset_Cons subset_trans)
    have opt_value: "parse_cli_args env rest' opts' = Inl r \<Longrightarrow> reported r \<or> helped args r"
      if "option_value rest = Some (v, rest')" for v rest' opts'
      by (rule IH) (use option_value_length [OF that] option_value_set [OF that] in auto)
    note step = 1(2) [unfolded Cons parse_cli_args.simps(2)]
    show ?thesis
    proof (cases "arg \<in> {''-h'', ''--help'', ''help''}")
      case True
      with step have "r = ([Stdout help_text], EXIT_SUCCESS)" by (simp only: if_True sum.inject)
      with True show ?thesis by (auto simp: helped_def help_words_def Cons)
    next
      case no_help: False
      show ?thesis
      proof (cases "arg \<in> {''-V'', ''--version''}")
        case True
        with step no_help have "r = ([Stdout version_line], EXIT_SUCCESS)" by (simp only: if_True if_False sum.inject)
        then show ?thesis by simp
      next
        case False
        note step = step [unfolded if_not_P [OF no_help] if_not_P [OF False]]
        show ?thesis
        proof (cases "option_value rest")
          case None
          then show ?thesis using step IH [of rest]
            by (simp only: option.case order.refl split: if_split_asm) (auto simp only: sum.inject reported_errors)
        next
          case (Some vr)
          obtain v rest' where vr: "vr = (v, rest')" by (cases vr)
          with Some have more: "parse_cli_args env rest' opts' = Inl r \<Longrightarrow> reported r \<or> helped args r" for opts'
            by (simp add: opt_value)
          show ?thesis using step IH [of rest] more unfolding Some vr
            by (simp only: option.case prod.case order.refl split: if_split_asm sum.split_asm) (auto simp only: sum.inject reported_errors)
        qed
      qed
    qed
  qed (use 1(2) in \<open>simp add: parse_cli_args.simps\<close>)
qed


lemma preflight_reported: "preflight_scan env sub_args = Some r \<Longrightarrow> reported r"
  by (auto simp: preflight_scan_def split: list.splits if_splits)

lemma cancelled_reported [simp]: "reported (cancelled_lines env cmd format, EXIT_CANCELLED)"
  by (simp add: reported_def cancelled_lines_def)

lemma handle_rpc_reported:
  assumes "\<forall>r. json_line (formatter r)" and "handle_rpc_result env verb session op formatter = Some r"
  shows "reported r"
proof -
  obtain res session' where op: "op session = Some (res, session')"
    using assms(2) by (auto simp: handle_rpc_result_def bind_eq_Some_conv)
  show ?thesis
  proof (cases res)
    case (Inl err)
    with assms(2) op show ?thesis
      by (auto simp: handle_rpc_result_def reported_def [of "(_ # _ # _, _)"] split: if_splits)
  qed (use assms op in \<open>auto simp: handle_rpc_result_def\<close>)
qed

lemma settle_scan_reported:
  assumes "settle_scan_call env format seq result = Some r"
  shows "reported r"
proof (cases result)
  case (Inr outcome)
  have "json_line (ss_stdout st) \<and> ss_exit_code st \<le> EXIT_COVERAGE_GAPS_PRESENT"
    if "settle_scan_response f resp c n = Some st" for f resp c n st
    using that json_line_terminal by (auto simp: settle_scan_response_def Let_def split: output_format.splits)
  then have "json_line (ss_stdout st) \<and> ss_exit_code st \<le> EXIT_COVERAGE_GAPS_PRESENT"
    if "settle_scan_outcome f outcome n = Some st" for f n st
    using that by (auto simp: settle_scan_outcome_def split: scan_call_outcome.splits)
  then show ?thesis using assms Inr
    by (auto simp: settle_scan_call_def reported_def split: scan_call_outcome.splits)
next
  case (Inl err)
  then show ?thesis using assms
    by (cases err) (auto simp: settle_scan_call_def reported_def [of "(_ # _ # _, _)"] split: output_format.splits)
qed

lemma progress_lines: "l \<in> set (stdout_lines (map (progress_line format) ps)) \<Longrightarrow> json_line l"
  by (induction ps) (auto simp: progress_line_def split: output_format.splits)

lemma cli_scan_reported: "cli_scan env format target session = Some r \<Longrightarrow> reported r"
  by (auto simp: cli_scan_def bind_eq_Some_conv reported_def split: prod.splits option.splits
      dest!: settle_scan_reported progress_lines)

lemma cli_shutdown_reported:
  assumes "cli_shutdown env session = Some r"
  shows "reported r"
proof -
  obtain res session' where sh: "shutdown (ce_lib env) (ce_shutdown_polls env) session = Some (res, session')"
    using assms by (auto simp: cli_shutdown_def)
  show ?thesis using assms sh by (cases res) (auto simp: cli_shutdown_def)
qed

lemma dispatch_reported:
  assumes "dispatch env opts cmd session = Some r"
  shows "reported r"
proof -
  note rpc = handle_rpc_reported [of format_ping_response] handle_rpc_reported [of format_echo_response]
    handle_rpc_reported [of format_health_response] handle_rpc_reported [of format_status_response]
    handle_rpc_reported [of format_version_response]
  show ?thesis using assms unfolding dispatch_def Let_def
    by (auto split: if_splits dest: rpc [simplified] cli_shutdown_reported cli_scan_reported)
qed

lemma run_session_reported: "run_session env opts cmd engine = Some r \<Longrightarrow> reported r"
  by (auto simp: run_session_def Let_def bind_eq_Some_conv split: sum.splits if_splits prod.splits
      intro!: reported_prefix [of _ _ "[_, _]", simplified] reported_prefix [of _ _ "[_]", simplified] dest: dispatch_reported)

lemma run_reported: "run env args = Some r \<Longrightarrow> reported r \<or> helped (tl args) r"
  by (auto simp: run_def split: if_splits sum.splits option.splits
      dest: parse_cli_args_reported preflight_reported run_session_reported)


section \<open>The scan\<close>

lemma settled_last_line:
  assumes "settle_scan_call env Format_Ndjson seq result = Some (lines, code)"
  shows "\<exists>final. stdout_lines lines = [final]
    \<and> (\<forall>sr. result = Inr (Call_Finished sr) \<or> result = Inr (Call_Cancelled sr) \<longrightarrow>
        format_scan_terminal_ndjson_event sr (seq + 1) = Some final)"
proof (cases result)
  case (Inr outcome)
  have "format_scan_terminal_ndjson_event sr n = Some (ss_stdout st)"
    if "settle_scan_response Format_Ndjson sr c n = Some st" for sr c n st
    using that by (auto simp: settle_scan_response_def Let_def)
  then show ?thesis using assms Inr
    by (auto simp: settle_scan_call_def settle_scan_outcome_def split: scan_call_outcome.splits)
next
  case (Inl err)
  then show ?thesis using assms
    by (cases err) (auto simp: settle_scan_call_def report_error_def)
qed

definition clean :: "scan_response \<Rightarrow> bool" where
  "clean sr \<longleftrightarrow> r_coverage_gaps sr = [] \<and> r_scope_coverage sr \<noteq> coverage_i32 Coverage_Partial
     \<and> r_run_outcome sr \<noteq> scan_outcome_i32 Outcome_Failed"

text \<open>How a scan ended, and the exit code that tells it.\<close>

definition expected_code :: "ipc_error + scan_call_outcome \<Rightarrow> u8" where
  "expected_code result = (case result of
     Inr (Call_Cancelled _) \<Rightarrow> 3
   | Inr (Call_Finished sr) \<Rightarrow>
       if clean sr then 0
       else if r_coverage_gaps sr \<noteq> [] \<or> r_scope_coverage sr = coverage_i32 Coverage_Partial then 4 else 1
   | Inl Ipc_Cancelled \<Rightarrow> 3
   | Inl (CommandError _ _) \<Rightarrow> 2
   | Inl _ \<Rightarrow> 1)"

lemma settled_code:
  assumes "settle_scan_call env format seq result = Some (lines, code)"
    and "\<forall>sr. result = Inr (Call_Finished sr) \<longrightarrow> r_run_outcome sr \<noteq> scan_outcome_i32 Outcome_Cancelled"
  shows "code = expected_code result"
proof (cases result)
  case (Inr outcome)
  with assms show ?thesis
    by (cases outcome) (auto simp: settle_scan_call_def settle_scan_outcome_def settle_scan_response_def Let_def clean_def
        exit_codes expected_code_def)
next
  case (Inl err)
  then show ?thesis using assms(1)
    by (cases err) (auto simp: settle_scan_call_def exit_codes expected_code_def)
qed

lemma progress_stdout: "stdout_lines (map (progress_line Format_Ndjson) ps) = map format_scan_progress_ndjson_event ps"
  by (induction ps) (simp_all add: progress_line_def)

lemma less_plus_one: "x < - 1 \<Longrightarrow> x < x + (1 :: u64)"
proof -
  assume "x < - 1"
  then have "1 + x \<noteq> 0" by (auto simp: add_eq_0_iff)
  then have "unat (1 + x) = Suc (unat x)" by (rule unatSuc)
  then show ?thesis by (simp add: word_less_nat_alt add.commute)
qed

section \<open>Properties\<close>

text \<open>
  C32: Every run that returns has one of the five exit codes and has printed something. Either every
  line of its standard output is a JSON document on one line, or it printed the help text, alone and
  with exit code 0, and one of its arguments is \<open>-h\<close>, \<open>--help\<close> or \<open>help\<close>. This holds for all arguments,
  all file systems and all that the engine may send; a run has no result when its loops still wait
  at the end of the turns given, or when the sum of the counts of a response overflows.
\<close>

theorem cli_output_is_json:
  assumes "run env args = Some (lines, code)"
  shows "code \<le> EXIT_COVERAGE_GAPS_PRESENT \<and> stdout_lines lines \<noteq> []
    \<and> ((\<forall>l \<in> set (stdout_lines lines). one_line l \<and> (\<exists>v. read_json l = Some v))
       \<or> lines = [Stdout help_text] \<and> code = EXIT_SUCCESS \<and> set (tl args) \<inter> {''-h'', ''--help'', ''help''} \<noteq> {})"
  using run_reported [OF assms] json_lineD by (auto simp: reported_def helped_def help_words_def)

definition quiet_poll :: poll where
  "quiet_poll = \<lparr>po_signalled = True, po_deadline = True, po_arrived = [], po_peek_error = Some 109\<rparr>"

definition offline_env :: cli_env where
  "offline_env = \<lparr>ce_lib = \<lparr>encode_command = (\<lambda>_. [1]), decode_response = (\<lambda>_. Inl [])\<rparr>, ce_test_delay = None,
     ce_exists = (\<lambda>_. False), ce_is_dir = (\<lambda>_. False), ce_exe_dir = None, ce_cancelled_before = False,
     ce_cancelled_after = False, ce_has_event = True, ce_launch = (\<lambda>_. Inl ServerNotFound), ce_now = 0,
     ce_event_time = 0, ce_io_text = (\<lambda>_. []), ce_call_polls = [quiet_poll], ce_cancel_polls = [quiet_poll],
     ce_shutdown_polls = [quiet_poll]\<rparr>"

theorem cli_output_is_json_witness:
  "\<exists>lines l. run offline_env [''pigtree'', ''ping''] = Some (lines, EXIT_OPERATION_FAILED)
    \<and> stdout_lines lines = [l] \<and> one_line l"
proof -
  have run: "run offline_env [''pigtree'', ''ping''] = Some (report_error ''cli'' ''OPERATION_FAILED''
      ''Could not locate pigtree-engine.exe binary. Specify via --engine-path'', EXIT_OPERATION_FAILED)"
    by (simp add: run_def parse_cli_args.simps initial_options_def offline_env_def starts_with_def valid_subcommands_def
        find_engine_binary_def)
  then show ?thesis
    using cli_output_is_json [OF run] by (auto simp: report_error_def)
qed



end
