(* ===== verification/Divergences.thy ===== *)
theory Divergences
  imports Engine_Spec Cli_Spec Worker_Properties
begin

text \<open>
  Facts about the code that differ from what its documents or its other parts say.
\<close>

text \<open>
  The exit classes of \<^verbatim>\<open>docs/adr/0003-shared-engine-and-automation-contract.md\<close> give 1 to a failed
  operation and 4 to a finished one with gaps. The engine reports partial coverage for every graph
  that is not finished, and the client looks at coverage before failure: a failed scan that has a
  graph exits with 4.
\<close>

lemma failed_scan_exits_as_coverage_gaps:
  assumes "graph_response k p tm graph = Some r" and "t_outcome (dg_terminal graph) = run_outcome.Failed"
    and "settle_scan_response format r False n = Some s"
  shows "ss_exit_code s = EXIT_COVERAGE_GAPS_PRESENT"
  using assms
  by (auto simp: graph_response_def proto_outcome_def settle_scan_response_def Let_def)

text \<open>The builder counts special objects, and the responses never carry the count.\<close>

lemma special_objects_not_reported:
  assumes "settle_scan k p tm cancelled result = Some (r, s)"
  shows "r_special_count r = 0"
  using assms
  by (auto simp: settle_scan_def graph_response_def failure_response_def Let_def split: option.splits sum.splits)

text \<open>
  The display path of the root of a drive loses its backslash: the last separator is removed even
  when it belongs to the name of the root.
\<close>

lemma drive_root_loses_its_separator: "join_names [''C:'' @ [backslash]] = Some ''C:''"
  by (simp add: join_names_def ends_with_def)

section \<open>Objects that do not fit 64 bits\<close>

text \<open>
  The unique bytes of a directory are cut to 64 bits when they are stored, and the bytes of shared
  objects are taken back higher up. A root with two directories of 2^63 bytes that share a file of
  2^63 bytes: each directory is stored with 0, the file is taken back at the root, and the assertion
  that the rest is not negative fails. The stream is accepted, and \<open>finish\<close> panics.
\<close>

definition half_file :: "u32 \<Rightarrow> u32 \<Rightarrow> observation_record" where
  "half_file eid parent = Obs_File \<lparr>f_entry_id = eid, f_parent_id = parent, f_name = ''f'', f_logical_size = 0,
     f_allocated_size = Some (2 ^ 63), f_file_attributes = 32, f_reparse_tag = 0, f_creation_time_utc_ms = 0,
     f_last_write_time_utc_ms = 0, f_last_access_time_utc_ms = 0,
     f_object_id = Some sample_oid, f_total_link_count = Known 2\<rparr>"

definition half_directory :: "u32 \<Rightarrow> u32 \<Rightarrow> u64 option \<Rightarrow> observation_record" where
  "half_directory eid parent alloc = Obs_Directory \<lparr>d_entry_id = eid, d_parent_id = parent, d_name = ''d'',
     d_file_attributes = 16, d_reparse_tag = 0, d_creation_time_utc_ms = 0, d_last_write_time_utc_ms = 0,
     d_last_access_time_utc_ms = 0, d_object_id = None, d_allocated_size = alloc, d_total_link_count = NotObserved\<rparr>"

definition half_stream :: "observation_record list" where
  "half_stream = [half_directory 1 0 None, half_directory 2 1 (Some (2 ^ 63)), half_directory 3 1 (Some (2 ^ 63)),
     half_file 4 2, half_file 5 3,
     Obs_Terminal \<lparr>t_outcome = run_outcome.Finished, t_total_directories = 3, t_total_files = 2, t_total_logical_bytes = 0,
       t_total_allocated_bytes = - 1, t_coverage_gap_count = 0, t_duration_ms = 3\<rparr>]"

definition half_entry :: "u32 \<Rightarrow> u32 \<Rightarrow> compact_entry" where
  "half_entry eid parent = (if eid < 4 then directory_entry (case half_directory eid parent (if eid = 1 then None else Some (2 ^ 63)) of Obs_Directory d \<Rightarrow> d)
     else file_entry (case half_file eid parent of Obs_File f \<Rightarrow> f))"

definition half_self :: "u32 \<Rightarrow> (object_identity \<times> u32 list) list \<Rightarrow> (u32 \<Rightarrow> u32 value_knowledge option) \<Rightarrow> terminal_observation
    \<Rightarrow> u64 \<Rightarrow> u64 \<Rightarrow> u64 \<Rightarrow> u32 \<Rightarrow> graph_builder" where
  "half_self obj m counts final dirs files alloc current = (builder_new ''C:'')\<lparr>
     b_entries := [half_entry 1 0, half_entry 2 1, half_entry 3 1, (half_entry 4 2)\<lparr>c_object_index := obj\<rparr>, (half_entry 5 3)\<lparr>c_object_index := obj\<rparr>],
     b_first_child := [1, 3, 4, u32_max, u32_max], b_last_child := [2, 3, 4, u32_max, u32_max],
     b_next_sibling := [u32_max, 2, u32_max, u32_max, u32_max],
     b_file_object_map := m, b_file_link_counts := counts,
     b_dir_self_alloc := [0, 2 ^ 63, 2 ^ 63, 0, 0], b_terminal := Some final, b_dir_count := dirs, b_file_count := files,
     b_allocated_bytes := alloc, b_current_dir_id := current\<rparr>"

lemma half_builder:
  "\<exists>counts final dirs files alloc current. ingest_all half_stream (builder_new ''C:'') =
     (None, half_self NO_OBJECT [(sample_oid, [4, 5])] counts final dirs files alloc current)"
  unfolding half_stream_def half_directory_def half_file_def half_entry_def half_self_def
  by (simp add: ingest_eval NO_OBJECT_def)

lemma half_entry_simps [simp]:
  "c_id (half_entry eid parent) = eid" "c_kind (half_entry eid parent) = (if eid < 4 then Directory else File)"
  "c_object_index (half_entry eid parent) = NO_OBJECT"
  "\<not> eid < 4 \<Longrightarrow> c_allocated_size (half_entry eid parent) = Some (2 ^ 63)"
  by (simp_all add: half_entry_def half_directory_def half_file_def directory_entry_def file_entry_def)

lemma half_objects:
  "\<exists>obj w. resolve_objects (\<lambda>m. m) (\<lambda>m. m) (half_self NO_OBJECT [(sample_oid, [4, 5])] counts final dirs files alloc current)
     = Some \<lparr>ag_self = half_self 0 [] counts final dirs files alloc current, ag_objects = [obj], ag_indeterminate = w\<rparr> \<and> o_weight obj = 2 ^ 63"
  by (simp add: half_self_def resolve_objects_def normalize_object_def builder_new_def
      alloc_step_def update_entry_def entry_at_def entry_index_def Let_def get_at_def normalize_identityless_def upt_rec NO_OBJECT_def
      split: prod.split)

lemma half_traversed:
  "o_weight obj = 2 ^ 63 \<Longrightarrow> \<exists>st. traverse_all (half_self 0 [] counts final dirs files alloc current) [obj] = Some st
    \<and> t_post_order st = [3, 1, 4, 2, 0] \<and> t_delta st = [- (2 ^ 63), 0, 0, 0, 0]"
  by (simp add: half_self_def builder_new_def traverse_all_def dfs_init_def start_at_def traverse.simps traverse_step_def record_occurrence_def
     join_parent_def find_uf_def uf_root.simps uf_compress.simps uf_link_def uf_init_def Let_def get_at_def set_at_def upt_rec NO_OBJECT_def i128_def)

lemma half_self_simps: "b_entries (half_self obj m counts final dirs files alloc current) \<noteq> []"
  "b_terminal (half_self obj m counts final dirs files alloc current) = Some final"
  by (simp_all add: half_self_def)

lemma half_panics: "finish (\<lambda>m. m) (\<lambda>m. m) lower (half_self NO_OBJECT [(sample_oid, [4, 5])] counts final dirs files alloc current) = None"
proof -
  obtain obj w where obj: "resolve_objects (\<lambda>m. m) (\<lambda>m. m) (half_self NO_OBJECT [(sample_oid, [4, 5])] counts final dirs files alloc current)
     = Some \<lparr>ag_self = half_self 0 [] counts final dirs files alloc current, ag_objects = [obj], ag_indeterminate = w\<rparr>"
    "o_weight obj = 2 ^ 63" using half_objects by blast
  obtain st where st: "traverse_all (half_self 0 [] counts final dirs files alloc current) [obj] = Some st"
    "t_post_order st = [3, 1, 4, 2, 0]" "t_delta st = [- (2 ^ 63), 0, 0, 0, 0]" using half_traversed [OF obj(2)] by blast
  have "Option.bind (fold_opt (set_leaf_unique [obj]) (half_self 0 [] counts final dirs files alloc current) [3, 1, 4, 2, 0])
     (\<lambda>self. fold_opt (aggregate_directory [- (2 ^ 63), 0, 0, 0, 0]) self [3, 1, 4, 2, 0]) = None"
    by (simp add: half_self_def builder_new_def set_leaf_unique_def aggregate_directory_def sum_children.simps add_child_def obj(2)
       Let_def get_at_def NO_OBJECT_def i128_def)
  then have "compute_aggregates (\<lambda>m. m) (\<lambda>m. m) lower (half_self NO_OBJECT [(sample_oid, [4, 5])] counts final dirs files alloc current) = None"
    by (cases "fold_opt (set_leaf_unique [obj]) (half_self 0 [] counts final dirs files alloc current) [3, 1, 4, 2, 0]")
      (simp_all add: compute_aggregates_def obj(1) st Let_def half_self_simps del: fold_opt.simps)
  then show ?thesis by (simp add: finish_def half_self_simps)
qed

lemma vast_objects_panic:
  "\<exists>self. ingest_all half_stream (builder_new ''C:'') = (None, self) \<and> finish (\<lambda>m. m) (\<lambda>m. m) lower self = None"
  using half_builder half_panics by metis

end
