(* ===== verification/Spec2Isabelle.thy ===== *)
theory Spec2Isabelle
  imports Scan_Run Remote_Call Session_Launch Handles Divergences
begin

text \<open>
  PigTree is a disk usage scanner for Windows. A command line client (\<^verbatim>\<open>crates/pigtree-cli\<close>) starts
  an engine process (\<^verbatim>\<open>crates/pigtree-engine\<close>), authenticates itself over a named pipe and sends it
  commands in checksummed frames (\<^verbatim>\<open>crates/pigtree-ipc\<close>, \<^verbatim>\<open>crates/pigtree-protocol\<close>). For a scan the
  engine starts a worker process (\<^verbatim>\<open>crates/pigtree-scan-worker\<close>), which walks the directories and
  writes a stream of observations into an anonymous pipe; the engine builds a graph from the stream,
  aggregates sizes and hard links in it, and answers queries. The development models the Rust code
  of these five crates and proves what makes each part correct, and what makes them fit together.

  The parts and their theories, in the order of the dependencies:

  \<^bold>\<open>Foundations.\<close> \<open>Prelude\<close>: Rust's integers as words, \<open>Result\<close> as a sum with \<open>?\<close> as
  \<open>and_then\<close>, bytes, out-of-range access as \<open>None\<close>. \<open>Rust_Std\<close>: byte readers, UTF-8, ordering and
  sorting. \<open>Wide_Strings\<close>: UTF-16, white space and case as \<open>str\<close> has them.

  \<^bold>\<open>Wire format\<close> (\<^verbatim>\<open>crc32c.rs\<close>, \<^verbatim>\<open>frame.rs\<close>, \<^verbatim>\<open>observation.rs\<close>). \<open>Crc32c\<close>: the table-driven checksum is
  the bit-serial one and detects every burst of four bytes. \<open>Frame\<close>: encoder, buffer decoder and
  stream reader are inverse, canonical and agree; corruption is rejected. \<open>Observation\<close>,
  \<open>Observation_Codec\<close>: the records, the writer with its partial writes and the reader; the contract
  \<open>prefix_codec\<close> of a writer and a reader of one kind of value is interpreted for strings,
  identities, link counts and whole records.

  \<^bold>\<open>Graph\<close> (\<^verbatim>\<open>builder.rs\<close>, \<^verbatim>\<open>graph.rs\<close>, \<^verbatim>\<open>error.rs\<close> of the engine). \<open>Graph_Types\<close>, \<open>Builder\<close>: entries,
  storage (the contract \<open>id_index\<close>, interpreted for the builder and for the stored graph) and
  ingestion. \<open>Builder_Invariant\<close>: well-formedness kept by every operation. \<open>Builder_Spec\<close>: ingestion
  refines a specification on the records alone. \<open>Aggregates\<close>: \<open>compute_aggregates\<close>, \<open>finish\<close> and the
  reading loop. Its algorithm is Tarjan's offline computation of lowest common ancestors over a
  disjoint-set forest; \<open>Union_Find\<close> (with its contract \<open>union_find\<close>), \<open>Graph_Tree\<close>, \<open>Lca\<close>,
  \<open>Tarjan\<close>, \<open>Sizes\<close>, \<open>Size_Phases\<close>, \<open>Accounting\<close>, \<open>Objects\<close>, \<open>Child_Order\<close> and \<open>Totals\<close> prove
  phase by phase that it counts each file identity once in every subtree. \<open>Graph_Queries\<close>,
  \<open>Graph_Build\<close>, \<open>Graph_Properties\<close>: the queries of the finished graph, its totals, pages and objects,
  and the path from the bytes of a stream to the graph.

  \<^bold>\<open>Inter-process communication\<close> (\<^verbatim>\<open>pipe.rs\<close>, \<^verbatim>\<open>transport.rs\<close>, \<^verbatim>\<open>security.rs\<close>, \<^verbatim>\<open>server.rs\<close>, \<^verbatim>\<open>client.rs\<close>,
  \<^verbatim>\<open>validator.rs\<close>, \<^verbatim>\<open>process.rs\<close>, \<^verbatim>\<open>job.rs\<close>, \<^verbatim>\<open>bootstrap.rs\<close>, \<^verbatim>\<open>error.rs\<close>). \<open>Pipe\<close>: overlapped requests
  with traces of their system calls, readiness of frames. \<open>Transport\<close>, \<open>Commands\<close>: messages in
  frames. \<open>Security\<close>, \<open>Handshake\<close>: access rights of the pipe and mutual authentication. \<open>Client\<close>,
  \<open>Scan_Client\<close>: remote calls and the scan with progress and cancellation. \<open>Validator\<close>: scan targets.
  \<open>Process\<close>: quoting against the splitting of the standard library. \<open>Handles\<close>: owners of handles,
  cancellation events, and the hashing provider as a step relation. \<open>Launch\<close>: jobs, child
  processes and \<^verbatim>\<open>runner.rs\<close>. \<open>Session_Launch\<close>: the launch of a session as a whole. \<open>Error_Text\<close>: the
  errors and their texts.

  \<^bold>\<open>Worker\<close> (\<^verbatim>\<open>crates/pigtree-scan-worker/src\<close>). \<open>Worker\<close>, \<open>Worker_Buffers\<close>: arguments, evidence about the
  volume, decoding of directory buffers. \<open>Worker_Scan\<close>: enumeration, traversal and \<open>main\<close>.
  \<open>Worker_Spec\<close>: the records satisfy the specification of ingestion. \<open>Worker_Ends\<close>: the traversal ends.

  \<^bold>\<open>Processes.\<close> \<open>Engine\<close>, \<open>Engine_Spec\<close> (\<^verbatim>\<open>main.rs\<close> of the engine): the command loop, its delays,
  scans and pages; the answer to each command with the ways it can stay away, and the answers to a
  script of commands whose frames arrive in pieces. \<open>Json\<close>, \<open>Json_Spec\<close> (\<^verbatim>\<open>json.rs\<close>): every
  formatter prints the text of a JSON value that a reader takes back. \<open>Cli\<close>, \<open>Cli_Spec\<close>: the client,
  its output and exit codes. \<open>Scan_Run\<close>: a scan from the engine's command line through the worker
  back to the graph. \<open>Remote_Call\<close>: a call of the client through the engine's loop and back.
  \<open>Divergences\<close>: facts that differ from the documents.

  How the model stands to the code:

  \<^item> A struct is a record, an enum a datatype, an integer a word of its width. Sums that wrap, saturate
    or panic do so as the source writes them; a panic is \<open>None\<close> of an option around the result.

  \<^item> A method with \<open>&mut self\<close> returns the new value, also when it fails.

  \<^item> The operating system answers through records of answers; calls whose order or balance matters
    leave a trace. A process waiting on a pipe is given by what its turns find (\<open>tick\<close>, \<open>poll\<close>).

  \<^item> Hash maps are association lists, and every use of their iteration order goes through a
    permutation that is universally quantified (\<open>any_order\<close>).

  Loops over a list or a buffer, and the loops of the engine and the client over their turns, are
  total functions with measures. A loop whose end depends on the shape of the data (the disjoint-set
  walks, the traversal and the sums over children in the aggregation, the names up to the root, the
  reading loop) is a partial function into an option; \<open>finish_always_returns\<close> and the lemmas below it
  prove that the builders ingestion can produce make it return. Fuel appears twice: following parents
  in \<open>path_components\<close> (the source's own bound of 10,000) and the worker's walk, for which
  \<open>scan_traversal_ends\<close> gives enough fuel and one result for all larger amounts.

  Hypotheses of the properties about code outside of the repository: the message library encodes
  into the limit of a frame and decodes what it encoded; SHA-256 and lower-casing are arbitrary
  functions; the system lists no file names beyond a limit on paths (termination of the walk),
  and, for the run of a whole scan, the file sizes it answers have one total whether the sum wraps
  (worker) or saturates (builder). The properties of the finished graph assume that the distinct files claim
  less than \<open>2 ^ 64\<close> bytes: beyond it \<open>finish\<close> panics, which \<open>vast_objects_panic\<close> in \<open>Divergences\<close>
  shows on a stream that ingestion accepts.

  Not modelled: the declarations of foreign functions (\<^verbatim>\<open>win32.rs\<close>) and the raw pointers around them;
  encoding and decoding of messages by the generated protocol code; the messages on standard error
  of engine and worker; build scripts; timing, except where a loop compares clocks; the memory model
  of threads, whose effects appear as progress received and results joined; and the desktop client,
  which is not Rust.
\<close>

end
